(* ===== verification/Fomos_Prelude.thy ===== *)
theory Fomos_Prelude
  imports Main "HOL-Library.Word"
begin

text \<open>
  The vocabulary shared by every component of the Fomos model: the machine integers of the Rust
  sources as words, a panic as a value, array accesses that panic out of range, the 4 KiB page
  arithmetic, little-endian access to byte memory, and the generic facts on lists, results and
  words that the component theories use.

  The kernel and the apps are built with \<^verbatim>\<open>cargo --release\<close> (\<^verbatim>\<open>build.sh\<close>), so the arithmetic of the
  sources wraps around; this is the arithmetic of \<^typ>\<open>'a word\<close>. An index out of range, an
  \<^verbatim>\<open>unwrap\<close> of \<^verbatim>\<open>None\<close> and an explicit \<^verbatim>\<open>panic!\<close> abort in every build profile; they are the
  left injection of a result.
\<close>

section \<open>Machine integers and panics\<close>

unbundle bit_operations_syntax

type_synonym u8 = "8 word"
type_synonym u16 = "16 word"
type_synonym u32 = "32 word"
type_synonym u64 = "64 word"
type_synonym usize = "64 word"

datatype panic =
    IndexOutOfBounds
  | UnwrapNone
  | SliceOutOfRange
  | QueueFull
  | DivisionByZero
  | Panicked string

type_synonym 'a res = "panic + 'a"

named_theorems res_simps \<open>unfolding of the result combinators\<close>

definition res_bind :: "'a res \<Rightarrow> ('a \<Rightarrow> 'b res) \<Rightarrow> 'b res" where
  "res_bind r k = (case r of Inl e \<Rightarrow> Inl e | Inr a \<Rightarrow> k a)"

definition res_map :: "('a \<Rightarrow> 'b) \<Rightarrow> 'a res \<Rightarrow> 'b res" where
  "res_map f r = res_bind r (\<lambda>a. Inr (f a))"

definition array_get :: "'a list \<Rightarrow> nat \<Rightarrow> 'a res" where
  "array_get xs i = (if i < length xs then Inr (xs ! i) else Inl IndexOutOfBounds)"

definition array_set :: "'a list \<Rightarrow> nat \<Rightarrow> 'a \<Rightarrow> 'a list res" where
  "array_set xs i v = (if i < length xs then Inr (xs[i := v]) else Inl IndexOutOfBounds)"

fun res_fold :: "('a \<Rightarrow> 's \<Rightarrow> 's res) \<Rightarrow> 'a list \<Rightarrow> 's \<Rightarrow> 's res" where
  "res_fold f [] s = Inr s"
| "res_fold f (x # xs) s = res_bind (f x s) (res_fold f xs)"

text \<open>\<^verbatim>\<open>Vec::pop\<close>: the top of the stack is the last element.\<close>

definition vec_pop :: "'a list \<Rightarrow> 'a option \<times> 'a list" where
  "vec_pop xs = (if xs = [] then (None, []) else (Some (last xs), butlast xs))"

fun res_traverse :: "('a \<Rightarrow> 'b res) \<Rightarrow> 'a list \<Rightarrow> 'b list res" where
  "res_traverse f [] = Inr []"
| "res_traverse f (x # xs) = res_bind (f x) (\<lambda>y. res_map ((#) y) (res_traverse f xs))"

section \<open>Results\<close>

lemma res_bind_Inl [simp, res_simps]: "res_bind (Inl e) k = Inl e"
  and res_bind_Inr [simp, res_simps]: "res_bind (Inr a) k = k a"
  by (simp_all add: res_bind_def)

lemma res_map_Inl [simp, res_simps]: "res_map f (Inl e) = Inl e"
  and res_map_Inr [simp, res_simps]: "res_map f (Inr a) = Inr (f a)"
  by (simp_all add: res_map_def)

lemma res_bind_eq_Inr_iff: "res_bind r k = Inr b \<longleftrightarrow> (\<exists>a. r = Inr a \<and> k a = Inr b)"
  by (cases r) auto

lemma res_bind_assoc: "res_bind (res_bind r k) l = res_bind r (\<lambda>a. res_bind (k a) l)"
  by (cases r) auto

lemma array_get_eq_Inr_iff: "array_get xs i = Inr v \<longleftrightarrow> i < length xs \<and> v = xs ! i"
  by (auto simp: array_get_def)

lemma array_set_eq_Inr_iff: "array_set xs i v = Inr ys \<longleftrightarrow> i < length xs \<and> ys = xs[i := v]"
  by (auto simp: array_set_def)

lemmas res_iffs = res_bind_eq_Inr_iff array_get_eq_Inr_iff array_set_eq_Inr_iff

lemma res_fold_append:
  "res_fold f (xs @ ys) s = res_bind (res_fold f xs s) (res_fold f ys)"
proof (induction xs arbitrary: s)
  case Nil
  then show ?case by simp
next
  case (Cons x xs)
  then show ?case by (cases "f x s") auto
qed

lemma res_fold_invariant:
  assumes "res_fold f xs s = Inr t" and "P s"
    and "\<And>x s s'. x \<in> set xs \<Longrightarrow> P s \<Longrightarrow> f x s = Inr s' \<Longrightarrow> P s'"
  shows "P t"
  using assms
proof (induction xs arbitrary: s)
  case Nil
  then show ?case by simp
next
  case (Cons x xs)
  from Cons.prems(1) obtain u where u: "f x s = Inr u" "res_fold f xs u = Inr t"
    by (auto simp: res_bind_eq_Inr_iff)
  have "P u"
    using Cons.prems(2,3) u(1) by auto
  then show ?case
    using Cons.IH u(2) Cons.prems(3) by (meson list.set_intros(2))
qed

lemma res_fold_total:
  assumes "P s" and "\<And>x s. x \<in> set xs \<Longrightarrow> P s \<Longrightarrow> \<exists>s'. f x s = Inr s' \<and> P s'"
  shows "\<exists>t. res_fold f xs s = Inr t \<and> P t"
  using assms
proof (induction xs arbitrary: s)
  case Nil
  then show ?case by simp
next
  case (Cons x xs)
  then obtain u where u: "f x s = Inr u" "P u"
    by (meson list.set_intros(1))
  with Cons.IH [of u] Cons.prems(2) show ?case
    by (simp add: u)
qed

lemma res_traverse_Inr: "(\<And>x. x \<in> set xs \<Longrightarrow> f x = Inr (g x)) \<Longrightarrow> res_traverse f xs = Inr (map g xs)"
  by (induction xs) auto

section \<open>Lists\<close>

lemma fold_append_map: "fold (\<lambda>i acc. acc @ [f i]) xs acc = acc @ map f xs"
  by (induction xs arbitrary: acc) auto

lemma last_take_Suc: "i < length xs \<Longrightarrow> last (take (Suc i) xs) = xs ! i"
  by (simp add: take_Suc_conv_app_nth)

lemma distinct_concat_map_disjoint:
  assumes "distinct xs" and "\<And>x. x \<in> set xs \<Longrightarrow> distinct (f x)"
    and "\<And>x y. x \<in> set xs \<Longrightarrow> y \<in> set xs \<Longrightarrow> x \<noteq> y \<Longrightarrow> set (f x) \<inter> set (f y) = {}"
  shows "distinct (concat (map f xs))"
  using assms
proof (induction xs)
  case Nil
  then show ?case by simp
next
  case (Cons x xs)
  then have "set (f x) \<inter> set (concat (map f xs)) = {}"
    by fastforce
  then show ?case using Cons by simp
qed

lemma nth_concat_uniform:
  assumes "\<And>r. r \<in> set rs \<Longrightarrow> length r = w" and "i < length rs" and "j < w"
  shows "concat rs ! (i * w + j) = rs ! i ! j"
  using assms
proof (induction rs arbitrary: i)
  case Nil
  then show ?case by simp
next
  case (Cons r rs)
  show ?case
  proof (cases i)
    case 0
    with Cons.prems show ?thesis by (simp add: nth_append)
  next
    case (Suc k)
    with Cons.prems have "concat rs ! (k * w + j) = rs ! k ! j"
      by (intro Cons.IH) auto
    moreover have "length r = w" using Cons.prems(1) by simp
    ultimately show ?thesis
      using Suc by (simp add: nth_append add.assoc)
  qed
qed

lemma length_concat_uniform:
  "(\<And>r. r \<in> set rs \<Longrightarrow> length r = w) \<Longrightarrow> length (concat rs) = length rs * w"
  by (induction rs) auto

lemma mod_neq_of_close:
  fixes i n m :: nat
  assumes "i < n" and "n < i + m"
  shows "i mod m \<noteq> n mod m"
proof
  assume "i mod m = n mod m"
  then have "m dvd n - i"
    using assms(1) by (metis less_imp_le_nat mod_eq_dvd_iff_nat)
  with assms show False
    by (auto dest: dvd_imp_le)
qed

section \<open>Words\<close>

lemma unat_word_plus_one:
  fixes w :: "'a::len word"
  shows "unat w < 2 ^ LENGTH('a) - 1 \<Longrightarrow> unat (w + 1) = Suc (unat w)"
  by (simp add: unat_word_ariths(1))

lemma unat_of_nat_small:
  "n < 2 ^ LENGTH('a) \<Longrightarrow> unat (of_nat n :: 'a::len word) = n"
  by (simp add: unat_of_nat take_bit_nat_eq_self)

lemma unat_ucast_up:
  fixes w :: "'a::len word"
  assumes "LENGTH('a) \<le> LENGTH('b::len)"
  shows "unat (ucast w :: 'b word) = unat w"
proof -
  have "unat w < 2 ^ LENGTH('b)"
    using unsigned_less [of w] assms by (meson less_le_trans one_le_numeral power_increasing)
  then show ?thesis
    by (simp add: unsigned_ucast_eq take_bit_nat_eq_self)
qed

text \<open>The hexadecimal masks of the sources, in the form the bit lemmas of the library work on.\<close>

named_theorems bit_numerals \<open>numerals as masks and single bits\<close>

lemma mask_numerals [bit_numerals]:
  "(3 :: 'a::len word) = mask 2" "(7 :: 'a word) = mask 3" "(15 :: 'a word) = mask 4"
  "(0xff :: 'a word) = mask 8" "(0xffff :: 'a word) = mask 16"
  by (simp_all add: mask_eq_exp_minus_1)

lemma bit_power_numeral:
  "k = 2 ^ m \<Longrightarrow> bit (k :: 'a::len word) n \<longleftrightarrow> n = m \<and> n < LENGTH('a)"
  by (auto simp: bit_exp_iff)

lemma single_bit_numerals [bit_numerals]:
  "bit (2 :: 'a::len word) n \<longleftrightarrow> n = 1 \<and> n < LENGTH('a)"
  "bit (4 :: 'a word) n \<longleftrightarrow> n = 2 \<and> n < LENGTH('a)"
  "bit (0x80 :: 'a word) n \<longleftrightarrow> n = 7 \<and> n < LENGTH('a)"
  "bit (0x80000000 :: 'a word) n \<longleftrightarrow> n = 31 \<and> n < LENGTH('a)"
  by (rule bit_power_numeral, simp)+

lemma bit_0xfc [bit_numerals]:
  "bit (0xfc :: 'a::len word) n \<longleftrightarrow> 2 \<le> n \<and> n < 8 \<and> n < LENGTH('a)"
proof -
  have "(0xfc :: 'a word) = push_bit 2 (mask 6)"
    by (simp add: push_bit_eq_mult mask_eq_exp_minus_1)
  then show ?thesis
    by (simp only: bit_push_bit_iff bit_mask_iff possible_bit_word) auto
qed

lemma not_bit_of_less:
  fixes w :: "'a::len word"
  assumes "unat w < 2 ^ k" and "k \<le> n"
  shows "\<not> bit w n"
proof
  assume "bit w n"
  then have "bit (unat w) n" by (simp add: bit_unsigned_iff)
  moreover have "take_bit k (unat w) = unat w"
    using assms(1) by (simp add: take_bit_nat_eq_self)
  ultimately show False
    using assms(2) by (metis bit_take_bit_iff not_le)
qed

lemma bit_one_word_iff: "bit (1 :: 'a::len word) n \<longleftrightarrow> n = 0"
  by (simp add: bit_1_iff)

lemma unat_mod_word: "unat (a mod b) = unat a mod unat (b :: 'a::len word)"
  by (rule unat_mod)

end
