(* ===== verification/Console_Keys.thy ===== *)
theory Console_Keys
  imports Fomos_Prelude
begin

text \<open>
  The keyboard of the console app, \<^verbatim>\<open>src/app_console/src/st.rs\<close>: the table \<^verbatim>\<open>xmap\<close> of key symbols (six
  columns for each key code: plain and shifted French, plain and shifted English, alternate graphic),
  the enumeration \<^verbatim>\<open>Key\<close> with its discriminants, and the translation of a key to a character.

  The table is transcribed in pieces of 25 key codes (150 entries); the enumeration is the list of its
  variants with their discriminants, since a \<^verbatim>\<open>Key\<close> reaches the app as a number written by the kernel.

  The lemmas show that the translation never indexes outside of the table, which characters can be
  typed, and which codes the kernel may deliver that are not a \<^verbatim>\<open>Key\<close>.
\<close>

section \<open>Definitions\<close>

datatype Local = En | Fr

definition xmap_0 :: "string list" where
  "xmap_0 = [
     '''', '''', '''', '''', '''', '''',
     ''Escape'', ''NoSymbol'', ''Escape'', '''', '''', '''',
     ''ampersand'', ''1'', ''1'', ''exclam'', ''onesuperior'', ''exclamdown'',
     ''eacute'', ''2'', ''2'', ''at'', ''asciitilde'', ''oneeighth'',
     ''quotedbl'', ''3'', ''3'', ''numbersign'', ''numbersign'', ''sterling'',
     ''apostrophe'', ''4'', ''4'', ''dollar'', ''braceleft'', ''dollar'',
     ''parenleft'', ''5'', ''5'', ''percent'', ''bracketleft'', ''threeeighths'',
     ''minus'', ''6'', ''6'', ''asciicircum'', ''bar'', ''fiveeighths'',
     ''egrave'', ''7'', ''7'', ''ampersand'', ''grave'', ''seveneighths'',
     ''underscore'', ''8'', ''8'', ''asterisk'', ''backslash'', ''trademark'',
     ''ccedilla'', ''9'', ''9'', ''parenleft'', ''asciicircum'', ''plusminus'',
     ''agrave'', ''0'', ''0'', ''parenright'', ''at'', ''degree'',
     ''parenright'', ''degree'', ''minus'', ''underscore'', ''bracketright'', ''questiondown'',
     ''equal'', ''plus'', ''equal'', ''plus'', ''braceright'', ''dead_ogonek'',
     ''BackSpace'', ''BackSpace'', ''BackSpace'', ''BackSpace'', '''', '''',
     ''Tab'', ''ISO_Left_Tab'', ''Tab'', ''ISO_Left_Tab'', '''', '''',
     ''a'', ''A'', ''q'', ''Q'', ''ae'', ''AE'',
     ''z'', ''Z'', ''w'', ''W'', ''guillemotleft'', ''less'',
     ''e'', ''E'', ''e'', ''E'', ''EuroSign'', ''cent'',
     ''r'', ''R'', ''r'', ''R'', ''paragraph'', ''registered'',
     ''t'', ''T'', ''t'', ''T'', ''tslash'', ''Tslash'',
     ''y'', ''Y'', ''y'', ''Y'', ''leftarrow'', ''yen'',
     ''u'', ''U'', ''u'', ''U'', ''downarrow'', ''uparrow'',
     ''i'', ''I'', ''i'', ''I'', ''rightarrow'', ''idotless'',
     ''o'', ''O'', ''o'', ''O'', ''oslash'', ''Oslash'']"

definition xmap_1 :: "string list" where
  "xmap_1 = [
     ''p'', ''P'', ''p'', ''P'', ''thorn'', ''THORN'',
     ''dead_circumflex'', ''dead_diaeresis'', ''bracketleft'', ''braceleft'', ''dead_diaeresis'', ''dead_abovering'',
     ''dollar'', ''sterling'', ''bracketright'', ''braceright'', ''currency'', ''dead_macron'',
     ''Return'', ''NoSymbol'', ''Return'', '''', '''', '''',
     ''Control_L'', ''NoSymbol'', ''Control_L'', '''', '''', '''',
     ''q'', ''Q'', ''a'', ''A'', ''at'', ''Greek_OMEGA'',
     ''s'', ''S'', ''s'', ''S'', ''ssharp'', ''section'',
     ''d'', ''D'', ''d'', ''D'', ''eth'', ''ETH'',
     ''f'', ''F'', ''f'', ''F'', ''dstroke'', ''ordfeminine'',
     ''g'', ''G'', ''g'', ''G'', ''eng'', ''ENG'',
     ''h'', ''H'', ''h'', ''H'', ''hstroke'', ''Hstroke'',
     ''j'', ''J'', ''j'', ''J'', ''dead_hook'', ''dead_horn'',
     ''k'', ''K'', ''k'', ''K'', ''kra'', ''ampersand'',
     ''l'', ''L'', ''l'', ''L'', ''lstroke'', ''Lstroke'',
     ''m'', ''M'', ''semicolon'', ''colon'', ''mu'', ''masculine'',
     ''ugrave'', ''percent'', ''apostrophe'', ''quotedbl'', ''dead_circumflex'', ''dead_caron'',
     ''twosuperior'', ''asciitilde'', ''grave'', ''asciitilde'', ''notsign'', ''notsign'',
     ''Shift_L'', ''NoSymbol'', ''Shift_L'', '''', '''', '''',
     ''asterisk'', ''mu'', ''backslash'', ''bar'', ''dead_grave'', ''dead_breve'',
     ''w'', ''W'', ''z'', ''Z'', ''lstroke'', ''Lstroke'',
     ''x'', ''X'', ''x'', ''X'', ''guillemotright'', ''greater'',
     ''c'', ''C'', ''c'', ''C'', ''cent'', ''copyright'',
     ''v'', ''V'', ''v'', ''V'', ''leftdoublequotemark'', ''leftsinglequotemark'',
     ''b'', ''B'', ''b'', ''B'', ''rightdoublequotemark'', ''rightsinglequotemark'',
     ''n'', ''N'', ''n'', ''N'', ''n'', ''N'']"

definition xmap_2 :: "string list" where
  "xmap_2 = [
     ''comma'', ''question'', ''m'', ''M'', ''dead_acute'', ''dead_doubleacute'',
     ''semicolon'', ''period'', ''comma'', ''less'', ''horizconnector'', ''multiply'',
     ''colon'', ''slash'', ''period'', ''greater'', ''periodcentered'', ''division'',
     ''exclam'', ''section'', ''slash'', ''question'', ''dead_belowdot'', ''dead_abovedot'',
     ''Shift_R'', ''NoSymbol'', ''Shift_R'', '''', '''', '''',
     ''KP_Multiply'', ''KP_Multiply'', ''KP_Multiply'', ''KP_Multiply'', ''KP_Multiply'', ''KP_Multiply'',
     ''Alt_L'', ''Meta_L'', ''Alt_L'', ''Meta_L'', '''', '''',
     ''space'', ''NoSymbol'', ''space'', '''', '''', '''',
     ''Caps_Lock'', ''NoSymbol'', ''Caps_Lock'', '''', '''', '''',
     ''F1'', ''F1'', ''F1'', ''F1'', ''F1'', ''F1'',
     ''F2'', ''F2'', ''F2'', ''F2'', ''F2'', ''F2'',
     ''F3'', ''F3'', ''F3'', ''F3'', ''F3'', ''F3'',
     ''F4'', ''F4'', ''F4'', ''F4'', ''F4'', ''F4'',
     ''F5'', ''F5'', ''F5'', ''F5'', ''F5'', ''F5'',
     ''F6'', ''F6'', ''F6'', ''F6'', ''F6'', ''F6'',
     ''F7'', ''F7'', ''F7'', ''F7'', ''F7'', ''F7'',
     ''F8'', ''F8'', ''F8'', ''F8'', ''F8'', ''F8'',
     ''F9'', ''F9'', ''F9'', ''F9'', ''F9'', ''F9'',
     ''F10'', ''F10'', ''F10'', ''F10'', ''F10'', ''F10'',
     ''Num_Lock'', ''NoSymbol'', ''Num_Lock'', '''', '''', '''',
     ''Scroll_Lock'', ''NoSymbol'', ''Scroll_Lock'', '''', '''', '''',
     ''KP_Home'', ''KP_7'', ''KP_Home'', ''KP_7'', '''', '''',
     ''KP_Up'', ''KP_8'', ''KP_Up'', ''KP_8'', '''', '''',
     ''KP_Prior'', ''KP_9'', ''KP_Prior'', ''KP_9'', '''', '''',
     ''KP_Subtract'', ''KP_Subtract'', ''KP_Subtract'', ''KP_Subtract'', ''KP_Subtract'', ''KP_Subtract'']"

definition xmap_3 :: "string list" where
  "xmap_3 = [
     ''KP_Left'', ''KP_4'', ''KP_Left'', ''KP_4'', '''', '''',
     ''KP_Begin'', ''KP_5'', ''KP_Begin'', ''KP_5'', '''', '''',
     ''KP_Right'', ''KP_6'', ''KP_Right'', ''KP_6'', '''', '''',
     ''KP_Add'', ''KP_Add'', ''KP_Add'', ''KP_Add'', ''KP_Add'', ''KP_Add'',
     ''KP_End'', ''KP_1'', ''KP_End'', ''KP_1'', '''', '''',
     ''KP_Down'', ''KP_2'', ''KP_Down'', ''KP_2'', '''', '''',
     ''KP_Next'', ''KP_3'', ''KP_Next'', ''KP_3'', '''', '''',
     ''KP_Insert'', ''KP_0'', ''KP_Insert'', ''KP_0'', '''', '''',
     ''KP_Delete'', ''KP_Decimal'', ''KP_Delete'', ''KP_Decimal'', '''', '''',
     ''ISO_Level3_Shift'', ''NoSymbol'', ''ISO_Level3_Shift'', '''', '''', '''',
     '''', '''', '''', '''', '''', '''',
     ''less'', ''greater'', ''less'', ''greater'', ''bar'', ''brokenbar'',
     ''F11'', ''F11'', ''F11'', ''F11'', ''F11'', ''F11'',
     ''F12'', ''F12'', ''F12'', ''F12'', ''F12'', ''F12'',
     '''', '''', '''', '''', '''', '''',
     ''Katakana'', ''NoSymbol'', ''Katakana'', '''', '''', '''',
     ''Hiragana'', ''NoSymbol'', ''Hiragana'', '''', '''', '''',
     ''Henkan_Mode'', ''NoSymbol'', ''Henkan_Mode'', '''', '''', '''',
     ''Hiragana_Katakana'', ''NoSymbol'', ''Hiragana_Katakana'', '''', '''', '''',
     ''Muhenkan'', ''NoSymbol'', ''Muhenkan'', '''', '''', '''',
     '''', '''', '''', '''', '''', '''',
     ''KP_Enter'', ''NoSymbol'', ''KP_Enter'', '''', '''', '''',
     ''Control_R'', ''NoSymbol'', ''Control_R'', '''', '''', '''',
     ''KP_Divide'', ''KP_Divide'', ''KP_Divide'', ''KP_Divide'', ''KP_Divide'', ''KP_Divide'',
     ''Print'', ''Sys_Req'', ''Print'', ''Sys_Req'', '''', '''']"

definition xmap_4 :: "string list" where
  "xmap_4 = [
     ''ISO_Level3_Shift'', ''NoSymbol'', ''ISO_Level3_Shift'', '''', '''', '''',
     ''Linefeed'', ''NoSymbol'', ''Linefeed'', '''', '''', '''',
     ''Home'', ''NoSymbol'', ''Home'', '''', '''', '''',
     ''Up'', ''NoSymbol'', ''Up'', '''', '''', '''',
     ''Prior'', ''NoSymbol'', ''Prior'', '''', '''', '''',
     ''Left'', ''NoSymbol'', ''Left'', '''', '''', '''',
     ''Right'', ''NoSymbol'', ''Right'', '''', '''', '''',
     ''End'', ''NoSymbol'', ''End'', '''', '''', '''',
     ''Down'', ''NoSymbol'', ''Down'', '''', '''', '''',
     ''Next'', ''NoSymbol'', ''Next'', '''', '''', '''',
     ''Insert'', ''NoSymbol'', ''Insert'', '''', '''', '''',
     ''Delete'', ''NoSymbol'', ''Delete'', '''', '''', '''',
     '''', '''', '''', '''', '''', '''',
     ''XF86AudioMute'', ''NoSymbol'', ''XF86AudioMute'', '''', '''', '''',
     ''XF86AudioLowerVolume'', ''NoSymbol'', ''XF86AudioLowerVolume'', '''', '''', '''',
     ''XF86AudioRaiseVolume'', ''NoSymbol'', ''XF86AudioRaiseVolume'', '''', '''', '''',
     ''XF86PowerOff'', ''NoSymbol'', ''XF86PowerOff'', '''', '''', '''',
     ''KP_Equal'', ''NoSymbol'', ''KP_Equal'', '''', '''', '''',
     ''plusminus'', ''NoSymbol'', ''plusminus'', '''', '''', '''',
     ''Pause'', ''Break'', ''Pause'', ''Break'', '''', '''',
     ''XF86LaunchA'', ''NoSymbol'', ''XF86LaunchA'', '''', '''', '''',
     ''KP_Decimal'', ''KP_Decimal'', ''KP_Decimal'', ''KP_Decimal'', '''', '''',
     ''Hangul'', ''NoSymbol'', ''Hangul'', '''', '''', '''',
     ''Hangul_Hanja'', ''NoSymbol'', ''Hangul_Hanja'', '''', '''', '''',
     '''', '''', '''', '''', '''', '''']"

definition xmap_5 :: "string list" where
  "xmap_5 = [
     ''Super_L'', ''NoSymbol'', ''Super_L'', '''', '''', '''',
     ''Super_R'', ''NoSymbol'', ''Super_R'', '''', '''', '''',
     ''Menu'', ''NoSymbol'', ''Menu'', '''', '''', '''',
     ''Cancel'', ''NoSymbol'', ''Cancel'', '''', '''', '''',
     ''Redo'', ''NoSymbol'', ''Redo'', '''', '''', '''',
     ''SunProps'', ''NoSymbol'', ''SunProps'', '''', '''', '''',
     ''Undo'', ''NoSymbol'', ''Undo'', '''', '''', '''',
     ''SunFront'', ''NoSymbol'', ''SunFront'', '''', '''', '''',
     ''XF86Copy'', ''NoSymbol'', ''XF86Copy'', '''', '''', '''',
     ''XF86Open'', ''NoSymbol'', ''XF86Open'', '''', '''', '''',
     ''XF86Paste'', ''NoSymbol'', ''XF86Paste'', '''', '''', '''',
     ''Find'', ''NoSymbol'', ''Find'', '''', '''', '''',
     ''XF86Cut'', ''NoSymbol'', ''XF86Cut'', '''', '''', '''',
     ''Help'', ''NoSymbol'', ''Help'', '''', '''', '''',
     ''XF86MenuKB'', ''NoSymbol'', ''XF86MenuKB'', '''', '''', '''',
     ''XF86Calculator'', ''NoSymbol'', ''XF86Calculator'', '''', '''', '''',
     '''', '''', '''', '''', '''', '''',
     ''XF86Sleep'', ''NoSymbol'', ''XF86Sleep'', '''', '''', '''',
     ''XF86WakeUp'', ''NoSymbol'', ''XF86WakeUp'', '''', '''', '''',
     ''XF86Explorer'', ''NoSymbol'', ''XF86Explorer'', '''', '''', '''',
     ''XF86Send'', ''NoSymbol'', ''XF86Send'', '''', '''', '''',
     '''', '''', '''', '''', '''', '''',
     ''XF86Xfer'', ''NoSymbol'', ''XF86Xfer'', '''', '''', '''',
     ''XF86Launch1'', ''NoSymbol'', ''XF86Launch1'', '''', '''', '''',
     ''XF86Launch2'', ''NoSymbol'', ''XF86Launch2'', '''', '''', '''']"

definition xmap_6 :: "string list" where
  "xmap_6 = [
     ''XF86WWW'', ''NoSymbol'', ''XF86WWW'', '''', '''', '''',
     ''XF86DOS'', ''NoSymbol'', ''XF86DOS'', '''', '''', '''',
     ''XF86ScreenSaver'', ''NoSymbol'', ''XF86ScreenSaver'', '''', '''', '''',
     ''XF86RotateWindows'', ''NoSymbol'', ''XF86RotateWindows'', '''', '''', '''',
     ''XF86TaskPane'', ''NoSymbol'', ''XF86TaskPane'', '''', '''', '''',
     ''XF86Mail'', ''NoSymbol'', ''XF86Mail'', '''', '''', '''',
     ''XF86Favorites'', ''NoSymbol'', ''XF86Favorites'', '''', '''', '''',
     ''XF86MyComputer'', ''NoSymbol'', ''XF86MyComputer'', '''', '''', '''',
     ''XF86Back'', ''NoSymbol'', ''XF86Back'', '''', '''', '''',
     ''XF86Forward'', ''NoSymbol'', ''XF86Forward'', '''', '''', '''',
     '''', '''', '''', '''', '''', '''',
     ''XF86Eject'', ''NoSymbol'', ''XF86Eject'', '''', '''', '''',
     ''XF86Eject'', ''XF86Eject'', ''XF86Eject'', ''XF86Eject'', '''', '''',
     ''XF86AudioNext'', ''NoSymbol'', ''XF86AudioNext'', '''', '''', '''',
     ''XF86AudioPlay'', ''XF86AudioPause'', ''XF86AudioPlay'', ''XF86AudioPause'', '''', '''',
     ''XF86AudioPrev'', ''NoSymbol'', ''XF86AudioPrev'', '''', '''', '''',
     ''XF86AudioStop'', ''XF86Eject'', ''XF86AudioStop'', ''XF86Eject'', '''', '''',
     ''XF86AudioRecord'', ''NoSymbol'', ''XF86AudioRecord'', '''', '''', '''',
     ''XF86AudioRewind'', ''NoSymbol'', ''XF86AudioRewind'', '''', '''', '''',
     ''XF86Phone'', ''NoSymbol'', ''XF86Phone'', '''', '''', '''',
     '''', '''', '''', '''', '''', '''',
     ''XF86Tools'', ''NoSymbol'', ''XF86Tools'', '''', '''', '''',
     ''XF86HomePage'', ''NoSymbol'', ''XF86HomePage'', '''', '''', '''',
     ''XF86Reload'', ''NoSymbol'', ''XF86Reload'', '''', '''', '''',
     ''XF86Close'', ''NoSymbol'', ''XF86Close'', '''', '''', '''']"

definition xmap_7 :: "string list" where
  "xmap_7 = [
     '''', '''', '''', '''', '''', '''',
     '''', '''', '''', '''', '''', '''',
     ''XF86ScrollUp'', ''NoSymbol'', ''XF86ScrollUp'', '''', '''', '''',
     ''XF86ScrollDown'', ''NoSymbol'', ''XF86ScrollDown'', '''', '''', '''',
     ''parenleft'', ''NoSymbol'', ''parenleft'', '''', '''', '''',
     ''parenright'', ''NoSymbol'', ''parenright'', '''', '''', '''',
     ''XF86New'', ''NoSymbol'', ''XF86New'', '''', '''', '''',
     ''Redo'', ''NoSymbol'', ''Redo'', '''', '''', '''',
     ''XF86Tools'', ''NoSymbol'', ''XF86Tools'', '''', '''', '''',
     ''XF86Launch5'', ''NoSymbol'', ''XF86Launch5'', '''', '''', '''',
     ''XF86Launch6'', ''NoSymbol'', ''XF86Launch6'', '''', '''', '''',
     ''XF86Launch7'', ''NoSymbol'', ''XF86Launch7'', '''', '''', '''',
     ''XF86Launch8'', ''NoSymbol'', ''XF86Launch8'', '''', '''', '''',
     ''XF86Launch9'', ''NoSymbol'', ''XF86Launch9'', '''', '''', '''',
     '''', '''', '''', '''', '''', '''',
     ''XF86AudioMicMute'', ''NoSymbol'', ''XF86AudioMicMute'', '''', '''', '''',
     ''XF86TouchpadToggle'', ''NoSymbol'', ''XF86TouchpadToggle'', '''', '''', '''',
     ''XF86TouchpadOn'', ''NoSymbol'', ''XF86TouchpadOn'', '''', '''', '''',
     ''XF86TouchpadOff'', ''NoSymbol'', ''XF86TouchpadOff'', '''', '''', '''',
     '''', '''', '''', '''', '''', '''',
     ''Mode_switch'', ''NoSymbol'', ''Mode_switch'', '''', '''', '''',
     ''NoSymbol'', ''Alt_L'', ''NoSymbol'', ''Alt_L'', '''', '''',
     ''NoSymbol'', ''Meta_L'', ''NoSymbol'', ''Meta_L'', '''', '''',
     ''NoSymbol'', ''Super_L'', ''NoSymbol'', ''Super_L'', '''', '''',
     ''NoSymbol'', ''Hyper_L'', ''NoSymbol'', ''Hyper_L'', '''', '''']"

definition xmap_8 :: "string list" where
  "xmap_8 = [
     ''XF86AudioPlay'', ''NoSymbol'', ''XF86AudioPlay'', '''', '''', '''',
     ''XF86AudioPause'', ''NoSymbol'', ''XF86AudioPause'', '''', '''', '''',
     ''XF86Launch3'', ''NoSymbol'', ''XF86Launch3'', '''', '''', '''',
     ''XF86Launch4'', ''NoSymbol'', ''XF86Launch4'', '''', '''', '''',
     ''XF86LaunchB'', ''NoSymbol'', ''XF86LaunchB'', '''', '''', '''',
     ''XF86Suspend'', ''NoSymbol'', ''XF86Suspend'', '''', '''', '''',
     ''XF86Close'', ''NoSymbol'', ''XF86Close'', '''', '''', '''',
     ''XF86AudioPlay'', ''NoSymbol'', ''XF86AudioPlay'', '''', '''', '''',
     ''XF86AudioForward'', ''NoSymbol'', ''XF86AudioForward'', '''', '''', '''',
     '''', '''', '''', '''', '''', '''',
     ''Print'', ''NoSymbol'', ''Print'', '''', '''', '''',
     '''', '''', '''', '''', '''', '''',
     ''XF86WebCam'', ''NoSymbol'', ''XF86WebCam'', '''', '''', '''',
     ''XF86AudioPreset'', ''NoSymbol'', ''XF86AudioPreset'', '''', '''', '''',
     '''', '''', '''', '''', '''', '''',
     ''XF86Mail'', ''NoSymbol'', ''XF86Mail'', '''', '''', '''',
     ''XF86Messenger'', ''NoSymbol'', ''XF86Messenger'', '''', '''', '''',
     ''XF86Search'', ''NoSymbol'', ''XF86Search'', '''', '''', '''',
     ''XF86Go'', ''NoSymbol'', ''XF86Go'', '''', '''', '''',
     ''XF86Finance'', ''NoSymbol'', ''XF86Finance'', '''', '''', '''',
     ''XF86Game'', ''NoSymbol'', ''XF86Game'', '''', '''', '''',
     ''XF86Shop'', ''NoSymbol'', ''XF86Shop'', '''', '''', '''',
     '''', '''', '''', '''', '''', '''',
     ''Cancel'', ''NoSymbol'', ''Cancel'', '''', '''', '''',
     ''XF86MonBrightnessDown'', ''NoSymbol'', ''XF86MonBrightnessDown'', '''', '''', '''']"

definition xmap_9 :: "string list" where
  "xmap_9 = [
     ''XF86MonBrightnessUp'', ''NoSymbol'', ''XF86MonBrightnessUp'', '''', '''', '''',
     ''XF86AudioMedia'', ''NoSymbol'', ''XF86AudioMedia'', '''', '''', '''',
     ''XF86Display'', ''NoSymbol'', ''XF86Display'', '''', '''', '''',
     ''XF86KbdLightOnOff'', ''NoSymbol'', ''XF86KbdLightOnOff'', '''', '''', '''',
     ''XF86KbdBrightnessDown'', ''NoSymbol'', ''XF86KbdBrightnessDown'', '''', '''', '''',
     ''XF86KbdBrightnessUp'', ''NoSymbol'', ''XF86KbdBrightnessUp'', '''', '''', '''',
     ''XF86Send'', ''NoSymbol'', ''XF86Send'', '''', '''', '''',
     ''XF86Reply'', ''NoSymbol'', ''XF86Reply'', '''', '''', '''',
     ''XF86MailForward'', ''NoSymbol'', ''XF86MailForward'', '''', '''', '''',
     ''XF86Save'', ''NoSymbol'', ''XF86Save'', '''', '''', '''',
     ''XF86Documents'', ''NoSymbol'', ''XF86Documents'', '''', '''', '''',
     ''XF86Battery'', ''NoSymbol'', ''XF86Battery'', '''', '''', '''',
     ''XF86Bluetooth'', ''NoSymbol'', ''XF86Bluetooth'', '''', '''', '''',
     ''XF86WLAN'', ''NoSymbol'', ''XF86WLAN'', '''', '''', '''',
     '''', '''', '''', '''', '''', '''',
     '''', '''', '''', '''', '''', '''',
     '''', '''', '''', '''', '''', '''',
     '''', '''', '''', '''', '''', '''',
     ''XF86MonBrightnessCycle'', ''NoSymbol'', ''XF86MonBrightnessCycle'', '''', '''', '''',
     '''', '''', '''', '''', '''', '''',
     '''', '''', '''', '''', '''', '''',
     ''XF86WWAN'', ''NoSymbol'', ''XF86WWAN'', '''', '''', '''',
     ''XF86RFKill'', ''NoSymbol'', ''XF86RFKill'', '''', '''', '''',
     '''', '''', '''', '''', '''', '''',
     '''', '''', '''', '''', '''', '''']"

definition xmap_10 :: "string list" where
  "xmap_10 = [
     '''', '''', '''', '''', '''', '''',
     '''', '''', '''', '''', '''', '''',
     '''', '''', '''', '''', '''', '''',
     '''', '''', '''', '''', '''', '''',
     '''', '''', '''', '''', '''', '''']"

definition xmap :: "string list" where
  "xmap = xmap_0 @ xmap_1 @ xmap_2 @ xmap_3 @ xmap_4 @ xmap_5 @ xmap_6 @ xmap_7 @ xmap_8 @ xmap_9 @ xmap_10"

definition getxmap :: "Local \<Rightarrow> nat \<Rightarrow> bool \<Rightarrow> bool \<Rightarrow> string res" where
  "getxmap loc code shift altg =
     array_get xmap (code * 6 + (if altg then 4
       else (if shift then 1 else 0) + (case loc of En \<Rightarrow> 2 | Fr \<Rightarrow> 0)))"

definition Key_variants_1 :: "(string \<times> nat) list" where
  "Key_variants_1 = [
     (''Reserved'', 0), (''Esc'', 1), (''Key1'', 2), (''Key2'', 3),
     (''Key3'', 4), (''Key4'', 5), (''Key5'', 6), (''Key6'', 7),
     (''Key7'', 8), (''Key8'', 9), (''Key9'', 10), (''Key0'', 11),
     (''KeyMinus'', 12), (''KeyEqual'', 13), (''KeyBackspace'', 14), (''KeyTab'', 15),
     (''KeyQ'', 16), (''KeyW'', 17), (''KeyE'', 18), (''KeyR'', 19),
     (''KeyT'', 20), (''KeyY'', 21), (''KeyU'', 22), (''KeyI'', 23),
     (''KeyO'', 24), (''KeyP'', 25), (''KeyLeftBrace'', 26), (''KeyRightBrace'', 27),
     (''KeyEnter'', 28), (''KeyLeftCtrl'', 29), (''KeyA'', 30), (''KeyS'', 31),
     (''KeyD'', 32), (''KeyF'', 33), (''KeyG'', 34), (''KeyH'', 35),
     (''KeyJ'', 36), (''KeyK'', 37), (''KeyL'', 38), (''KeySemicolon'', 39),
     (''KeyApostrophe'', 40), (''KeyGrave'', 41), (''KeyLeftShift'', 42), (''KeyBackslash'', 43),
     (''KeyZ'', 44), (''KeyX'', 45), (''KeyC'', 46), (''KeyV'', 47),
     (''KeyB'', 48), (''KeyN'', 49), (''KeyM'', 50), (''KeyComma'', 51),
     (''KeyDot'', 52), (''KeySlash'', 53), (''KeyRightShift'', 54), (''KeyKpAsterisk'', 55),
     (''KeyLeftAlt'', 56), (''KeySpace'', 57), (''KeyCapsLock'', 58), (''KeyF1'', 59),
     (''KeyF2'', 60), (''KeyF3'', 61), (''KeyF4'', 62), (''KeyF5'', 63),
     (''KeyF6'', 64), (''KeyF7'', 65), (''KeyF8'', 66), (''KeyF9'', 67),
     (''KeyF10'', 68), (''KeyNumLock'', 69), (''KeyScrollLock'', 70), (''KeyKp7'', 71),
     (''KeyKp8'', 72), (''KeyKp9'', 73), (''KeyKpMinus'', 74), (''KeyKp4'', 75),
     (''KeyKp5'', 76), (''KeyKp6'', 77), (''KeyKpPlus'', 78), (''KeyKp1'', 79),
     (''KeyKp2'', 80), (''KeyKp3'', 81), (''KeyKp0'', 82), (''KeyKpDot'', 83),
     (''KeyZenkakuHankaku'', 85), (''Key102nd'', 86), (''KeyF11'', 87), (''KeyF12'', 88),
     (''KeyRo'', 89), (''KeyKatakana'', 90), (''KeyHiragana'', 91), (''KeyHenkan'', 92),
     (''KeyKatakanaHiragana'', 93), (''KeyMuhenkan'', 94), (''KeyKpJpComma'', 95), (''KeyKpEnter'', 96),
     (''KeyRightCtrl'', 97), (''KeyKpSlash'', 98), (''KeySysRq'', 99), (''KeyRightAlt'', 100),
     (''KeyLineFeed'', 101), (''KeyHome'', 102), (''KeyUp'', 103), (''KeyPageUp'', 104),
     (''KeyLeft'', 105), (''KeyRight'', 106), (''KeyEnd'', 107), (''KeyDown'', 108),
     (''KeyPageDown'', 109), (''KeyInsert'', 110), (''KeyDelete'', 111), (''KeyMacro'', 112),
     (''KeyMute'', 113), (''KeyVolumeDown'', 114), (''KeyVolumeUp'', 115), (''KeyPower'', 116),
     (''KeyKpEqual'', 117), (''KeyKpPlusMinus'', 118), (''KeyPause'', 119), (''KeyScale'', 120),
     (''KeyKpComma'', 121), (''KeyHangeul'', 122), (''KeyHanja'', 123), (''KeyYen'', 124),
     (''KeyLeftMeta'', 125), (''KeyRightMeta'', 126), (''KeyCompose'', 127), (''KeyStop'', 128),
     (''KeyAgain'', 129), (''KeyProps'', 130), (''KeyUndo'', 131), (''KeyFront'', 132),
     (''KeyCopy'', 133), (''KeyOpen'', 134), (''KeyPaste'', 135), (''KeyFind'', 136),
     (''KeyCut'', 137)]"

definition Key_variants_2 :: "(string \<times> nat) list" where
  "Key_variants_2 = [
     (''KeyHelp'', 138), (''KeyMenu'', 139), (''KeyCalc'', 140), (''KeySetup'', 141),
     (''KeySleep'', 142), (''KeyWakeup'', 143), (''KeyFile'', 144), (''KeySend'', 145),
     (''KeyDeleteFile'', 146), (''KeyXfer'', 147), (''KeyProg1'', 148), (''KeyProg2'', 149),
     (''KeyWww'', 150), (''KeyMsDos'', 151), (''KeyScreenLock'', 152), (''KeyDirection'', 153),
     (''KeyCycleWindows'', 154), (''KeyMail'', 155), (''KeyBookmarks'', 156), (''KeyComputer'', 157),
     (''KeyBack'', 158), (''KeyForward'', 159), (''KeyCloseCd'', 160), (''KeyEjectCd'', 161),
     (''KeyEjectCloseCd'', 162), (''KeyNextSong'', 163), (''KeyPlayPause'', 164), (''KeyPreviousSong'', 165),
     (''KeyStopCd'', 166), (''KeyRecord'', 167), (''KeyRewind'', 168), (''KeyPhone'', 169),
     (''KeyIso'', 170), (''KeyConfig'', 171), (''KeyHomePage'', 172), (''KeyRefresh'', 173),
     (''KeyExit'', 174), (''KeyMove'', 175), (''KeyEdit'', 176), (''KeyScrollUp'', 177),
     (''KeyScrollDown'', 178), (''KeyKpLeftParenthesis'', 179), (''KeyKpRightParenthesis'', 180), (''KeyNew'', 181),
     (''KeyRedo'', 182), (''KeyF13'', 183), (''KeyF14'', 184), (''KeyF15'', 185),
     (''KeyF16'', 186), (''KeyF17'', 187), (''KeyF18'', 188), (''KeyF19'', 189),
     (''KeyF20'', 190), (''KeyF21'', 191), (''KeyF22'', 192), (''KeyF23'', 193),
     (''KeyF24'', 194), (''KeyMax'', 195), (''BtnLeft'', 272), (''BtnRight'', 273),
     (''BtnMiddle'', 274), (''BtnSide'', 275)]"

definition Key_variants :: "(string \<times> nat) list" where
  "Key_variants = Key_variants_1 @ Key_variants_2"

text \<open>The symbols with a name that stand for one character.\<close>

definition symbol_char :: "string \<Rightarrow> char option" where
  "symbol_char s =
     (if s = ''minus'' then Some (CHR 0x2D)
     else if s = ''plus'' then Some (CHR 0x2B)
     else if s = ''equal'' then Some (CHR 0x3D)
     else if s = ''space'' then Some (CHR 0x20)
     else if s = ''bracketleft'' then Some (CHR 0x5B)
     else if s = ''bracketright'' then Some (CHR 0x5D)
     else if s = ''braceleft'' then Some (CHR 0x7B)
     else if s = ''braceright'' then Some (CHR 0x7D)
     else if s = ''parenleft'' then Some (CHR 0x28)
     else if s = ''parenright'' then Some (CHR 0x29)
     else if s = ''less'' then Some (CHR 0x3C)
     else if s = ''greater'' then Some (CHR 0x3E)
     else if s = ''comma'' then Some (CHR 0x2C)
     else if s = ''asterisk'' then Some (CHR 0x2A)
     else if s = ''slash'' then Some (CHR 0x2F)
     else if s = ''colon'' then Some (CHR 0x3A)
     else if s = ''percent'' then Some (CHR 0x25)
     else if s = ''semicolon'' then Some (CHR 0x3B)
     else if s = ''question'' then Some (CHR 0x3F)
     else if s = ''quotedbl'' then Some (CHR 0x22)
     else if s = ''apostrophe'' then Some (CHR 0x27)
     else if s = ''twosuperior'' then Some (CHR 0xB2)
     else if s = ''exclam'' then Some (CHR 0x21)
     else None)"

definition Key_char :: "Local \<Rightarrow> nat \<Rightarrow> bool \<Rightarrow> bool \<Rightarrow> char option res" where
  "Key_char loc key shift altg =
     (if 255 \<le> key then Inr None
      else res_bind (getxmap loc key shift altg)
        (\<lambda>s. if length s = 1 then Inr (Some (hd s)) else Inr (symbol_char s)))"

subsection \<open>Specification vocabulary\<close>

text \<open>A number that is the discriminant of a \<^verbatim>\<open>Key\<close>.\<close>

definition Key_valid :: "nat \<Rightarrow> bool" where
  "Key_valid n \<longleftrightarrow> n \<in> set (map snd Key_variants)"

definition decode_symbol :: "string \<Rightarrow> char option" where
  "decode_symbol s = (if length s = 1 then Some (hd s) else symbol_char s)"

text \<open>The characters of the console: printable ASCII but for eleven, and the superscript two.\<close>

definition console_chars :: "char list" where
  "console_chars = [
     CHR 0x20, CHR 0x21, CHR 0x22, CHR 0x25, CHR 0x27, CHR 0x28, CHR 0x29, CHR 0x2A, CHR 0x2B,
     CHR 0x2C, CHR 0x2D, CHR 0x2F, CHR 0x30, CHR 0x31, CHR 0x32, CHR 0x33, CHR 0x34, CHR 0x35,
     CHR 0x36, CHR 0x37, CHR 0x38, CHR 0x39, CHR 0x3A, CHR 0x3B, CHR 0x3C, CHR 0x3D, CHR 0x3E,
     CHR 0x3F, CHR 0x41, CHR 0x42, CHR 0x43, CHR 0x44, CHR 0x45, CHR 0x46, CHR 0x47, CHR 0x48,
     CHR 0x49, CHR 0x4A, CHR 0x4B, CHR 0x4C, CHR 0x4D, CHR 0x4E, CHR 0x4F, CHR 0x50, CHR 0x51,
     CHR 0x52, CHR 0x53, CHR 0x54, CHR 0x55, CHR 0x56, CHR 0x57, CHR 0x58, CHR 0x59, CHR 0x5A,
     CHR 0x5B, CHR 0x5D, CHR 0x61, CHR 0x62, CHR 0x63, CHR 0x64, CHR 0x65, CHR 0x66, CHR 0x67,
     CHR 0x68, CHR 0x69, CHR 0x6A, CHR 0x6B, CHR 0x6C, CHR 0x6D, CHR 0x6E, CHR 0x6F, CHR 0x70,
     CHR 0x71, CHR 0x72, CHR 0x73, CHR 0x74, CHR 0x75, CHR 0x76, CHR 0x77, CHR 0x78, CHR 0x79,
     CHR 0x7A, CHR 0x7B, CHR 0x7D]"

definition keys_for_Fr :: "(char \<times> nat \<times> bool \<times> bool) list" where
  "keys_for_Fr = [
     (CHR 0x20, 57, False, False), (CHR 0x21, 53, False, False), (CHR 0x22, 4, False, False),
     (CHR 0x25, 40, True, False), (CHR 0x27, 5, False, False), (CHR 0x28, 6, False, False),
     (CHR 0x29, 12, False, False), (CHR 0x2A, 43, False, False), (CHR 0x2B, 13, True, False),
     (CHR 0x2C, 50, False, False), (CHR 0x2D, 7, False, False), (CHR 0x2F, 52, True, False),
     (CHR 0x30, 11, True, False), (CHR 0x31, 2, True, False), (CHR 0x32, 3, True, False),
     (CHR 0x33, 4, True, False), (CHR 0x34, 5, True, False), (CHR 0x35, 6, True, False),
     (CHR 0x36, 7, True, False), (CHR 0x37, 8, True, False), (CHR 0x38, 9, True, False),
     (CHR 0x39, 10, True, False), (CHR 0x3A, 52, False, False), (CHR 0x3B, 51, False, False),
     (CHR 0x3C, 86, False, False), (CHR 0x3D, 13, False, False), (CHR 0x3E, 86, True, False),
     (CHR 0x3F, 50, True, False), (CHR 0x41, 16, True, False), (CHR 0x42, 48, True, False),
     (CHR 0x43, 46, True, False), (CHR 0x44, 32, True, False), (CHR 0x45, 18, True, False),
     (CHR 0x46, 33, True, False), (CHR 0x47, 34, True, False), (CHR 0x48, 35, True, False),
     (CHR 0x49, 23, True, False), (CHR 0x4A, 36, True, False), (CHR 0x4B, 37, True, False),
     (CHR 0x4C, 38, True, False), (CHR 0x4D, 39, True, False), (CHR 0x4E, 49, True, False),
     (CHR 0x4F, 24, True, False), (CHR 0x50, 25, True, False), (CHR 0x51, 30, True, False),
     (CHR 0x52, 19, True, False), (CHR 0x53, 31, True, False), (CHR 0x54, 20, True, False),
     (CHR 0x55, 22, True, False), (CHR 0x56, 47, True, False), (CHR 0x57, 44, True, False),
     (CHR 0x58, 45, True, False), (CHR 0x59, 21, True, False), (CHR 0x5A, 17, True, False),
     (CHR 0x5B, 6, False, True), (CHR 0x5D, 12, False, True), (CHR 0x61, 16, False, False),
     (CHR 0x62, 48, False, False), (CHR 0x63, 46, False, False), (CHR 0x64, 32, False, False),
     (CHR 0x65, 18, False, False), (CHR 0x66, 33, False, False), (CHR 0x67, 34, False, False),
     (CHR 0x68, 35, False, False), (CHR 0x69, 23, False, False), (CHR 0x6A, 36, False, False),
     (CHR 0x6B, 37, False, False), (CHR 0x6C, 38, False, False), (CHR 0x6D, 39, False, False),
     (CHR 0x6E, 49, False, False), (CHR 0x6F, 24, False, False), (CHR 0x70, 25, False, False),
     (CHR 0x71, 30, False, False), (CHR 0x72, 19, False, False), (CHR 0x73, 31, False, False),
     (CHR 0x74, 20, False, False), (CHR 0x75, 22, False, False), (CHR 0x76, 47, False, False),
     (CHR 0x77, 44, False, False), (CHR 0x78, 45, False, False), (CHR 0x79, 21, False, False),
     (CHR 0x7A, 17, False, False), (CHR 0x7B, 5, False, True), (CHR 0x7D, 13, False, True)]"

definition keys_for_En :: "(char \<times> nat \<times> bool \<times> bool) list" where
  "keys_for_En = [
     (CHR 0x20, 57, False, False), (CHR 0x21, 2, True, False), (CHR 0x22, 40, True, False),
     (CHR 0x25, 6, True, False), (CHR 0x27, 40, False, False), (CHR 0x28, 10, True, False),
     (CHR 0x29, 11, True, False), (CHR 0x2A, 9, True, False), (CHR 0x2B, 13, True, False),
     (CHR 0x2C, 51, False, False), (CHR 0x2D, 12, False, False), (CHR 0x2F, 53, False, False),
     (CHR 0x30, 11, False, False), (CHR 0x31, 2, False, False), (CHR 0x32, 3, False, False),
     (CHR 0x33, 4, False, False), (CHR 0x34, 5, False, False), (CHR 0x35, 6, False, False),
     (CHR 0x36, 7, False, False), (CHR 0x37, 8, False, False), (CHR 0x38, 9, False, False),
     (CHR 0x39, 10, False, False), (CHR 0x3A, 39, True, False), (CHR 0x3B, 39, False, False),
     (CHR 0x3C, 51, True, False), (CHR 0x3D, 13, False, False), (CHR 0x3E, 52, True, False),
     (CHR 0x3F, 53, True, False), (CHR 0x41, 30, True, False), (CHR 0x42, 48, True, False),
     (CHR 0x43, 46, True, False), (CHR 0x44, 32, True, False), (CHR 0x45, 18, True, False),
     (CHR 0x46, 33, True, False), (CHR 0x47, 34, True, False), (CHR 0x48, 35, True, False),
     (CHR 0x49, 23, True, False), (CHR 0x4A, 36, True, False), (CHR 0x4B, 37, True, False),
     (CHR 0x4C, 38, True, False), (CHR 0x4D, 50, True, False), (CHR 0x4E, 49, True, False),
     (CHR 0x4F, 24, True, False), (CHR 0x50, 25, True, False), (CHR 0x51, 16, True, False),
     (CHR 0x52, 19, True, False), (CHR 0x53, 31, True, False), (CHR 0x54, 20, True, False),
     (CHR 0x55, 22, True, False), (CHR 0x56, 47, True, False), (CHR 0x57, 17, True, False),
     (CHR 0x58, 45, True, False), (CHR 0x59, 21, True, False), (CHR 0x5A, 44, True, False),
     (CHR 0x5B, 6, False, True), (CHR 0x5D, 12, False, True), (CHR 0x61, 30, False, False),
     (CHR 0x62, 48, False, False), (CHR 0x63, 46, False, False), (CHR 0x64, 32, False, False),
     (CHR 0x65, 18, False, False), (CHR 0x66, 33, False, False), (CHR 0x67, 34, False, False),
     (CHR 0x68, 35, False, False), (CHR 0x69, 23, False, False), (CHR 0x6A, 36, False, False),
     (CHR 0x6B, 37, False, False), (CHR 0x6C, 38, False, False), (CHR 0x6D, 50, False, False),
     (CHR 0x6E, 49, False, False), (CHR 0x6F, 24, False, False), (CHR 0x70, 25, False, False),
     (CHR 0x71, 16, False, False), (CHR 0x72, 19, False, False), (CHR 0x73, 31, False, False),
     (CHR 0x74, 20, False, False), (CHR 0x75, 22, False, False), (CHR 0x76, 47, False, False),
     (CHR 0x77, 17, False, False), (CHR 0x78, 45, False, False), (CHR 0x79, 21, False, False),
     (CHR 0x7A, 44, False, False), (CHR 0x7B, 5, False, True), (CHR 0x7D, 13, False, True)]"

definition table_column :: "Local \<Rightarrow> bool \<Rightarrow> bool \<Rightarrow> nat" where
  "table_column loc shift altg = (if altg then 4 else (if shift then 1 else 0) + (case loc of En \<Rightarrow> 2 | Fr \<Rightarrow> 0))"

definition piece_char :: "Local \<Rightarrow> char \<times> nat \<times> bool \<times> bool \<Rightarrow> bool" where
  "piece_char loc k = (case k of (c, key, shift, altg) \<Rightarrow>
     let i = key * 6 + table_column loc shift altg in
     i < 600 \<and> decode_symbol (if i < 150 then xmap_0 ! i else if i < 300 then xmap_1 ! (i - 150)
       else if i < 450 then xmap_2 ! (i - 300) else xmap_3 ! (i - 450)) = Some c)"

section \<open>The table\<close>

lemma length_xmap_0: "length xmap_0 = 150"
  by (simp add: xmap_0_def)

lemma length_xmap_1: "length xmap_1 = 150"
  by (simp add: xmap_1_def)

lemma length_xmap_2: "length xmap_2 = 150"
  by (simp add: xmap_2_def)

lemma length_xmap_3: "length xmap_3 = 150"
  by (simp add: xmap_3_def)

lemma length_xmap_4: "length xmap_4 = 150"
  by (simp add: xmap_4_def)

lemma length_xmap_5: "length xmap_5 = 150"
  by (simp add: xmap_5_def)

lemma length_xmap_6: "length xmap_6 = 150"
  by (simp add: xmap_6_def)

lemma length_xmap_7: "length xmap_7 = 150"
  by (simp add: xmap_7_def)

lemma length_xmap_8: "length xmap_8 = 150"
  by (simp add: xmap_8_def)

lemma length_xmap_9: "length xmap_9 = 150"
  by (simp add: xmap_9_def)

lemma length_xmap_10: "length xmap_10 = 30"
  by (simp add: xmap_10_def)

lemma length_xmap: "length xmap = 1530"
  by (simp add: xmap_def length_xmap_0 length_xmap_1 length_xmap_2 length_xmap_3 length_xmap_4 length_xmap_5 length_xmap_6 length_xmap_7 length_xmap_8 length_xmap_9 length_xmap_10)

lemma decode_xmap_0: "list_all (\<lambda>s. case decode_symbol s of None \<Rightarrow> True | Some c \<Rightarrow> c = CHR 0xB2 \<or> c \<in> set console_chars) xmap_0"
  by code_simp

lemma decode_xmap_1: "list_all (\<lambda>s. case decode_symbol s of None \<Rightarrow> True | Some c \<Rightarrow> c = CHR 0xB2 \<or> c \<in> set console_chars) xmap_1"
  by code_simp

lemma decode_xmap_2: "list_all (\<lambda>s. case decode_symbol s of None \<Rightarrow> True | Some c \<Rightarrow> c = CHR 0xB2 \<or> c \<in> set console_chars) xmap_2"
  by code_simp

lemma decode_xmap_3: "list_all (\<lambda>s. case decode_symbol s of None \<Rightarrow> True | Some c \<Rightarrow> c = CHR 0xB2 \<or> c \<in> set console_chars) xmap_3"
  by code_simp

lemma decode_xmap_4: "list_all (\<lambda>s. case decode_symbol s of None \<Rightarrow> True | Some c \<Rightarrow> c = CHR 0xB2 \<or> c \<in> set console_chars) xmap_4"
  by code_simp

lemma decode_xmap_5: "list_all (\<lambda>s. case decode_symbol s of None \<Rightarrow> True | Some c \<Rightarrow> c = CHR 0xB2 \<or> c \<in> set console_chars) xmap_5"
  by code_simp

lemma decode_xmap_6: "list_all (\<lambda>s. case decode_symbol s of None \<Rightarrow> True | Some c \<Rightarrow> c = CHR 0xB2 \<or> c \<in> set console_chars) xmap_6"
  by code_simp

lemma decode_xmap_7: "list_all (\<lambda>s. case decode_symbol s of None \<Rightarrow> True | Some c \<Rightarrow> c = CHR 0xB2 \<or> c \<in> set console_chars) xmap_7"
  by code_simp

lemma decode_xmap_8: "list_all (\<lambda>s. case decode_symbol s of None \<Rightarrow> True | Some c \<Rightarrow> c = CHR 0xB2 \<or> c \<in> set console_chars) xmap_8"
  by code_simp

lemma decode_xmap_9: "list_all (\<lambda>s. case decode_symbol s of None \<Rightarrow> True | Some c \<Rightarrow> c = CHR 0xB2 \<or> c \<in> set console_chars) xmap_9"
  by code_simp

lemma decode_xmap_10: "list_all (\<lambda>s. case decode_symbol s of None \<Rightarrow> True | Some c \<Rightarrow> c = CHR 0xB2 \<or> c \<in> set console_chars) xmap_10"
  by code_simp

lemmas decode_pieces = decode_xmap_0 decode_xmap_1 decode_xmap_2 decode_xmap_3 decode_xmap_4 decode_xmap_5 decode_xmap_6 decode_xmap_7 decode_xmap_8 decode_xmap_9 decode_xmap_10

lemma xmap_decodes:
  assumes "s \<in> set xmap" and "decode_symbol s = Some c"
  shows "c = CHR 0xB2 \<or> c \<in> set console_chars"
  using assms decode_pieces by (fastforce simp: xmap_def list_all_iff)

lemma xmap_index:
  fixes code :: nat
  shows "code * 6 + (if altg then 4 else (if shift then 1 else 0) + (case loc of En \<Rightarrow> 2 | Fr \<Rightarrow> 0)) < 1530 \<longleftrightarrow>
     code < 255"
  by (cases loc) auto

lemma Key_char_eq:
  assumes "key < 255"
  shows "\<exists>s \<in> set xmap. getxmap loc key shift altg = Inr s \<and> Key_char loc key shift altg = Inr (decode_symbol s)"
proof -
  let ?i = "key * 6 + (if altg then 4 else (if shift then 1 else 0) + (case loc of En \<Rightarrow> 2 | Fr \<Rightarrow> 0))"
  have i: "?i < length xmap" using assms xmap_index by (simp only: length_xmap)
  then have "getxmap loc key shift altg = Inr (xmap ! ?i)" by (simp only: getxmap_def array_get_def if_True)
  moreover from this have "Key_char loc key shift altg = Inr (decode_symbol (xmap ! ?i))"
    using assms by (simp add: Key_char_def decode_symbol_def)
  moreover have "xmap ! ?i \<in> set xmap" using i by (rule nth_mem)
  ultimately show ?thesis by blast
qed

text \<open>Lookup in the piece that holds the code.\<close>

lemma xmap_nth_offset:
  "j < 150 \<Longrightarrow> xmap ! j = xmap_0 ! j"
  "j < 150 \<Longrightarrow> xmap ! (150 + j) = xmap_1 ! j"
  "j < 150 \<Longrightarrow> xmap ! (300 + j) = xmap_2 ! j"
  "j < 150 \<Longrightarrow> xmap ! (450 + j) = xmap_3 ! j"
  by (simp_all add: xmap_def nth_append length_xmap_0 length_xmap_1 length_xmap_2 length_xmap_3)

lemma xmap_nth_piece:
  "i < 150 \<Longrightarrow> xmap ! i = xmap_0 ! i"
  "150 \<le> i \<Longrightarrow> i < 300 \<Longrightarrow> xmap ! i = xmap_1 ! (i - 150)"
  "300 \<le> i \<Longrightarrow> i < 450 \<Longrightarrow> xmap ! i = xmap_2 ! (i - 300)"
  "450 \<le> i \<Longrightarrow> i < 600 \<Longrightarrow> xmap ! i = xmap_3 ! (i - 450)"
  using xmap_nth_offset(1) [of i] xmap_nth_offset(2) [of "i - 150"] xmap_nth_offset(3) [of "i - 300"]
    xmap_nth_offset(4) [of "i - 450"] by auto

lemma piece_char_sound:
  assumes "piece_char loc (c, key, shift, altg)"
  shows "Key_char loc key shift altg = Inr (Some c)"
proof -
  let ?i = "key * 6 + table_column loc shift altg"
  have i: "?i < 600" and d: "decode_symbol (xmap ! ?i) = Some c"
    using assms by (auto simp: piece_char_def Let_def xmap_nth_piece not_less split: if_splits)
  have "getxmap loc key shift altg = Inr (xmap ! ?i)"
    using i unfolding getxmap_def table_column_def [symmetric] by (simp add: array_get_def length_xmap)
  moreover have "key < 255" using i by simp
  ultimately show ?thesis using d by (auto simp: Key_char_def decode_symbol_def split: if_splits)
qed

lemma keys_for_pieces: "list_all (piece_char Fr) keys_for_Fr" "list_all (piece_char En) keys_for_En"
  by code_simp+

lemma keys_for_ok:
  "list_all (\<lambda>(c, key, shift, altg). Key_char Fr key shift altg = Inr (Some c)) keys_for_Fr"
  "list_all (\<lambda>(c, key, shift, altg). Key_char En key shift altg = Inr (Some c)) keys_for_En"
  using keys_for_pieces piece_char_sound by (auto simp: list_all_iff)

lemma keys_for_chars: "map fst keys_for_Fr = console_chars" "map fst keys_for_En = console_chars"
  by (simp_all add: keys_for_Fr_def keys_for_En_def console_chars_def)

section \<open>Properties\<close>

text \<open>translating a key never indexes outside of the table: for every number, in every
  layout and with every modifier, the guard on the code makes the lookup succeed, and for a code of
  255 or more the lookup alone would be out of range.\<close>

theorem key_translation_total:
  "(\<exists>r. Key_char loc key shift altg = Inr r) \<and>
   (getxmap loc key shift altg = Inl IndexOutOfBounds \<longleftrightarrow> 255 \<le> key)"
proof (cases "key < 255")
  case True
  with Key_char_eq [OF True, of loc shift altg] show ?thesis by auto
next
  case False
  then have "\<not> key * 6 + (if altg then 4 else (if shift then 1 else 0) + (case loc of En \<Rightarrow> 2 | Fr \<Rightarrow> 0)) < length xmap"
    using xmap_index [of key altg shift loc] unfolding length_xmap by blast
  then have "getxmap loc key shift altg = Inl IndexOutOfBounds"
    by (simp only: getxmap_def array_get_def if_False)
  with False show ?thesis by (simp add: Key_char_def)
qed

text \<open>C35: the characters that can be typed. In both layouts every letter, every digit and each of
  the listed signs has a key; apart from the superscript two nothing else can be typed, in particular
  not the full stop, the underscore, the backslash or the other eight signs of the last line.\<close>

theorem typable_characters:
  "(\<forall>c \<in> set console_chars. \<exists>key shift altg. Key_char loc key shift altg = Inr (Some c)) \<and>
   (\<forall>key shift altg c. Key_char loc key shift altg = Inr (Some c) \<longrightarrow>
      c = CHR 0xB2 \<or> c \<in> set console_chars) \<and>
   set ''abcdefghijklmnopqrstuvwxyzABCDEFGHIJKLMNOPQRSTUVWXYZ0123456789'' \<subseteq> set console_chars \<and>
   set console_chars \<inter> set (''#$&.@^_|~'' @ [CHR 0x5C, CHR 0x60]) = {}"
proof (intro conjI ballI allI impI)
  fix c assume "c \<in> set console_chars"
  then have "c \<in> fst ` set keys_for_Fr" "c \<in> fst ` set keys_for_En"
    by (metis keys_for_chars(1) list.set_map) (metis \<open>c \<in> set console_chars\<close> keys_for_chars(2) list.set_map)
  with keys_for_ok show "\<exists>key shift altg. Key_char loc key shift altg = Inr (Some c)"
    by (cases loc) (fastforce simp: list_all_iff)+
next
  fix key shift altg c assume char: "Key_char loc key shift altg = Inr (Some c)"
  then have "key < 255" by (simp add: Key_char_def split: if_splits)
  from Key_char_eq [OF this, of loc shift altg] char obtain s where "s \<in> set xmap" "decode_symbol s = Some c"
    by auto
  then show "c = CHR 0xB2 \<or> c \<in> set console_chars" by (rule xmap_decodes)
next
  show "set ''abcdefghijklmnopqrstuvwxyzABCDEFGHIJKLMNOPQRSTUVWXYZ0123456789'' \<subseteq> set console_chars"
    by (simp add: console_chars_def)
  show "set console_chars \<inter> set (''#$&.@^_|~'' @ [CHR 0x5C, CHR 0x60]) = {}"
    by (simp add: console_chars_def)
qed

theorem typable_characters_witness:
  "CHR ''q'' \<in> set console_chars \<and> (\<exists>key shift altg. Key_char Fr key shift altg = Inr (Some CHR ''q''))"
proof -
  have "CHR ''q'' \<in> set console_chars" by (simp add: console_chars_def)
  with typable_characters [of Fr] show ?thesis by blast
qed

lemma variant_numbers: "map snd Key_variants = [0..<84] @ [85..<152] @ [152..<196] @ [272..<276]"
  by code_simp

text \<open>the codes that are keys: exactly the numbers up to 195 but for 84, and the four mouse
  buttons 272 to 275. The kernel records every code below 1024, and the app reads the number as a Key.\<close>

theorem valid_key_codes:
  "Key_valid n \<longleftrightarrow> n \<le> 195 \<and> n \<noteq> 84 \<or> 272 \<le> n \<and> n \<le> 275"
  by (auto simp: Key_valid_def variant_numbers simp del: upt_rec_numeral)

end
