(* ===== verification/Ring_Window.thy ===== *)
theory Ring_Window
  imports Fomos_Prelude
begin

text \<open>
  Rings with a running index, the data structure that three parts of the system exchange data
  through: the input history that the apps read, the available ring that the drivers write and the
  used ring that a device writes. A ring of capacity \<open>cap\<close> is a window on an unbounded log: the
  entry with number \<open>i\<close> sits in slot \<open>i mod cap\<close> until it is overwritten. The locale
  \<open>event_history\<close> is the interface a reader relies on.
\<close>

definition ring_holds :: "(nat \<Rightarrow> 'e) \<Rightarrow> nat \<Rightarrow> 'e list \<Rightarrow> bool" where
  "ring_holds slot cap log \<longleftrightarrow>
     (\<forall>i < length log. length log \<le> i + cap \<longrightarrow> slot (i mod cap) = log ! i)"

lemma ring_holds_Nil [simp]: "ring_holds slot cap []"
  by (simp add: ring_holds_def)

lemma ring_holds_push:
  assumes "ring_holds slot cap log" and "slot' (length log mod cap) = x"
    and "\<And>j. j < cap \<Longrightarrow> j \<noteq> length log mod cap \<Longrightarrow> slot' j = slot j" and "0 < cap"
  shows "ring_holds slot' cap (log @ [x])"
  unfolding ring_holds_def
proof (intro allI impI)
  fix i
  assume i: "i < length (log @ [x])" "length (log @ [x]) \<le> i + cap"
  show "slot' (i mod cap) = (log @ [x]) ! i"
  proof (cases "i = length log")
    case True
    with assms(2) show ?thesis by simp
  next
    case False
    with i have less: "i < length log" and close: "length log < i + cap"
      by auto
    from less close have "i mod cap \<noteq> length log mod cap"
      by (rule mod_neq_of_close)
    with assms(3,4) have "slot' (i mod cap) = slot (i mod cap)"
      by simp
    also have "\<dots> = log ! i"
      using assms(1) less close by (simp add: ring_holds_def)
    finally show ?thesis
      using less by (simp add: nth_append)
  qed
qed

lemma ring_holds_cong:
  assumes "ring_holds slot cap log" and "\<And>j. j < cap \<Longrightarrow> slot' j = slot j"
  shows "ring_holds slot' cap log"
  unfolding ring_holds_def
proof (intro allI impI)
  fix i assume i: "i < length log" "length log \<le> i + cap"
  then have "0 < cap" by simp
  with assms i show "slot' (i mod cap) = log ! i"
    by (simp add: ring_holds_def)
qed

text \<open>
  The interface between the producer of entries and a reader that polls: a state that exposes an
  indexed window of capacity \<open>cap\<close> on the log.
\<close>

locale event_history =
  fixes hist :: "'e list \<Rightarrow> 's \<Rightarrow> bool"
    and at :: "'s \<Rightarrow> nat \<Rightarrow> 'e"
    and cap :: nat
  assumes hist_at: "hist log s \<Longrightarrow> i < length log \<Longrightarrow> length log \<le> i + cap \<Longrightarrow> at s i = log ! i"
    and at_periodic: "at s (i + cap) = at s i"
begin

lemma window_exact:
  assumes "hist log s" and "n \<le> length log" and "length log \<le> n + cap"
  shows "map (at s) [n..<length log] = drop n log"
proof (rule nth_equalityI)
  show "length (map (at s) [n..<length log]) = length (drop n log)"
    by simp
next
  fix j assume "j < length (map (at s) [n..<length log])"
  then have j: "n + j < length log" by simp
  then have "at s (n + j) = log ! (n + j)"
    using assms by (intro hist_at) auto
  with j show "map (at s) [n..<length log] ! j = drop n log ! j"
    by simp
qed

lemma overrun_reads_newer:
  assumes "hist log s" and "i + cap < length log" and "length log \<le> i + 2 * cap"
  shows "at s i = log ! (i + cap)"
proof -
  have "at s (i + cap) = log ! (i + cap)"
    using assms by (intro hist_at) auto
  with at_periodic [of s i] show ?thesis by simp
qed

end

end
