(* ===== verification/Input_State.thy ===== *)
theory Input_State
  imports Ring_Window
begin

text \<open>
  The global input state of the kernel, \<^verbatim>\<open>src/bootloader/kernel/src/globals.rs\<close>: the per-key state
  machine \<^verbatim>\<open>KeyState\<close>, the \<^verbatim>\<open>Input\<close> snapshot handed to every app (key array, mouse position and
  the 64-entry ring of recent events) and the \<^verbatim>\<open>GLOBAL\<close> cell it lives in.

  The lemmas show what an app may conclude from the snapshot: the byte of a key is at least 128
  exactly when the key is held down, the ring together with its running index is an exact window
  on the last 64 events (a refinement of the unbounded event log), and the read-modify-write of
  \<^verbatim>\<open>GLOBAL::update\<close> is atomic as long as updates do not overlap.
\<close>

section \<open>Definitions\<close>

subsection \<open>Key states\<close>

datatype KeyState = Off | OffFromOn | OffTransientOn | OnFromOff | OnTransientOff | On

primrec KeyState_repr :: "KeyState \<Rightarrow> u8" where
  "KeyState_repr Off = 0"
| "KeyState_repr OffFromOn = 1"
| "KeyState_repr OffTransientOn = 2"
| "KeyState_repr OnFromOff = 128"
| "KeyState_repr OnTransientOff = 129"
| "KeyState_repr On = 130"

definition KeyState_default :: KeyState where
  "KeyState_default = Off"

fun KeyState_handle_incoming_state :: "KeyState \<Rightarrow> bool \<Rightarrow> KeyState" where
  "KeyState_handle_incoming_state Off True = OnFromOff"
| "KeyState_handle_incoming_state On False = OffFromOn"
| "KeyState_handle_incoming_state OffFromOn True = OnTransientOff"
| "KeyState_handle_incoming_state OnFromOff False = OffTransientOn"
| "KeyState_handle_incoming_state _ False = Off"
| "KeyState_handle_incoming_state _ True = On"

fun KeyState_step :: "KeyState \<Rightarrow> KeyState" where
  "KeyState_step OffTransientOn = Off"
| "KeyState_step OffFromOn = Off"
| "KeyState_step OnFromOff = On"
| "KeyState_step OnTransientOff = On"
| "KeyState_step k = k"

subsection \<open>The input snapshot\<close>

record InputEvent =
  trigger :: bool
  key :: usize

record Input =
  mouse_x :: usize
  mouse_y :: usize
  keys :: "KeyState list"
  history_last_index :: usize
  history_ring :: "InputEvent list"

definition HISTORY_SIZE :: nat where
  "HISTORY_SIZE = 64"

definition Input_new :: Input where
  "Input_new = \<lparr> mouse_x = 0, mouse_y = 0, keys = replicate 1024 Off,
     history_last_index = 0,
     history_ring = replicate HISTORY_SIZE \<lparr> trigger = False, key = 0 \<rparr> \<rparr>"

definition Input_step :: "Input \<Rightarrow> Input" where
  "Input_step inp = inp\<lparr> keys := map KeyState_step (keys inp) \<rparr>"

definition Input_handle_incoming_state :: "usize \<Rightarrow> bool \<Rightarrow> Input \<Rightarrow> Input res" where
  "Input_handle_incoming_state k b inp =
     (let n = history_last_index inp + 1 in
      res_bind (array_set (history_ring inp) (unat n mod HISTORY_SIZE) \<lparr> trigger = b, key = k \<rparr>)
        (\<lambda>ring. res_bind (array_get (keys inp) (unat k))
          (\<lambda>st. res_bind (array_set (keys inp) (unat k) (KeyState_handle_incoming_state st b))
            (\<lambda>ks. Inr (inp\<lparr> history_last_index := n, history_ring := ring, keys := ks \<rparr>)))))"

subsection \<open>The global cell\<close>

text \<open>
  \<^verbatim>\<open>GLOBAL<T>\<close> wraps an \<^verbatim>\<open>AtomicCell\<close>; \<^verbatim>\<open>update\<close> is a load, a function call and a store. A run of
  several callers is a schedule of their loads and stores over the cell and one local copy per
  caller.
\<close>

definition GLOBAL_read :: "'v \<Rightarrow> 'v" where
  "GLOBAL_read cell = cell"

definition GLOBAL_update :: "('v \<Rightarrow> 'v) \<Rightarrow> 'v \<Rightarrow> 'v" where
  "GLOBAL_update func cell = (let v = cell; v' = func v in v')"

datatype 't cell_access = Load 't | Store 't

fun cell_run :: "('t \<Rightarrow> 'v \<Rightarrow> 'v) \<Rightarrow> 't cell_access list \<Rightarrow> 'v \<times> ('t \<Rightarrow> 'v) \<Rightarrow> 'v \<times> ('t \<Rightarrow> 'v)" where
  "cell_run func [] s = s"
| "cell_run func (Load t # as) (c, loc) = cell_run func as (c, loc(t := c))"
| "cell_run func (Store t # as) (c, loc) = cell_run func as (func t (loc t), loc)"

subsection \<open>Specification vocabulary\<close>

definition pressed :: "KeyState \<Rightarrow> bool" where
  "pressed k \<longleftrightarrow> k \<in> {OnFromOff, OnTransientOff, On}"

definition settled :: "KeyState \<Rightarrow> bool" where
  "settled k \<longleftrightarrow> k \<in> {Off, On}"

text \<open>A key sees events from the driver, interleaved with the end-of-frame step.\<close>

datatype key_action = KEvent bool | KFrame

fun key_act :: "key_action \<Rightarrow> KeyState \<Rightarrow> KeyState" where
  "key_act (KEvent b) k = KeyState_handle_incoming_state k b"
| "key_act KFrame k = KeyState_step k"

definition key_run :: "KeyState \<Rightarrow> key_action list \<Rightarrow> KeyState" where
  "key_run k acts = fold key_act acts k"

fun held_after :: "bool \<Rightarrow> key_action list \<Rightarrow> bool" where
  "held_after b [] = b"
| "held_after b (KEvent c # acts) = held_after c acts"
| "held_after b (KFrame # acts) = held_after b acts"

text \<open>The meaning the comments of \<^verbatim>\<open>KeyState\<close> give to the states, as a function of whether the key
  was held at the last frame and of the events of the current frame.\<close>

definition documented_state :: "bool \<Rightarrow> bool list \<Rightarrow> KeyState" where
  "documented_state was evs =
     (if (if evs = [] then was else last evs)
      then (if \<not> was then OnFromOff else if False \<in> set evs then OnTransientOff else On)
      else (if was then OffFromOn else if True \<in> set evs then OffTransientOn else Off))"

fun alternating :: "bool \<Rightarrow> bool list \<Rightarrow> bool" where
  "alternating held [] = True"
| "alternating held (b # bs) = (b = (\<not> held) \<and> alternating b bs)"

text \<open>The unbounded event log that the ring is a window of.\<close>

definition history_of :: "InputEvent list \<Rightarrow> Input \<Rightarrow> bool" where
  "history_of log inp \<longleftrightarrow>
     length (history_ring inp) = HISTORY_SIZE \<and>
     history_last_index inp = of_nat (length log) \<and>
     (\<forall>i < length log. length log \<le> i + HISTORY_SIZE \<longrightarrow>
        history_ring inp ! (Suc i mod HISTORY_SIZE) = log ! i)"

text \<open>The entry with number \<open>i\<close> of the log sits in slot \<open>i + 1\<close> (modulo the size): the index is
  incremented before the store.\<close>

definition history_at :: "Input \<Rightarrow> nat \<Rightarrow> InputEvent" where
  "history_at inp i = history_ring inp ! (Suc i mod HISTORY_SIZE)"

definition input_ok :: "Input \<Rightarrow> bool" where
  "input_ok inp \<longleftrightarrow> length (keys inp) = 1024 \<and> length (history_ring inp) = HISTORY_SIZE"

section \<open>The key state machine\<close>

lemma pressed_simps [simp]:
  "pressed OnFromOff" "pressed OnTransientOff" "pressed On"
  "\<not> pressed Off" "\<not> pressed OffFromOn" "\<not> pressed OffTransientOn"
  by (simp_all add: pressed_def)

lemma pressed_handle [simp]: "pressed (KeyState_handle_incoming_state k b) = b"
  by (cases k; cases b) auto

lemma pressed_step [simp]: "pressed (KeyState_step k) = pressed k"
  by (cases k) auto

lemma settled_step: "settled (KeyState_step k)"
  by (cases k) (auto simp: settled_def)

lemma repr_ge_128_iff: "128 \<le> KeyState_repr k \<longleftrightarrow> pressed k"
  by (cases k) (auto simp: word_le_nat_alt)

lemma key_run_simps [simp]:
  "key_run k [] = k"
  "key_run k (a # acts) = key_run (key_act a k) acts"
  by (simp_all add: key_run_def)

lemma pressed_key_run: "pressed (key_run k acts) = held_after (pressed k) acts"
  by (induction "pressed k" acts arbitrary: k rule: held_after.induct) auto

section \<open>The event ring\<close>

interpretation input_history: event_history history_of history_at HISTORY_SIZE
proof unfold_locales
  fix log s i
  assume "history_of log s" "i < length log" "length log \<le> i + HISTORY_SIZE"
  then show "history_at s i = log ! i"
    by (simp add: history_of_def history_at_def)
next
  fix s i
  show "history_at s (i + HISTORY_SIZE) = history_at s i"
    using mod_add_self2 [of "Suc i" HISTORY_SIZE] by (simp add: history_at_def)
qed

lemma unat_of_nat_mod_64: "unat (of_nat n :: usize) mod 64 = n mod 64"
  by (simp add: unat_of_nat take_bit_eq_mod mod_mod_cancel)

lemma history_of_new: "history_of [] Input_new"
  by (simp add: history_of_def Input_new_def HISTORY_SIZE_def)

lemma history_of_push:
  assumes "history_of log inp" and "Input_handle_incoming_state k b inp = Inr inp'"
  shows "history_of (log @ [\<lparr> trigger = b, key = k \<rparr>]) inp'"
proof -
  let ?e = "\<lparr> trigger = b, key = k \<rparr>" and ?n = "length log"
  have len: "length (history_ring inp) = 64" and idx: "history_last_index inp = of_nat ?n"
    and win: "\<And>i. i < ?n \<Longrightarrow> ?n \<le> i + 64 \<Longrightarrow> history_ring inp ! (Suc i mod 64) = log ! i"
    using assms(1) by (auto simp: history_of_def HISTORY_SIZE_def)
  have slot: "unat (history_last_index inp + 1) mod 64 = Suc ?n mod 64"
    using unat_of_nat_mod_64 [of "Suc ?n"] by (simp add: idx add.commute)
  have inp': "history_last_index inp' = of_nat (Suc ?n)"
    "history_ring inp' = (history_ring inp)[Suc ?n mod 64 := ?e]"
    using assms(2) slot
    by (auto simp: Input_handle_incoming_state_def Let_def HISTORY_SIZE_def idx res_iffs)
  have "(history_ring inp)[Suc ?n mod 64 := ?e] ! (Suc i mod 64) = (log @ [?e]) ! i"
    if "i < Suc ?n" "Suc ?n \<le> i + 64" for i
  proof (cases "i = ?n")
    case True
    then show ?thesis by (simp add: len)
  next
    case False
    with that have "i < ?n" "?n < i + 64" by auto
    then have "Suc i mod 64 \<noteq> Suc ?n mod 64"
      by (intro mod_neq_of_close) auto
    with \<open>i < ?n\<close> \<open>?n < i + 64\<close> show ?thesis
      by (simp add: nth_append win)
  qed
  then show ?thesis
    by (simp add: history_of_def HISTORY_SIZE_def inp' len)
qed

lemma Input_handle_total:
  assumes "input_ok inp"
  shows "Input_handle_incoming_state k b inp =
    (if unat k < 1024
     then Inr (inp\<lparr> history_last_index := history_last_index inp + 1,
        history_ring := (history_ring inp)
          [unat (history_last_index inp + 1) mod 64 := \<lparr> trigger = b, key = k \<rparr>],
        keys := (keys inp)[unat k := KeyState_handle_incoming_state (keys inp ! unat k) b] \<rparr>)
     else Inl IndexOutOfBounds)"
  using assms
  by (simp add: Input_handle_incoming_state_def input_ok_def array_get_def array_set_def
      HISTORY_SIZE_def Let_def)

lemma input_ok_new: "input_ok Input_new"
  by (simp add: input_ok_def Input_new_def)

lemma input_ok_handle:
  "input_ok inp \<Longrightarrow> Input_handle_incoming_state k b inp = Inr inp' \<Longrightarrow> input_ok inp'"
  by (auto simp: Input_handle_total input_ok_def split: if_splits)

lemma input_ok_step: "input_ok inp \<Longrightarrow> input_ok (Input_step inp)"
  by (simp add: input_ok_def Input_step_def)

lemma history_of_step: "history_of log inp \<Longrightarrow> history_of log (Input_step inp)"
  by (simp add: history_of_def Input_step_def)

section \<open>The global cell\<close>

lemma cell_run_append: "cell_run func (as @ bs) s = cell_run func bs (cell_run func as s)"
  by (induction func as s rule: cell_run.induct) auto

lemma cell_run_sequential:
  "fst (cell_run func (concat (map (\<lambda>t. [Load t, Store t]) ts)) (c, loc)) =
     fold (\<lambda>t. GLOBAL_update (func t)) ts c"
  by (induction ts arbitrary: c loc) (auto simp: GLOBAL_update_def)

section \<open>Properties\<close>

text \<open>whatever sequence of driver events and end-of-frame steps a key goes through, the byte the
  apps read for it is at least 128 exactly when the last event was a press (or, with no event, when
  the key was held to begin with).\<close>

theorem key_byte_tracks_last_event:
  "128 \<le> KeyState_repr (key_run k acts) \<longleftrightarrow> held_after (128 \<le> KeyState_repr k) acts"
  by (simp add: repr_ge_128_iff pressed_key_run)

text \<open>from a settled state (the one every end of frame leaves behind), up to two alternating
  events within a frame put the key in exactly the state that the comments of KeyState describe.\<close>

theorem key_state_as_documented:
  assumes "settled k" and "alternating (pressed k) evs" and "length evs \<le> 2"
  shows "fold (\<lambda>b s. KeyState_handle_incoming_state s b) evs k = documented_state (pressed k) evs"
proof -
  consider "evs = []" | a where "evs = [a]" | a b where "evs = [a, b]"
    using assms(3) by (cases evs; cases "tl evs") auto
  then show ?thesis
    using assms(1,2) by cases (auto simp: settled_def documented_state_def)
qed

theorem key_state_as_documented_witness:
  "settled On \<and> alternating (pressed On) [False, True] \<and>
   fold (\<lambda>b s. KeyState_handle_incoming_state s b) [False, True] On = OnTransientOff"
proof -
  have h: "settled On" "alternating (pressed On) [False, True]" "length [False, True] \<le> 2"
    by (simp_all add: settled_def)
  show ?thesis using h key_state_as_documented [OF h] by (simp add: documented_state_def)
qed

text \<open>with three events in one frame the documented meaning is lost: a key that was held at the
  last frame and is released, pressed and released again ends in Off, not in OffFromOn, and a key
  that is released, pressed, released and pressed again looks freshly pressed.\<close>

theorem key_state_loses_fast_taps:
  "fold (\<lambda>b s. KeyState_handle_incoming_state s b) [False, True, False] On = Off \<and>
   documented_state (pressed On) [False, True, False] = OffFromOn \<and>
   fold (\<lambda>b s. KeyState_handle_incoming_state s b) [False, True, False, True] On = OnFromOff \<and>
   documented_state (pressed On) [False, True, False, True] = OnTransientOff"
  by (simp add: documented_state_def)

text \<open>C21: recording an event on an input snapshot whose ring is a window on the log yields a window
  on the log with the event appended, for every running index, the wrap-around of the 64-bit index
  included; the snapshot the kernel starts from is a window on the empty log.\<close>

theorem history_refines_log:
  "history_of [] Input_new \<and>
   (\<forall>log inp k b inp'. history_of log inp \<longrightarrow> Input_handle_incoming_state k b inp = Inr inp' \<longrightarrow>
      history_of (log @ [\<lparr> trigger = b, key = k \<rparr>]) inp')"
  using history_of_new history_of_push by blast

theorem history_refines_log_witness:
  "\<exists>inp'. Input_handle_incoming_state 30 True Input_new = Inr inp' \<and>
     history_of [\<lparr> trigger = True, key = 30 \<rparr>] inp'"
proof -
  obtain inp' where h: "Input_handle_incoming_state 30 True Input_new = Inr inp'"
    using Input_handle_total [OF input_ok_new, of 30 True] by auto
  then have "history_of ([] @ [\<lparr> trigger = True, key = 30 \<rparr>]) inp'"
    using history_refines_log by blast
  with h show ?thesis by auto
qed

text \<open>an input event is accepted exactly when its key code is below 1024; any larger code
  (the driver forwards 16-bit codes) is an index out of range, a kernel panic.\<close>

theorem input_event_code_bound:
  assumes "input_ok inp"
  shows "(unat k < 1024 \<longrightarrow> (\<exists>inp'. Input_handle_incoming_state k b inp = Inr inp' \<and> input_ok inp' \<and>
            pressed (keys inp' ! unat k) = b \<and>
            (\<forall>j. j \<noteq> unat k \<longrightarrow> keys inp' ! j = keys inp ! j))) \<and>
         (1024 \<le> unat k \<longrightarrow> Input_handle_incoming_state k b inp = Inl IndexOutOfBounds)"
  using assms by (auto simp: Input_handle_total input_ok_def)

theorem input_event_code_bound_witness:
  "input_ok Input_new \<and> Input_handle_incoming_state 1024 True Input_new = Inl IndexOutOfBounds \<and>
   (\<exists>inp'. Input_handle_incoming_state 1023 True Input_new = Inr inp')"
  using input_event_code_bound [OF input_ok_new, of 1024 True]
    input_event_code_bound [OF input_ok_new, of 1023 True] input_ok_new by auto

text \<open>updates of the global cell that do not overlap compose, each seeing the result of the one
  before; when two callers interleave (both load before either stores) the first update is lost.\<close>

theorem global_update_composes_unless_interleaved:
  "fst (cell_run func (concat (map (\<lambda>t. [Load t, Store t]) ts)) (c, loc)) =
     fold (\<lambda>t. GLOBAL_update (func t)) ts c \<and>
   fst (cell_run (func :: nat \<Rightarrow> 'v \<Rightarrow> 'v) [Load 0, Load 1, Store 0, Store 1] (c, loc)) =
     GLOBAL_update (func 1) c"
  by (simp add: cell_run_sequential) (simp add: GLOBAL_update_def)

end
