(* ===== verification/Framebuffer.thy ===== *)
theory Framebuffer
  imports Fomos_Prelude
begin

text \<open>
  Pixels, \<^verbatim>\<open>src/bootloader/kernel/src/framebuffer.rs\<close>: the text writer on the boot frame buffer and the
  RGBA buffer \<^verbatim>\<open>FB\<close> that is shared with the apps.

  The font crate is the parameter \<open>font\<close>: the raster of each character it knows, and the width all of
  them have. Positions are natural numbers: they stay below a few screen sizes, far from the range of
  \<^verbatim>\<open>usize\<close>.

  The lemmas show that the writer stays inside the frame buffer and that a fresh \<^verbatim>\<open>FB\<close> holds the gradient.
\<close>

section \<open>Definitions\<close>

subsection \<open>The text writer\<close>

definition LINE_SPACING :: nat where "LINE_SPACING = 2"

definition LETTER_SPACING :: nat where "LETTER_SPACING = 0"

definition BORDER_PADDING :: nat where "BORDER_PADDING = 1"

definition CHAR_RASTER_HEIGHT :: nat where "CHAR_RASTER_HEIGHT = 16"

record RasterizedChar =
  rc_raster :: "u8 list list"
  rc_width :: nat

text \<open>\<^verbatim>\<open>get_raster\<close> by character, for the backup character, and \<^verbatim>\<open>get_raster_width\<close>.\<close>

record font =
  font_glyph :: "char \<Rightarrow> RasterizedChar option"
  font_backup :: "RasterizedChar option"
  font_width :: nat

definition get_char_raster :: "font \<Rightarrow> char \<Rightarrow> RasterizedChar res" where
  "get_char_raster F c =
     (case font_glyph F c of
        Some g \<Rightarrow> Inr g
      | None \<Rightarrow> (case font_backup F of Some g \<Rightarrow> Inr g | None \<Rightarrow> Inl (Panicked ''Should get raster of backup char.'')))"

datatype PixelFormat = PixelFormat_Rgb | PixelFormat_Bgr | PixelFormat_U8 | PixelFormat_Unknown

record FrameBufferInfo =
  info_width :: nat
  info_height :: nat
  pixel_format :: PixelFormat
  bytes_per_pixel :: nat
  stride :: nat

record FrameBufferWriter =
  framebuffer :: "u8 list"
  info :: FrameBufferInfo
  x_pos :: nat
  y_pos :: nat
  level :: nat

definition carriage_return :: "FrameBufferWriter \<Rightarrow> FrameBufferWriter" where
  "carriage_return w = w\<lparr> x_pos := BORDER_PADDING \<rparr>"

definition newline :: "FrameBufferWriter \<Rightarrow> FrameBufferWriter" where
  "newline w = carriage_return (w\<lparr> y_pos := y_pos w + (CHAR_RASTER_HEIGHT + LINE_SPACING) \<rparr>)"

definition FrameBufferWriter_clear :: "FrameBufferWriter \<Rightarrow> FrameBufferWriter" where
  "FrameBufferWriter_clear w = w\<lparr> x_pos := BORDER_PADDING, y_pos := BORDER_PADDING,
     framebuffer := map (\<lambda>_. 0) (framebuffer w) \<rparr>"

definition FrameBufferWriter_new :: "u8 list \<Rightarrow> FrameBufferInfo \<Rightarrow> FrameBufferWriter" where
  "FrameBufferWriter_new fb i = FrameBufferWriter_clear
     \<lparr> framebuffer = fb, info = i, x_pos = 0, y_pos = 0, level = 0 \<rparr>"

definition write_pixel :: "nat \<Rightarrow> nat \<Rightarrow> u8 \<Rightarrow> FrameBufferWriter \<Rightarrow> FrameBufferWriter res" where
  "write_pixel x y intensity w =
     (let pixel_offset = y * stride (info w) + x; r = intensity in
      res_bind (array_get [intensity, 0] (level w)) (\<lambda>g.
      res_bind (array_get [intensity div 2, 0] (level w)) (\<lambda>b.
      res_bind (case pixel_format (info w) of
          PixelFormat_Rgb \<Rightarrow> Inr [r, g, b, 0]
        | PixelFormat_Bgr \<Rightarrow> Inr [b, g, r, 0]
        | PixelFormat_U8 \<Rightarrow> Inr [if intensity > 200 then 0xf else 0, 0, 0, 0]
        | PixelFormat_Unknown \<Rightarrow> Inl (Panicked ''pixel format not supported in logger''))
        (\<lambda>color.
          let n = bytes_per_pixel (info w); byte_offset = pixel_offset * n in
          if length (framebuffer w) < byte_offset + n \<or> length color < n then Inl SliceOutOfRange
          else let fb = take byte_offset (framebuffer w) @ take n color @ drop (byte_offset + n) (framebuffer w)
               in res_bind (array_get fb byte_offset) (\<lambda>_. Inr (w\<lparr> framebuffer := fb \<rparr>))))))"

definition write_rendered_char :: "RasterizedChar \<Rightarrow> FrameBufferWriter \<Rightarrow> FrameBufferWriter res" where
  "write_rendered_char rc w =
     res_map (\<lambda>w. w\<lparr> x_pos := x_pos w + (rc_width rc + LETTER_SPACING) \<rparr>)
       (res_fold (\<lambda>(y, row). res_fold (\<lambda>(x, byte) w. write_pixel (x_pos w + x) (y_pos w + y) byte w) (enumerate 0 row))
          (enumerate 0 (rc_raster rc)) w)"

definition write_char :: "font \<Rightarrow> char \<Rightarrow> FrameBufferWriter \<Rightarrow> FrameBufferWriter res" where
  "write_char F c w =
     (if c = CHR 0x0A then Inr (newline w)
      else if c = CHR 0x0D then Inr (carriage_return w)
      else
        (let new_xpos = x_pos w + font_width F;
             w = (if new_xpos \<ge> info_width (info w) then newline w else w);
             new_ypos = y_pos w + CHAR_RASTER_HEIGHT + BORDER_PADDING;
             w = (if new_ypos \<ge> info_height (info w) then FrameBufferWriter_clear w else w)
         in res_bind (get_char_raster F c) (\<lambda>rc. write_rendered_char rc w)))"

text \<open>The characters of a string are not written: the loop of \<^verbatim>\<open>write_str\<close> is commented out.\<close>

definition FrameBufferWriter_write_str :: "string \<Rightarrow> FrameBufferWriter \<Rightarrow> FrameBufferWriter" where
  "FrameBufferWriter_write_str s w = w"

subsection \<open>The shared buffer\<close>

record RGBA =
  px_r :: u8
  px_g :: u8
  px_b :: u8
  px_a :: u8

record FB =
  pixels :: "RGBA list"
  backbuffer :: "RGBA list"
  fb_w :: nat
  fb_h :: nat

definition FB_new :: "FrameBufferInfo \<Rightarrow> FB" where
  "FB_new i =
     (let w = info_width i; h = info_height i;
          (ps, bs) = fold (\<lambda>y. fold (\<lambda>x (ps, bs).
              let ps = ps @ [\<lparr> px_r = of_nat x, px_g = of_nat y, px_b = 0, px_a = 0 \<rparr>]
              in (ps, bs @ [ps ! (length ps - 1)])) [0..<w]) [0..<h] ([], [])
      in \<lparr> pixels = ps, backbuffer = bs, fb_w = w, fb_h = h \<rparr>)"

text \<open>\<^verbatim>\<open>update\<close> takes over raw memory: \<open>vec\<close> is the \<open>h * w\<close> pixels there.\<close>

definition FB_update :: "(nat \<Rightarrow> RGBA list) \<Rightarrow> nat \<Rightarrow> nat \<Rightarrow> FB \<Rightarrow> FB" where
  "FB_update vec w h fb = fb\<lparr> pixels := vec (h * w), fb_w := w, fb_h := h \<rparr>"

text \<open>What an app gets.\<close>

record FBShare =
  share_pixels :: "RGBA list"
  share_w :: nat
  share_h :: nat

definition FB_share :: "FB \<Rightarrow> FBShare" where
  "FB_share fb = \<lparr> share_pixels = pixels fb, share_w = fb_w fb, share_h = fb_h fb \<rparr>"

subsection \<open>Specification vocabulary\<close>

definition glyph_ok :: "font \<Rightarrow> RasterizedChar \<Rightarrow> bool" where
  "glyph_ok F g \<longleftrightarrow> rc_width g = font_width F \<and> length (rc_raster g) = CHAR_RASTER_HEIGHT \<and>
     (\<forall>row \<in> set (rc_raster g). length row = font_width F)"

text \<open>What the crate documents of a font.\<close>

definition font_ok :: "font \<Rightarrow> bool" where
  "font_ok F \<longleftrightarrow> (\<forall>c g. font_glyph F c = Some g \<longrightarrow> glyph_ok F g) \<and> (\<exists>g. font_backup F = Some g \<and> glyph_ok F g)"

text \<open>A frame buffer the writer supports, large enough for one character.\<close>

definition writer_ok :: "font \<Rightarrow> FrameBufferWriter \<Rightarrow> bool" where
  "writer_ok F w \<longleftrightarrow> level w \<le> 1 \<and> pixel_format (info w) \<noteq> PixelFormat_Unknown \<and>
     0 < bytes_per_pixel (info w) \<and> bytes_per_pixel (info w) \<le> 4 \<and> info_width (info w) \<le> stride (info w) \<and>
     info_height (info w) * stride (info w) * bytes_per_pixel (info w) \<le> length (framebuffer w) \<and>
     1 + font_width F < info_width (info w) \<and> 18 < info_height (info w)"

definition fb_ok :: "FB \<Rightarrow> bool" where
  "fb_ok fb \<longleftrightarrow> length (pixels fb) = fb_w fb * fb_h fb"

text \<open>The pixels of a fresh buffer.\<close>

definition gradient :: "nat \<Rightarrow> nat \<Rightarrow> RGBA" where
  "gradient x y = \<lparr> px_r = of_nat x, px_g = of_nat y, px_b = 0, px_a = 0 \<rparr>"

section \<open>The writer stays inside\<close>

lemma pixel_offset_bound:
  fixes x y width height st n :: nat
  assumes "x < width" and "y < height" and "width \<le> st"
  shows "(y * st + x) * n + n \<le> height * st * n"
proof -
  have "y * st + x + 1 \<le> y * st + st" using assms by simp
  also have "\<dots> \<le> height * st" using assms(2) by (metis Suc_leI add.commute mult.commute mult_Suc_right mult_le_mono2)
  finally have "(y * st + x + 1) * n \<le> height * st * n" by (rule mult_le_mono1)
  then show ?thesis by (simp add: algebra_simps)
qed

lemma write_pixel_ok:
  assumes "writer_ok F w" and "x < info_width (info w)" and "y < info_height (info w)"
  shows "\<exists>fb. write_pixel x y v w = Inr (w\<lparr> framebuffer := fb \<rparr>) \<and> length fb = length (framebuffer w)"
proof -
  let ?i = "info w" and ?fb = "framebuffer w"
  let ?n = "bytes_per_pixel ?i" and ?o = "(y * stride ?i + x) * bytes_per_pixel ?i"
  have n: "0 < ?n" "?n \<le> 4" and lv: "level w < 2" using assms(1) by (auto simp: writer_ok_def)
  have "?o + ?n \<le> info_height ?i * stride ?i * ?n"
    using assms by (intro pixel_offset_bound) (auto simp: writer_ok_def)
  with assms(1) have o: "?o + ?n \<le> length ?fb" by (simp add: writer_ok_def)
  obtain color where color: "(case pixel_format ?i of PixelFormat_Rgb \<Rightarrow> Inr [v, [v, 0] ! level w, [v div 2, 0] ! level w, 0]
        | PixelFormat_Bgr \<Rightarrow> Inr [[v div 2, 0] ! level w, [v, 0] ! level w, v, 0]
        | PixelFormat_U8 \<Rightarrow> Inr [if v > 200 then 0xf else 0, 0, 0, 0]
        | PixelFormat_Unknown \<Rightarrow> Inl (Panicked ''pixel format not supported in logger'')) = (Inr color :: u8 list res)"
    and len: "length color = 4"
    using assms(1) by (cases "pixel_format ?i") (auto simp: writer_ok_def)
  let ?fb' = "take ?o ?fb @ take ?n color @ drop (?o + ?n) ?fb"
  have "length ?fb' = length ?fb" using o n len by simp
  moreover have "write_pixel x y v w = Inr (w\<lparr> framebuffer := ?fb' \<rparr>)"
    using o n len lv color by (simp add: write_pixel_def array_get_def Let_def)
  ultimately show ?thesis by blast
qed

lemma writer_ok_pixels: "writer_ok F w \<Longrightarrow> length fb = length (framebuffer w) \<Longrightarrow> writer_ok F (w\<lparr> framebuffer := fb \<rparr>)"
  by (simp add: writer_ok_def)

lemma write_rendered_char_ok:
  assumes ok: "writer_ok F w" and g: "glyph_ok F rc" and x: "x_pos w + font_width F \<le> info_width (info w)"
    and y: "y_pos w + CHAR_RASTER_HEIGHT \<le> info_height (info w)"
  shows "\<exists>fb. write_rendered_char rc w = Inr (w\<lparr> framebuffer := fb, x_pos := x_pos w + font_width F \<rparr>) \<and>
    length fb = length (framebuffer w)"
proof -
  let ?P = "\<lambda>s. \<exists>fb. s = w\<lparr> framebuffer := fb \<rparr> \<and> length fb = length (framebuffer w)"
  let ?px = "\<lambda>y (x, byte) s. write_pixel (x_pos s + x) (y_pos s + y) byte s"
  have px: "\<exists>s'. ?px j (i, b) s = Inr s' \<and> ?P s'" if "?P s" "i < font_width F" "j < CHAR_RASTER_HEIGHT" for i j b s
    using that write_pixel_ok [OF writer_ok_pixels [OF ok], of _ "x_pos w + i" "y_pos w + j" b] x y by fastforce
  have row: "\<exists>s'. res_fold (?px j) (enumerate 0 r) s = Inr s' \<and> ?P s'"
    if "?P s" "length r = font_width F" "j < CHAR_RASTER_HEIGHT" for r j s
  proof (rule res_fold_total [where P = ?P])
    show "\<exists>s'. ?px j z t = Inr s' \<and> ?P s'" if "z \<in> set (enumerate 0 r)" "?P t" for z t
      using px [OF that(2)] that(1) \<open>length r = font_width F\<close> \<open>j < CHAR_RASTER_HEIGHT\<close>
      by (cases z) (auto simp: in_set_enumerate_eq)
  qed (rule that(1))
  have "\<exists>s'. res_fold (\<lambda>(y, row). res_fold (?px y) (enumerate 0 row)) (enumerate 0 (rc_raster rc)) w = Inr s' \<and> ?P s'"
  proof (rule res_fold_total [where P = ?P])
    show "?P w" by (rule exI [of _ "framebuffer w"]) simp
    show "\<exists>s'. (case z of (y, r) \<Rightarrow> res_fold (?px y) (enumerate 0 r)) t = Inr s' \<and> ?P s'"
      if "z \<in> set (enumerate 0 (rc_raster rc))" "?P t" for z t
      using row [OF that(2)] that(1) g by (cases z) (auto simp: in_set_enumerate_eq glyph_ok_def)
  qed
  then obtain fb where "res_fold (\<lambda>(y, row). res_fold (?px y) (enumerate 0 row)) (enumerate 0 (rc_raster rc)) w =
      Inr (w\<lparr> framebuffer := fb \<rparr>)" "length fb = length (framebuffer w)" by auto
  with g show ?thesis by (auto simp: write_rendered_char_def glyph_ok_def LETTER_SPACING_def)
qed

section \<open>The shared buffer\<close>

lemma FB_new_rows:
  "FB_new i = \<lparr> pixels = concat (map (\<lambda>y. map (\<lambda>x. gradient x y) [0..<info_width i]) [0..<info_height i]),
     backbuffer = concat (map (\<lambda>y. map (\<lambda>x. gradient x y) [0..<info_width i]) [0..<info_height i]),
     fb_w = info_width i, fb_h = info_height i \<rparr>"
proof -
  define f :: "nat \<Rightarrow> nat \<Rightarrow> RGBA list \<times> RGBA list \<Rightarrow> RGBA list \<times> RGBA list" where
    "f = (\<lambda>y x (ps, bs). let ps = ps @ [\<lparr> px_r = of_nat x, px_g = of_nat y, px_b = 0, px_a = 0 \<rparr>]
              in (ps, bs @ [ps ! (length ps - 1)]))"
  have row: "fold (f y) xs (ps, bs) = (ps @ map (\<lambda>x. gradient x y) xs, bs @ map (\<lambda>x. gradient x y) xs)" for xs y ps bs
    by (induction xs arbitrary: ps bs) (simp_all add: f_def gradient_def Let_def)
  have "fold (\<lambda>y. fold (f y) xs) ys (ps, bs) =
      (ps @ concat (map (\<lambda>y. map (\<lambda>x. gradient x y) xs) ys), bs @ concat (map (\<lambda>y. map (\<lambda>x. gradient x y) xs) ys))"
    for xs ys ps bs
    by (induction ys arbitrary: ps bs) (simp_all add: row)
  from this [of "[0..<info_width i]" "[0..<info_height i]" "[]" "[]"] show ?thesis
    by (simp add: FB_new_def f_def Let_def)
qed

lemma FB_new_pixel:
  assumes "x < info_width i" and "y < info_height i"
  shows "pixels (FB_new i) ! (y * info_width i + x) = gradient x y"
proof -
  let ?rows = "map (\<lambda>y. map (\<lambda>x. gradient x y) [0..<info_width i]) [0..<info_height i]"
  have "concat ?rows ! (y * info_width i + x) = ?rows ! y ! x"
    using assms by (intro nth_concat_uniform) auto
  with assms show ?thesis by (simp add: FB_new_rows)
qed

lemma fb_ok_new: "fb_ok (FB_new i)"
proof -
  let ?rows = "map (\<lambda>y. map (\<lambda>x. gradient x y) [0..<info_width i]) [0..<info_height i]"
  have "length (concat ?rows) = length ?rows * info_width i" by (rule length_concat_uniform) auto
  then show ?thesis by (simp add: fb_ok_def FB_new_rows mult.commute)
qed

lemma fb_ok_update: "(\<And>n. length (vec n) = n) \<Longrightarrow> fb_ok (FB_update vec w h fb)"
  by (simp add: fb_ok_def FB_update_def)

section \<open>Properties\<close>



end
