(* ===== verification/Console_Window.thy ===== *)
theory Console_Window
  imports Console_Keys Input_State Framebuffer
begin

text \<open>
  The window of the console app, \<^verbatim>\<open>src/app_console/src/main.rs\<close>: its state, moving, resizing and clamping
  it, the blurred copy of the screen behind it, and drawing the window and its text. The shell inside
  the window is the subject of the theory \<^verbatim>\<open>Console_Shell\<close>.

  Parameters stand for what the source only calls: the layout crate (the rectangles it computes), the
  font, and the operations of \<^verbatim>\<open>f32\<close>, so that nothing depends on rounding. Coordinates are \<^verbatim>\<open>usize\<close>
  words, because a window that is dragged over the left or upper border wraps.

  The lemmas show that after the clamping everything is drawn inside the frame buffer, and that the
  small copy of the screen does not survive a change of the screen's size.
\<close>

section \<open>Definitions\<close>

subsection \<open>State\<close>

record Atom =
  is_user :: bool
  atom_text :: string

datatype Mode = Shell | FomoscriptREPL

record 'c Store =
  st_x :: usize
  st_y :: usize
  st_x2 :: usize
  st_y2 :: usize
  resizing :: "bool list"
  moving :: "(usize \<times> usize) option"
  b1 :: "RGBA list"
  b2 :: "RGBA list"
  st_step :: usize
  input_history_last_index :: usize
  atoms :: "Atom list"
  active :: bool
  st_local :: Local
  shift :: bool
  altg :: bool
  script_ctx :: 'c
  mode :: Mode

record AppFB =
  app_pixels :: "RGBA list"
  app_w :: usize
  app_h :: usize

record Context =
  ctx_start_time :: u64
  ctx_pid :: u64
  ctx_fb :: AppFB
  ctx_input :: Input

subsection \<open>The blurred background\<close>

text \<open>The operations of \<^verbatim>\<open>f32\<close>; \<open>f_lit\<close> is a literal of the source.\<close>

record 'f f32_ops =
  f_lit :: "string \<Rightarrow> 'f"
  f_of_int :: "int \<Rightarrow> 'f"
  f_to_u8 :: "'f \<Rightarrow> u8"
  f_add :: "'f \<Rightarrow> 'f \<Rightarrow> 'f"
  f_sub :: "'f \<Rightarrow> 'f \<Rightarrow> 'f"
  f_mul :: "'f \<Rightarrow> 'f \<Rightarrow> 'f"
  f_div :: "'f \<Rightarrow> 'f \<Rightarrow> 'f"
  f_neg :: "'f \<Rightarrow> 'f"
  f_exp :: "'f \<Rightarrow> 'f"
  f_powi :: "'f \<Rightarrow> int \<Rightarrow> 'f"

definition KSIZE :: nat where "KSIZE = 5"

definition KH :: int where "KH = 2"

definition DIV :: int where "DIV = 4"

definition ORANGE :: RGBA where "ORANGE = \<lparr> px_r = 255, px_g = 128, px_b = 0, px_a = 0 \<rparr>"

definition GREY3 :: RGBA where "GREY3 = \<lparr> px_r = 150, px_g = 150, px_b = 150, px_a = 0 \<rparr>"

definition GREY2 :: RGBA where "GREY2 = \<lparr> px_r = 80, px_g = 80, px_b = 80, px_a = 0 \<rparr>"

definition GREY :: RGBA where "GREY = \<lparr> px_r = 50, px_g = 50, px_b = 50, px_a = 0 \<rparr>"

definition put :: "'f f32_ops \<Rightarrow> RGBA \<Rightarrow> 'f \<times> 'f \<times> 'f \<Rightarrow> RGBA" where
  "put fl pixel v = (let (x, y, z) = v in pixel\<lparr> px_r := f_to_u8 fl x, px_g := f_to_u8 fl y, px_b := f_to_u8 fl z \<rparr>)"

definition clamp_coord :: "int \<Rightarrow> int \<Rightarrow> int" where
  "clamp_coord x wi = (if x < 0 then 0 else if x \<ge> wi - 1 then wi - 1 else x)"

definition get :: "'f f32_ops \<Rightarrow> int \<Rightarrow> int \<Rightarrow> RGBA list \<Rightarrow> int \<Rightarrow> int \<Rightarrow> ('f \<times> 'f \<times> 'f) res" where
  "get fl x y src wi hi =
     (let x = clamp_coord x wi; y = clamp_coord y hi; index = nat (x + y * wi)
      in res_map (\<lambda>r. (f_of_int fl (uint (px_r r)), f_of_int fl (uint (px_g r)), f_of_int fl (uint (px_b r))))
           (array_get src index))"

definition kernel :: "'f f32_ops \<Rightarrow> 'f \<Rightarrow> 'f list" where
  "kernel fl sigma =
     (let mid = int KSIZE div 2;
          variance = f_powi fl sigma 2;
          factor = f_div fl (f_lit fl ''1.0'') (f_mul fl (f_mul fl (f_lit fl ''2.0'') (f_lit fl ''3.141592'')) variance);
          values = map (\<lambda>i. let x = f_of_int fl (int i - mid)
             in f_mul fl factor (f_exp fl (f_div fl (f_neg fl (f_powi fl x 2)) (f_mul fl (f_lit fl ''2.0'') variance)))) [0..<KSIZE];
          sum = fold (\<lambda>v s. f_add fl s v) values (f_lit fl ''0.0'');
          sum = f_mul fl sum (f_lit fl ''0.997'')
      in map (\<lambda>v. f_div fl v sum) values)"

definition blur_sum :: "'f f32_ops \<Rightarrow> int \<Rightarrow> int \<Rightarrow> RGBA list \<Rightarrow> int \<Rightarrow> int \<Rightarrow> 'f list \<Rightarrow> int \<Rightarrow> int \<Rightarrow> ('f \<times> 'f \<times> 'f) res" where
  "blur_sum fl fx fy src wi hi boxes x y =
     res_fold (\<lambda>(k, coef) (ax, ay, az).
         let dk = int k - KH in
         res_bind (get fl (x + fx * dk) (y + fy * dk) src wi hi)
           (\<lambda>(vx, vy, vz). let sc = (\<lambda>v. f_mul fl (f_mul fl v coef) (f_lit fl ''0.99''))
              in Inr (f_add fl ax (sc vx), f_add fl ay (sc vy), f_add fl az (sc vz))))
       (enumerate 0 boxes) (f_lit fl ''0.0'', f_lit fl ''0.0'', f_lit fl ''0.0'')"

text \<open>The positions of a loop over rows and columns.\<close>

definition grid :: "nat \<Rightarrow> nat \<Rightarrow> (nat \<times> nat) list" where
  "grid wi hi = concat (map (\<lambda>y. map (\<lambda>x. (x, y)) [0..<wi]) [0..<hi])"

definition blur :: "'f f32_ops \<Rightarrow> int \<Rightarrow> int \<Rightarrow> RGBA list \<Rightarrow> RGBA list \<Rightarrow> nat \<Rightarrow> nat \<Rightarrow> 'f list \<Rightarrow> RGBA list res" where
  "blur fl fx fy src dst wi hi boxes =
     res_fold (\<lambda>(x, y) dst.
         res_bind (blur_sum fl fx fy src (int wi) (int hi) boxes (int x) (int y)) (\<lambda>avg.
         res_bind (array_get dst (x + y * wi)) (\<lambda>p.
         Inr (dst[x + y * wi := put fl p avg])))) (grid wi hi) dst"

definition mix_pixel :: "'f f32_ops \<Rightarrow> RGBA \<Rightarrow> RGBA \<Rightarrow> RGBA" where
  "mix_pixel fl v s =
     (let a = f_lit fl ''0.03''; b = f_sub fl (f_lit fl ''1.0'') a;
          m = (\<lambda>p q. f_to_u8 fl (f_add fl (f_mul fl (f_of_int fl (uint p)) a) (f_mul fl (f_of_int fl (uint q)) b)))
      in \<lparr> px_r = m (px_r v) (px_r s), px_g = m (px_g v) (px_g s), px_b = m (px_b v) (px_b s), px_a = 0 \<rparr>)"

text \<open>The small copy of the screen: filled on the first frame, mixed with the screen on the others.\<close>

definition fill_buffers :: "RGBA list \<Rightarrow> nat \<Rightarrow> nat \<Rightarrow> RGBA list \<times> RGBA list \<Rightarrow> (RGBA list \<times> RGBA list) res" where
  "fill_buffers px wi hi =
     res_fold (\<lambda>(x, y) (src, dst).
       res_bind (array_get px (x * 4 + (y * 4) * (wi * 4))) (\<lambda>v. Inr (src @ [v], dst @ [v]))) (grid wi hi)"

definition mix_buffer :: "'f f32_ops \<Rightarrow> RGBA list \<Rightarrow> nat \<Rightarrow> nat \<Rightarrow> RGBA list \<Rightarrow> RGBA list res" where
  "mix_buffer fl px wi hi =
     res_fold (\<lambda>(x, y) src.
       res_bind (array_get px (x * 4 + (y * 4) * (wi * 4))) (\<lambda>v.
       res_bind (array_get src (x + y * wi)) (\<lambda>s.
       Inr (src[x + y * wi := mix_pixel fl v s])))) (grid wi hi)"

definition background :: "'f f32_ops \<Rightarrow> RGBA list \<Rightarrow> nat \<Rightarrow> nat \<Rightarrow> 'c Store \<Rightarrow> (RGBA list \<times> 'c Store) res" where
  "background fl px wi hi st =
     (let even = (unat (st_step st) mod 2 = 0);
          (src, dst) = (if even then (b1 st, b2 st) else (b2 st, b1 st)) in
      res_bind (if length src = 0 then fill_buffers px wi hi (src, dst)
                else res_map (\<lambda>src. (src, dst)) (mix_buffer fl px wi hi src))
        (\<lambda>(src, dst).
          let boxes = kernel fl (f_lit fl ''1.0''); fx = (if even then 1 else 0) in
          res_map (\<lambda>dst. (dst, if even then st\<lparr> b1 := src, b2 := dst \<rparr> else st\<lparr> b2 := src, b1 := dst \<rparr>))
            (blur fl fx (1 - fx) src dst wi hi boxes)))"

subsection \<open>The window\<close>

text \<open>\<^verbatim>\<open>(a as isize - b as isize).abs() < 10\<close>.\<close>

definition near :: "usize \<Rightarrow> usize \<Rightarrow> bool" where
  "near a b = (let d = a - b; d = (if sint d < 0 then - d else d) in sint d < 10)"

definition left_button :: "Input \<Rightarrow> u8" where
  "left_button inp = KeyState_repr (keys inp ! 272)"

definition grab_edges :: "Input \<Rightarrow> 'c Store \<Rightarrow> bool list" where
  "grab_edges inp st =
     (let mx = mouse_x inp; my = mouse_y inp;
          inside_x = (st_x st \<le> mx \<and> st_x2 st \<ge> mx);
          rs = resizing st;
          rs = (if near (st_x st) mx then rs[3 := True] else rs);
          rs = (if near (st_x2 st) mx then rs[1 := True] else rs);
          rs = (if near (st_y st) my \<and> inside_x then rs[0 := True] else rs)
      in if near (st_y2 st) my \<and> inside_x then rs[2 := True] else rs)"

definition grab :: "Input \<Rightarrow> 'c Store \<Rightarrow> 'c Store" where
  "grab inp st =
     (let mx = mouse_x inp; my = mouse_y inp; rs = grab_edges inp st in
      if \<not> list_ex id rs then
        (if st_x st \<le> mx \<and> st_x2 st \<ge> mx \<and> st_y st \<le> my \<and> st_y2 st \<ge> my
         then st\<lparr> resizing := rs, moving := Some (mx, my), active := True \<rparr>
         else st\<lparr> resizing := rs, active := False \<rparr>)
      else st\<lparr> resizing := rs \<rparr>)"

definition move_window :: "Input \<Rightarrow> 'c Store \<Rightarrow> 'c Store" where
  "move_window inp st =
     (case moving st of
        None \<Rightarrow> st
      | Some (x0, y0) \<Rightarrow>
          (let dx = mouse_x inp - x0; dy = mouse_y inp - y0
           in st\<lparr> st_x := st_x st + dx, st_x2 := st_x2 st + dx, st_y := st_y st + dy, st_y2 := st_y2 st + dy,
                  moving := Some (mouse_x inp, mouse_y inp) \<rparr>))"

definition resize_window :: "Input \<Rightarrow> 'c Store \<Rightarrow> 'c Store" where
  "resize_window inp st =
     (let rs = resizing st;
          st = (if rs ! 0 then st\<lparr> st_y := mouse_y inp \<rparr> else st);
          st = (if rs ! 1 then st\<lparr> st_x2 := mouse_x inp \<rparr> else st);
          st = (if rs ! 2 then st\<lparr> st_y2 := mouse_y inp \<rparr> else st)
      in if rs ! 3 then st\<lparr> st_x := mouse_x inp \<rparr> else st)"

definition clamp_window :: "AppFB \<Rightarrow> 'c Store \<Rightarrow> 'c Store" where
  "clamp_window fb st =
     (let st = (if st_x st > 10000 then st\<lparr> st_x := 0 \<rparr> else st);
          st = (if st_y st > 10000 then st\<lparr> st_y := 0 \<rparr> else st);
          st = (if st_x2 st \<ge> app_w fb then st\<lparr> st_x2 := app_w fb - 1 \<rparr> else st)
      in if st_y2 st \<ge> app_h fb then st\<lparr> st_y2 := app_h fb - 1 \<rparr> else st)"

definition window_input :: "Input \<Rightarrow> AppFB \<Rightarrow> 'c Store \<Rightarrow> 'c Store" where
  "window_input inp fb st =
     (let st = (if left_button inp < 128 then st\<lparr> resizing := replicate 4 False, moving := None \<rparr> else st);
          st = (if left_button inp = 128 then grab inp st else st);
          st = move_window inp st;
          st = resize_window inp st
      in clamp_window fb st)"

definition pt_in_rect :: "usize \<Rightarrow> usize \<Rightarrow> usize \<times> usize \<times> usize \<times> usize \<Rightarrow> bool" where
  "pt_in_rect px py r = (let (x, y, x2, y2) = r in px \<ge> x \<and> px \<le> x2 \<and> py \<ge> y \<and> py \<le> y2)"

type_synonym rect = "usize \<times> usize \<times> usize \<times> usize"

text \<open>A node of the layout (location and size, as the layout crate computes them for the root of the
  given width and height) as a rectangle of the screen.\<close>

definition get_rect :: "'c Store \<Rightarrow> rect \<Rightarrow> rect" where
  "get_rect st l = (let (x, y, w, h) = l; x2 = x + w; y2 = y + h in (x + st_x st, y + st_y st, x2 + st_x st, y2 + st_y st))"

definition usize_range :: "usize \<Rightarrow> usize \<Rightarrow> usize list" where
  "usize_range a b = map of_nat [unat a..<Suc (unat b)]"

definition draw_pixel :: "rect \<times> rect list \<Rightarrow> 'c Store \<Rightarrow> RGBA list \<Rightarrow> usize \<times> usize \<Rightarrow> AppFB \<Rightarrow> AppFB res" where
  "draw_pixel layout st dst pos fb =
     (let (x, y) = pos; (header, body) = layout; i = unat (x + y * app_w fb);
          idle = (if active st then GREY2 else GREY) in
      res_bind (array_get (app_pixels fb) i) (\<lambda>p.
        let (p, drawn) = (if pt_in_rect x y header then (idle, True) else (p, False));
            (p, drawn) = fold (\<lambda>(k, r) (p, drawn).
              if pt_in_rect x y r then (if k mod 2 = 0 then GREY3 else ORANGE, True) else (p, drawn))
              (enumerate 0 body) (p, drawn);
            (p, drawn) = (if x = st_x st \<or> x = st_x2 st \<or> y = st_y st \<or> y = st_y2 st
              then (if moving st \<noteq> None then ORANGE else idle, True) else (p, drawn));
            (p, drawn) = (if x = st_x st \<and> resizing st ! 3 \<or> x = st_x2 st \<and> resizing st ! 1 \<or>
                y = st_y st \<and> resizing st ! 0 \<or> y = st_y2 st \<and> resizing st ! 2
              then (ORANGE, True) else (p, drawn))
        in res_bind (if drawn then Inr p else array_get dst (unat (x div 4 + (y div 4) * (app_w fb div 4))))
             (\<lambda>p. Inr (fb\<lparr> app_pixels := (app_pixels fb)[i := p] \<rparr>))))"

definition draw_window :: "rect \<times> rect list \<Rightarrow> 'c Store \<Rightarrow> RGBA list \<Rightarrow> AppFB \<Rightarrow> AppFB res" where
  "draw_window layout st dst =
     res_fold (\<lambda>y. res_fold (\<lambda>x. draw_pixel layout st dst (x, y)) (usize_range (st_x st) (st_x2 st)))
       (usize_range (st_y st) (st_y2 st))"

subsection \<open>Text\<close>

definition text_pixel :: "'c Store \<Rightarrow> bool \<Rightarrow> usize \<times> usize \<Rightarrow> u8 \<Rightarrow> AppFB \<Rightarrow> AppFB res" where
  "text_pixel st blue pos pixel fb =
     (let (x, y) = pos in
      if x \<le> 0 \<or> x \<ge> app_w fb \<or> y \<le> 0 \<or> y \<ge> app_h fb \<or> x \<ge> st_x2 st \<or> y \<ge> st_y2 st then Inr fb
      else let i = unat (x + y * app_w fb) in
        res_bind (array_get (app_pixels fb) i) (\<lambda>p.
          let p = p\<lparr> px_r := max pixel (px_r p), px_g := max pixel (px_g p) \<rparr>;
              p = (if blue then p\<lparr> px_b := max pixel (px_b p) \<rparr> else p)
          in Inr (fb\<lparr> app_pixels := (app_pixels fb)[i := p] \<rparr>)))"

definition draw_char :: "font \<Rightarrow> 'c Store \<Rightarrow> bool \<Rightarrow> usize \<Rightarrow> usize \<Rightarrow> char \<Rightarrow> AppFB \<Rightarrow> AppFB res" where
  "draw_char F st blue cursor_x cursor_y c fb =
     (case font_glyph F c of
        None \<Rightarrow> Inl (Panicked ''unsupported char'')
      | Some g \<Rightarrow>
          res_fold (\<lambda>(row_i, row). res_fold (\<lambda>(col_i, pixel).
              text_pixel st blue (st_x st + of_nat col_i + 2 + cursor_x, st_y st + of_nat row_i + 2 + cursor_y) pixel)
            (enumerate 0 row)) (enumerate 0 (rc_raster g)) fb)"

fun draw_title :: "font \<Rightarrow> 'c Store \<Rightarrow> usize \<Rightarrow> string \<Rightarrow> AppFB \<Rightarrow> AppFB res" where
  "draw_title F st cursor_x [] fb = Inr fb"
| "draw_title F st cursor_x (c # cs) fb =
     res_bind (draw_char F st True cursor_x 0 c fb) (draw_title F st (cursor_x + of_nat (font_width F)) cs)"

fun draw_line :: "font \<Rightarrow> 'c Store \<Rightarrow> bool \<Rightarrow> usize \<times> usize \<Rightarrow> string \<Rightarrow> AppFB \<Rightarrow> (usize \<times> AppFB) res" where
  "draw_line F st user (cursor_x, cursor_y) [] fb = Inr (cursor_y, fb)"
| "draw_line F st user (cursor_x, cursor_y) (c # cs) fb =
     (if c = CHR 0x0A then draw_line F st user (0, cursor_y + 16) cs fb
      else res_bind (draw_char F st user cursor_x cursor_y c fb)
             (draw_line F st user (cursor_x + of_nat (font_width F), cursor_y) cs))"

definition draw_history :: "font \<Rightarrow> 'c Store \<Rightarrow> AppFB \<Rightarrow> AppFB res" where
  "draw_history F st fb =
     res_map snd (res_fold (\<lambda>a (cursor_y, fb).
         res_map (\<lambda>(cursor_y, fb). (cursor_y + 16, fb)) (draw_line F st (is_user a) (0, cursor_y) (atom_text a) fb))
       (atoms st) (20, fb))"

subsection \<open>Specification vocabulary\<close>

definition app_fb_ok :: "AppFB \<Rightarrow> bool" where
  "app_fb_ok fb \<longleftrightarrow> length (app_pixels fb) = unat (app_w fb) * unat (app_h fb) \<and>
     0 < app_w fb \<and> 0 < app_h fb \<and> unat (app_w fb) * unat (app_h fb) < 2 ^ 63"

text \<open>The right and the lower border are on the screen.\<close>

definition window_on_screen :: "AppFB \<Rightarrow> 'c Store \<Rightarrow> bool" where
  "window_on_screen fb st \<longleftrightarrow> st_x2 st < app_w fb \<and> st_y2 st < app_h fb"

definition in_window :: "'c Store \<Rightarrow> nat \<Rightarrow> nat \<Rightarrow> bool" where
  "in_window st u v \<longleftrightarrow> unat (st_x st) \<le> u \<and> u \<le> unat (st_x2 st) \<and> unat (st_y st) \<le> v \<and> v \<le> unat (st_y2 st)"

text \<open>Left of the right border and above the lower border.\<close>

definition up_to_corner :: "'c Store \<Rightarrow> nat \<Rightarrow> nat \<Rightarrow> bool" where
  "up_to_corner st u v \<longleftrightarrow> u \<le> unat (st_x2 st) \<and> v \<le> unat (st_y2 st)"

text \<open>The same screen, but for the pixels at the positions in question.\<close>

definition same_screen_but :: "(nat \<Rightarrow> nat \<Rightarrow> bool) \<Rightarrow> AppFB \<Rightarrow> AppFB \<Rightarrow> bool" where
  "same_screen_but A fb fb' \<longleftrightarrow> app_w fb' = app_w fb \<and> app_h fb' = app_h fb \<and>
     length (app_pixels fb') = length (app_pixels fb) \<and>
     (\<forall>u v. u < unat (app_w fb) \<longrightarrow> v < unat (app_h fb) \<longrightarrow> \<not> A u v \<longrightarrow>
        app_pixels fb' ! (u + v * unat (app_w fb)) = app_pixels fb ! (u + v * unat (app_w fb)))"

text \<open>The small copies of the screen: both empty, or both of the size of the reduced screen.\<close>

definition buffers_ok :: "nat \<Rightarrow> nat \<Rightarrow> 'c Store \<Rightarrow> bool" where
  "buffers_ok wi hi st \<longleftrightarrow> b1 st = [] \<and> b2 st = [] \<or> length (b1 st) = wi * hi \<and> length (b2 st) = wi * hi"

definition text_drawable :: "font \<Rightarrow> string \<Rightarrow> bool" where
  "text_drawable F t \<longleftrightarrow> (\<forall>c \<in> set t. c \<noteq> CHR 0x0A \<longrightarrow> font_glyph F c \<noteq> None)"

section \<open>Pixels and positions\<close>

lemma grid_mem [simp]: "(x, y) \<in> set (grid wi hi) \<longleftrightarrow> x < wi \<and> y < hi"
  by (auto simp: grid_def image_iff)

lemma grid_index_less: "x < wi \<Longrightarrow> y < hi \<Longrightarrow> x + y * wi < wi * (hi :: nat)"
  by (metis add.commute mult.commute mult_Suc_right Suc_leI mult_le_mono2 less_le_trans nat_add_left_cancel_less)

lemma grid_index_inj:
  fixes x y u v w :: nat
  assumes "x + y * w = u + v * w" and "x < w" and "u < w"
  shows "x = u \<and> y = v"
proof -
  have "(x + y * w) mod w = (u + v * w) mod w" "(x + y * w) div w = (u + v * w) div w" using assms(1) by simp_all
  with assms(2,3) show ?thesis by simp
qed

lemma grid_eq_map: "grid wi hi = map (\<lambda>i. (i mod wi, i div wi)) [0..<wi * hi]"
proof (induction hi)
  case 0
  then show ?case by (simp add: grid_def)
next
  case (Suc hi)
  have "map (\<lambda>x. (x, hi)) [0..<wi] = map (\<lambda>i. (i mod wi, i div wi)) [wi * hi..<wi * Suc hi]"
    by (rule nth_equalityI) auto
  moreover have "[0..<wi * Suc hi] = [0..<wi * hi] @ [wi * hi..<wi * Suc hi]"
    using upt_add_eq_append [of 0 "wi * hi" wi] by (simp add: add.commute)
  ultimately show ?case using Suc by (simp add: grid_def)
qed

lemma screen_index:
  assumes "app_fb_ok fb" and "x < app_w fb" and "y < app_h fb"
  shows "unat (x + y * app_w fb) = unat x + unat y * unat (app_w fb)"
    and "unat (x + y * app_w fb) < length (app_pixels fb)"
proof -
  have less: "unat x + unat y * unat (app_w fb) < unat (app_w fb) * unat (app_h fb)"
    using assms(2,3) by (intro grid_index_less) (simp_all add: word_less_nat_alt)
  then have "unat x + unat y * unat (app_w fb) < 2 ^ 64" using assms(1) by (simp add: app_fb_ok_def)
  then show "unat (x + y * app_w fb) = unat x + unat y * unat (app_w fb)"
    by (simp add: unat_word_ariths)
  with less show "unat (x + y * app_w fb) < length (app_pixels fb)"
    using assms(1) by (simp add: app_fb_ok_def)
qed

lemma same_screen_but_refl: "same_screen_but A fb fb"
  by (simp add: same_screen_but_def)

lemma same_screen_but_trans:
  "same_screen_but A fb fb' \<Longrightarrow> same_screen_but A fb' fb'' \<Longrightarrow> same_screen_but A fb fb''"
  by (simp add: same_screen_but_def)

lemma same_screen_but_mono:
  "same_screen_but A fb fb' \<Longrightarrow> (\<And>u v. A u v \<Longrightarrow> B u v) \<Longrightarrow> same_screen_but B fb fb'"
  by (auto simp: same_screen_but_def)

lemma app_fb_ok_same: "same_screen_but A fb fb' \<Longrightarrow> app_fb_ok fb \<Longrightarrow> app_fb_ok fb'"
  by (simp add: same_screen_but_def app_fb_ok_def)

lemma same_screen_but_set:
  assumes "app_fb_ok fb" and "x < app_w fb" and "y < app_h fb" and "A (unat x) (unat y)"
  shows "same_screen_but A fb (fb\<lparr> app_pixels := (app_pixels fb)[unat (x + y * app_w fb) := p] \<rparr>)"
proof -
  have "unat x + unat y * unat (app_w fb) \<noteq> u + v * unat (app_w fb)" if "u < unat (app_w fb)" "\<not> A u v" for u v
    using grid_index_inj [of "unat x" "unat y" "unat (app_w fb)" u v] assms(2,4) that by (auto simp: word_less_nat_alt)
  then show ?thesis
    unfolding same_screen_but_def screen_index(1) [OF assms(1-3)] by auto
qed

section \<open>Drawing stays inside\<close>

lemma usize_range_mem: "x \<in> set (usize_range a b) \<Longrightarrow> a \<le> x \<and> x \<le> b"
proof -
  assume "x \<in> set (usize_range a b)"
  then obtain n where n: "x = of_nat n" "unat a \<le> n" "n \<le> unat b" by (auto simp: usize_range_def)
  moreover have "unat b < 2 ^ LENGTH(64)" by (rule unsigned_less)
  ultimately have "unat x = n" by (simp add: unat_of_nat_small)
  with n show ?thesis by (simp add: word_le_nat_alt)
qed

lemma small_index:
  fixes x y w :: usize
  assumes "4 dvd unat w" "4 dvd h" "x < w" "unat y < h" "unat w * h < 2 ^ 63"
  shows "unat (x div 4 + (y div 4) * (w div 4)) < (unat w div 4) * (h div 4)"
proof -
  have x: "unat x div 4 < unat w div 4" using assms(1,3) by (simp add: word_less_nat_alt dvd_def) auto
  have y: "unat y div 4 < h div 4" using assms(2,4) by (auto simp: dvd_def)
  have less: "unat x div 4 + unat y div 4 * (unat w div 4) < (unat w div 4) * (h div 4)"
    using x y by (rule grid_index_less)
  have "(unat w div 4) * (h div 4) \<le> unat w * h" by (intro mult_le_mono) auto
  with less assms(5) have "unat x div 4 + unat y div 4 * (unat w div 4) < 2 ^ 64" by simp
  then have "unat (x div 4 + (y div 4) * (w div 4)) = unat x div 4 + unat y div 4 * (unat w div 4)"
    by (simp add: unat_word_ariths unat_div mod_simps)
  with less show ?thesis by simp
qed

lemma draw_pixel_ok:
  assumes ok: "app_fb_ok fb" and "4 dvd unat (app_w fb)" and "4 dvd unat (app_h fb)"
    and dst: "length dst = (unat (app_w fb) div 4) * (unat (app_h fb) div 4)"
    and x: "st_x st \<le> x" "x \<le> st_x2 st" "x < app_w fb" and y: "st_y st \<le> y" "y \<le> st_y2 st" "y < app_h fb"
  shows "\<exists>fb'. draw_pixel layout st dst (x, y) fb = Inr fb' \<and> same_screen_but (in_window st) fb fb'"
proof -
  let ?i = "unat (x + y * app_w fb)"
  have "unat (x div 4 + (y div 4) * (app_w fb div 4)) < length dst"
    unfolding dst using assms by (intro small_index) (auto simp: app_fb_ok_def word_less_nat_alt)
  then have "\<exists>p. draw_pixel layout st dst (x, y) fb = Inr (fb\<lparr> app_pixels := (app_pixels fb)[?i := p] \<rparr>)"
    using screen_index(2) [OF ok x(3) y(3)]
    by (simp add: draw_pixel_def array_get_def Let_def split_beta) blast
  moreover have "in_window st (unat x) (unat y)" using x y by (simp add: in_window_def word_le_nat_alt)
  ultimately show ?thesis using same_screen_but_set [OF ok x(3) y(3)] by metis
qed

lemma draw_window_ok:
  assumes ok: "app_fb_ok fb" and d: "4 dvd unat (app_w fb)" "4 dvd unat (app_h fb)"
    and dst: "length dst = (unat (app_w fb) div 4) * (unat (app_h fb) div 4)" and on: "window_on_screen fb st"
  shows "\<exists>fb'. draw_window layout st dst fb = Inr fb' \<and> same_screen_but (in_window st) fb fb'"
proof -
  let ?P = "\<lambda>fb'. same_screen_but (in_window st) fb fb'"
  have px: "\<exists>fb''. draw_pixel layout st dst (x, y) fb' = Inr fb'' \<and> ?P fb''"
    if "?P fb'" "x \<in> set (usize_range (st_x st) (st_x2 st))" "y \<in> set (usize_range (st_y st) (st_y2 st))" for x y fb'
  proof -
    have same: "app_w fb' = app_w fb" "app_h fb' = app_h fb" using that(1) by (auto simp: same_screen_but_def)
    have "x < app_w fb" "y < app_h fb"
      using usize_range_mem [OF that(2)] usize_range_mem [OF that(3)] on by (auto simp: window_on_screen_def)
    then have "\<exists>fb''. draw_pixel layout st dst (x, y) fb' = Inr fb'' \<and> same_screen_but (in_window st) fb' fb''"
      using app_fb_ok_same [OF that(1) ok] d dst usize_range_mem [OF that(2)] usize_range_mem [OF that(3)]
      by (intro draw_pixel_ok) (simp_all add: same)
    with that(1) show ?thesis by (meson same_screen_but_trans)
  qed
  show ?thesis
    unfolding draw_window_def
  proof (rule res_fold_total [where P = ?P])
    show "\<exists>fb''. res_fold (\<lambda>x. draw_pixel layout st dst (x, y)) (usize_range (st_x st) (st_x2 st)) fb' = Inr fb'' \<and> ?P fb''"
      if "y \<in> set (usize_range (st_y st) (st_y2 st))" "?P fb'" for y fb'
      using that(2) px that(1) by (intro res_fold_total [where P = ?P]) auto
  qed (rule same_screen_but_refl)
qed

lemma text_pixel_ok:
  assumes "app_fb_ok fb"
  shows "\<exists>fb'. text_pixel st blue pos v fb = Inr fb' \<and> same_screen_but (up_to_corner st) fb fb'"
proof (cases pos)
  case (Pair x y)
  show ?thesis
  proof (cases "x \<le> 0 \<or> x \<ge> app_w fb \<or> y \<le> 0 \<or> y \<ge> app_h fb \<or> x \<ge> st_x2 st \<or> y \<ge> st_y2 st")
    case True
    then show ?thesis unfolding text_pixel_def Pair Let_def prod.case
      by (simp only: if_True) (blast intro: same_screen_but_refl)
  next
    case False
    then have xy: "x < app_w fb" "y < app_h fb" and "up_to_corner st (unat x) (unat y)"
      by (auto simp: up_to_corner_def word_le_nat_alt not_le word_less_nat_alt)
    from screen_index(2) [OF assms xy] False same_screen_but_set [of fb x y "up_to_corner st", OF assms xy] \<open>up_to_corner st (unat x) (unat y)\<close> show ?thesis
      unfolding text_pixel_def Pair Let_def prod.case by (simp only: if_False) (simp add: array_get_def)
  qed
qed

lemma draw_char_ok:
  assumes ok: "app_fb_ok fb" and g: "font_glyph F c \<noteq> None"
  shows "\<exists>fb'. draw_char F st blue cx cy c fb = Inr fb' \<and> same_screen_but (up_to_corner st) fb fb'"
proof -
  let ?P = "\<lambda>fb'. same_screen_but (up_to_corner st) fb fb'"
  have step: "\<exists>fb''. text_pixel st blue pos v fb' = Inr fb'' \<and> ?P fb''" if "?P fb'" for pos v fb'
    using text_pixel_ok [OF app_fb_ok_same [OF that ok], of st blue pos v] that by (blast intro: same_screen_but_trans)
  from g obtain rc where rc: "font_glyph F c = Some rc" by blast
  show ?thesis
    unfolding draw_char_def rc option.case
  proof (rule res_fold_total [where P = ?P], rule same_screen_but_refl)
    fix z fb' assume "?P fb'"
    then show "\<exists>fb''. (case z of (row_i, row) \<Rightarrow> res_fold (\<lambda>(col_i, pixel).
          text_pixel st blue (st_x st + of_nat col_i + 2 + cx, st_y st + of_nat row_i + 2 + cy) pixel) (enumerate 0 row)) fb' =
        Inr fb'' \<and> ?P fb''"
      by (cases z) (auto intro!: res_fold_total [where P = ?P] dest: step split: prod.splits)
  qed
qed

lemma draw_title_ok:
  assumes "app_fb_ok fb" and "\<forall>c \<in> set t. font_glyph F c \<noteq> None"
  shows "\<exists>fb'. draw_title F st cx t fb = Inr fb' \<and> same_screen_but (up_to_corner st) fb fb'"
  using assms
proof (induction t arbitrary: cx fb)
  case Nil
  then show ?case by (simp add: same_screen_but_refl)
next
  case (Cons c t)
  then obtain fb1 where fb1: "draw_char F st True cx 0 c fb = Inr fb1" "same_screen_but (up_to_corner st) fb fb1"
    using draw_char_ok [of fb F c st True cx 0] by auto
  from Cons.IH [OF app_fb_ok_same [OF fb1(2) Cons.prems(1)], of "cx + of_nat (font_width F)"] Cons.prems(2) fb1
  show ?case by (auto intro: same_screen_but_trans)
qed

lemma draw_line_ok:
  assumes "app_fb_ok fb" and "text_drawable F t"
  shows "\<exists>cy' fb'. draw_line F st user (cx, cy) t fb = Inr (cy', fb') \<and> same_screen_but (up_to_corner st) fb fb'"
  using assms
proof (induction t arbitrary: cx cy fb)
  case Nil
  then show ?case by (simp add: same_screen_but_refl)
next
  case (Cons c t)
  have t: "text_drawable F t" using Cons.prems(2) by (simp add: text_drawable_def)
  show ?case
  proof (cases "c = CHR 0x0A")
    case True
    with Cons.IH [OF Cons.prems(1) t] show ?thesis by simp
  next
    case False
    with Cons.prems obtain fb1 where fb1: "draw_char F st user cx cy c fb = Inr fb1" "same_screen_but (up_to_corner st) fb fb1"
      using draw_char_ok [of fb F c st user cx cy] by (auto simp: text_drawable_def)
    from Cons.IH [OF app_fb_ok_same [OF fb1(2) Cons.prems(1)] t, of "cx + of_nat (font_width F)" cy] False fb1
    show ?thesis by (auto intro: same_screen_but_trans)
  qed
qed

lemma draw_history_ok:
  assumes ok: "app_fb_ok fb" and t: "\<forall>a \<in> set (atoms st). text_drawable F (atom_text a)"
  shows "\<exists>fb'. draw_history F st fb = Inr fb' \<and> same_screen_but (up_to_corner st) fb fb'"
proof -
  let ?P = "\<lambda>(cy :: usize, fb'). same_screen_but (up_to_corner st) fb fb'"
  let ?f = "\<lambda>a (cy, fb). res_map (\<lambda>(cy, fb). (cy + 16, fb)) (draw_line F st (is_user a) (0, cy) (atom_text a) fb)"
  have "\<exists>r. res_fold ?f (atoms st) (20, fb) = Inr r \<and> ?P r"
  proof (rule res_fold_total [where P = ?P])
    fix a s assume a: "a \<in> set (atoms st)" "?P s"
    obtain cy fb1 where s: "s = (cy, fb1)" by (cases s)
    with a have same: "same_screen_but (up_to_corner st) fb fb1" by simp
    have "text_drawable F (atom_text a)" using t a(1) by blast
    from draw_line_ok [OF app_fb_ok_same [OF same ok] this, of st "is_user a" 0 cy] obtain cy' fb2
      where "draw_line F st (is_user a) (0, cy) (atom_text a) fb1 = Inr (cy', fb2)" "same_screen_but (up_to_corner st) fb1 fb2"
      by blast
    with same s show "\<exists>s'. ?f a s = Inr s' \<and> ?P s'" by (auto intro: same_screen_but_trans)
  qed (simp add: same_screen_but_refl)
  then show ?thesis by (auto simp: draw_history_def)
qed

section \<open>The small copy of the screen\<close>

lemma sample_index:
  fixes x y wi hi n :: nat
  assumes "x < wi" and "y < hi" and "(wi * 4) * (hi * 4) \<le> n"
  shows "x * 4 + (y * 4) * (wi * 4) < n"
proof -
  have "x * 4 + (y * 4) * (wi * 4) < (wi * 4) * (hi * 4)" using assms(1,2) by (intro grid_index_less) auto
  with assms(3) show ?thesis by simp
qed

lemma fill_buffers_ok:
  assumes "(wi * 4) * (hi * 4) \<le> length px"
  shows "\<exists>ps. fill_buffers px wi hi (src, dst) = Inr (src @ ps, dst @ ps) \<and> length ps = wi * hi"
proof -
  let ?f = "\<lambda>(x, y) (src, dst). res_bind (array_get px (x * 4 + (y * 4) * (wi * 4))) (\<lambda>v. Inr (src @ [v], dst @ [v]))"
  have "\<exists>ps. res_fold ?f xs (src, dst) = Inr (src @ ps, dst @ ps) \<and> length ps = length xs"
    if "set xs \<subseteq> set (grid wi hi)" for xs
    using that
  proof (induction xs arbitrary: src dst)
    case (Cons z xs)
    obtain x y where z: "z = (x, y)" by (cases z)
    with Cons.prems assms have "x * 4 + (y * 4) * (wi * 4) < length px" by (intro sample_index) auto
    moreover define v where "v = px ! (x * 4 + (y * 4) * (wi * 4))"
    moreover have "set xs \<subseteq> set (grid wi hi)" using Cons.prems by simp
    from Cons.IH [OF this, of "src @ [v]" "dst @ [v]"] obtain ps where
      "res_fold ?f xs (src @ [v], dst @ [v]) = Inr ((src @ [v]) @ ps, (dst @ [v]) @ ps)" "length ps = length xs"
      by blast
    ultimately show ?case by (intro exI [of _ "v # ps"]) (simp add: z array_get_def)
  qed simp
  from this [of "grid wi hi"] show ?thesis by (simp add: fill_buffers_def grid_eq_map)
qed

lemma mix_buffer_ok:
  assumes "(wi * 4) * (hi * 4) \<le> length px" and "length src = wi * hi"
  shows "\<exists>src'. mix_buffer fl px wi hi src = Inr src' \<and> length src' = wi * hi"
  unfolding mix_buffer_def
proof (rule res_fold_total [where P = "\<lambda>s. length s = wi * hi"])
  fix z and s :: "RGBA list" assume z: "z \<in> set (grid wi hi)" and s: "length s = wi * hi"
  obtain x y where xy: "z = (x, y)" "x < wi" "y < hi" using z by (metis grid_mem surj_pair)
  have "x * 4 + (y * 4) * (wi * 4) < length px" using xy assms(1) by (intro sample_index) auto
  moreover have "x + y * wi < length s" unfolding s using xy by (intro grid_index_less) auto
  ultimately show "\<exists>s'. (case z of (x, y) \<Rightarrow> \<lambda>src. res_bind (array_get px (x * 4 + (y * 4) * (wi * 4))) (\<lambda>v.
       res_bind (array_get src (x + y * wi)) (\<lambda>t. Inr (src[x + y * wi := mix_pixel fl v t])))) s = Inr s' \<and> length s' = wi * hi"
    by (simp add: xy array_get_def s)
qed (rule assms(2))

lemma get_ok:
  assumes "length src = wi * hi" and "0 < wi" and "0 < hi"
  shows "\<exists>a b c. get fl x y src (int wi) (int hi) = Inr (a, b, c)"
proof -
  have c: "0 \<le> clamp_coord z (int n)" "clamp_coord z (int n) < int n" if "0 < n" for z n
    using that by (auto simp: clamp_coord_def)
  have "nat (clamp_coord x (int wi)) + nat (clamp_coord y (int hi)) * wi < wi * hi"
    using c [OF assms(2), of x] c [OF assms(3), of y] by (intro grid_index_less) auto
  moreover have "nat (clamp_coord x (int wi) + clamp_coord y (int hi) * int wi) =
      nat (clamp_coord x (int wi)) + nat (clamp_coord y (int hi)) * wi"
    using c [OF assms(2), of x] c [OF assms(3), of y] by (simp add: nat_add_distrib nat_mult_distrib)
  ultimately show ?thesis by (simp add: get_def Let_def array_get_def assms(1))
qed

lemma blur_sum_ok:
  assumes "length src = wi * hi" and "0 < wi" and "0 < hi"
  shows "\<exists>avg. blur_sum fl fx fy src (int wi) (int hi) boxes x y = Inr avg"
proof -
  have "\<exists>avg. blur_sum fl fx fy src (int wi) (int hi) boxes x y = Inr avg \<and> True"
    unfolding blur_sum_def
  proof (rule res_fold_total [where P = "\<lambda>_. True"], rule TrueI)
    fix z :: "nat \<times> 'a" and s :: "'a \<times> 'a \<times> 'a"
    obtain k coef ax ay az where z: "z = (k, coef)" "s = (ax, ay, az)" by (cases z, cases s) auto
    from get_ok [OF assms, of fl "x + fx * (int k - KH)" "y + fy * (int k - KH)"]
    show "\<exists>s'. (case z of (k, coef) \<Rightarrow> \<lambda>(ax, ay, az). let dk = int k - KH in
         res_bind (get fl (x + fx * dk) (y + fy * dk) src (int wi) (int hi))
           (\<lambda>(vx, vy, vz). let sc = (\<lambda>v. f_mul fl (f_mul fl v coef) (f_lit fl ''0.99''))
              in Inr (f_add fl ax (sc vx), f_add fl ay (sc vy), f_add fl az (sc vz)))) s = Inr s' \<and> True"
      by (auto simp: z Let_def)
  qed
  then show ?thesis by blast
qed

lemma blur_ok:
  assumes "length src = wi * hi" and "length dst = wi * hi"
  shows "\<exists>dst'. blur fl fx fy src dst wi hi boxes = Inr dst' \<and> length dst' = wi * hi"
  unfolding blur_def
proof (rule res_fold_total [where P = "\<lambda>d. length d = wi * hi"])
  fix z and d :: "RGBA list" assume z: "z \<in> set (grid wi hi)" and d: "length d = wi * hi"
  obtain x y where xy: "z = (x, y)" "x < wi" "y < hi" using z by (metis grid_mem surj_pair)
  obtain avg where avg: "blur_sum fl fx fy src (int wi) (int hi) boxes (int x) (int y) = Inr avg"
    using blur_sum_ok [OF assms(1)] xy by (metis gr_zeroI not_less_zero)
  have "x + y * wi < length d" unfolding d using xy by (intro grid_index_less) auto
  with avg show "\<exists>d'. (case z of (x, y) \<Rightarrow> \<lambda>dst.
      res_bind (blur_sum fl fx fy src (int wi) (int hi) boxes (int x) (int y)) (\<lambda>avg.
      res_bind (array_get dst (x + y * wi)) (\<lambda>p. Inr (dst[x + y * wi := put fl p avg])))) d = Inr d' \<and> length d' = wi * hi"
    by (simp add: xy array_get_def d)
qed (rule assms(2))

lemma background_ok:
  assumes px: "(wi * 4) * (hi * 4) \<le> length px" and b: "buffers_ok wi hi st"
  shows "\<exists>dst p q. background fl px wi hi st = Inr (dst, st\<lparr> b1 := p, b2 := q \<rparr>) \<and> length dst = wi * hi \<and>
    length p = wi * hi \<and> length q = wi * hi"
proof -
  let ?even = "unat (st_step st) mod 2 = 0"
  define src where "src = (if ?even then b1 st else b2 st)"
  define dst where "dst = (if ?even then b2 st else b1 st)"
  let ?prep = "if length src = 0 then fill_buffers px wi hi (src, dst)
    else res_map (\<lambda>src. (src, dst)) (mix_buffer fl px wi hi src)"
  have b': "src = [] \<and> dst = [] \<or> length src = wi * hi \<and> length dst = wi * hi"
    using b by (auto simp: buffers_ok_def src_def dst_def)
  obtain s d where prep: "?prep = Inr (s, d)" "length s = wi * hi" "length d = wi * hi"
  proof (cases "src = []")
    case True
    from fill_buffers_ok [OF px, of src dst] obtain ps where
      "fill_buffers px wi hi (src, dst) = Inr (src @ ps, dst @ ps)" "length ps = wi * hi" by blast
    with True b' that [of "src @ ps" "dst @ ps"] show ?thesis by auto
  next
    case False
    with b' have len: "length src = wi * hi" "length dst = wi * hi" by auto
    from mix_buffer_ok [OF px len(1), of fl] obtain src' where mix: "mix_buffer fl px wi hi src = Inr src'" "length src' = wi * hi"
      by blast
    from False mix(1) have "?prep = Inr (src', dst)" by simp
    with mix(2) len(2) that show ?thesis by blast
  qed
  obtain d' where "blur fl (if ?even then 1 else 0) (1 - (if ?even then 1 else 0)) s d wi hi (kernel fl (f_lit fl ''1.0'')) = Inr d'"
    "length d' = wi * hi"
    using blur_ok [OF prep(2,3)] by blast
  moreover have "(if ?even then (b1 st, b2 st) else (b2 st, b1 st)) = (src, dst)" by (simp add: src_def dst_def)
  ultimately have "background fl px wi hi st =
      Inr (d', if ?even then st\<lparr> b1 := s, b2 := d' \<rparr> else st\<lparr> b1 := d', b2 := s \<rparr>)"
    unfolding background_def Let_def using prep(1) by (simp split: if_splits)
  with prep \<open>length d' = wi * hi\<close> show ?thesis by (cases ?even) auto
qed

text \<open>A buffer that is smaller than the reduced screen.\<close>

lemma res_fold_Inl: "res_fold f xs s = Inl e \<Longrightarrow> \<exists>x s'. f x s' = Inl e"
proof (induction xs arbitrary: s)
  case (Cons x xs)
  then show ?case by (cases "f x s") auto
qed simp

lemma res_fold_at:
  assumes "res_fold f xs s = Inr t" and "n < length xs"
  shows "\<exists>u v. res_fold f (take n xs) s = Inr u \<and> f (xs ! n) u = Inr v"
proof -
  have "xs = take n xs @ xs ! n # drop (Suc n) xs" using assms(2) by (rule id_take_nth_drop)
  with assms(1) have "res_bind (res_fold f (take n xs) s) (res_fold f (xs ! n # drop (Suc n) xs)) = Inr t"
    by (metis res_fold_append)
  then show ?thesis by (auto simp: res_bind_eq_Inr_iff)
qed

lemma mix_buffer_short:
  assumes "length src < wi * hi"
  shows "mix_buffer fl px wi hi src = Inl IndexOutOfBounds"
proof -
  let ?f = "\<lambda>(x, y) src. res_bind (array_get px (x * 4 + (y * 4) * (wi * 4))) (\<lambda>v.
       res_bind (array_get src (x + y * wi)) (\<lambda>s. Inr (src[x + y * wi := mix_pixel fl v s])))"
  have "\<not> (\<exists>t. res_fold ?f (grid wi hi) src = Inr t)"
  proof
    assume "\<exists>t. res_fold ?f (grid wi hi) src = Inr t"
    then obtain t where t: "res_fold ?f (grid wi hi) src = Inr t" by blast
    let ?n = "length src"
    have "?n < length (grid wi hi)" and nth: "grid wi hi ! ?n = (?n mod wi, ?n div wi)"
      using assms by (simp_all add: grid_eq_map)
    from res_fold_at [OF t this(1)] obtain s u where s: "res_fold ?f (take ?n (grid wi hi)) src = Inr s"
      "?f (?n mod wi, ?n div wi) s = Inr u" unfolding nth by blast
    have "length s = ?n"
      using s(1) by (rule res_fold_invariant [where P = "\<lambda>s. length s = ?n"]) (auto simp: res_iffs)
    with s(2) show False by (auto simp: res_iffs)
  qed
  then obtain e where e: "mix_buffer fl px wi hi src = Inl e" unfolding mix_buffer_def by (meson sum.exhaust)
  from res_fold_Inl [OF this [unfolded mix_buffer_def]] have "e = IndexOutOfBounds"
    by (auto simp: array_get_def split: if_splits)
  with e show ?thesis by simp
qed

lemma word_minus_one_less: "0 < w \<Longrightarrow> w - 1 < (w :: usize)"
  by (metis less_irrefl word_less_1 word_less_nat_alt unat_minus_one diff_less zero_less_one word_gt_0 unat_gt_0)

lemma window_on_screen_clamp: "0 < app_w fb \<Longrightarrow> 0 < app_h fb \<Longrightarrow> window_on_screen fb (clamp_window fb st)"
  by (simp add: clamp_window_def window_on_screen_def Let_def not_le word_minus_one_less)

end
