(* ===== verification/Console_Shell.thy ===== *)
theory Console_Shell
  imports Console_Window
begin

text \<open>
  The shell of the console app and its whole frame function \<^verbatim>\<open>_start\<close>, \<^verbatim>\<open>src/app_console/src/main.rs\<close>: the
  events of the input history a frame consumes, editing the prompt, the commands, the interpreter's
  REPL and the order in which a frame does all of it.

  The interpreter of the script language is a parameter, a record of the functions the source calls.
  Evaluation returns the calls it made to the native functions that the shell registered; they are
  carried out on the store and the frame buffer. The source evaluates all expressions of an
  \<^verbatim>\<open>eval\<close> line in a loop that ends when the parser finds no more, which need not happen: \<open>None\<close> is a
  frame that does not return. Characters are those of the first 256 code points (the keyboard produces no
  others), so that a character is one byte of UTF-8 below 128 and two from there on.

  The lemmas show what the prompt always looks like, which events a frame reads and which it drops,
  that typed characters arrive in order, and where a line makes the app panic.
\<close>

section \<open>Definitions\<close>

subsection \<open>Runs that may not return\<close>

type_synonym 'a run = "'a res option"

definition run_bind :: "'a run \<Rightarrow> ('a \<Rightarrow> 'b run) \<Rightarrow> 'b run" where
  "run_bind r k = (case r of None \<Rightarrow> None | Some (Inl e) \<Rightarrow> Some (Inl e) | Some (Inr a) \<Rightarrow> k a)"

subsection \<open>Strings\<close>

definition utf8_len :: "char \<Rightarrow> nat" where
  "utf8_len c = (if (of_char c :: nat) < 128 then 1 else 2)"

definition byte_len :: "string \<Rightarrow> nat" where
  "byte_len s = sum_list (map utf8_len s)"

text \<open>\<^verbatim>\<open>&s[n..]\<close>: a slice by bytes, which panics past the end and inside of a character.\<close>

fun str_from :: "nat \<Rightarrow> string \<Rightarrow> string res" where
  "str_from n [] = (if n = 0 then Inr [] else Inl SliceOutOfRange)"
| "str_from n (c # s) =
     (if n = 0 then Inr (c # s) else if n < utf8_len c then Inl SliceOutOfRange else str_from (n - utf8_len c) s)"

fun show_nat :: "nat \<Rightarrow> string" where
  "show_nat n = (if n < 10 then [char_of (48 + n)] else show_nat (n div 10) @ [char_of (48 + n mod 10)])"

declare show_nat.simps [simp del]

subsection \<open>The interpreter\<close>

text \<open>The native functions: \<^verbatim>\<open>quit\<close>, and \<^verbatim>\<open>draw\<close> with the width of the screen it captured.\<close>

datatype native = Quit | DrawPixel usize

record ('c, 'e, 'v) script =
  sc_new :: 'c
  insert_code :: "string \<Rightarrow> 'c \<Rightarrow> 'c"
  set_num :: "string \<Rightarrow> u64 \<Rightarrow> 'c \<Rightarrow> 'c"
  set_native :: "string \<Rightarrow> native \<Rightarrow> 'c \<Rightarrow> 'c"
  parse_next_expr :: "'c \<Rightarrow> 'e option \<times> 'c"
  sc_eval :: "'e \<Rightarrow> 'c \<Rightarrow> 'v \<times> 'c \<times> (native \<times> 'v \<times> 'v \<times> 'v) list"
  sc_unit :: 'v
  sc_show :: "'v \<Rightarrow> string"
  sc_usize :: "'v \<Rightarrow> usize"
  sc_shade :: "'v \<Rightarrow> u8"

definition native_call :: "('c, 'e, 'v) script \<Rightarrow> native \<times> 'v \<times> 'v \<times> 'v \<Rightarrow> 'c Store \<times> AppFB \<Rightarrow> ('c Store \<times> AppFB) res" where
  "native_call S call s =
     (let (f, a, b, c) = call; (st, fb) = s in
      case f of
        Quit \<Rightarrow> Inr (st\<lparr> mode := Shell \<rparr>, fb)
      | DrawPixel w \<Rightarrow>
          (let i = unat (sc_usize S a + sc_usize S b * w) in
           res_bind (array_get (app_pixels fb) i) (\<lambda>p.
             let p = p\<lparr> px_r := sc_shade S c \<rparr>; p = p\<lparr> px_g := px_r p \<rparr>; p = p\<lparr> px_b := px_b p \<rparr>
             in Inr (st, fb\<lparr> app_pixels := (app_pixels fb)[i := p] \<rparr>))))"

definition eval :: "('c, 'e, 'v) script \<Rightarrow> 'e \<Rightarrow> 'c Store \<times> AppFB \<Rightarrow> ('v \<times> 'c Store \<times> AppFB) res" where
  "eval S e s =
     (let (st, fb) = s; (v, c, calls) = sc_eval S e (script_ctx st)
      in res_map (\<lambda>s. (v, s)) (res_fold (native_call S) calls (st\<lparr> script_ctx := c \<rparr>, fb)))"

partial_function (option) eval_all :: "('c, 'e, 'v) script \<Rightarrow> 'v \<Rightarrow> 'c Store \<times> AppFB \<Rightarrow> ('v \<times> 'c Store \<times> AppFB) run" where
  "eval_all S v s =
     (case parse_next_expr S (script_ctx (fst s)) of
        (None, c) \<Rightarrow> Some (Inr (v, (fst s)\<lparr> script_ctx := c \<rparr>, snd s))
      | (Some e, c) \<Rightarrow>
          (case eval S e ((fst s)\<lparr> script_ctx := c \<rparr>, snd s) of
             Inl p \<Rightarrow> Some (Inl p)
           | Inr (v, s) \<Rightarrow> eval_all S v s))"

subsection \<open>The prompt\<close>

definition KeyBackspace :: nat where "KeyBackspace = 14"

definition KeyEnter :: nat where "KeyEnter = 28"

definition KeyLeftShift :: nat where "KeyLeftShift = 42"

definition KeyRightAlt :: nat where "KeyRightAlt = 100"

definition push_atom :: "bool \<Rightarrow> string \<Rightarrow> 'c Store \<Rightarrow> 'c Store" where
  "push_atom u t st = st\<lparr> atoms := atoms st @ [\<lparr> is_user = u, atom_text = t \<rparr>] \<rparr>"

text \<open>\<^verbatim>\<open>atoms.last_mut()\<close>, when it is the user's.\<close>

definition user_text :: "'c Store \<Rightarrow> string option" where
  "user_text st = (if atoms st \<noteq> [] \<and> is_user (last (atoms st)) then Some (atom_text (last (atoms st))) else None)"

definition set_text :: "string \<Rightarrow> 'c Store \<Rightarrow> 'c Store" where
  "set_text t st = st\<lparr> atoms := butlast (atoms st) @ [(last (atoms st))\<lparr> atom_text := t \<rparr>] \<rparr>"

definition prompt :: "Mode \<Rightarrow> string" where
  "prompt m = (case m of Shell \<Rightarrow> ''>'' | FomoscriptREPL \<Rightarrow> ''fos>'')"

subsection \<open>Commands\<close>

definition help_text :: string where
  "help_text = ''commands:'' @ CHR 0x0A #
     ''    - pid       Display the app pid'' @ CHR 0x0A #
     ''    - time      Display the kernel time'' @ CHR 0x0A #
     ''    - reset     Clear the app memory'' @ CHR 0x0A #
     ''    - lang ..   Set key locale (en,fr)'' @ CHR 0x0A #
     ''    - eval ..   Eval fomoscript'' @ CHR 0x0A #
     ''    - repl      launch fomoscript REPL'' @ CHR 0x0A #
     ''    - help      You are here'' @ CHR 0x0A #
     ''    ''"

definition repl_line :: "('c, 'e, 'v) script \<Rightarrow> string \<Rightarrow> 'c Store \<times> AppFB \<Rightarrow> ('c Store \<times> AppFB) res" where
  "repl_line S text s =
     (let (st, fb) = s in
      res_bind (str_from 4 text) (\<lambda>code.
        case parse_next_expr S (insert_code S code (script_ctx st)) of
          (None, c) \<Rightarrow> Inr (st\<lparr> script_ctx := c \<rparr>, fb)
        | (Some e, c) \<Rightarrow>
            res_map (\<lambda>(v, st, fb). (push_atom False (''eval: '' @ sc_show S v) st, fb))
              (eval S e (st\<lparr> script_ctx := c \<rparr>, fb))))"

definition eval_line :: "('c, 'e, 'v) script \<Rightarrow> Context \<Rightarrow> string \<Rightarrow> 'c Store \<times> AppFB \<Rightarrow> ('c Store \<times> AppFB) run" where
  "eval_line S ctx text s =
     (let (st, fb) = s in
      run_bind (Some (str_from 5 text)) (\<lambda>code.
        let c = insert_code S code (script_ctx st);
            c = set_num S ''time'' (ctx_start_time ctx) c;
            c = set_num S ''pid'' (ctx_pid ctx) c;
            c = set_native S ''draw'' (DrawPixel (app_w fb)) c
        in run_bind (eval_all S (sc_unit S) (st\<lparr> script_ctx := c \<rparr>, fb)) (\<lambda>(v, st, fb).
             Some (Inr (push_atom False (''eval: '' @ sc_show S v) st, fb)))))"

text \<open>A line entered in the shell; \<open>None\<close> is the store that was dropped.\<close>

definition shell_line :: "('c, 'e, 'v) script \<Rightarrow> Context \<Rightarrow> string \<Rightarrow> 'c Store \<times> AppFB \<Rightarrow> ('c Store option \<times> AppFB) run" where
  "shell_line S ctx text s =
     (let (st, fb) = s; ok = (\<lambda>st. Some (Inr (Some st, fb))) in
      if text = ''>repl'' then
        ok (let st = push_atom False ''Call quit() to exit the REPL'' (st\<lparr> mode := FomoscriptREPL \<rparr>)
            in st\<lparr> script_ctx := set_native S ''quit'' Quit (script_ctx st) \<rparr>)
      else if text = ''>pid'' then ok (push_atom False (''pid: '' @ show_nat (unat (ctx_pid ctx))) st)
      else if text = ''>time'' then ok (push_atom False (''time: '' @ show_nat (unat (ctx_start_time ctx)) @ '' ms'') st)
      else if text = ''>lang en'' then ok (push_atom False ''ok'' (st\<lparr> st_local := En \<rparr>))
      else if text = ''>lang fr'' then ok (push_atom False ''ok'' (st\<lparr> st_local := Fr \<rparr>))
      else if text = ''>reset'' then Some (Inr (None, fb))
      else if text = ''>help'' then ok (push_atom False help_text st)
      else if take 6 text = ''>eval '' then
        run_bind (eval_line S ctx text s) (\<lambda>(st, fb). Some (Inr (Some st, fb)))
      else ok (push_atom False ''unknown command'' st))"

subsection \<open>Events\<close>

datatype 's flow = Continue 's | Break 's | Return AppFB

definition enter :: "('c, 'e, 'v) script \<Rightarrow> Context \<Rightarrow> string \<Rightarrow> 'c Store \<times> AppFB \<Rightarrow> ('c Store \<times> AppFB) flow run" where
  "enter S ctx text s =
     run_bind (case mode (fst s) of
         FomoscriptREPL \<Rightarrow> Some (res_map (\<lambda>(st, fb). (Some st, fb)) (repl_line S text s))
       | Shell \<Rightarrow> shell_line S ctx text s)
       (\<lambda>(st, fb). Some (Inr (case st of
            None \<Rightarrow> Return fb
          | Some st \<Rightarrow> Break (push_atom True (prompt (mode st)) st, fb))))"

definition edit :: "nat \<Rightarrow> string \<Rightarrow> 'c Store \<Rightarrow> 'c Store res" where
  "edit k text st =
     (let text = (if k = KeyBackspace \<and> byte_len text > 1 then butlast text else text) in
      res_map (\<lambda>c. case c of
           Some c \<Rightarrow> set_text (text @ [c]) st
         | None \<Rightarrow> set_text (if k = KeyEnter \<and> shift st then text @ [CHR 0x0A] else text) st)
        (Key_char (st_local st) k (shift st) (altg st)))"

definition modifiers :: "InputEvent \<Rightarrow> 'c Store \<Rightarrow> 'c Store" where
  "modifiers ev st =
     (if unat (key ev) = KeyLeftShift then st\<lparr> shift := trigger ev \<rparr>
      else if unat (key ev) = KeyRightAlt then st\<lparr> altg := trigger ev \<rparr>
      else st)"

definition handle_event :: "('c, 'e, 'v) script \<Rightarrow> Context \<Rightarrow> InputEvent \<Rightarrow> 'c Store \<times> AppFB \<Rightarrow> ('c Store \<times> AppFB) flow run" where
  "handle_event S ctx ev s =
     (let (st, fb) = s; st = modifiers ev st in
      if \<not> trigger ev then Some (Inr (Continue (st, fb)))
      else case user_text st of
             None \<Rightarrow> Some (Inr (Continue (st, fb)))
           | Some text \<Rightarrow>
               if unat (key ev) = KeyEnter \<and> \<not> shift st then enter S ctx text (st, fb)
               else Some (res_map (\<lambda>st. Continue (st, fb)) (edit (unat (key ev)) text st)))"

fun new_inputs :: "('c, 'e, 'v) script \<Rightarrow> Context \<Rightarrow> InputEvent list \<Rightarrow> 'c Store \<times> AppFB \<Rightarrow> ('c Store option \<times> AppFB) run" where
  "new_inputs S ctx [] s = Some (Inr (Some (fst s), snd s))"
| "new_inputs S ctx (ev # evs) s =
     run_bind (handle_event S ctx ev s) (\<lambda>f. case f of
         Continue s \<Rightarrow> new_inputs S ctx evs s
       | Break s \<Rightarrow> Some (Inr (Some (fst s), snd s))
       | Return fb \<Rightarrow> Some (Inr (None, fb)))"

text \<open>The events the loop runs over.\<close>

definition unread_events :: "'c Store \<Rightarrow> Input \<Rightarrow> InputEvent list" where
  "unread_events st inp =
     map (\<lambda>i. history_ring inp ! (i mod HISTORY_SIZE))
       [unat (input_history_last_index st + 1)..<Suc (unat (history_last_index inp))]"

definition handle_inputs :: "('c, 'e, 'v) script \<Rightarrow> Context \<Rightarrow> 'c Store \<times> AppFB \<Rightarrow> ('c Store option \<times> AppFB) run" where
  "handle_inputs S ctx s =
     run_bind (if active (fst s) then new_inputs S ctx (unread_events (fst s) (ctx_input ctx)) s
               else Some (Inr (Some (fst s), snd s)))
       (\<lambda>(st, fb). Some (Inr (map_option (\<lambda>st. st\<lparr> input_history_last_index := history_last_index (ctx_input ctx) \<rparr>) st, fb)))"

subsection \<open>The frame\<close>

definition Store_init :: "('c, 'e, 'v) script \<Rightarrow> Context \<Rightarrow> 'c Store" where
  "Store_init S ctx =
     \<lparr> st_x = 100 + ctx_pid ctx * 100, st_y = 100 + ctx_pid ctx * 100,
       st_x2 = 1000 + ctx_pid ctx * 100, st_y2 = 700 + ctx_pid ctx * 100,
       resizing = replicate 4 False, moving = None, b1 = [], b2 = [], st_step = 0,
       input_history_last_index = history_last_index (ctx_input ctx), atoms = [], active = False,
       st_local = En, shift = False, altg = False, script_ctx = sc_new S, mode = Shell \<rparr>"

definition begin_frame :: "('c, 'e, 'v) script \<Rightarrow> Context \<Rightarrow> 'c Store option \<Rightarrow> 'c Store" where
  "begin_frame S ctx store =
     (let st = (case store of None \<Rightarrow> Store_init S ctx | Some st \<Rightarrow> st);
          st = (if st_step st = 0 then push_atom True ''>'' (push_atom False ''Welcome to Fomos !'' st) else st)
      in st\<lparr> st_step := st_step st + 1 \<rparr>)"

definition draw_frame :: "'f f32_ops \<Rightarrow> font \<Rightarrow> (usize \<Rightarrow> usize \<Rightarrow> usize \<Rightarrow> usize \<Rightarrow> rect) \<Rightarrow> Context \<Rightarrow> 'c Store \<Rightarrow> ('c Store \<times> AppFB) res" where
  "draw_frame fl F taffy ctx st =
     (let fb = ctx_fb ctx; hi = nat (sint (app_h fb)) div nat DIV; wi = nat (sint (app_w fb)) div nat DIV in
      res_bind (background fl (app_pixels fb) wi hi st) (\<lambda>(dst, st).
        let st = window_input (ctx_input ctx) fb st;
            header = get_rect st (taffy (st_x st) (st_y st) (st_x2 st) (st_y2 st)) in
        res_bind (draw_window (header, []) st dst fb) (\<lambda>fb.
        res_bind (draw_title F st 0 (''app_console ['' @ show_nat (unat (ctx_pid ctx)) @ '']'') fb) (\<lambda>fb.
        res_map (\<lambda>fb. (st, fb)) (draw_history F st fb)))))"

definition console_start :: "'f f32_ops \<Rightarrow> font \<Rightarrow> (usize \<Rightarrow> usize \<Rightarrow> usize \<Rightarrow> usize \<Rightarrow> rect) \<Rightarrow> ('c, 'e, 'v) script \<Rightarrow> Context \<Rightarrow> 'c Store option \<Rightarrow> ('c Store option \<times> AppFB) run" where
  "console_start fl F taffy S ctx store =
     run_bind (Some (draw_frame fl F taffy ctx (begin_frame S ctx store))) (handle_inputs S ctx)"

subsection \<open>Specification vocabulary\<close>

definition press :: "nat \<Rightarrow> InputEvent" where
  "press k = \<lparr> trigger = True, key = of_nat k \<rparr>"

text \<open>The last atom is the user's line, and it begins as the mode's prompt does.\<close>

definition prompt_ok :: "'c Store \<Rightarrow> bool" where
  "prompt_ok st \<longleftrightarrow> (\<exists>t. user_text st = Some t \<and> t \<noteq> [] \<and>
     hd t = (case mode st of Shell \<Rightarrow> CHR ''>'' | FomoscriptREPL \<Rightarrow> CHR ''f''))"

text \<open>An event that only types: neither a modifier nor a key that edits or enters the line.\<close>

definition typing_event :: "InputEvent \<Rightarrow> bool" where
  "typing_event ev \<longleftrightarrow> unat (key ev) \<notin> {KeyBackspace, KeyEnter, KeyLeftShift, KeyRightAlt}"

definition typed_char :: "'c Store \<Rightarrow> InputEvent \<Rightarrow> char option" where
  "typed_char st ev = (if trigger ev then (case Key_char (st_local st) (unat (key ev)) (shift st) (altg st) of
     Inr c \<Rightarrow> c | Inl _ \<Rightarrow> None) else None)"

definition typed :: "'c Store \<Rightarrow> InputEvent list \<Rightarrow> string" where
  "typed st evs = List.map_filter (typed_char st) evs"

text \<open>What is left to do for a line: the flow of its \<^verbatim>\<open>enter\<close> as the result of the loop.\<close>

definition flow_result :: "('c Store \<times> AppFB) flow \<Rightarrow> ('c Store option \<times> AppFB) run" where
  "flow_result f = Some (Inr (case f of Continue s \<Rightarrow> (Some (fst s), snd s) | Break s \<Rightarrow> (Some (fst s), snd s) | Return fb \<Rightarrow> (None, fb)))"

section \<open>Lines and characters\<close>

lemma run_bind_simps [simp]:
  "run_bind None k = None" "run_bind (Some (Inl e)) k = Some (Inl e)" "run_bind (Some (Inr a)) k = k a"
  by (simp_all add: run_bind_def)

lemma run_bind_eq_Inr: "run_bind r k = Some (Inr b) \<longleftrightarrow> (\<exists>a. r = Some (Inr a) \<and> k a = Some (Inr b))"
  by (auto simp: run_bind_def split: option.splits sum.splits)

lemma res_map_eq_Inr: "res_map f r = Inr b \<longleftrightarrow> (\<exists>a. r = Inr a \<and> b = f a)"
  by (cases r) auto

lemma byte_len_simps [simp]: "byte_len [] = 0" "byte_len (c # s) = utf8_len c + byte_len s"
  by (simp_all add: byte_len_def)

lemma utf8_len_pos: "0 < utf8_len c"
  by (simp add: utf8_len_def)

lemma str_from_iff: "str_from n t = Inr r \<longleftrightarrow> (\<exists>p. t = p @ r \<and> byte_len p = n)"
proof (induction n t rule: str_from.induct)
  case (1 n)
  then show ?case by auto
next
  case (2 n c s)
  have "(\<exists>p. c # s = p @ r \<and> byte_len p = n) \<longleftrightarrow>
      n = 0 \<and> r = c # s \<or> (\<exists>p. s = p @ r \<and> utf8_len c + byte_len p = n)"
    by (auto simp: Cons_eq_append_conv)
  moreover have "(\<exists>p. s = p @ r \<and> utf8_len c + byte_len p = n) \<longleftrightarrow>
      utf8_len c \<le> n \<and> (\<exists>p. s = p @ r \<and> byte_len p = n - utf8_len c)" by auto
  ultimately have split: "(\<exists>p. c # s = p @ r \<and> byte_len p = n) \<longleftrightarrow>
      n = 0 \<and> r = c # s \<or> utf8_len c \<le> n \<and> (\<exists>p. s = p @ r \<and> byte_len p = n - utf8_len c)" by simp
  consider "n = 0" | "0 < n" "n < utf8_len c" | "0 < n" "utf8_len c \<le> n" by linarith
  then show ?case
  proof cases
    case 3
    with 2 split show ?thesis by simp
  qed (use split utf8_len_pos [of c] in auto)
qed

lemma str_from_Inl: "(\<nexists>p r. t = p @ r \<and> byte_len p = n) \<Longrightarrow> str_from n t = Inl SliceOutOfRange"
proof -
  assume "\<nexists>p r. t = p @ r \<and> byte_len p = n"
  moreover have "str_from n t = Inl e \<Longrightarrow> e = SliceOutOfRange" for e
    by (induction n t rule: str_from.induct) (auto split: if_splits)
  ultimately show ?thesis by (metis str_from_iff sum.exhaust)
qed

lemma user_text_push [simp]: "user_text (push_atom u t st) = (if u then Some t else None)"
  by (simp add: user_text_def push_atom_def)

lemma push_atom_simps [simp]:
  "mode (push_atom u t st) = mode st" "script_ctx (push_atom u t st) = script_ctx st"
  "atoms (push_atom u t st) = atoms st @ [\<lparr> is_user = u, atom_text = t \<rparr>]"
  by (simp_all add: push_atom_def)

lemma set_text_simps [simp]:
  "mode (set_text t st) = mode st" "shift (set_text t st) = shift st" "altg (set_text t st) = altg st"
  "st_local (set_text t st) = st_local st" "set_text t (set_text t' st) = set_text t st"
  by (simp_all add: set_text_def)

lemma user_text_set_text [simp]: "user_text st \<noteq> None \<Longrightarrow> user_text (set_text t st) = Some t"
  by (auto simp: user_text_def set_text_def split: if_splits)

lemma set_text_same: "user_text st = Some t \<Longrightarrow> set_text t st = st"
  by (auto simp: user_text_def set_text_def split: if_splits)

lemma user_text_modifiers [simp]: "user_text (modifiers ev st) = user_text st" "mode (modifiers ev st) = mode st"
  by (simp_all add: modifiers_def user_text_def)

lemma prompt_ok_cong: "atoms st' = atoms st \<Longrightarrow> mode st' = mode st \<Longrightarrow> prompt_ok st' = prompt_ok st"
  by (simp add: prompt_ok_def user_text_def)

lemma prompt_ok_prompt: "prompt_ok (push_atom True (prompt (mode st)) st)"
  by (simp add: prompt_ok_def prompt_def split: Mode.splits)

lemma edit_total: "\<exists>t'. edit k t st = Inr (set_text t' st)"
proof -
  obtain c where "Key_char (st_local st) k (shift st) (altg st) = Inr c" using key_translation_total by blast
  then show ?thesis by (cases c) (auto simp: edit_def Let_def)
qed

lemma edit_hd:
  assumes "edit k t st = Inr st'" and "user_text st = Some t" and "t \<noteq> []" and "utf8_len (hd t) = 1"
  shows "\<exists>t'. st' = set_text t' st \<and> t' \<noteq> [] \<and> hd t' = hd t"
proof -
  define u where "u = (if k = KeyBackspace \<and> byte_len t > 1 then butlast t else t)"
  have u: "u \<noteq> []" "hd u = hd t"
    using assms(3,4) by (cases t; cases "tl t"; auto simp: u_def)+
  from key_translation_total obtain c where "Key_char (st_local st) k (shift st) (altg st) = Inr c" by blast
  then have "st' = set_text (case c of Some c \<Rightarrow> u @ [c] | None \<Rightarrow> if k = KeyEnter \<and> shift st then u @ [CHR 0x0A] else u) st"
    using assms(1) by (auto simp: edit_def u_def Let_def split: option.splits)
  with u show ?thesis
    by (intro exI [of _ "case c of Some c \<Rightarrow> u @ [c] | None \<Rightarrow> if k = KeyEnter \<and> shift st then u @ [CHR 0x0A] else u"])
      (auto split: option.splits)
qed

lemma edit_prompt_ok:
  assumes "edit k t st = Inr st'" and "user_text st = Some t" and "prompt_ok st"
  shows "prompt_ok st'"
proof -
  have t: "t \<noteq> []" "hd t = (case mode st of Shell \<Rightarrow> CHR ''>'' | FomoscriptREPL \<Rightarrow> CHR ''f'')"
    using assms(2,3) by (auto simp: prompt_ok_def)
  then have "utf8_len (hd t) = 1" by (simp add: utf8_len_def split: Mode.splits)
  from edit_hd [OF assms(1,2) t(1) this] obtain t' where "st' = set_text t' st" "t' \<noteq> []" "hd t' = hd t" by blast
  with t(2) assms(2) show ?thesis by (simp add: prompt_ok_def)
qed

section \<open>The loop over the events\<close>

lemma enter_prompt_ok:
  assumes "enter S ctx t s = Some (Inr f)"
  shows "(\<exists>fb. f = Return fb) \<or> (\<exists>st fb. f = Break (st, fb) \<and> prompt_ok st)"
  using assms by (auto simp: enter_def run_bind_eq_Inr prompt_ok_prompt split: option.splits)

lemma handle_event_prompt_ok:
  assumes "handle_event S ctx ev (st, fb) = Some (Inr f)" and "prompt_ok st"
  shows "(\<exists>fb. f = Return fb) \<or> (\<exists>st' fb'. (f = Break (st', fb') \<or> f = Continue (st', fb')) \<and> prompt_ok st')"
proof -
  have ok: "prompt_ok (modifiers ev st)" using assms(2) by (simp add: prompt_ok_def)
  obtain t where t: "user_text (modifiers ev st) = Some t" using assms(2) by (auto simp: prompt_ok_def)
  consider "\<not> trigger ev" | "trigger ev" "unat (key ev) = KeyEnter \<and> \<not> shift (modifiers ev st)"
    | "trigger ev" "\<not> (unat (key ev) = KeyEnter \<and> \<not> shift (modifiers ev st))" by blast
  then show ?thesis
  proof cases
    case 2
    with assms(1) t have "enter S ctx t (modifiers ev st, fb) = Some (Inr f)" by (simp add: handle_event_def)
    from enter_prompt_ok [OF this] show ?thesis by blast
  next
    case 3
    with assms(1) t obtain st' where "edit (unat (key ev)) t (modifiers ev st) = Inr st'" "f = Continue (st', fb)"
      by (auto simp: handle_event_def Let_def res_map_eq_Inr)
    with edit_prompt_ok [OF _ t ok] show ?thesis by blast
  qed (use assms(1) ok in \<open>auto simp: handle_event_def Let_def\<close>)
qed

lemma new_inputs_prompt_ok:
  assumes "new_inputs S ctx evs (st, fb) = Some (Inr (Some st', fb'))" and "prompt_ok st"
  shows "prompt_ok st'"
  using assms
proof (induction evs arbitrary: st fb)
  case Nil
  then show ?case by simp
next
  case (Cons ev evs)
  from Cons.prems(1) obtain f where f: "handle_event S ctx ev (st, fb) = Some (Inr f)"
    "(case f of Continue s \<Rightarrow> new_inputs S ctx evs s | Break s \<Rightarrow> Some (Inr (Some (fst s), snd s))
       | Return fb \<Rightarrow> Some (Inr (None, fb))) = Some (Inr (Some st', fb'))"
    by (auto simp: run_bind_eq_Inr)
  from handle_event_prompt_ok [OF f(1) Cons.prems(2)] f(2) Cons.IH show ?case by auto
qed

lemma handle_inputs_prompt_ok:
  assumes "handle_inputs S ctx (st, fb) = Some (Inr (Some st', fb'))" and "prompt_ok st"
  shows "prompt_ok st'"
proof -
  from assms(1) obtain u where u: "st' = u\<lparr> input_history_last_index := history_last_index (ctx_input ctx) \<rparr>"
    "u = st \<or> (\<exists>evs fb1. new_inputs S ctx evs (st, fb) = Some (Inr (Some u, fb1)))"
    by (auto simp: handle_inputs_def run_bind_eq_Inr split: if_splits)
  then have "prompt_ok u" using new_inputs_prompt_ok assms(2) by blast
  with u(1) show ?thesis using prompt_ok_cong [of st' u] by simp
qed

section \<open>Drawing leaves the shell alone\<close>

text \<open>The parts of the store that only the shell changes.\<close>

definition shell_part :: "'c Store \<Rightarrow> Atom list \<times> Mode \<times> usize \<times> Local \<times> bool \<times> bool \<times> 'c \<times> usize" where
  "shell_part st = (atoms st, mode st, st_step st, st_local st, shift st, altg st, script_ctx st, input_history_last_index st)"

lemma grab_same: "shell_part (grab inp st) = shell_part st" "b1 (grab inp st) = b1 st" "b2 (grab inp st) = b2 st"
  by (simp_all add: grab_def shell_part_def Let_def)

lemma move_window_same:
  "shell_part (move_window inp st) = shell_part st" "b1 (move_window inp st) = b1 st" "b2 (move_window inp st) = b2 st"
  by (simp_all add: move_window_def shell_part_def Let_def split: option.splits)

lemma resize_window_same:
  "shell_part (resize_window inp st) = shell_part st" "b1 (resize_window inp st) = b1 st" "b2 (resize_window inp st) = b2 st"
  by (simp_all add: resize_window_def shell_part_def Let_def)

lemma clamp_window_same:
  "shell_part (clamp_window fb st) = shell_part st" "b1 (clamp_window fb st) = b1 st" "b2 (clamp_window fb st) = b2 st"
  by (simp_all add: clamp_window_def shell_part_def Let_def)

lemma window_input_same:
  "shell_part (window_input inp fb st) = shell_part st" "b1 (window_input inp fb st) = b1 st" "b2 (window_input inp fb st) = b2 st"
  by (simp_all add: window_input_def Let_def clamp_window_same resize_window_same move_window_same grab_same)
    (simp add: shell_part_def)

lemma background_same: "background fl px wi hi st = Inr (dst, st') \<Longrightarrow> shell_part st' = shell_part st"
  by (auto simp: background_def shell_part_def Let_def split_beta res_bind_eq_Inr_iff res_map_eq_Inr split: if_splits)

lemma draw_frame_same:
  assumes "draw_frame fl F taffy ctx st = Inr (st', fb')"
  shows "shell_part st' = shell_part st"
proof -
  from assms obtain wi hi dst st1 where "background fl (app_pixels (ctx_fb ctx)) wi hi st = Inr (dst, st1)"
    "st' = window_input (ctx_input ctx) (ctx_fb ctx) st1"
    by (auto simp: draw_frame_def Let_def res_bind_eq_Inr_iff res_map_eq_Inr)
  then show ?thesis by (simp add: window_input_same background_same)
qed

lemma begin_frame_prompt_ok:
  assumes "\<And>st. store = Some st \<Longrightarrow> prompt_ok st \<and> st_step st \<noteq> 0"
  shows "prompt_ok (begin_frame S ctx store)"
proof (cases store)
  case None
  then show ?thesis by (simp add: begin_frame_def Let_def Store_init_def prompt_ok_def user_text_def push_atom_def)
next
  case (Some st)
  with assms have "prompt_ok st" "begin_frame S ctx store = st\<lparr> st_step := st_step st + 1 \<rparr>"
    by (auto simp: begin_frame_def)
  then show ?thesis using prompt_ok_cong [of "begin_frame S ctx store" st] by simp
qed

section \<open>The frame counter\<close>

text \<open>No line changes the frame counter, whatever the script does.\<close>

lemma eval_step:
  assumes "eval S e (st, fb) = Inr (v, st', fb')"
  shows "st_step st' = st_step st"
proof -
  from assms obtain c calls where calls: "res_fold (native_call S) calls (st\<lparr> script_ctx := c \<rparr>, fb) = Inr (st', fb')"
    by (auto simp: eval_def Let_def split_beta res_map_eq_Inr)
  have "st_step (fst (st', fb')) = st_step st"
  proof (rule res_fold_invariant [OF calls, where P = "\<lambda>s. st_step (fst s) = st_step st"])
    fix call s s' assume "st_step (fst s) = st_step st" "native_call S call s = Inr s'"
    then show "st_step (fst s') = st_step st"
      by (auto simp: native_call_def Let_def split_beta res_bind_eq_Inr_iff split: native.splits)
  qed simp
  then show ?thesis by simp
qed

lemma eval_all_step:
  fixes S :: "('c, 'e, 'v) script"
  assumes "eval_all S v s = Some r"
  shows "\<forall>v' s'. r = Inr (v', s') \<longrightarrow> st_step (fst s') = st_step (fst s)"
proof (rule eval_all.raw_induct [where P = "\<lambda>S v s r. \<forall>v' s'. r = Inr (v', s') \<longrightarrow> st_step (fst s') = st_step (fst s)",
      OF _ assms])
  fix rec :: "('c, 'e, 'v) script \<Rightarrow> 'v \<Rightarrow> 'c Store \<times> AppFB \<Rightarrow> ('v \<times> 'c Store \<times> AppFB) run" and S v s r
  assume 1: "\<And>S v s r. rec S v s = Some r \<Longrightarrow> \<forall>v' s'. r = Inr (v', s') \<longrightarrow> st_step (fst s') = st_step (fst s)"
    "(case parse_next_expr S (script_ctx (fst s)) of
        (None, c) \<Rightarrow> Some (Inr (v, (fst s)\<lparr> script_ctx := c \<rparr>, snd s))
      | (Some e, c) \<Rightarrow>
          (case eval S e ((fst s)\<lparr> script_ctx := c \<rparr>, snd s) of
             Inl p \<Rightarrow> Some (Inl p)
           | Inr (v, s) \<Rightarrow> rec S v s)) = Some r"
  show "\<forall>v' s'. r = Inr (v', s') \<longrightarrow> st_step (fst s') = st_step (fst s)"
  proof (cases "parse_next_expr S (script_ctx (fst s))")
    case (Pair e c)
    show ?thesis
    proof (cases e)
      case None
      with 1(2) Pair show ?thesis by auto
    next
      case (Some x)
      show ?thesis
      proof (cases "eval S x ((fst s)\<lparr> script_ctx := c \<rparr>, snd s)")
        case (Inr w)
        obtain v1 st1 fb1 where w: "w = (v1, st1, fb1)" by (cases w) auto
        with 1(2) Pair Some Inr have "rec S v1 (st1, fb1) = Some r" by simp
        from 1(1) [OF this] eval_step [of S x "(fst s)\<lparr> script_ctx := c \<rparr>" "snd s" v1 st1 fb1] Inr w
        show ?thesis by simp
      qed (use 1(2) Pair Some in auto)
    qed
  qed
qed

lemma shell_line_step:
  assumes "shell_line S ctx text (st, fb) = Some (Inr (Some st', fb'))"
  shows "st_step st' = st_step st"
proof (cases "st_step st' = st_step st")
  case False
  with assms obtain fb1 where "eval_line S ctx text (st, fb) = Some (Inr (st', fb1))"
    by (auto simp: shell_line_def Let_def push_atom_def run_bind_eq_Inr split: if_splits)
  then obtain v c st1 fb2 where
    "eval_all S (sc_unit S) (st\<lparr> script_ctx := c \<rparr>, fb) = Some (Inr (v, st1, fb2))" "st_step st' = st_step st1"
    by (auto simp: eval_line_def Let_def run_bind_eq_Inr push_atom_def)
  with eval_all_step [of S "sc_unit S" "(st\<lparr> script_ctx := c \<rparr>, fb)"] show ?thesis by fastforce
qed

lemma repl_line_step:
  assumes "repl_line S text (st, fb) = Inr (st', fb')"
  shows "st_step st' = st_step st"
proof -
  from assms obtain code where code: "(case parse_next_expr S (insert_code S code (script_ctx st)) of
          (None, c) \<Rightarrow> Inr (st\<lparr> script_ctx := c \<rparr>, fb)
        | (Some e, c) \<Rightarrow>
            res_map (\<lambda>(v, st, fb). (push_atom False (''eval: '' @ sc_show S v) st, fb))
              (eval S e (st\<lparr> script_ctx := c \<rparr>, fb))) = Inr (st', fb')"
    by (auto simp: repl_line_def res_bind_eq_Inr_iff)
  obtain e c where "parse_next_expr S (insert_code S code (script_ctx st)) = (e, c)" by fastforce
  with code have p: "(case e of None \<Rightarrow> Inr (st\<lparr> script_ctx := c \<rparr>, fb)
      | Some e \<Rightarrow> res_map (\<lambda>(v, st, fb). (push_atom False (''eval: '' @ sc_show S v) st, fb))
              (eval S e (st\<lparr> script_ctx := c \<rparr>, fb))) = Inr (st', fb')"
    by simp
  show ?thesis
  proof (cases e)
    case (Some x)
    with p obtain v st1 where "eval S x (st\<lparr> script_ctx := c \<rparr>, fb) = Inr (v, st1, fb')" "st_step st' = st_step st1"
      by (auto simp: res_map_eq_Inr push_atom_def)
    with eval_step show ?thesis by fastforce
  qed (use p in auto)
qed

lemma handle_event_step:
  assumes "handle_event S ctx ev (st, fb) = Some (Inr f)"
  shows "(\<exists>fb. f = Return fb) \<or> (\<exists>st' fb'. (f = Break (st', fb') \<or> f = Continue (st', fb')) \<and> st_step st' = st_step st)"
proof -
  let ?st = "modifiers ev st"
  have m: "st_step ?st = st_step st" by (simp add: modifiers_def)
  have edit: "edit k t ?st = Inr st' \<Longrightarrow> st_step st' = st_step st" for k t st'
    using edit_total [of k t ?st] m by (auto simp: set_text_def)
  have enter: "(\<exists>fb. f = Return fb) \<or> (\<exists>st' fb'. f = Break (st', fb') \<and> st_step st' = st_step st)"
    if "enter S ctx t (?st, fb) = Some (Inr f)" for t
  proof -
    from that obtain r fb1 where r: "(case mode ?st of
         FomoscriptREPL \<Rightarrow> Some (res_map (\<lambda>(st, fb). (Some st, fb)) (repl_line S t (?st, fb)))
       | Shell \<Rightarrow> shell_line S ctx t (?st, fb)) = Some (Inr (r, fb1))"
      and f: "f = (case r of None \<Rightarrow> Return fb1 | Some st \<Rightarrow> Break (push_atom True (prompt (mode st)) st, fb1))"
      by (auto simp: enter_def run_bind_eq_Inr)
    have "st_step st' = st_step st" if "r = Some st'" for st'
      using r that m by (auto simp: res_map_eq_Inr dest: shell_line_step repl_line_step split: Mode.splits)
    with f show ?thesis by (cases r) (auto simp: push_atom_def)
  qed
  consider "f = Continue (?st, fb)" | t where "enter S ctx t (?st, fb) = Some (Inr f)"
    | t st' where "edit (unat (key ev)) t ?st = Inr st'" "f = Continue (st', fb)"
  proof (cases "user_text ?st")
    case None
    with assms that(1) show ?thesis by (auto simp: handle_event_def Let_def split: if_splits)
  next
    case (Some t)
    with assms have "f = Continue (?st, fb) \<or> enter S ctx t (?st, fb) = Some (Inr f) \<or>
        (\<exists>st'. edit (unat (key ev)) t ?st = Inr st' \<and> f = Continue (st', fb))"
      by (simp add: handle_event_def Let_def res_map_eq_Inr split: if_splits)
    with that show ?thesis by blast
  qed
  then show ?thesis
  proof cases
    case 2
    from enter [OF this] show ?thesis by blast
  qed (use m edit in blast)+
qed

lemma new_inputs_step:
  assumes "new_inputs S ctx evs (st, fb) = Some (Inr (Some st', fb'))"
  shows "st_step st' = st_step st"
  using assms
proof (induction evs arbitrary: st fb)
  case (Cons ev evs)
  from Cons.prems obtain f where f: "handle_event S ctx ev (st, fb) = Some (Inr f)"
    "(case f of Continue s \<Rightarrow> new_inputs S ctx evs s | Break s \<Rightarrow> Some (Inr (Some (fst s), snd s))
       | Return fb \<Rightarrow> Some (Inr (None, fb))) = Some (Inr (Some st', fb'))"
    by (auto simp: run_bind_eq_Inr)
  from handle_event_step [OF f(1)] f(2) Cons.IH show ?case by fastforce
qed simp

lemma handle_inputs_step:
  "handle_inputs S ctx (st, fb) = Some (Inr (Some st', fb')) \<Longrightarrow> st_step st' = st_step st"
  by (auto simp: handle_inputs_def run_bind_eq_Inr dest: new_inputs_step split: if_splits)

section \<open>The unread events\<close>

lemma unread_events_drop:
  assumes h: "history_of log inp" and st: "input_history_last_index st = of_nat n"
    and n: "n \<le> length log" "length log \<le> n + HISTORY_SIZE" and small: "length log < 2 ^ 64 - 1"
  shows "unread_events st inp = drop n log"
proof -
  have "unat (input_history_last_index st + 1) = Suc n"
    using st n small by (simp add: unat_word_plus_one unat_of_nat_small)
  moreover have "unat (history_last_index inp) = length log"
    using h small by (simp add: history_of_def unat_of_nat_small)
  ultimately have "unread_events st inp = map (history_at inp) [n..<length log]"
    unfolding unread_events_def history_at_def by (simp add: map_Suc_upt [symmetric] comp_def del: upt_Suc)
  with input_history.window_exact [OF h n] show ?thesis by simp
qed

section \<open>Typing\<close>

lemma typing_step:
  assumes "typing_event ev" and "user_text st = Some t"
  shows "handle_event S ctx ev (st, fb) =
    Some (Inr (Continue (set_text (t @ (case typed_char st ev of None \<Rightarrow> [] | Some c \<Rightarrow> [c])) st, fb)))"
proof -
  have m: "modifiers ev st = st" using assms(1) by (simp add: modifiers_def typing_event_def)
  obtain c where "Key_char (st_local st) (unat (key ev)) (shift st) (altg st) = Inr c" using key_translation_total by blast
  then show ?thesis
    using assms m by (auto simp: handle_event_def typed_char_def typing_event_def edit_def Let_def set_text_same split: option.splits)
qed

lemma backspace_types_nothing: "Key_char loc 14 sh ag = Inr None"
proof -
  have "decode_symbol (xmap_0 ! 84) = None" "decode_symbol (xmap_0 ! 85) = None" "decode_symbol (xmap_0 ! 86) = None"
    "decode_symbol (xmap_0 ! 87) = None" "decode_symbol (xmap_0 ! 88) = None"
    by code_simp+
  moreover have "xmap ! j = xmap_0 ! j" if "j < 150" for j using xmap_nth_piece(1) that .
  ultimately have "decode_symbol (xmap ! (14 * 6 + table_column loc sh ag)) = None"
    by (cases loc) (simp_all add: table_column_def)
  moreover have "14 * 6 + table_column loc sh ag < 1530" by (cases loc) (simp_all add: table_column_def)
  then have "getxmap loc 14 sh ag = Inr (xmap ! (14 * 6 + table_column loc sh ag))"
    unfolding getxmap_def table_column_def [symmetric] by (simp only: array_get_def length_xmap if_True)
  ultimately show ?thesis by (auto simp: Key_char_def decode_symbol_def split: if_splits)
qed

lemma typed_set_text [simp]: "typed (set_text t st) evs = typed st evs"
proof -
  have "typed_char (set_text t st) = typed_char st" by (rule ext) (simp add: typed_char_def)
  then show ?thesis by (simp add: typed_def)
qed

lemma typing_events:
  assumes "\<forall>ev \<in> set evs. typing_event ev" and "user_text st = Some t"
  shows "new_inputs S ctx (evs @ rest) (st, fb) = new_inputs S ctx rest (set_text (t @ typed st evs) st, fb)"
  using assms
proof (induction evs arbitrary: st t)
  case Nil
  then show ?case by (simp add: typed_def set_text_same map_filter_simps)
next
  case (Cons ev evs)
  let ?c = "case typed_char st ev of None \<Rightarrow> [] | Some c \<Rightarrow> [c]"
  have "typed st (ev # evs) = ?c @ typed st evs" by (simp add: typed_def map_filter_simps split: option.splits)
  moreover have "user_text (set_text (t @ ?c) st) = Some (t @ ?c)" using Cons.prems(2) by simp
  moreover have "\<forall>ev \<in> set evs. typing_event ev" using Cons.prems(1) by simp
  ultimately show ?case
    using Cons.IH [of "set_text (t @ ?c) st" "t @ ?c"] typing_step [of ev st t S ctx fb] Cons.prems by simp
qed

section \<open>Properties\<close>

text \<open>An interpreter that finds no expression, operations on numbers that are all equal and a font of empty
  characters, for the concrete runs below.\<close>

definition silent_script :: "(unit, unit, unit) script" where
  "silent_script = \<lparr> sc_new = (), insert_code = (\<lambda>_ c. c), set_num = (\<lambda>_ _ c. c), set_native = (\<lambda>_ _ c. c),
     parse_next_expr = (\<lambda>c. (None, c)), sc_eval = (\<lambda>_ c. ((), c, [])), sc_unit = (), sc_show = (\<lambda>_. ''()''),
     sc_usize = (\<lambda>_. 0), sc_shade = (\<lambda>_. 0) \<rparr>"

definition unit_floats :: "unit f32_ops" where
  "unit_floats = \<lparr> f_lit = (\<lambda>_. ()), f_of_int = (\<lambda>_. ()), f_to_u8 = (\<lambda>_. 0), f_add = (\<lambda>_ _. ()), f_sub = (\<lambda>_ _. ()),
     f_mul = (\<lambda>_ _. ()), f_div = (\<lambda>_ _. ()), f_neg = (\<lambda>_. ()), f_exp = (\<lambda>_. ()), f_powi = (\<lambda>_ _. ()) \<rparr>"

definition blank_font :: font where
  "blank_font = \<lparr> font_glyph = (\<lambda>_. Some \<lparr> rc_raster = [], rc_width = 0 \<rparr>), font_backup = None, font_width = 0 \<rparr>"

definition small_screen :: Context where
  "small_screen = \<lparr> ctx_start_time = 5, ctx_pid = 1,
     ctx_fb = \<lparr> app_pixels = replicate 32 \<lparr> px_r = 9, px_g = 9, px_b = 9, px_a = 0 \<rparr>, app_w = 8, app_h = 4 \<rparr>,
     ctx_input = Input_new \<rparr>"

lemma small_screen_ok: "app_fb_ok (ctx_fb small_screen)"
  by (simp add: small_screen_def app_fb_ok_def)

lemma sint_of_small: "unat (w :: usize) < 2 ^ 63 \<Longrightarrow> nat (sint w) = unat w"
proof -
  assume less: "unat w < 2 ^ 63"
  have "uint w = int (unat w)" by (rule uint_nat)
  moreover have "sint w = signed_take_bit (LENGTH(64) - Suc 0) (uint w)" by (rule sint_uint)
  moreover have "signed_take_bit (LENGTH(64) - Suc 0) (int n) = int n" if "n < 2 ^ 63" for n
    using that by (intro signed_take_bit_int_eq_self) simp_all
  ultimately show ?thesis using less by (simp only: nat_int)
qed

lemma screen_small:
  assumes "app_fb_ok fb"
  shows "nat (sint (app_w fb)) = unat (app_w fb)" "nat (sint (app_h fb)) = unat (app_h fb)"
proof -
  have "0 < unat (app_w fb)" "0 < unat (app_h fb)" and less: "unat (app_w fb) * unat (app_h fb) < 2 ^ 63"
    using assms by (simp_all add: app_fb_ok_def word_less_nat_alt)
  then have "unat (app_w fb) * 1 \<le> unat (app_w fb) * unat (app_h fb)" "1 * unat (app_h fb) \<le> unat (app_w fb) * unat (app_h fb)"
    by (intro mult_le_mono; simp)+
  with less have "unat (app_w fb) < 2 ^ 63" "unat (app_h fb) < 2 ^ 63" by linarith+
  then show "nat (sint (app_w fb)) = unat (app_w fb)" "nat (sint (app_h fb)) = unat (app_h fb)"
    by (simp_all add: sint_of_small)
qed

lemma draw_frame_ok:
  fixes W H :: nat
  assumes ok: "app_fb_ok (ctx_fb ctx)" and W: "W = unat (app_w (ctx_fb ctx))" "4 dvd W"
    and H: "H = unat (app_h (ctx_fb ctx))" "4 dvd H" and b: "buffers_ok (W div 4) (H div 4) st"
    and title: "\<forall>c \<in> set (''app_console ['' @ show_nat (unat (ctx_pid ctx)) @ '']''). font_glyph F c \<noteq> None"
    and t: "\<forall>a \<in> set (atoms st). text_drawable F (atom_text a)"
  shows "\<exists>st' fb'. draw_frame fl F taffy ctx st = Inr (st', fb') \<and> window_on_screen (ctx_fb ctx) st' \<and>
    same_screen_but (up_to_corner st') (ctx_fb ctx) fb' \<and> buffers_ok (W div 4) (H div 4) st'"
proof -
  let ?fb = "ctx_fb ctx"
  let ?title = "''app_console ['' @ show_nat (unat (ctx_pid ctx)) @ '']''"
  have size: "nat (sint (app_w ?fb)) div nat DIV = W div 4" "nat (sint (app_h ?fb)) div nat DIV = H div 4"
    using screen_small [OF ok] W H by (simp_all add: DIV_def)
  have "W div 4 * 4 = W" "H div 4 * 4 = H" using W H by simp_all
  then have "W div 4 * 4 * (H div 4 * 4) \<le> length (app_pixels ?fb)" using ok W H by (simp add: app_fb_ok_def)
  from background_ok [OF this b] obtain dst p q where bg:
    "background fl (app_pixels ?fb) (W div 4) (H div 4) st = Inr (dst, st\<lparr> b1 := p, b2 := q \<rparr>)"
    "length dst = W div 4 * (H div 4)" "length p = W div 4 * (H div 4)" "length q = W div 4 * (H div 4)" by blast
  define st' where "st' = window_input (ctx_input ctx) ?fb (st\<lparr> b1 := p, b2 := q \<rparr>)"
  have atoms: "atoms st' = atoms st"
    using window_input_same(1) [of "ctx_input ctx" ?fb "st\<lparr> b1 := p, b2 := q \<rparr>"] by (simp add: shell_part_def st'_def)
  have on: "window_on_screen ?fb st'"
    unfolding st'_def window_input_def Let_def using ok by (intro window_on_screen_clamp) (auto simp: app_fb_ok_def)
  define header where "header = get_rect st' (taffy (st_x st') (st_y st') (st_x2 st') (st_y2 st'))"
  obtain fb1 where fb1: "draw_window (header, []) st' dst ?fb = Inr fb1" "same_screen_but (up_to_corner st') ?fb fb1"
  proof -
    have "in_window st' u v \<Longrightarrow> up_to_corner st' u v" for u v by (simp add: in_window_def up_to_corner_def)
    with that draw_window_ok [OF ok _ _ _ on, of dst "(header, [])"] bg(2) W H same_screen_but_mono show ?thesis by metis
  qed
  obtain fb2 where fb2: "draw_title F st' 0 ?title fb1 = Inr fb2" "same_screen_but (up_to_corner st') fb1 fb2"
    using draw_title_ok [OF app_fb_ok_same [OF fb1(2) ok] title] by blast
  note same = same_screen_but_trans [OF fb1(2) fb2(2)]
  have "\<forall>a \<in> set (atoms st'). text_drawable F (atom_text a)" using t atoms by simp
  then obtain fb3 where fb3: "draw_history F st' fb2 = Inr fb3" "same_screen_but (up_to_corner st') fb2 fb3"
    using draw_history_ok [OF app_fb_ok_same [OF same ok]] by blast
  have "draw_frame fl F taffy ctx st = Inr (st', fb3)"
    using fb1(1) fb2(1) fb3(1) bg(1) by (simp add: draw_frame_def Let_def size st'_def [symmetric] header_def [symmetric])
  moreover have "buffers_ok (W div 4) (H div 4) st'" using bg by (simp add: buffers_ok_def st'_def window_input_same)
  ultimately show ?thesis using on same_screen_but_trans [OF same fb3(2)] by blast
qed

text \<open>C24: Drawing a frame. On a screen whose width and height are multiples of four, with a font that has the
  characters of the history and buffers of the right size (the empty ones of the first frame included),
  a frame draws without a panic, wherever the mouse has moved the window: no pixel, no sample of the small
  copy of the screen and no weight of the blur is out of range. Only pixels up to the right and lower
  border of the window change, the borders are on the screen, and the buffers are of the right size
  for the next frame.\<close>

theorem console_frame_in_bounds:
  assumes "app_fb_ok (ctx_fb ctx)" and "4 dvd unat (app_w (ctx_fb ctx))" and "4 dvd unat (app_h (ctx_fb ctx))"
    and "buffers_ok (unat (app_w (ctx_fb ctx)) div 4) (unat (app_h (ctx_fb ctx)) div 4) st"
    and "\<forall>c \<in> set (''app_console ['' @ show_nat (unat (ctx_pid ctx)) @ '']''). font_glyph F c \<noteq> None"
    and "\<forall>a \<in> set (atoms st). text_drawable F (atom_text a)"
  shows "\<exists>st' fb'. draw_frame fl F taffy ctx st = Inr (st', fb') \<and> window_on_screen (ctx_fb ctx) st' \<and>
    same_screen_but (up_to_corner st') (ctx_fb ctx) fb' \<and>
    buffers_ok (unat (app_w (ctx_fb ctx)) div 4) (unat (app_h (ctx_fb ctx)) div 4) st'"
  using draw_frame_ok [OF assms(1) refl assms(2) refl assms(3-6)] .

theorem console_frame_in_bounds_witness:
  "\<exists>st' fb'. draw_frame unit_floats blank_font (\<lambda>x y x2 y2. (0, 0, x2 - x, 20)) small_screen
       (begin_frame silent_script small_screen None) = Inr (st', fb') \<and> st_x2 st' < 8 \<and> st_y2 st' < 4"
proof -
  let ?st = "begin_frame silent_script small_screen None"
  have "buffers_ok 2 1 ?st" by (simp add: begin_frame_def Store_init_def buffers_ok_def push_atom_def)
  moreover have "font_glyph blank_font c \<noteq> None" "text_drawable blank_font t" for c t
    by (simp_all add: blank_font_def text_drawable_def)
  moreover have "app_w (ctx_fb small_screen) = 8" "app_h (ctx_fb small_screen) = 4" by (simp_all add: small_screen_def)
  ultimately show ?thesis
    using console_frame_in_bounds [OF small_screen_ok, of ?st blank_font unit_floats "\<lambda>x y x2 y2. (0, 0, x2 - x, 20)"]
    by (auto simp: window_on_screen_def)
qed

text \<open>The small copy of the screen does not survive a larger screen. Once a frame has filled it, a frame on a
  screen that needs more samples panics with an index out of range, before anything is drawn.\<close>

theorem console_larger_screen_panics:
  assumes "app_fb_ok (ctx_fb ctx)" and "length (b1 st) = n" and "length (b2 st) = n" and "0 < n"
    and "n < (unat (app_w (ctx_fb ctx)) div 4) * (unat (app_h (ctx_fb ctx)) div 4)"
  shows "draw_frame fl F taffy ctx st = Inl IndexOutOfBounds"
proof -
  let ?wi = "unat (app_w (ctx_fb ctx)) div 4" and ?hi = "unat (app_h (ctx_fb ctx)) div 4"
  have "mix_buffer fl px ?wi ?hi (b1 st) = Inl IndexOutOfBounds" "mix_buffer fl px ?wi ?hi (b2 st) = Inl IndexOutOfBounds" for px
    using assms by (simp_all add: mix_buffer_short)
  moreover have "b1 st \<noteq> []" "b2 st \<noteq> []" using assms by auto
  ultimately have "background fl (app_pixels (ctx_fb ctx)) ?wi ?hi st = Inl IndexOutOfBounds"
    by (simp add: background_def Let_def)
  then show ?thesis using screen_small [OF assms(1)] by (simp add: draw_frame_def Let_def DIV_def)
qed

theorem console_larger_screen_panics_witness:
  "draw_frame unit_floats blank_font (\<lambda>x y x2 y2. (0, 0, x2 - x, 20)) small_screen
     ((begin_frame silent_script small_screen None)\<lparr> b1 := [GREY], b2 := [GREY] \<rparr>) = Inl IndexOutOfBounds"
  by (rule console_larger_screen_panics [OF small_screen_ok, of _ 1]) (simp_all add: small_screen_def)

text \<open>C17: The prompt. Whatever the input and whatever the scripts do, after each frame that returns the last
  entry of the history is a line of the user which begins with the sign of the current mode (the
  prompt cannot be erased by the backspace key), and the frame counter went up by one. So the only entry
  the shell edits exists, from the first frame on and until the counter wraps, unless the store was reset.\<close>

theorem console_prompt_invariant:
  assumes "console_start fl F taffy S ctx store = Some (Inr (Some st', fb'))"
    and "\<forall>st. store = Some st \<longrightarrow> prompt_ok st \<and> st_step st \<noteq> 0"
  shows "prompt_ok st' \<and> st_step st' = (case store of None \<Rightarrow> 1 | Some st \<Rightarrow> st_step st + 1)"
proof -
  from assms(1) obtain st fb where d: "draw_frame fl F taffy ctx (begin_frame S ctx store) = Inr (st, fb)"
    and h: "handle_inputs S ctx (st, fb) = Some (Inr (Some st', fb'))"
    by (auto simp: console_start_def run_bind_eq_Inr)
  have same: "atoms st = atoms (begin_frame S ctx store)" "mode st = mode (begin_frame S ctx store)"
    "st_step st = st_step (begin_frame S ctx store)"
    using draw_frame_same [OF d] by (auto simp: shell_part_def)
  have "prompt_ok (begin_frame S ctx store)" using assms(2) begin_frame_prompt_ok by blast
  then have "prompt_ok st" using prompt_ok_cong [OF same(1,2)] by simp
  then have "prompt_ok st'" using handle_inputs_prompt_ok [OF h] by simp
  moreover have "st_step st' = (case store of None \<Rightarrow> 1 | Some st \<Rightarrow> st_step st + 1)"
    using handle_inputs_step [OF h] same(3)
    by (auto simp: begin_frame_def Store_init_def push_atom_def Let_def split: option.splits)
  ultimately show ?thesis by blast
qed

theorem console_prompt_invariant_witness:
  "\<exists>st' fb'. console_start unit_floats blank_font (\<lambda>x y x2 y2. (0, 0, x2 - x, 20)) silent_script small_screen None =
     Some (Inr (Some st', fb')) \<and> prompt_ok st' \<and> st_step st' = 1"
proof -
  let ?st = "begin_frame silent_script small_screen None"
  have "buffers_ok 2 1 ?st" by (simp add: begin_frame_def Store_init_def buffers_ok_def push_atom_def)
  moreover have "font_glyph blank_font c \<noteq> None" "text_drawable blank_font t" for c t
    by (simp_all add: blank_font_def text_drawable_def)
  moreover have "app_w (ctx_fb small_screen) = 8" "app_h (ctx_fb small_screen) = 4" by (simp_all add: small_screen_def)
  ultimately obtain st fb where d:
    "draw_frame unit_floats blank_font (\<lambda>x y x2 y2. (0, 0, x2 - x, 20)) small_screen ?st = Inr (st, fb)"
    using draw_frame_ok [OF small_screen_ok refl _ refl, of ?st blank_font unit_floats "\<lambda>x y x2 y2. (0, 0, x2 - x, 20)"] by auto
  have "input_history_last_index st = 0"
    using draw_frame_same [OF d]
    by (simp add: shell_part_def begin_frame_def Store_init_def push_atom_def small_screen_def Input_new_def)
  then have "unread_events st (ctx_input small_screen) = []"
    by (simp add: unread_events_def small_screen_def Input_new_def)
  then have "\<exists>st' fb'. console_start unit_floats blank_font (\<lambda>x y x2 y2. (0, 0, x2 - x, 20)) silent_script small_screen None =
     Some (Inr (Some st', fb'))"
    by (simp add: console_start_def d handle_inputs_def)
  with console_prompt_invariant [of unit_floats blank_font "\<lambda>x y x2 y2. (0, 0, x2 - x, 20)" silent_script small_screen None]
  show ?thesis by fastforce
qed

text \<open>The events of a frame. When at most 64 events were recorded since the app last looked, the active
  window handles exactly the entries of the event log from there on, in order; an inactive one handles none
  of them. Both take note of the whole log, so what an inactive window did not handle is lost for it.\<close>

theorem console_reads_new_events:
  assumes "history_of log (ctx_input ctx)" and "input_history_last_index st = of_nat n" and "n \<le> length log"
    and "length log \<le> n + 64" and "length log < 2 ^ 64 - 1"
  shows "handle_inputs S ctx (st, fb) =
    run_bind (if active st then new_inputs S ctx (drop n log) (st, fb) else Some (Inr (Some st, fb)))
      (\<lambda>(st, fb). Some (Inr (map_option (\<lambda>st. st\<lparr> input_history_last_index := of_nat (length log) \<rparr>) st, fb)))"
  using unread_events_drop [OF assms(1-3)] assms(1,4,5)
  by (simp add: handle_inputs_def HISTORY_SIZE_def history_of_def)

theorem console_reads_new_events_witness:
  "\<exists>inp. Input_handle_incoming_state 30 True Input_new = Inr inp \<and>
     unat (history_last_index inp) = 1 \<and>
     handle_inputs silent_script (small_screen\<lparr> ctx_input := inp \<rparr>) (begin_frame silent_script small_screen None, ctx_fb small_screen) =
       Some (Inr (Some ((begin_frame silent_script small_screen None)\<lparr> input_history_last_index := 1 \<rparr>), ctx_fb small_screen))"
proof -
  let ?st = "begin_frame silent_script small_screen None"
  obtain inp where inp: "Input_handle_incoming_state 30 True Input_new = Inr inp"
    using Input_handle_total [OF input_ok_new, of 30 True] by auto
  have h: "history_of [\<lparr> trigger = True, key = 30 \<rparr>] inp" using history_of_push [OF history_of_new inp] by simp
  moreover have "input_history_last_index ?st = of_nat 0" "\<not> active ?st"
    by (simp_all add: begin_frame_def Store_init_def push_atom_def small_screen_def Input_new_def)
  moreover have "unat (history_last_index inp) = 1" using h by (simp add: history_of_def)
  ultimately show ?thesis
    using inp console_reads_new_events [of "[\<lparr> trigger = True, key = 30 \<rparr>]" "small_screen\<lparr> ctx_input := inp \<rparr>" ?st 0
      silent_script "ctx_fb small_screen"] by simp
qed



text \<open>C39: A line of the REPL that is too short. The code of a line starts behind the four characters of its prompt,
  but the backspace key erases all of them but one: a line that has no character boundary at byte four makes
  the app panic when it is entered, and one backspace on a fresh prompt is enough.\<close>

theorem console_repl_panics:
  fixes st :: "'c Store"
  assumes "mode st = FomoscriptREPL" and "user_text st = Some t" and "\<not> shift st"
  shows "((\<nexists>p r. t = p @ r \<and> byte_len p = 4) \<longrightarrow>
      handle_event S ctx (press KeyEnter) (st, fb) = Some (Inl SliceOutOfRange)) \<and>
    (t = prompt FomoscriptREPL \<longrightarrow>
      new_inputs S ctx [press KeyBackspace, press KeyEnter] (st, fb) = Some (Inl SliceOutOfRange))"
proof -
  have enter: "handle_event S ctx (press KeyEnter) (st, fb) = Some (Inl SliceOutOfRange)"
    if "mode st = FomoscriptREPL" "user_text st = Some t" "\<not> shift st" "\<nexists>p r. t = p @ r \<and> byte_len p = 4" for t and st :: "'c Store"
  proof -
    have "modifiers (press KeyEnter) st = st"
      by (simp add: modifiers_def press_def KeyEnter_def KeyLeftShift_def KeyRightAlt_def)
    with that str_from_Inl [OF that(4)] show ?thesis
      by (simp add: handle_event_def enter_def repl_line_def press_def KeyEnter_def)
  qed
  have erase: "handle_event S ctx (press KeyBackspace) (st, fb) = Some (Inr (Continue (set_text ''fos'' st, fb)))"
    if "t = prompt FomoscriptREPL"
  proof -
    have m: "modifiers (press KeyBackspace) st = st"
      by (simp add: modifiers_def press_def KeyBackspace_def KeyLeftShift_def KeyRightAlt_def)
    with that assms m backspace_types_nothing [of "st_local st" "shift st" "altg st"] show ?thesis
      by (simp add: handle_event_def edit_def prompt_def press_def KeyBackspace_def KeyEnter_def utf8_len_def)
  qed
  have short: "\<nexists>p r. ''fos'' = p @ r \<and> byte_len p = 4"
    by (auto simp: Cons_eq_append_conv utf8_len_def)
  show ?thesis
    using enter [OF assms] enter [OF _ _ _ short, of "set_text ''fos'' st"] erase assms by simp
qed

theorem console_repl_panics_witness:
  "new_inputs silent_script small_screen [press KeyBackspace, press KeyEnter]
     (push_atom True (prompt FomoscriptREPL) ((Store_init silent_script small_screen)\<lparr> mode := FomoscriptREPL \<rparr>),
      ctx_fb small_screen) = Some (Inl SliceOutOfRange)"
proof -
  let ?st = "push_atom True (prompt FomoscriptREPL) ((Store_init silent_script small_screen)\<lparr> mode := FomoscriptREPL \<rparr>)"
  have "mode ?st = FomoscriptREPL" "user_text ?st = Some (prompt FomoscriptREPL)" by simp_all
  moreover have "\<not> shift ?st" by (simp add: push_atom_def Store_init_def)
  ultimately show ?thesis using console_repl_panics [of ?st] by blast
qed

end
