(* ===== verification/Byte_Memory.thy ===== *)
theory Byte_Memory
  imports Fomos_Prelude
begin

text \<open>
  Byte-addressed memory as the unsafe code of the kernel sees it: \<^verbatim>\<open>read_volatile\<close> and
  \<^verbatim>\<open>write_volatile\<close> of integers and \<^verbatim>\<open>repr(C)\<close> structures are reads and writes of their
  little-endian bytes. The locale \<open>byte_codec\<close> is the interface every structure that lives in
  memory has to provide; its lemmas are the two laws the drivers need (a read gives back what was
  written, and a write leaves disjoint structures alone). It is interpreted here for the integer
  types and in the driver theories for their descriptors.
\<close>

type_synonym mem = "u64 \<Rightarrow> u8"

primrec write_bytes :: "mem \<Rightarrow> u64 \<Rightarrow> u8 list \<Rightarrow> mem" where
  "write_bytes m a [] = m"
| "write_bytes m a (b # bs) = write_bytes (m(a := b)) (a + 1) bs"

primrec read_bytes :: "mem \<Rightarrow> u64 \<Rightarrow> nat \<Rightarrow> u8 list" where
  "read_bytes m a 0 = []"
| "read_bytes m a (Suc n) = m a # read_bytes m (a + 1) n"

primrec le_bytes :: "nat \<Rightarrow> 'a::len word \<Rightarrow> u8 list" where
  "le_bytes 0 w = []"
| "le_bytes (Suc n) w = ucast w # le_bytes n (drop_bit 8 w)"

primrec le_word :: "u8 list \<Rightarrow> 'a::len word" where
  "le_word [] = 0"
| "le_word (b # bs) = ucast b OR push_bit 8 (le_word bs)"

text \<open>The bytes \<open>[a, a + n)\<close> do not wrap around the address space.\<close>

definition region_ok :: "u64 \<Rightarrow> nat \<Rightarrow> bool" where
  "region_ok a n \<longleftrightarrow> unat a + n \<le> 2 ^ 64"

definition region_disjoint :: "u64 \<Rightarrow> nat \<Rightarrow> u64 \<Rightarrow> nat \<Rightarrow> bool" where
  "region_disjoint a n b k \<longleftrightarrow> unat a + n \<le> unat b \<or> unat b + k \<le> unat a"

text \<open>The address types \<^verbatim>\<open>PhysAddr\<close> and \<^verbatim>\<open>VirtAddr\<close> are those of the \<^verbatim>\<open>x86_64\<close> crate: their checked
  constructors and the addition are parameters, bundled in a record. The offset at which the
  bootloader maps the physical memory is the kernel's \<^verbatim>\<open>VIRTUAL_MAPPING_OFFSET\<close>.\<close>

record addr_crate =
  phys_new :: "u64 \<Rightarrow> u64 res"
  virt_new :: "u64 \<Rightarrow> u64 res"
  virt_add :: "u64 \<Rightarrow> u64 \<Rightarrow> u64 res"

definition phys_to_virt :: "addr_crate \<Rightarrow> u64 \<Rightarrow> u64 \<Rightarrow> u64 res" where
  "phys_to_virt X voff addr = virt_add X voff addr"

section \<open>Bytes\<close>

lemma length_le_bytes [simp]: "length (le_bytes n w) = n"
  by (induction n arbitrary: w) auto

lemma length_read_bytes [simp]: "length (read_bytes m a n) = n"
  by (induction n arbitrary: a) auto

lemma read_bytes_numeral: "read_bytes m a (numeral k) = m a # read_bytes m (a + 1) (pred_numeral k)"
  by (simp add: numeral_eq_Suc)

lemma le_word_le_bytes: "le_word (le_bytes n w) = take_bit (8 * n) (w :: 'a::len word)"
proof (induction n arbitrary: w)
  case 0
  then show ?case by simp
next
  case (Suc n)
  have "ucast (ucast w :: u8) OR push_bit 8 (take_bit (8 * n) (drop_bit 8 w)) =
      take_bit (8 * Suc n) w"
    by (rule bit_word_eqI) (auto simp: bit_simps)
  then show ?case by (simp add: Suc.IH)
qed

lemma unat_succ_addr: "unat a + Suc n \<le> 2 ^ 64 \<Longrightarrow> 0 < n \<Longrightarrow> unat (a + 1 :: u64) = Suc (unat a)"
  by (rule unat_word_plus_one) auto

lemma write_bytes_other:
  assumes "region_ok a (length bs)" and "unat x < unat a \<or> unat a + length bs \<le> unat x"
  shows "write_bytes m a bs x = m x"
  using assms
proof (induction bs arbitrary: m a)
  case Nil
  then show ?case by simp
next
  case (Cons b bs)
  have "x \<noteq> a" using Cons.prems(2) by auto
  show ?case
  proof (cases "bs = []")
    case True
    with \<open>x \<noteq> a\<close> show ?thesis by simp
  next
    case False
    then have "unat (a + 1) = Suc (unat a)"
      using Cons.prems(1) by (intro unat_succ_addr [where n = "length bs"]) (auto simp: region_ok_def)
    with Cons.prems have "write_bytes (m(a := b)) (a + 1) bs x = (m(a := b)) x"
      by (intro Cons.IH) (auto simp: region_ok_def)
    with \<open>x \<noteq> a\<close> show ?thesis by simp
  qed
qed

lemma read_write_bytes:
  assumes "region_ok a (length bs)"
  shows "read_bytes (write_bytes m a bs) a (length bs) = bs"
  using assms
proof (induction bs arbitrary: m a)
  case Nil
  then show ?case by simp
next
  case (Cons b bs)
  show ?case
  proof (cases "bs = []")
    case True
    then show ?thesis by simp
  next
    case False
    then have suc: "unat (a + 1) = Suc (unat a)"
      using Cons.prems by (intro unat_succ_addr [where n = "length bs"]) (auto simp: region_ok_def)
    with Cons.prems have ok: "region_ok (a + 1) (length bs)"
      by (simp add: region_ok_def)
    then have "write_bytes (m(a := b)) (a + 1) bs a = (m(a := b)) a"
      by (rule write_bytes_other) (simp add: suc)
    with Cons.IH [OF ok] show ?thesis by simp
  qed
qed

lemma read_bytes_cong:
  assumes "region_ok a n" and "\<And>x. unat a \<le> unat x \<Longrightarrow> unat x < unat a + n \<Longrightarrow> m x = m' x"
  shows "read_bytes m a n = read_bytes m' a n"
  using assms
proof (induction n arbitrary: a)
  case 0
  then show ?case by simp
next
  case (Suc n)
  have "m a = m' a" using Suc.prems(2) by simp
  show ?case
  proof (cases "n = 0")
    case True
    with \<open>m a = m' a\<close> show ?thesis by simp
  next
    case False
    then have suc: "unat (a + 1) = Suc (unat a)"
      using Suc.prems(1) by (intro unat_succ_addr [where n = n]) (auto simp: region_ok_def)
    then have "read_bytes m (a + 1) n = read_bytes m' (a + 1) n"
      using Suc.prems by (intro Suc.IH) (auto simp: region_ok_def)
    with \<open>m a = m' a\<close> show ?thesis by simp
  qed
qed

lemma read_write_bytes_disjoint:
  assumes "region_ok a (length bs)" and "region_ok b n" and "region_disjoint a (length bs) b n"
  shows "read_bytes (write_bytes m a bs) b n = read_bytes m b n"
proof (rule read_bytes_cong [OF assms(2)])
  fix x :: u64 assume "unat b \<le> unat x" "unat x < unat b + n"
  with assms(3) show "write_bytes m a bs x = m x"
    by (intro write_bytes_other [OF assms(1)]) (auto simp: region_disjoint_def)
qed

section \<open>Structures in memory\<close>

locale byte_codec =
  fixes enc :: "'a \<Rightarrow> u8 list"
    and dec :: "u8 list \<Rightarrow> 'a"
    and size :: nat
  assumes enc_length: "length (enc v) = size"
    and dec_enc: "dec (enc v) = v"
begin

lemma read_back:
  "region_ok a size \<Longrightarrow> dec (read_bytes (write_bytes m a (enc v)) a size) = v"
  using read_write_bytes [of a "enc v" m] by (simp add: enc_length dec_enc)

lemma frame:
  "region_ok a size \<Longrightarrow> region_ok b n \<Longrightarrow> region_disjoint a size b n \<Longrightarrow>
     read_bytes (write_bytes m a (enc v)) b n = read_bytes m b n"
  by (rule read_write_bytes_disjoint) (simp_all add: enc_length)

end

interpretation codec_u16: byte_codec "le_bytes 2 :: u16 \<Rightarrow> _" le_word 2
  by unfold_locales (simp_all add: le_word_le_bytes take_bit_word_eq_self)

interpretation codec_u32: byte_codec "le_bytes 4 :: u32 \<Rightarrow> _" le_word 4
  by unfold_locales (simp_all add: le_word_le_bytes take_bit_word_eq_self)

interpretation codec_u64: byte_codec "le_bytes 8 :: u64 \<Rightarrow> _" le_word 8
  by unfold_locales (simp_all add: le_word_le_bytes take_bit_word_eq_self)

section \<open>Typed access\<close>

definition read_u16 :: "mem \<Rightarrow> u64 \<Rightarrow> u16" where
  "read_u16 m a = le_word (read_bytes m a 2)"

definition write_u16 :: "mem \<Rightarrow> u64 \<Rightarrow> u16 \<Rightarrow> mem" where
  "write_u16 m a v = write_bytes m a (le_bytes 2 v)"

definition write_u64 :: "mem \<Rightarrow> u64 \<Rightarrow> u64 \<Rightarrow> mem" where
  "write_u64 m a v = write_bytes m a (le_bytes 8 v)"

definition read_u64 :: "mem \<Rightarrow> u64 \<Rightarrow> u64" where
  "read_u64 m a = le_word (read_bytes m a 8)"

lemma read_u16_write_u16_same: "region_ok a 2 \<Longrightarrow> read_u16 (write_u16 m a v) a = v"
  by (simp add: read_u16_def write_u16_def codec_u16.read_back)

lemma read_u64_write_u64_same: "region_ok a 8 \<Longrightarrow> read_u64 (write_u64 m a v) a = v"
  by (simp add: read_u64_def write_u64_def codec_u64.read_back)

lemma read_bytes_write_u16_disjoint:
  "region_ok a 2 \<Longrightarrow> region_ok b n \<Longrightarrow> region_disjoint a 2 b n \<Longrightarrow>
     read_bytes (write_u16 m a v) b n = read_bytes m b n"
  unfolding write_u16_def by (rule codec_u16.frame)

lemma read_u16_write_u16_disjoint:
  "region_ok a 2 \<Longrightarrow> region_ok b 2 \<Longrightarrow> region_disjoint a 2 b 2 \<Longrightarrow>
     read_u16 (write_u16 m a v) b = read_u16 m b"
  by (simp add: read_u16_def read_bytes_write_u16_disjoint)

lemma unat_add_offset: "region_ok a n \<Longrightarrow> k < n \<Longrightarrow> unat (a + of_nat k) = unat a + k"
proof -
  assume "region_ok a n" "k < n"
  then have "unat a + k < 2 ^ 64" by (simp add: region_ok_def)
  moreover from this have "unat (of_nat k :: u64) = k"
    by (simp add: unat_of_nat_small)
  ultimately show ?thesis
    by (simp add: unat_word_ariths)
qed

lemma region_ok_offset:
  assumes "region_ok a n" and "k + len \<le> n" and "0 < len"
  shows "region_ok (a + of_nat k) len"
proof -
  have "unat (a + of_nat k) = unat a + k"
    using assms by (intro unat_add_offset) auto
  with assms show ?thesis by (simp add: region_ok_def)
qed

end
