(* ===== verification/Apic.thy ===== *)
theory Apic
  imports Byte_Memory
begin

text \<open>
  The interrupt controllers, \<^verbatim>\<open>src/bootloader/kernel/src/ioapic.rs\<close> and \<^verbatim>\<open>local_apic.rs\<close>, and the part of
  \<^verbatim>\<open>main.rs\<close> that programs them.

  The I/O APIC shows one register at a time through a window: the state is the selected register and
  the register file, and what a store does to the file is the parameter \<open>hw\<close>, as for the PCI ports. A
  redirection entry is decoded to the record \<^verbatim>\<open>RedTbl\<close> and encoded again. The local APIC is a page of
  registers; the driver's stores to it are a trace, its polling loops consume a list of the values the
  device shows.

  The lemmas show which bits of a redirection entry survive the decoding and encoding, and what the
  table holds after start-up.
\<close>

section \<open>Definitions\<close>

subsection \<open>The I/O APIC\<close>

record ioapic_io =
  io_sel :: u32
  io_file :: "u32 \<Rightarrow> u32"

type_synonym ioapic_hw = "u32 \<Rightarrow> u32 \<Rightarrow> (u32 \<Rightarrow> u32) \<Rightarrow> (u32 \<Rightarrow> u32)"

record IoApic =
  ioapic_virt_address :: u64
  global_system_int :: u32
  ioapic_id :: u8

text \<open>\<open>info\<close> is the entry of the ACPI table: id, address and interrupt base. The cell \<^verbatim>\<open>IO_APIC_0\<close> keeps
  the first one.\<close>

definition IoApic_init :: "addr_crate \<Rightarrow> u64 \<Rightarrow> u8 \<times> u32 \<times> u32 \<Rightarrow> IoApic option \<Rightarrow> IoApic res" where
  "IoApic_init X voff info cell =
     (case cell of
        Some a \<Rightarrow> Inr a
      | None \<Rightarrow>
          (let (i, addr, base) = info in
           res_bind (phys_new X (ucast addr)) (\<lambda>p. res_bind (phys_to_virt X voff p)
             (\<lambda>v. Inr \<lparr> ioapic_virt_address = v, global_system_int = base, ioapic_id = i \<rparr>))))"

definition set_sel :: "u32 \<Rightarrow> ioapic_io \<Rightarrow> ioapic_io" where
  "set_sel reg s = s\<lparr> io_sel := reg \<rparr>"

definition ioapic_read :: "u32 \<Rightarrow> ioapic_io \<Rightarrow> u32 \<times> ioapic_io" where
  "ioapic_read reg s = (let s = set_sel reg s in (io_file s (io_sel s), s))"

definition ioapic_write :: "ioapic_hw \<Rightarrow> u32 \<Rightarrow> u32 \<Rightarrow> ioapic_io \<Rightarrow> ioapic_io" where
  "ioapic_write hw reg value s =
     (let s = set_sel reg s in s\<lparr> io_file := hw (io_sel s) value (io_file s) \<rparr>)"

definition read_redtlb :: "u32 \<Rightarrow> ioapic_io \<Rightarrow> u64 \<times> ioapic_io" where
  "read_redtlb index s =
     (let (low, s) = ioapic_read (0x10 + 2 * index) s;
          (high, s) = ioapic_read (0x10 + 2 * index + 1) s
      in (push_bit 32 (ucast high) + ucast low, s))"

definition write_redtlb :: "ioapic_hw \<Rightarrow> u32 \<Rightarrow> u64 \<Rightarrow> ioapic_io \<Rightarrow> ioapic_io" where
  "write_redtlb hw index redtlb s =
     (let s = ioapic_write hw (0x10 + 2 * index) (ucast (redtlb AND 0xffff)) s
      in ioapic_write hw (0x10 + 2 * index + 1) (ucast (drop_bit 32 redtlb)) s)"

record RedTbl =
  red_vector :: u8
  red_delivery_mode :: u8
  red_destination_mode :: bool
  red_delivery_status :: bool
  red_pin_polarity :: bool
  red_remote_irr :: bool
  red_trigger_mode :: bool
  red_mask :: bool
  red_destination :: u8

definition RedTbl_new :: "u64 \<Rightarrow> RedTbl" where
  "RedTbl_new n =
     (let c = n;
          vector = ucast (c AND 0xff); c = drop_bit 8 c;
          delivery_mode = ucast (c AND 3); c = drop_bit 2 c;
          destination_mode = (c AND 1 \<noteq> 0); c = drop_bit 1 c;
          delivery_status = (c AND 1 \<noteq> 0); c = drop_bit 1 c;
          pin_polarity = (c AND 1 \<noteq> 0); c = drop_bit 1 c;
          remote_irr = (c AND 1 \<noteq> 0); c = drop_bit 1 c;
          trigger_mode = (c AND 1 \<noteq> 0); c = drop_bit 1 c;
          msk = (c AND 1 \<noteq> 0); c = drop_bit 1 c;
          destination = ucast (drop_bit 56 n)
      in \<lparr> red_vector = vector, red_delivery_mode = delivery_mode,
           red_destination_mode = destination_mode, red_delivery_status = delivery_status,
           red_pin_polarity = pin_polarity, red_remote_irr = remote_irr,
           red_trigger_mode = trigger_mode, red_mask = msk, red_destination = destination \<rparr>)"

definition flag :: "bool \<Rightarrow> nat \<Rightarrow> u64" where
  "flag b k = push_bit k (if b then 1 else 0)"

definition RedTbl_store :: "RedTbl \<Rightarrow> u64" where
  "RedTbl_store t =
     (let r = 0;
          r = r + push_bit 56 (ucast (red_destination t));
          r = r + ucast (red_vector t);
          r = r + push_bit 8 (ucast (red_delivery_mode t));
          r = r + flag (red_destination_mode t) 10;
          r = r + flag (red_delivery_status t) 11;
          r = r + flag (red_pin_polarity t) 12;
          r = r + flag (red_remote_irr t) 13;
          r = r + flag (red_trigger_mode t) 14;
          r = r + flag (red_mask t) 15
      in r)"

text \<open>The loop of \<^verbatim>\<open>kernel_main\<close> over the 24 lines of an I/O APIC.\<close>

definition program_line :: "ioapic_hw \<Rightarrow> nat \<Rightarrow> ioapic_io \<Rightarrow> ioapic_io" where
  "program_line hw i s =
     (let (n, s) = read_redtlb (of_nat i) s;
          red = RedTbl_new n;
          red = red\<lparr> red_vector := of_nat (50 + i) \<rparr>;
          stored = RedTbl_store red
      in write_redtlb hw (of_nat i) stored s)"

definition program_lines :: "ioapic_hw \<Rightarrow> ioapic_io \<Rightarrow> ioapic_io" where
  "program_lines hw = fold (program_line hw) [0..<24]"

text \<open>The loop over the controllers of the ACPI table: \<open>dev\<close> maps the address of a controller to its
  registers.\<close>

definition IOAPICVER :: u32 where "IOAPICVER = 1"

definition program_io_apics ::
  "addr_crate \<Rightarrow> u64 \<Rightarrow> ioapic_hw \<Rightarrow> (u8 \<times> u32 \<times> u32) list \<Rightarrow>
   IoApic option \<times> (u64 \<Rightarrow> ioapic_io) \<Rightarrow> (IoApic option \<times> (u64 \<Rightarrow> ioapic_io)) res" where
  "program_io_apics X voff hw =
     res_fold (\<lambda>info (cell, dev).
       res_bind (IoApic_init X voff info cell)
         (\<lambda>ioa. let a = ioapic_virt_address ioa;
                    (val, s) = ioapic_read IOAPICVER (dev a)
                in Inr (Some ioa, dev(a := program_lines hw s))))"

subsection \<open>The local APIC\<close>

type_synonym lapic_store = "u32 \<times> u32"

record LocalApic =
  lapic_virt_address :: u64

definition lapic_icr :: "(u32 \<Rightarrow> u32) \<Rightarrow> u64" where
  "lapic_icr rd = push_bit 32 (ucast (rd 0x310)) OR ucast (rd 0x300)"

definition ICR_PENDING :: u32 where
  "ICR_PENDING = push_bit 12 1"

text \<open>A polling loop: the list holds the values that successive reads of the register show; \<open>None\<close> when
  every one of them is pending.\<close>

fun wait_not_pending :: "u32 list \<Rightarrow> u32 list option" where
  "wait_not_pending [] = None"
| "wait_not_pending (v # vs) = (if v AND ICR_PENDING = ICR_PENDING then wait_not_pending vs else Some vs)"

definition set_icr :: "u64 \<Rightarrow> u32 list \<Rightarrow> (lapic_store list \<times> u32 list) option" where
  "set_icr value reads =
     (case wait_not_pending reads of
        None \<Rightarrow> None
      | Some reads \<Rightarrow>
          (let stores = [(0x310, ucast (drop_bit 32 value)), (0x300, ucast value)]
           in map_option (\<lambda>reads. (stores, reads)) (wait_not_pending reads)))"

definition ipi :: "usize \<Rightarrow> u32 list \<Rightarrow> (lapic_store list \<times> u32 list) option" where
  "ipi apic_id reads = (let icr = 0x4040 OR push_bit 56 apic_id in set_icr icr reads)"

definition ipi_nmi :: "u32 \<Rightarrow> u32 list \<Rightarrow> (lapic_store list \<times> u32 list) option" where
  "ipi_nmi apic_id reads =
     set_icr (push_bit 56 (ucast apic_id) OR push_bit 14 1 OR push_bit 8 4) reads"

definition lapic_eoi :: lapic_store where "lapic_eoi = (0xB0, 0)"

definition lapic_esr :: "(u32 \<Rightarrow> u32) \<Rightarrow> lapic_store \<times> u32" where
  "lapic_esr rd = ((0x280, 0), rd 0x280)"

definition set_lvt_timer :: "u32 \<Rightarrow> lapic_store" where "set_lvt_timer v = (0x320, v)"

definition set_init_count :: "u32 \<Rightarrow> lapic_store" where "set_init_count v = (0x380, v)"

definition set_div_conf :: "u32 \<Rightarrow> lapic_store" where "set_div_conf v = (0x3E0, v)"

definition set_lvt_error :: "u32 \<Rightarrow> lapic_store" where "set_lvt_error v = (0x370, v)"

definition setup_error_int :: lapic_store where "setup_error_int = set_lvt_error 49"

text \<open>The port writes that silence the two legacy controllers, with the waits on port \<^verbatim>\<open>0x80\<close>.\<close>

definition disable_pic :: "(u16 \<times> u8) list" where
  "disable_pic = concat (map (\<lambda>w. [w, (0x80, 0)])
     [(0x20, 0x11), (0xA0, 0x11), (0x21, 0xf0), (0xA1, 0xf8), (0x21, 0x4), (0xA1, 0x2),
      (0x21, 0x1), (0xA1, 0x1), (0x21, 0xff), (0xA1, 0xff)])"

text \<open>\<^verbatim>\<open>LocalApic::init\<close>: the port writes, the new value of model specific register \<^verbatim>\<open>0x1B\<close> and the stores.\<close>

definition LocalApic_init :: "u64 \<Rightarrow> (u32 \<Rightarrow> u32) \<Rightarrow> (u16 \<times> u8) list \<times> u64 \<times> lapic_store list" where
  "LocalApic_init msr rd = (disable_pic, msr OR push_bit 11 1, [(0xF0, rd 0xF0 OR 0x1FF)])"

text \<open>The frequency of the timer. \<open>tsc\<close> is what \<^verbatim>\<open>cpuid\<close> tells, when it does: the nominal frequency and, if
  it can be computed, the frequency of the time stamp counter. The latter is only logged, but it is
  unwrapped for that.\<close>

definition timer_freq :: "(u32 \<times> u64 option) option \<Rightarrow> u32 res" where
  "timer_freq tsc =
     (let freq = 1000000000
      in case tsc of
           None \<Rightarrow> Inr freq
         | Some (nominal_frequency, tsc_frequency) \<Rightarrow>
             (case tsc_frequency of None \<Rightarrow> Inl UnwrapNone | Some _ \<Rightarrow> Inr nominal_frequency))"

definition start_timer :: "u32 \<Rightarrow> lapic_store list" where
  "start_timer freq =
     (let wanted_freq_hz = 1000
      in [set_div_conf 0xB, set_lvt_timer (push_bit 17 1 + 48), set_init_count (freq div wanted_freq_hz)])"

subsection \<open>Specification vocabulary\<close>

definition plain_file :: "ioapic_hw \<Rightarrow> bool" where
  "plain_file hw \<longleftrightarrow> (\<forall>a v f. hw a v f = f(a := v))"

definition low_reg :: "nat \<Rightarrow> u32" where "low_reg i = of_nat (0x10 + 2 * i)"

definition high_reg :: "nat \<Rightarrow> u32" where "high_reg i = of_nat (0x11 + 2 * i)"

text \<open>What \<open>n\<close> rounds of the loop leave of a register file \<open>f\<close>.\<close>

definition lines_programmed :: "nat \<Rightarrow> (u32 \<Rightarrow> u32) \<Rightarrow> (u32 \<Rightarrow> u32) \<Rightarrow> bool" where
  "lines_programmed n f g \<longleftrightarrow>
     (\<forall>i<n. \<forall>k. bit (g (low_reg i)) k \<longleftrightarrow>
        k < 8 \<and> bit (of_nat (50 + i) :: u8) k \<or> 8 \<le> k \<and> k < 16 \<and> bit (f (low_reg i)) k) \<and>
     (\<forall>i<n. \<forall>k. bit (g (high_reg i)) k \<longleftrightarrow> 24 \<le> k \<and> k < 32 \<and> bit (f (high_reg i)) k) \<and>
     (\<forall>a. (\<forall>i<n. a \<noteq> low_reg i \<and> a \<noteq> high_reg i) \<longrightarrow> g a = f a)"

section \<open>Redirection entries\<close>

lemma and_one_neq_zero: "(c :: u64) AND 1 \<noteq> 0 \<longleftrightarrow> bit c 0"
  by (simp add: and_one_eq odd_iff_mod_2_eq_one bit_0 even_iff_mod_2_eq_zero)

lemma RedTbl_new_simps:
  "red_vector (RedTbl_new n) = ucast n"
  "red_delivery_mode (RedTbl_new n) = ucast (drop_bit 8 n AND 3)"
  "red_destination_mode (RedTbl_new n) = bit n 10" "red_delivery_status (RedTbl_new n) = bit n 11"
  "red_pin_polarity (RedTbl_new n) = bit n 12" "red_remote_irr (RedTbl_new n) = bit n 13"
  "red_trigger_mode (RedTbl_new n) = bit n 14" "red_mask (RedTbl_new n) = bit n 15"
  "red_destination (RedTbl_new n) = ucast (drop_bit 56 n)"
proof -
  show "red_vector (RedTbl_new n) = ucast n"
    unfolding RedTbl_new_def Let_def
    by (simp, rule bit_word_eqI) (auto simp: bit_numerals bit_simps)
qed (simp_all add: RedTbl_new_def Let_def and_one_neq_zero drop_bit_drop_bit bit_drop_bit_eq)

lemma add_eq_or: "(\<And>n. bit a n \<Longrightarrow> bit b n \<Longrightarrow> False) \<Longrightarrow> a + b = a OR (b :: 'a::len word)"
  by (rule disjunctive_add_eq_or) (auto intro!: bit_word_eqI simp: bit_and_iff)

lemma bit_flag: "bit (flag b k) n \<longleftrightarrow> b \<and> n = k \<and> k < 64"
  by (auto simp: flag_def bit_push_bit_iff bit_1_iff)

lemma bit_up_u8: "bit (ucast (w :: u8) :: u64) n \<longleftrightarrow> n < 8 \<and> bit w n"
  by (auto simp: bit_unsigned_iff dest: bit_imp_le_length)

lemma small_bits: "(w :: u8) < 4 \<Longrightarrow> bit w n \<Longrightarrow> n < 2"
  using not_bit_of_less [of w 2 n] by (simp add: word_less_nat_alt not_less) (meson not_le)

lemma bit_RedTbl_store:
  assumes "red_delivery_mode t < 4"
  shows "bit (RedTbl_store t) n \<longleftrightarrow>
    (56 \<le> n \<and> n < 64 \<and> bit (red_destination t) (n - 56)) \<or> (n < 8 \<and> bit (red_vector t) n) \<or>
    (8 \<le> n \<and> n < 10 \<and> bit (red_delivery_mode t) (n - 8)) \<or>
    (n = 10 \<and> red_destination_mode t) \<or> (n = 11 \<and> red_delivery_status t) \<or>
    (n = 12 \<and> red_pin_polarity t) \<or> (n = 13 \<and> red_remote_irr t) \<or>
    (n = 14 \<and> red_trigger_mode t) \<or> (n = 15 \<and> red_mask t)"
proof -
  let ?d = "push_bit 56 (ucast (red_destination t)) :: u64" and ?v = "ucast (red_vector t) :: u64"
  let ?m = "push_bit 8 (ucast (red_delivery_mode t)) :: u64"
  have d: "bit ?d n \<longleftrightarrow> 56 \<le> n \<and> n < 64 \<and> bit (red_destination t) (n - 56)" for n
    by (auto simp: bit_push_bit_iff bit_up_u8)
  have m: "bit ?m n \<longleftrightarrow> 8 \<le> n \<and> n < 10 \<and> bit (red_delivery_mode t) (n - 8)" for n
    using small_bits [OF assms, of "n - 8"] by (auto simp: bit_push_bit_iff bit_up_u8)
  note bits = d m bit_up_u8 bit_flag bit_or_iff
  have "RedTbl_store t = ?d OR ?v OR ?m OR flag (red_destination_mode t) 10 OR flag (red_delivery_status t) 11 OR
      flag (red_pin_polarity t) 12 OR flag (red_remote_irr t) 13 OR flag (red_trigger_mode t) 14 OR flag (red_mask t) 15"
    unfolding RedTbl_store_def Let_def
    apply (simp only: add_0)
    apply (subst add_eq_or [of ?d ?v], force simp: bits)
    apply (subst add_eq_or [of _ ?m], force simp: bits)
    apply (subst add_eq_or [of _ "flag _ 10"], force simp: bits)
    apply (subst add_eq_or [of _ "flag _ 11"], force simp: bits)
    apply (subst add_eq_or [of _ "flag _ 12"], force simp: bits)
    apply (subst add_eq_or [of _ "flag _ 13"], force simp: bits)
    apply (subst add_eq_or [of _ "flag _ 14"], force simp: bits)
    apply (subst add_eq_or [of _ "flag _ 15"], force simp: bits)
    apply (simp only: or.assoc)
    done
  then show ?thesis by (auto simp: bits)
qed

lemma delivery_mode_small: "red_delivery_mode (RedTbl_new n) < 4"
proof -
  have "(ucast (drop_bit 8 n AND 3) :: u8) = ucast (drop_bit 8 n) AND 3"
    by (rule bit_word_eqI) (auto simp: bit_numerals bit_simps)
  also have "\<dots> \<le> 3" by (rule word_and_le1)
  finally show ?thesis
    by (simp add: RedTbl_new_simps word_le_nat_alt word_less_nat_alt)
qed

lemma set_vector_fields:
  "red_vector (t\<lparr> red_vector := v \<rparr>) = v" "red_delivery_mode (t\<lparr> red_vector := v \<rparr>) = red_delivery_mode t"
  "red_destination_mode (t\<lparr> red_vector := v \<rparr>) = red_destination_mode t"
  "red_delivery_status (t\<lparr> red_vector := v \<rparr>) = red_delivery_status t"
  "red_pin_polarity (t\<lparr> red_vector := v \<rparr>) = red_pin_polarity t"
  "red_remote_irr (t\<lparr> red_vector := v \<rparr>) = red_remote_irr t"
  "red_trigger_mode (t\<lparr> red_vector := v \<rparr>) = red_trigger_mode t" "red_mask (t\<lparr> red_vector := v \<rparr>) = red_mask t"
  "red_destination (t\<lparr> red_vector := v \<rparr>) = red_destination t"
  by simp_all

lemma bit_store_new:
  "bit (RedTbl_store ((RedTbl_new n)\<lparr> red_vector := v \<rparr>)) k \<longleftrightarrow>
     k < 8 \<and> bit v k \<or> 8 \<le> k \<and> k < 16 \<and> bit n k \<or> 56 \<le> k \<and> k < 64 \<and> bit n k"
proof -
  have dm: "bit (ucast (drop_bit 8 n AND 3) :: u8) j \<longleftrightarrow> j < 2 \<and> bit n (8 + j)" for j
    by (auto simp: bit_numerals bit_simps add.commute)
  have range: "8 \<le> k \<and> k < 16 \<and> bit n k \<longleftrightarrow> (8 \<le> k \<and> k < 10 \<and> bit n k) \<or> (k = 10 \<and> bit n 10) \<or>
      (k = 11 \<and> bit n 11) \<or> (k = 12 \<and> bit n 12) \<or> (k = 13 \<and> bit n 13) \<or> (k = 14 \<and> bit n 14) \<or>
      (k = 15 \<and> bit n 15)"
    by (cases "k < 10"; cases "k = 10"; cases "k = 11"; cases "k = 12"; cases "k = 13"; cases "k = 14";
        cases "k = 15") auto
  have dm': "8 \<le> k \<and> k < 10 \<and> bit (ucast (drop_bit 8 n AND 3) :: u8) (k - 8) \<longleftrightarrow> 8 \<le> k \<and> k < 10 \<and> bit n k"
    unfolding dm by auto
  have dest': "56 \<le> k \<and> k < 64 \<and> bit (ucast (drop_bit 56 n) :: u8) (k - 56) \<longleftrightarrow> 56 \<le> k \<and> k < 64 \<and> bit n k"
    by (auto simp: bit_unsigned_iff bit_drop_bit_eq)
  have "bit (RedTbl_store ((RedTbl_new n)\<lparr> red_vector := v \<rparr>)) k \<longleftrightarrow>
     (56 \<le> k \<and> k < 64 \<and> bit (ucast (drop_bit 56 n) :: u8) (k - 56)) \<or> (k < 8 \<and> bit v k) \<or>
     (8 \<le> k \<and> k < 10 \<and> bit (ucast (drop_bit 8 n AND 3) :: u8) (k - 8)) \<or> (k = 10 \<and> bit n 10) \<or>
     (k = 11 \<and> bit n 11) \<or> (k = 12 \<and> bit n 12) \<or> (k = 13 \<and> bit n 13) \<or> (k = 14 \<and> bit n 14) \<or>
     (k = 15 \<and> bit n 15)"
    using bit_RedTbl_store [of "(RedTbl_new n)\<lparr> red_vector := v \<rparr>" k] delivery_mode_small [of n]
    unfolding set_vector_fields RedTbl_new_simps by blast
  then show ?thesis unfolding dm' dest' range by blast
qed

lemma store_new: "RedTbl_store (RedTbl_new n) = n AND 0xFF0000000000FFFF"
proof (rule bit_word_eqI)
  fix k assume k: "k < LENGTH(64)"
  have eq: "RedTbl_new n = (RedTbl_new n)\<lparr> red_vector := ucast n \<rparr>"
    by (simp add: RedTbl_new_simps(1) [symmetric])
  have mask: "(0xFF0000000000FFFF :: u64) = push_bit 56 (mask 8) OR mask 16"
    by (simp add: mask_eq_exp_minus_1 push_bit_eq_mult)
  show "bit (RedTbl_store (RedTbl_new n)) k = bit (n AND 0xFF0000000000FFFF) k"
    using k by (subst eq, subst bit_store_new, unfold mask)
      (auto simp: bit_simps)
qed

section \<open>Programming the lines\<close>

lemma read_redtlb_eq:
  "read_redtlb (of_nat i) s =
     (push_bit 32 (ucast (io_file s (high_reg i))) OR ucast (io_file s (low_reg i)), s\<lparr> io_sel := high_reg i \<rparr>)"
proof -
  have r: "(0x10 + 2 * of_nat i :: u32) = low_reg i" "low_reg i + 1 = high_reg i"
    by (simp_all add: low_reg_def high_reg_def)
  have "push_bit 32 (ucast h) + ucast l = push_bit 32 (ucast h) OR (ucast l :: u64)" for h l :: u32
    by (rule add_eq_or) (auto simp: bit_simps dest: bit_imp_le_length)
  then show ?thesis
    unfolding read_redtlb_def r by (simp add: ioapic_read_def set_sel_def Let_def)
qed

lemma program_line_file:
  assumes "plain_file hw"
  shows "\<exists>l h. io_file (program_line hw i s) = (io_file s)(low_reg i := l, high_reg i := h) \<and>
    (\<forall>k. bit l k \<longleftrightarrow> k < 8 \<and> bit (of_nat (50 + i) :: u8) k \<or> 8 \<le> k \<and> k < 16 \<and> bit (io_file s (low_reg i)) k) \<and>
    (\<forall>k. bit h k \<longleftrightarrow> 24 \<le> k \<and> k < 32 \<and> bit (io_file s (high_reg i)) k)"
proof -
  have r: "(0x10 + 2 * of_nat i :: u32) = low_reg i" "low_reg i + 1 = high_reg i"
    by (simp_all add: low_reg_def high_reg_def)
  define n :: u64 where "n = push_bit 32 (ucast (io_file s (high_reg i))) OR ucast (io_file s (low_reg i))"
  define w where "w = RedTbl_store ((RedTbl_new n)\<lparr> red_vector := of_nat (50 + i) \<rparr>)"
  have n: "bit n k \<longleftrightarrow> 32 \<le> k \<and> k < 64 \<and> bit (io_file s (high_reg i)) (k - 32) \<or>
      k < 32 \<and> bit (io_file s (low_reg i)) k" for k
    unfolding n_def by (auto simp: bit_simps dest: bit_imp_le_length)
  have w: "bit w k \<longleftrightarrow> k < 8 \<and> bit (of_nat (50 + i) :: u8) k \<or> 8 \<le> k \<and> k < 16 \<and> bit n k \<or>
      56 \<le> k \<and> k < 64 \<and> bit n k" for k
    unfolding w_def by (rule bit_store_new)
  have regs: "io_file (program_line hw i s) =
      (io_file s)(low_reg i := ucast (w AND 0xffff), high_reg i := ucast (drop_bit 32 w))"
    using assms unfolding program_line_def read_redtlb_eq write_redtlb_def r n_def [symmetric]
    by (simp add: plain_file_def ioapic_write_def set_sel_def Let_def r w_def)
  have l0: "bit (ucast (w AND 0xffff) :: u32) k \<longleftrightarrow> k < 16 \<and> bit w k" for k
    unfolding mask_numerals bit_unsigned_iff bit_and_iff bit_mask_iff by auto
  have low: "bit (ucast (w AND 0xffff) :: u32) k \<longleftrightarrow>
      k < 8 \<and> bit (of_nat (50 + i) :: u8) k \<or> 8 \<le> k \<and> k < 16 \<and> bit (io_file s (low_reg i)) k" for k
    unfolding l0 w n by (cases "k < 8"; cases "k < 16") simp_all
  have h0: "bit (ucast (drop_bit 32 w) :: u32) k \<longleftrightarrow> k < 32 \<and> bit w (32 + k)" for k
    unfolding bit_unsigned_iff bit_drop_bit_eq comp_def by auto
  have "bit (ucast (drop_bit 32 w) :: u32) k \<longleftrightarrow> 24 \<le> k \<and> k < 32 \<and> bit (io_file s (high_reg i)) k" for k
    unfolding h0 w n by (cases "24 \<le> k"; cases "k < 32") simp_all
  with regs low show ?thesis by blast
qed

lemma line_regs_inj:
  assumes "i < 24" and "j < 24"
  shows "low_reg i = low_reg j \<longleftrightarrow> i = j" "high_reg i = high_reg j \<longleftrightarrow> i = j" "low_reg i \<noteq> high_reg j"
proof -
  have "unat (low_reg k) = 0x10 + 2 * k" "unat (high_reg k) = 0x11 + 2 * k" if "k < 24" for k
    using that unfolding low_reg_def high_reg_def by (subst unat_of_nat_small; simp)+
  note u = this [OF assms(1)] this [OF assms(2)]
  show "low_reg i = low_reg j \<longleftrightarrow> i = j" "high_reg i = high_reg j \<longleftrightarrow> i = j"
    using u by (auto simp: word_unat_eq_iff)
  have "0x10 + 2 * i \<noteq> 0x11 + 2 * j" by presburger
  then show "low_reg i \<noteq> high_reg j" using u by (metis)
qed

lemma lines_programmed_Suc:
  assumes "lines_programmed n f (io_file s)" and "plain_file hw" and n: "n < 24"
  shows "lines_programmed (Suc n) f (io_file (program_line hw n s))"
proof -
  obtain l h where g: "io_file (program_line hw n s) = (io_file s)(low_reg n := l, high_reg n := h)"
    and l: "\<And>k. bit l k \<longleftrightarrow> k < 8 \<and> bit (of_nat (50 + n) :: u8) k \<or> 8 \<le> k \<and> k < 16 \<and> bit (io_file s (low_reg n)) k"
    and h: "\<And>k. bit h k \<longleftrightarrow> 24 \<le> k \<and> k < 32 \<and> bit (io_file s (high_reg n)) k"
    using program_line_file [OF assms(2)] by blast
  have fresh: "i < n \<Longrightarrow> low_reg i \<noteq> low_reg n \<and> high_reg i \<noteq> high_reg n \<and> low_reg i \<noteq> high_reg n \<and> low_reg n \<noteq> high_reg i"
    for i using line_regs_inj [of i n] line_regs_inj [of n i] n by auto
  have nn: "low_reg n \<noteq> high_reg n" using line_regs_inj n by blast
  have old: "io_file s (low_reg n) = f (low_reg n)" "io_file s (high_reg n) = f (high_reg n)"
    using assms(1) fresh unfolding lines_programmed_def by metis+
  show ?thesis
    unfolding lines_programmed_def g
  proof (intro conjI allI impI)
    fix i k assume "i < Suc n"
    then consider "i < n" | "i = n" by linarith
    then show "bit (((io_file s)(low_reg n := l, high_reg n := h)) (low_reg i)) k \<longleftrightarrow>
        k < 8 \<and> bit (of_nat (50 + i) :: u8) k \<or> 8 \<le> k \<and> k < 16 \<and> bit (f (low_reg i)) k"
      using assms(1) fresh nn l old unfolding lines_programmed_def by cases simp_all
  next
    fix i k assume "i < Suc n"
    then consider "i < n" | "i = n" by linarith
    then show "bit (((io_file s)(low_reg n := l, high_reg n := h)) (high_reg i)) k \<longleftrightarrow>
        24 \<le> k \<and> k < 32 \<and> bit (f (high_reg i)) k"
    proof cases
      case 1
      then show ?thesis using assms(1) fresh [of i] unfolding lines_programmed_def by simp metis
    qed (use h old in simp)
  qed (use assms(1) in \<open>auto simp: lines_programmed_def less_Suc_eq\<close>)
qed

lemma lines_programmed_fold:
  assumes "plain_file hw" and "n \<le> 24"
  shows "lines_programmed n (io_file s) (io_file (fold (program_line hw) [0..<n] s))"
  using assms(2)
proof (induction n)
  case 0
  then show ?case by (simp add: lines_programmed_def)
next
  case (Suc n)
  then have "lines_programmed n (io_file s) (io_file (fold (program_line hw) [0..<n] s))" by simp
  from lines_programmed_Suc [OF this assms(1)] Suc.prems show ?case by simp
qed

lemma program_lines_spec:
  "plain_file hw \<Longrightarrow> lines_programmed 24 (io_file s) (io_file (program_lines hw s))"
  using lines_programmed_fold [of hw 24 s] by (simp add: program_lines_def)

lemma programmed_vector:
  assumes "lines_programmed n f g" and "i < n"
  shows "ucast (g (low_reg i)) = (of_nat (50 + i) :: u8)" and "\<not> bit (g (low_reg i)) 16"
proof -
  have b: "bit (g (low_reg i)) k \<longleftrightarrow>
      k < 8 \<and> bit (of_nat (50 + i) :: u8) k \<or> 8 \<le> k \<and> k < 16 \<and> bit (f (low_reg i)) k" for k
    using assms unfolding lines_programmed_def by blast
  show "ucast (g (low_reg i)) = (of_nat (50 + i) :: u8)"
    by (rule bit_word_eqI) (simp add: bit_unsigned_iff b)
  show "\<not> bit (g (low_reg i)) 16" by (simp add: b)
qed

text \<open>Once the cell holds a controller, the loop programs that one again for every further entry.\<close>

lemma program_io_apics_again:
  "\<exists>dev'. program_io_apics X voff hw infos (Some ioa, dev) = Inr (Some ioa, dev') \<and>
     (\<forall>b. b \<noteq> ioapic_virt_address ioa \<longrightarrow> dev' b = dev b) \<and>
     ((\<exists>s. dev (ioapic_virt_address ioa) = program_lines hw s) \<longrightarrow>
      (\<exists>s. dev' (ioapic_virt_address ioa) = program_lines hw s))"
proof (induction infos arbitrary: dev)
  case Nil
  then show ?case by (simp add: program_io_apics_def)
next
  case (Cons info infos)
  let ?a = "ioapic_virt_address ioa"
  define dev1 where "dev1 = dev(?a := program_lines hw (snd (ioapic_read IOAPICVER (dev ?a))))"
  have "program_io_apics X voff hw (info # infos) (Some ioa, dev) = program_io_apics X voff hw infos (Some ioa, dev1)"
    by (simp add: program_io_apics_def IoApic_init_def dev1_def res_bind_def split_beta Let_def)
  moreover have prog: "\<exists>s. dev1 ?a = program_lines hw s" by (auto simp: dev1_def)
  moreover obtain dev' where "program_io_apics X voff hw infos (Some ioa, dev1) = Inr (Some ioa, dev')"
    and "\<forall>b. b \<noteq> ?a \<longrightarrow> dev' b = dev1 b" and "\<exists>s. dev' ?a = program_lines hw s"
    using Cons.IH [of dev1] prog by blast
  ultimately show ?case by (auto simp: dev1_def)
qed

lemma program_io_apics_first:
  assumes "IoApic_init X voff info None = Inr ioa"
  shows "\<exists>dev' s. program_io_apics X voff hw (info # infos) (None, dev) = Inr (Some ioa, dev') \<and>
    (\<forall>b. b \<noteq> ioapic_virt_address ioa \<longrightarrow> dev' b = dev b) \<and>
    dev' (ioapic_virt_address ioa) = program_lines hw s"
proof -
  let ?a = "ioapic_virt_address ioa"
  define dev1 where "dev1 = dev(?a := program_lines hw (snd (ioapic_read IOAPICVER (dev ?a))))"
  have "program_io_apics X voff hw (info # infos) (None, dev) = program_io_apics X voff hw infos (Some ioa, dev1)"
    using assms by (simp add: program_io_apics_def dev1_def res_bind_def split_beta Let_def)
  moreover have prog: "\<exists>s. dev1 ?a = program_lines hw s" by (auto simp: dev1_def)
  moreover obtain dev' s where "program_io_apics X voff hw infos (Some ioa, dev1) = Inr (Some ioa, dev')"
    and "\<forall>b. b \<noteq> ?a \<longrightarrow> dev' b = dev1 b" and "dev' ?a = program_lines hw s"
    using program_io_apics_again [of X voff hw infos ioa dev1] prog by blast
  ultimately show ?thesis by (intro exI [of _ dev'] exI [of _ s]) (auto simp: dev1_def)
qed

section \<open>Properties\<close>

text \<open>Redirection entries. Decoding any 64-bit entry and encoding it again keeps exactly the bits 0 to
  15 and 56 to 63 of it: the entry's bits 16 to 55, among them the mask bit (bit 16) of the hardware's
  layout, are cleared. In the other direction every record whose delivery mode fits the two bits the
  code gives it is recovered from its encoding, and a larger delivery mode is not.\<close>

theorem redirection_roundtrip:
  "RedTbl_store (RedTbl_new n) = n AND 0xFF0000000000FFFF \<and>
   (RedTbl_new (RedTbl_store t) = t \<longleftrightarrow> red_delivery_mode t < 4)"
proof (rule conjI)
  show "RedTbl_store (RedTbl_new n) = n AND 0xFF0000000000FFFF" by (rule store_new)
next
  have "RedTbl_new (RedTbl_store t) = t" if m: "red_delivery_mode t < 4"
  proof -
    note b = bit_RedTbl_store [OF m]
    have v: "ucast (RedTbl_store t) = red_vector t" "ucast (drop_bit 56 (RedTbl_store t)) = red_destination t"
      by (rule bit_word_eqI; simp add: bit_unsigned_iff bit_drop_bit_eq b)+
    have three: "(3 :: u64) = mask 2" by (simp add: mask_eq_exp_minus_1)
    have d: "ucast (drop_bit 8 (RedTbl_store t) AND 3) = red_delivery_mode t"
      unfolding three using small_bits [OF m]
      by (intro bit_word_eqI) (auto simp: bit_simps b)
    show ?thesis by (simp add: RedTbl_new_simps v d b)
  qed
  moreover have "red_delivery_mode t < 4" if "RedTbl_new (RedTbl_store t) = t"
    using delivery_mode_small [of "RedTbl_store t"] that by simp
  ultimately show "RedTbl_new (RedTbl_store t) = t \<longleftrightarrow> red_delivery_mode t < 4" by blast
qed

text \<open>The redirection table after start-up. Whatever the 24 entries were, on a controller whose
  registers keep what is stored to them the loop leaves in the low register of line \<open>i\<close> the vector
  \<open>50 + i\<close> in bits 0 to 7, the old bits 8 to 15 and zeros above, in the high register only the old
  destination, bits 24 to 31, and every other register as it was. So bit 16, the mask of the line, is
  written as zero: every line is enabled, whatever it was before.\<close>

theorem program_lines_result:
  assumes "plain_file hw" and "i < 24"
  shows "ucast (io_file (program_lines hw s) (low_reg i)) = (of_nat (50 + i) :: u8) \<and>
    drop_bit 8 (io_file (program_lines hw s) (low_reg i)) = drop_bit 8 (io_file s (low_reg i)) AND 0xFF \<and>
    \<not> bit (io_file (program_lines hw s) (low_reg i)) 16 \<and>
    io_file (program_lines hw s) (high_reg i) = io_file s (high_reg i) AND 0xFF000000 \<and>
    (\<forall>a. a \<notin> low_reg ` {..<24} \<union> high_reg ` {..<24} \<longrightarrow> io_file (program_lines hw s) a = io_file s a)"
proof -
  define f where "f = io_file s"
  define g where "g = io_file (program_lines hw s)"
  have prog: "lines_programmed 24 f g"
    using program_lines_spec [OF assms(1)] unfolding f_def g_def by simp
  then have low: "bit (g (low_reg i)) k \<longleftrightarrow>
        k < 8 \<and> bit (of_nat (50 + i) :: u8) k \<or> 8 \<le> k \<and> k < 16 \<and> bit (f (low_reg i)) k"
    and high: "bit (g (high_reg i)) k \<longleftrightarrow> 24 \<le> k \<and> k < 32 \<and> bit (f (high_reg i)) k" for k
    using assms(2) unfolding lines_programmed_def by blast+
  have rest: "a \<notin> low_reg ` {..<24} \<union> high_reg ` {..<24} \<Longrightarrow> g a = f a" for a
    using prog unfolding lines_programmed_def by blast
  have m: "(0xFF000000 :: u32) = push_bit 24 (mask 8)" "(0xFF :: u32) = mask 8"
    by (simp_all add: mask_eq_exp_minus_1 push_bit_eq_mult)
  have "drop_bit 8 (g (low_reg i)) = drop_bit 8 (f (low_reg i)) AND 0xFF"
    unfolding m by (rule bit_word_eqI) (auto simp: bit_drop_bit_eq bit_and_iff bit_mask_iff low)
  moreover have "g (high_reg i) = f (high_reg i) AND 0xFF000000"
    unfolding m by (rule bit_word_eqI) (auto simp: bit_push_bit_iff bit_and_iff bit_mask_iff high)
  ultimately show ?thesis
    using programmed_vector [OF prog assms(2)] rest unfolding g_def [symmetric] f_def [symmetric] by blast
qed

text \<open>Line 1, the keyboard's, masked at reset: its vector becomes 51 and its mask is gone.\<close>

theorem program_lines_result_witness:
  "ucast (io_file (program_lines (\<lambda>a v f. f(a := v)) \<lparr> io_sel = 0, io_file = (\<lambda>_. 0x10000) \<rparr>) (low_reg 1)) = (51 :: u8) \<and>
   \<not> bit (io_file (program_lines (\<lambda>a v f. f(a := v)) \<lparr> io_sel = 0, io_file = (\<lambda>_. 0x10000) \<rparr>) (low_reg 1)) 16 \<and>
   io_file (program_lines (\<lambda>a v f. f(a := v)) \<lparr> io_sel = 0, io_file = (\<lambda>_. 0x10000) \<rparr>) (high_reg 1) = 0"
proof -
  have p: "plain_file (\<lambda>a v f. f(a := v))" by (simp add: plain_file_def)
  from program_lines_result [OF p, of 1 "\<lparr> io_sel = 0, io_file = (\<lambda>_. 0x10000) \<rparr>"]
  show ?thesis by simp
qed

end
