(* ===== verification/Pci_Config.thy ===== *)
theory Pci_Config
  imports Fomos_Prelude
begin

text \<open>
  The PCI layer, \<^verbatim>\<open>src/bootloader/kernel/src/pci.rs\<close>: configuration accesses through the two
  ports \<^verbatim>\<open>0xCF8\<close> (address) and \<^verbatim>\<open>0xCFC\<close> (data), the narrow reads and read-modify-write
  accesses built on them, the decoding of base address registers and the enumeration of the bus.

  The state is what the ports expose: the last address written and the configuration space, the
  register each address currently reads as. What a data write does to the space is decided by the
  hardware, so it is a parameter (\<open>hw\<close>) of the writing operations; \<open>plain_register\<close> is the
  documented behaviour of an ordinary read-write register. The check of the address width in
  \<^verbatim>\<open>PhysAddr::new\<close> belongs to the \<^verbatim>\<open>x86_64\<close> crate and is the parameter \<open>phys_new\<close> of \<open>get_bar\<close>.
\<close>

section \<open>Definitions\<close>

subsection \<open>Ports\<close>

record pci_ports =
  port_config_address :: u32
  config_space :: "u32 \<Rightarrow> u32"

type_synonym pci_hw = "u32 \<Rightarrow> u32 \<Rightarrow> (u32 \<Rightarrow> u32) \<Rightarrow> (u32 \<Rightarrow> u32)"

datatype PCIConfigRegisters =
    PCIDeviceID | PCIVendorID | PCIStatus | PCICommand | PCIClassCode | PCISubclass | PCIProgIF
  | PCIRevisionID | PCIBIST | PCIHeaderType | PCILatencyTimer | PCICacheLineSize
  | PCIBAR0 | PCIBAR1 | PCIBAR2 | PCIBAR3 | PCIBAR4 | PCIBAR5
  | PCICardbusCISPointer | PCISubsystemID | PCISubsystemVendorID | PCIExpansionROMBaseAddress
  | PCICapabilitiesPointer | PCIMaxLatency | PCIMinGrant | PCIInterruptPIN | PCIInterruptLine

primrec PCIConfigRegisters_repr :: "PCIConfigRegisters \<Rightarrow> u8" where
  "PCIConfigRegisters_repr PCIDeviceID = 0x2"
| "PCIConfigRegisters_repr PCIVendorID = 0x0"
| "PCIConfigRegisters_repr PCIStatus = 0x6"
| "PCIConfigRegisters_repr PCICommand = 0x4"
| "PCIConfigRegisters_repr PCIClassCode = 0xB"
| "PCIConfigRegisters_repr PCISubclass = 0xA"
| "PCIConfigRegisters_repr PCIProgIF = 0x9"
| "PCIConfigRegisters_repr PCIRevisionID = 0x8"
| "PCIConfigRegisters_repr PCIBIST = 0xF"
| "PCIConfigRegisters_repr PCIHeaderType = 0xE"
| "PCIConfigRegisters_repr PCILatencyTimer = 0xD"
| "PCIConfigRegisters_repr PCICacheLineSize = 0xC"
| "PCIConfigRegisters_repr PCIBAR0 = 0x10"
| "PCIConfigRegisters_repr PCIBAR1 = 0x14"
| "PCIConfigRegisters_repr PCIBAR2 = 0x18"
| "PCIConfigRegisters_repr PCIBAR3 = 0x1C"
| "PCIConfigRegisters_repr PCIBAR4 = 0x20"
| "PCIConfigRegisters_repr PCIBAR5 = 0x24"
| "PCIConfigRegisters_repr PCICardbusCISPointer = 0x28"
| "PCIConfigRegisters_repr PCISubsystemID = 0x2E"
| "PCIConfigRegisters_repr PCISubsystemVendorID = 0x2C"
| "PCIConfigRegisters_repr PCIExpansionROMBaseAddress = 0x30"
| "PCIConfigRegisters_repr PCICapabilitiesPointer = 0x34"
| "PCIConfigRegisters_repr PCIMaxLatency = 0x3F"
| "PCIConfigRegisters_repr PCIMinGrant = 0x3E"
| "PCIConfigRegisters_repr PCIInterruptPIN = 0x3D"
| "PCIConfigRegisters_repr PCIInterruptLine = 0x3C"

text \<open>The value \<^verbatim>\<open>config_address\<close> writes to port \<^verbatim>\<open>0xCF8\<close>.\<close>

definition config_address_word :: "u8 \<Rightarrow> u8 \<Rightarrow> u8 \<Rightarrow> u8 \<Rightarrow> u32" where
  "config_address_word bus slot func off =
     push_bit 16 (ucast bus) OR push_bit 11 (ucast slot) OR push_bit 8 (ucast func)
     OR (ucast off AND 0xfc) OR 0x80000000"

definition config_address :: "u8 \<Rightarrow> u8 \<Rightarrow> u8 \<Rightarrow> u8 \<Rightarrow> pci_ports \<Rightarrow> pci_ports" where
  "config_address bus slot func off p =
     p\<lparr> port_config_address := config_address_word bus slot func off \<rparr>"

definition config_data_read :: "pci_ports \<Rightarrow> u32" where
  "config_data_read p = config_space p (port_config_address p)"

definition config_data_write :: "pci_hw \<Rightarrow> u32 \<Rightarrow> pci_ports \<Rightarrow> pci_ports" where
  "config_data_write hw v p =
     p\<lparr> config_space := hw (port_config_address p) v (config_space p) \<rparr>"

definition config_read_u32 :: "u8 \<Rightarrow> u8 \<Rightarrow> u8 \<Rightarrow> u8 \<Rightarrow> pci_ports \<Rightarrow> u32 \<times> pci_ports" where
  "config_read_u32 bus slot func off p =
     (let p = config_address bus slot func off p in (config_data_read p, p))"

definition config_read_u16 :: "u8 \<Rightarrow> u8 \<Rightarrow> u8 \<Rightarrow> u8 \<Rightarrow> pci_ports \<Rightarrow> u16 \<times> pci_ports" where
  "config_read_u16 bus slot func off p =
     (let p = config_address bus slot func off p;
          read = config_data_read p;
          read = drop_bit (unat ((off AND 2) * 8)) read AND 0xffff
      in (ucast read, p))"

definition config_read_u8 :: "u8 \<Rightarrow> u8 \<Rightarrow> u8 \<Rightarrow> u8 \<Rightarrow> pci_ports \<Rightarrow> u8 \<times> pci_ports" where
  "config_read_u8 bus slot func off p =
     (let p = config_address bus slot func off p;
          read = config_data_read p;
          read = drop_bit (unat ((off AND 3) * 8)) read AND 0xff
      in (ucast read, p))"

definition config_write_u32 ::
  "pci_hw \<Rightarrow> u8 \<Rightarrow> u8 \<Rightarrow> u8 \<Rightarrow> u8 \<Rightarrow> u32 \<Rightarrow> pci_ports \<Rightarrow> pci_ports" where
  "config_write_u32 hw bus slot func off data p =
     config_data_write hw data (config_address bus slot func off p)"

definition config_write_u16 ::
  "pci_hw \<Rightarrow> u8 \<Rightarrow> u8 \<Rightarrow> u8 \<Rightarrow> u8 \<Rightarrow> u16 \<Rightarrow> pci_ports \<Rightarrow> pci_ports" where
  "config_write_u16 hw bus slot func off data p =
     (let p = config_address bus slot func off p;
          read = config_data_read p;
          sh = unat ((off AND 2) * 8);
          val = (read AND NOT (push_bit sh 0xFFFF)) OR push_bit sh (ucast data)
      in config_data_write hw val p)"

definition config_write_u8 ::
  "pci_hw \<Rightarrow> u8 \<Rightarrow> u8 \<Rightarrow> u8 \<Rightarrow> u8 \<Rightarrow> u8 \<Rightarrow> pci_ports \<Rightarrow> pci_ports" where
  "config_write_u8 hw bus slot func off data p =
     (let p = config_address bus slot func off p;
          read = config_data_read p;
          sh = unat ((off AND 3) * 8);
          val = (read AND NOT (push_bit sh 0xFF)) OR push_bit sh (ucast data)
      in config_data_write hw val p)"

subsection \<open>Functions and base address registers\<close>

record Pci =
  pci_bus :: u8
  pci_slot :: u8
  pci_func :: u8

datatype Bar = Bar_None | Bar_Io u32 | Bar_Mm u64

definition Pci_config_read_u8 :: "Pci \<Rightarrow> u8 \<Rightarrow> pci_ports \<Rightarrow> u8 \<times> pci_ports" where
  "Pci_config_read_u8 d off = config_read_u8 (pci_bus d) (pci_slot d) (pci_func d) off"

definition Pci_config_write_u8 :: "pci_hw \<Rightarrow> Pci \<Rightarrow> u8 \<Rightarrow> u8 \<Rightarrow> pci_ports \<Rightarrow> pci_ports" where
  "Pci_config_write_u8 hw d off v = config_write_u8 hw (pci_bus d) (pci_slot d) (pci_func d) off v"

definition Pci_config_read_u16 :: "Pci \<Rightarrow> u8 \<Rightarrow> pci_ports \<Rightarrow> u16 \<times> pci_ports" where
  "Pci_config_read_u16 d off = config_read_u16 (pci_bus d) (pci_slot d) (pci_func d) off"

definition Pci_config_write_u16 :: "pci_hw \<Rightarrow> Pci \<Rightarrow> u8 \<Rightarrow> u16 \<Rightarrow> pci_ports \<Rightarrow> pci_ports" where
  "Pci_config_write_u16 hw d off v = config_write_u16 hw (pci_bus d) (pci_slot d) (pci_func d) off v"

definition Pci_config_read_u32 :: "Pci \<Rightarrow> u8 \<Rightarrow> pci_ports \<Rightarrow> u32 \<times> pci_ports" where
  "Pci_config_read_u32 d off = config_read_u32 (pci_bus d) (pci_slot d) (pci_func d) off"

definition idx_to_enum :: "u8 \<Rightarrow> PCIConfigRegisters" where
  "idx_to_enum idx =
     (if idx = 0 then PCIBAR0 else if idx = 1 then PCIBAR1 else if idx = 2 then PCIBAR2
      else if idx = 3 then PCIBAR3 else if idx = 4 then PCIBAR4 else PCIBAR5)"

definition get_bar :: "(u64 \<Rightarrow> u64 res) \<Rightarrow> Pci \<Rightarrow> u8 \<Rightarrow> pci_ports \<Rightarrow> (Bar \<times> pci_ports) res" where
  "get_bar phys_new d idx p =
     (let (low, p) = Pci_config_read_u32 d (PCIConfigRegisters_repr (idx_to_enum idx)) p;
          bar = (ucast low :: u64)
      in if bar = 0 then Inr (Bar_None, p)
         else if bar AND 0x1 \<noteq> 0
         then Inr (Bar_Io (ucast (bar AND 0xFFFFFFFFFFFFFFFC)), p)
         else
           let bit64 = bar AND 0x4 \<noteq> 0; not_last = idx < 5;
               (bar, p) =
                 (if bit64 \<and> not_last
                  then (let (high, p) = config_read_u32 (pci_bus d) (pci_slot d) (pci_func d)
                              (PCIConfigRegisters_repr PCIBAR0 + (idx + 1) * 4) p
                        in (bar OR push_bit 32 (ucast high), p))
                  else (bar, p));
               masked = bar AND 0xFFFFFFFFFFFFFFF0
           in if masked = 0 then Inr (Bar_None, p)
              else res_map (\<lambda>a. (Bar_Mm a, p)) (phys_new masked))"

definition get_irq :: "Pci \<Rightarrow> pci_ports \<Rightarrow> u8 \<times> pci_ports" where
  "get_irq d = Pci_config_read_u8 d (PCIConfigRegisters_repr PCIInterruptLine)"

definition get_ipin :: "Pci \<Rightarrow> pci_ports \<Rightarrow> u8 \<times> pci_ports" where
  "get_ipin d = Pci_config_read_u8 d (PCIConfigRegisters_repr PCIInterruptPIN)"

subsection \<open>Enumeration\<close>

text \<open>The three nested loops of \<^verbatim>\<open>Pcis::new\<close>, with the \<^verbatim>\<open>break\<close> out of the innermost one.\<close>

fun scan_funcs :: "u8 \<Rightarrow> u8 \<Rightarrow> u8 list \<Rightarrow> Pci list \<times> pci_ports \<Rightarrow> Pci list \<times> pci_ports" where
  "scan_funcs bus slot [] s = s"
| "scan_funcs bus slot (func # fs) (devs, p) =
     (let (vendor, p) = config_read_u16 bus slot func (PCIConfigRegisters_repr PCIVendorID) p
      in if vendor \<noteq> 0xFFFF
         then let (device_id, p) = config_read_u16 bus slot func (PCIConfigRegisters_repr PCIDeviceID) p;
                  (header_type, p) = config_read_u8 bus slot func (PCIConfigRegisters_repr PCIHeaderType) p;
                  devs = devs @ [\<lparr> pci_bus = bus, pci_slot = slot, pci_func = func \<rparr>]
              in if func = 0 \<and> header_type AND 0x80 = 0 then (devs, p)
                 else scan_funcs bus slot fs (devs, p)
         else scan_funcs bus slot fs (devs, p))"

definition scan_slots :: "u8 \<Rightarrow> Pci list \<times> pci_ports \<Rightarrow> Pci list \<times> pci_ports" where
  "scan_slots bus = fold (\<lambda>slot. scan_funcs bus slot (map of_nat [0..<8])) (map of_nat [0..<32])"

definition Pcis_new :: "pci_ports \<Rightarrow> Pci list \<times> pci_ports" where
  "Pcis_new p = fold scan_slots (map of_nat [0..<256]) ([], p)"

subsection \<open>Specification vocabulary\<close>

definition plain_register :: "pci_hw \<Rightarrow> bool" where
  "plain_register hw \<longleftrightarrow> (\<forall>a v sp. hw a v sp = sp(a := v))"

text \<open>The register a function shows at an offset.\<close>

definition pci_register :: "pci_ports \<Rightarrow> u8 \<Rightarrow> u8 \<Rightarrow> u8 \<Rightarrow> u8 \<Rightarrow> u32" where
  "pci_register p bus slot func off = config_space p (config_address_word bus slot func off)"

definition vendor_at :: "pci_ports \<Rightarrow> u8 \<Rightarrow> u8 \<Rightarrow> u8 \<Rightarrow> u16" where
  "vendor_at p bus slot func =
     fst (config_read_u16 bus slot func (PCIConfigRegisters_repr PCIVendorID) p)"

definition multifunction :: "pci_ports \<Rightarrow> u8 \<Rightarrow> u8 \<Rightarrow> bool" where
  "multifunction p bus slot \<longleftrightarrow>
     fst (config_read_u8 bus slot 0 (PCIConfigRegisters_repr PCIHeaderType) p) AND 0x80 \<noteq> 0"

definition present :: "pci_ports \<Rightarrow> u8 \<Rightarrow> u8 \<Rightarrow> u8 \<Rightarrow> bool" where
  "present p bus slot func \<longleftrightarrow> vendor_at p bus slot func \<noteq> 0xFFFF \<and>
     (func = 0 \<or> vendor_at p bus slot 0 = 0xFFFF \<or> multifunction p bus slot)"

text \<open>What the register pair at a BAR index means, in terms of the numbers it holds.\<close>

definition bar_of_registers :: "u32 \<Rightarrow> u32 \<Rightarrow> bool \<Rightarrow> Bar" where
  "bar_of_registers low high has_next =
     (if low = 0 then Bar_None
      else if odd (unat low) then Bar_Io (4 * (low div 4))
      else
        let base = 16 * (unat low div 16) + (if bit low 2 \<and> has_next then 2 ^ 32 * unat high else 0)
        in if base = 0 then Bar_None else Bar_Mm (of_nat base))"

definition pci_at :: "u8 \<Rightarrow> u8 \<Rightarrow> u8 \<Rightarrow> Pci" where
  "pci_at bus slot func = \<lparr> pci_bus = bus, pci_slot = slot, pci_func = func \<rparr>"

definition slot_devices :: "pci_ports \<Rightarrow> u8 \<Rightarrow> u8 \<Rightarrow> Pci list" where
  "slot_devices p bus slot =
     map (pci_at bus slot) (filter (present p bus slot) (map of_nat [0..<8]))"

section \<open>Accesses as functions of the configuration space\<close>

lemma pci_register_latch [simp]:
  "pci_register (p\<lparr> port_config_address := a \<rparr>) bus slot func off = pci_register p bus slot func off"
  by (simp add: pci_register_def)

lemma ucast_and_mask_u8: "ucast ((r :: u32) AND 0xff) = (ucast r :: u8)"
  by (rule bit_word_eqI) (auto simp: bit_numerals bit_simps)

lemma ucast_and_mask_u16: "ucast ((r :: u32) AND 0xffff) = (ucast r :: u16)"
  by (rule bit_word_eqI) (auto simp: bit_numerals bit_simps)

lemma shift8_cases:
  fixes off :: u8
  shows "unat ((off AND 3) * 8) = 8 * unat (off AND 3)" and "unat (off AND 3) < 4"
proof -
  have "off AND 3 \<le> 3"
    by (rule word_and_le1)
  then show lt: "unat (off AND 3) < 4"
    by (simp add: word_le_nat_alt)
  then show "unat ((off AND 3) * 8) = 8 * unat (off AND 3)"
    by (simp add: unat_word_ariths)
qed

lemma shift16_cases:
  fixes off :: u8
  shows "unat ((off AND 2) * 8) = (if bit off 1 then 16 else 0)"
proof -
  have "off AND 2 = (if bit off 1 then 2 else 0)"
    by (rule bit_word_eqI) (auto simp: bit_simps bit_2_iff)
  then show ?thesis by simp
qed

lemma config_read_u32_eq:
  "config_read_u32 bus slot func off p =
     (pci_register p bus slot func off,
      p\<lparr> port_config_address := config_address_word bus slot func off \<rparr>)"
  by (simp add: config_read_u32_def config_address_def config_data_read_def pci_register_def)

lemma config_read_u16_eq:
  "config_read_u16 bus slot func off p =
     (ucast (drop_bit (if bit off 1 then 16 else 0) (pci_register p bus slot func off)),
      p\<lparr> port_config_address := config_address_word bus slot func off \<rparr>)"
  by (simp add: config_read_u16_def config_address_def config_data_read_def pci_register_def
      ucast_and_mask_u16 shift16_cases)

lemma config_read_u8_eq:
  "config_read_u8 bus slot func off p =
     (ucast (drop_bit (8 * unat (off AND 3)) (pci_register p bus slot func off)),
      p\<lparr> port_config_address := config_address_word bus slot func off \<rparr>)"
  by (simp add: config_read_u8_def config_address_def config_data_read_def pci_register_def
      ucast_and_mask_u8 shift8_cases)

lemmas config_read_eqs = config_read_u32_eq config_read_u16_eq config_read_u8_eq

lemma vendor_at_latch [simp]:
  "vendor_at (p\<lparr> port_config_address := a \<rparr>) bus slot func = vendor_at p bus slot func"
  by (simp add: vendor_at_def config_read_eqs)

lemma multifunction_latch [simp]:
  "multifunction (p\<lparr> port_config_address := a \<rparr>) bus slot = multifunction p bus slot"
  by (simp add: multifunction_def config_read_eqs)

section \<open>The address word\<close>

lemma config_address_word_bit:
  "bit (config_address_word bus slot func off) n \<longleftrightarrow>
     n < 32 \<and> (n = 31 \<or> 16 \<le> n \<and> bit bus (n - 16) \<or> 11 \<le> n \<and> bit slot (n - 11)
       \<or> 8 \<le> n \<and> bit func (n - 8) \<or> 2 \<le> n \<and> n < 8 \<and> bit off n)"
  unfolding config_address_word_def
  by (cases "n < 32")
    (auto simp add: bit_simps bit_numerals less_imp_diff_less simp del: bit_numeral_word_iff)

lemma config_address_word_fields:
  assumes "slot < 32" and "func < 8"
  shows "ucast (drop_bit 16 (config_address_word bus slot func off)) = bus"
    and "ucast (drop_bit 11 (config_address_word bus slot func off) AND mask 5) = slot"
    and "ucast (drop_bit 8 (config_address_word bus slot func off) AND mask 3) = func"
    and "ucast (config_address_word bus slot func off AND mask 8) = off AND 0xfc"
    and "bit (config_address_word bus slot func off) 31"
proof -
  have slot: "\<not> bit slot n" if "5 \<le> n" for n
    using assms(1) that by (intro not_bit_of_less [where k = 5]) (simp_all add: word_less_nat_alt)
  have func: "\<not> bit func n" if "3 \<le> n" for n
    using assms(2) that by (intro not_bit_of_less [where k = 3]) (simp_all add: word_less_nat_alt)
  have slot': "bit slot n \<Longrightarrow> n < 5" and func': "bit func n \<Longrightarrow> n < 3" for n
    using slot func not_le by blast+
  let ?w = "config_address_word bus slot func off"
  show "ucast (drop_bit 16 ?w) = bus"
    by (rule bit_word_eqI) (auto simp: bit_simps config_address_word_bit slot func)
  show "ucast (drop_bit 11 ?w AND mask 5) = slot"
    by (rule bit_word_eqI) (auto simp: bit_simps config_address_word_bit func dest: slot')
  show "ucast (drop_bit 8 ?w AND mask 3) = func"
    by (rule bit_word_eqI) (auto simp: bit_simps config_address_word_bit dest: func')
  show "ucast (?w AND mask 8) = off AND 0xfc"
    by (rule bit_word_eqI)
      (auto simp: bit_simps config_address_word_bit bit_0xfc simp del: bit_numeral_word_iff)
  show "bit ?w 31"
    by (simp add: config_address_word_bit)
qed

lemma aligned_offset:
  fixes off i :: u8
  assumes "off AND 3 = 0" and "i < 4"
  shows "config_address_word bus slot func (off + i) = config_address_word bus slot func off"
    and "(off + i) AND 3 = i"
proof -
  have i: "bit i n \<Longrightarrow> n < 2" for n
    using assms(2) not_bit_of_less [of i 2 n] by (force simp: word_less_nat_alt)
  have off: "bit off n \<Longrightarrow> 2 \<le> n" for n
    using assms(1) by (metis bit_and_iff bit_imp_possible_bit bit_mask_iff mask_numerals(1)
        not_le bit_0_eq bot_apply bot_bool_def)
  have "off AND i = 0"
    by (rule bit_word_eqI) (use i off in \<open>fastforce simp: bit_simps\<close>)
  then have add: "off + i = off OR i"
    by (rule disjunctive_add_eq_or)
  show "config_address_word bus slot func (off + i) = config_address_word bus slot func off"
    by (rule bit_word_eqI) (use i in \<open>fastforce simp: add config_address_word_bit bit_simps\<close>)
  show "(off + i) AND 3 = i"
    by (rule bit_word_eqI)
      (use i off in \<open>fastforce simp: add bit_simps mask_numerals(1) simp del: bit_numeral_word_iff\<close>)
qed

lemma pci_register_aligned:
  "off AND 3 = 0 \<Longrightarrow> i < 4 \<Longrightarrow>
     pci_register p bus slot func (off + i) = pci_register p bus slot func off"
  by (simp add: pci_register_def aligned_offset(1))

lemma read_u8_aligned:
  "off AND 3 = 0 \<Longrightarrow> i < 4 \<Longrightarrow> fst (config_read_u8 bus slot func (off + i) p) =
     ucast (drop_bit (8 * unat i) (pci_register p bus slot func off))"
  by (simp add: config_read_u8_eq pci_register_aligned aligned_offset(2))

lemma u32_of_bytes:
  fixes r :: u32
  shows "ucast (ucast r :: u8) OR push_bit 8 (ucast (ucast (drop_bit 8 r) :: u8))
    OR push_bit 16 (ucast (ucast (drop_bit 16 r) :: u8))
    OR push_bit 24 (ucast (ucast (drop_bit 24 r) :: u8)) = r" (is "?lhs = r")
proof (rule bit_word_eqI)
  fix n assume "n < LENGTH(32)"
  then consider "n < 8" | "8 \<le> n" "n < 16" | "16 \<le> n" "n < 24" | "24 \<le> n" "n < 32"
    by force
  then show "bit ?lhs n = bit r n"
    by cases (auto simp: bit_simps)
qed

section \<open>Read-modify-write\<close>

text \<open>The word the narrow writes put together: the old register with a field replaced.\<close>

lemma bit_splice:
  fixes r :: u32 and d :: "'b::len word"
  assumes "sh + LENGTH('b) \<le> 32" and "n < 32"
  shows "bit ((r AND NOT (push_bit sh (mask LENGTH('b)))) OR push_bit sh (ucast d)) n =
    (if sh \<le> n \<and> n < sh + LENGTH('b) then bit d (n - sh) else bit r n)"
proof -
  have d: "\<not> n < sh + LENGTH('b) \<Longrightarrow> sh \<le> n \<Longrightarrow> \<not> bit d (n - sh)"
    by (auto dest: bit_imp_le_length)
  then show ?thesis
    using assms by (auto simp: bit_simps)
qed

lemma ucast_drop_bit_eqI:
  fixes x :: "'a::len word" and d :: "'b::len word"
  assumes "\<And>n. n < LENGTH('b) \<Longrightarrow> bit x (n + sh) = bit d n"
  shows "ucast (drop_bit sh x) = d"
  by (rule bit_word_eqI) (simp add: assms bit_unsigned_iff bit_drop_bit_eq add.commute)

lemma ucast_drop_splice:
  fixes r :: u32 and d :: "'b::len word"
  assumes "sh + LENGTH('b) \<le> 32"
  shows "ucast (drop_bit sh ((r AND NOT (push_bit sh (mask LENGTH('b)))) OR push_bit sh (ucast d))) = d"
  by (rule ucast_drop_bit_eqI, subst bit_splice) (use assms in auto)

lemma ucast_drop_splice_other:
  fixes r :: u32 and d :: "'b::len word"
  assumes "sh + LENGTH('b) \<le> 32" and "k + LENGTH('b) \<le> 32"
    and "k + LENGTH('b) \<le> sh \<or> sh + LENGTH('b) \<le> k"
  shows "ucast (drop_bit k ((r AND NOT (push_bit sh (mask LENGTH('b)))) OR push_bit sh (ucast d))) =
    (ucast (drop_bit k r) :: 'b word)"
  by (rule ucast_drop_bit_eqI, subst bit_splice)
    (use assms in \<open>auto simp: bit_unsigned_iff bit_drop_bit_eq add.commute\<close>)

lemma config_write_u8_eq:
  assumes "plain_register hw"
  shows "config_space (config_write_u8 hw bus slot func off data p) =
    (config_space p)(config_address_word bus slot func off :=
      (pci_register p bus slot func off AND NOT (push_bit (8 * unat (off AND 3)) (mask 8)))
        OR push_bit (8 * unat (off AND 3)) (ucast data))"
  using assms
  by (simp add: config_write_u8_def config_data_write_def config_data_read_def config_address_def
      plain_register_def pci_register_def shift8_cases Let_def mask_numerals(4))

lemma config_write_u16_eq:
  assumes "plain_register hw"
  shows "config_space (config_write_u16 hw bus slot func off data p) =
    (config_space p)(config_address_word bus slot func off :=
      (pci_register p bus slot func off AND NOT (push_bit (if bit off 1 then 16 else 0) (mask 16)))
        OR push_bit (if bit off 1 then 16 else 0) (ucast data))"
  using assms
  by (simp add: config_write_u16_def config_data_write_def config_data_read_def config_address_def
      plain_register_def pci_register_def shift16_cases Let_def mask_numerals(5))

lemma offset_split: "(off AND 0xfc) OR (off AND 3) = (off :: u8)"
  by (rule bit_word_eqI)
    (auto simp: bit_simps bit_0xfc mask_numerals(1) simp del: bit_numeral_word_iff)

lemma config_address_word_eq_iff:
  assumes "slot < 32" and "func < 8" and "slot' < 32" and "func' < 8"
  shows "config_address_word bus' slot' func' off' = config_address_word bus slot func off \<longleftrightarrow>
    bus' = bus \<and> slot' = slot \<and> func' = func \<and> off' AND 0xfc = off AND 0xfc" (is "?w' = ?w \<longleftrightarrow> ?same")
proof
  assume eq: "?w' = ?w"
  show ?same
    using config_address_word_fields(1-4) [OF assms(1,2), of bus off]
      config_address_word_fields(1-4) [OF assms(3,4), of bus' off'] unfolding eq by simp
next
  assume same: ?same
  have "bit off' n = bit off n" if "2 \<le> n" "n < 8" for n
  proof -
    have "bit (off' AND 0xfc) n = bit (off AND 0xfc) n" using same by simp
    then show ?thesis
      using that by (simp add: bit_and_iff bit_0xfc del: bit_numeral_word_iff)
  qed
  with same show "?w' = ?w"
    by (intro bit_word_eqI) (auto simp: config_address_word_bit)
qed

lemma read_u8_after_write_u8:
  assumes "plain_register hw" and "slot < 32" and "func < 8" and "slot' < 32" and "func' < 8"
  shows "fst (config_read_u8 bus' slot' func' off' (config_write_u8 hw bus slot func off d p)) =
    (if bus' = bus \<and> slot' = slot \<and> func' = func \<and> off' = off then d
     else fst (config_read_u8 bus' slot' func' off' p))"
proof -
  let ?w = "config_address_word bus slot func off" and ?w' = "config_address_word bus' slot' func' off'"
  let ?k = "unat (off AND 3)" and ?k' = "unat (off' AND 3)"
  have k: "8 * ?k + LENGTH(8) \<le> 32" "8 * ?k' + LENGTH(8) \<le> 32"
    using shift8_cases(2) [of off] shift8_cases(2) [of off'] by auto
  have rd: "fst (config_read_u8 bus' slot' func' off' q) = ucast (drop_bit (8 * ?k') (config_space q ?w'))" for q
    by (simp add: config_read_u8_eq pci_register_def)
  note wr = config_write_u8_eq [OF assms(1), of bus slot func off d p, unfolded pci_register_def]
  consider (other) "?w' \<noteq> ?w" | (same) "?w' = ?w" "?k' = ?k" | (sibling) "?w' = ?w" "?k' \<noteq> ?k"
    by blast
  then show ?thesis
  proof cases
    case other
    then show ?thesis by (auto simp: rd wr)
  next
    case same
    then have "bus' = bus \<and> slot' = slot \<and> func' = func \<and> off' AND 0xfc = off AND 0xfc"
      using config_address_word_eq_iff assms(2-5) by blast
    moreover from same(2) have "off' AND 3 = off AND 3"
      by (simp add: word_unat_eq_iff)
    ultimately have "bus' = bus \<and> slot' = slot \<and> func' = func \<and> off' = off"
      by (metis offset_split)
    moreover have "fst (config_read_u8 bus' slot' func' off' (config_write_u8 hw bus slot func off d p)) = d"
      unfolding rd wr same fun_upd_same
      using ucast_drop_splice [OF k(1), of "config_space p ?w" d] by simp
    ultimately show ?thesis by simp
  next
    case sibling
    then have "8 * ?k' + LENGTH(8) \<le> 8 * ?k \<or> 8 * ?k + LENGTH(8) \<le> 8 * ?k'"
      by auto
    from ucast_drop_splice_other [OF k this, of "config_space p ?w" d] sibling
    show ?thesis by (auto simp: rd wr)
  qed
qed

lemma read_u16_after_write_u16:
  assumes "plain_register hw" and "off AND 3 = 0"
  shows "fst (config_read_u16 bus slot func off (config_write_u16 hw bus slot func off d p)) = d"
    and "fst (config_read_u16 bus slot func (off + 2) (config_write_u16 hw bus slot func off d p)) =
      fst (config_read_u16 bus slot func (off + 2) p)"
    and "fst (config_read_u16 bus slot func (off + 2) (config_write_u16 hw bus slot func (off + 2) d p)) = d"
    and "fst (config_read_u16 bus slot func off (config_write_u16 hw bus slot func (off + 2) d p)) =
      fst (config_read_u16 bus slot func off p)"
proof -
  have w: "config_address_word bus slot func (off + 2) = config_address_word bus slot func off"
    using aligned_offset(1) [OF assms(2), of 2] by simp
  have "\<not> bit (off AND 3) 1" "bit ((off + 2) AND 3) 1"
    using assms(2) aligned_offset(2) [OF assms(2), of 2] by simp_all
  then have b: "\<not> bit off 1" "bit (off + 2) 1"
    by (simp_all add: bit_and_iff)
  note facts = config_read_u16_eq pci_register_def config_write_u16_eq [OF assms(1)] w b b [simplified]
  let ?r = "config_space p (config_address_word bus slot func off)"
  show "fst (config_read_u16 bus slot func off (config_write_u16 hw bus slot func off d p)) = d"
    using ucast_drop_splice [where sh = 0 and d = d and r = ?r] by (simp add: facts)
  show "fst (config_read_u16 bus slot func (off + 2) (config_write_u16 hw bus slot func off d p)) =
      fst (config_read_u16 bus slot func (off + 2) p)"
    using ucast_drop_splice_other [where sh = 0 and k = 16 and d = d and r = ?r] by (simp add: facts)
  show "fst (config_read_u16 bus slot func (off + 2) (config_write_u16 hw bus slot func (off + 2) d p)) = d"
    using ucast_drop_splice [where sh = 16 and d = d and r = ?r] by (simp add: facts)
  show "fst (config_read_u16 bus slot func off (config_write_u16 hw bus slot func (off + 2) d p)) =
      fst (config_read_u16 bus slot func off p)"
    using ucast_drop_splice_other [where sh = 16 and k = 0 and d = d and r = ?r] by (simp add: facts)
qed

section \<open>Base address registers\<close>

lemma u8_less_6_cases:
  fixes idx :: u8
  assumes "idx < 6"
  shows "idx = 0 \<or> idx = 1 \<or> idx = 2 \<or> idx = 3 \<or> idx = 4 \<or> idx = 5"
proof -
  have "unat idx = 0 \<or> unat idx = 1 \<or> unat idx = 2 \<or> unat idx = 3 \<or> unat idx = 4 \<or> unat idx = 5"
    using assms by (auto simp: word_less_nat_alt)
  then show ?thesis
    by (simp add: word_unat_eq_iff)
qed

lemma idx_to_enum_offset:
  "idx < 6 \<Longrightarrow> PCIConfigRegisters_repr (idx_to_enum idx) = 0x10 + idx * 4"
  using u8_less_6_cases [of idx] by (auto simp: idx_to_enum_def)

lemma low_bits:
  fixes low :: u32
  shows "(ucast low :: u64) AND 1 = 0 \<longleftrightarrow> even (unat low)"
    and "(ucast low :: u64) AND 4 = 0 \<longleftrightarrow> \<not> bit low 2"
proof -
  have "(ucast low :: u64) AND 1 = of_bool (odd (unat low))"
    by (rule bit_word_eqI) (auto simp: bit_simps simp flip: bit_0)
  then show "(ucast low :: u64) AND 1 = 0 \<longleftrightarrow> even (unat low)" by simp
  have "(ucast low :: u64) AND 4 = (if bit low 2 then 4 else 0)"
    by (rule bit_word_eqI) (auto simp: bit_simps bit_numerals simp del: bit_numeral_word_iff)
  then show "(ucast low :: u64) AND 4 = 0 \<longleftrightarrow> \<not> bit low 2" by simp
qed

lemma Suc_Suc_diff_2: "2 \<le> n \<Longrightarrow> Suc (Suc (n - 2)) = n"
  by simp

lemma io_bar_value: "(ucast ((ucast low :: u64) AND 0xFFFFFFFFFFFFFFFC) :: u32) = 4 * (low div 4)"
proof -
  have m: "(0xFFFFFFFFFFFFFFFC :: u64) = NOT (mask 2)" by (simp add: mask_eq_exp_minus_1)
  have "(ucast ((ucast low :: u64) AND 0xFFFFFFFFFFFFFFFC) :: u32) = push_bit 2 (drop_bit 2 low)"
    unfolding m by (rule bit_word_eqI) (auto simp: bit_simps Suc_Suc_diff_2)
  then show ?thesis by (simp add: push_bit_eq_mult drop_bit_eq_div mult.commute)
qed

lemma unat_clear_low_nibble:
  fixes x :: u64
  shows "unat (x AND 0xFFFFFFFFFFFFFFF0) = 16 * (unat x div 16)"
proof -
  have m: "(0xFFFFFFFFFFFFFFF0 :: u64) = NOT (mask 4)" by (simp add: mask_eq_exp_minus_1)
  have "x AND 0xFFFFFFFFFFFFFFF0 = push_bit 4 (drop_bit 4 x)"
    unfolding m by (rule bit_word_eqI) (auto simp: bit_simps)
  moreover have "unat x < 2 ^ 64"
    using unsigned_less [of x] by simp
  ultimately show ?thesis
    by (simp add: push_bit_eq_mult unat_word_ariths drop_bit_eq_div)
qed

lemma mm_bar_value:
  "unat (((ucast (low :: u32) :: u64) OR push_bit 32 (ucast (high :: u32))) AND 0xFFFFFFFFFFFFFFF0) =
     16 * (unat low div 16) + 2 ^ 32 * unat high" (is "unat (?x AND _) = _")
proof -
  have lt: "unat low < 2 ^ 32" "unat high < 2 ^ 32"
    using unsigned_less [of low] unsigned_less [of high] by simp_all
  have "(ucast low :: u64) AND push_bit 32 (ucast high) = 0"
    by (rule bit_word_eqI) (auto simp: bit_simps dest: bit_imp_le_length)
  then have "?x = ucast low + push_bit 32 (ucast high)"
    by (rule disjunctive_add_eq_or [symmetric])
  then have x: "unat ?x = unat low + 2 ^ 32 * unat high"
    using lt by (simp add: push_bit_eq_mult unat_word_ariths unat_ucast_up mult.commute)
  have "unat low + 2 ^ 32 * unat high = unat low + 16 * (2 ^ 28 * unat high)"
    by simp
  then show ?thesis
    unfolding unat_clear_low_nibble x by (simp only: div_mult_self2) simp
qed

lemma get_bar_decodes:
  assumes "idx < 6"
  shows "res_map fst (get_bar Inr d idx p) =
    Inr (bar_of_registers (pci_register p (pci_bus d) (pci_slot d) (pci_func d) (0x10 + idx * 4))
      (pci_register p (pci_bus d) (pci_slot d) (pci_func d) (0x10 + (idx + 1) * 4)) (idx < 5))"
proof -
  let ?low = "pci_register p (pci_bus d) (pci_slot d) (pci_func d) (0x10 + idx * 4)"
  let ?high = "pci_register p (pci_bus d) (pci_slot d) (pci_func d) (0x10 + (idx + 1) * 4)"
  have z: "(ucast ?low :: u64) = 0 \<longleftrightarrow> ?low = 0"
    by (simp add: unat_ucast_up flip: unat_eq_zero)
  define m where "m h = ((ucast ?low :: u64) OR push_bit 32 (ucast h)) AND 0xFFFFFFFFFFFFFFF0" for h :: u32
  have mval: "unat (m h) = 16 * (unat ?low div 16) + 2 ^ 32 * unat h" for h
    unfolding m_def by (rule mm_bar_value)
  have base: "16 * (unat ?low div 16) + (if c then 2 ^ 32 * unat ?high else 0) =
      unat (m (if c then ?high else 0))" for c
    by (simp only: mval) simp
  have plain: "(ucast ?low :: u64) AND 0xFFFFFFFFFFFFFFF0 = m 0"
    by (simp add: m_def)
  have "bar_of_registers ?low ?high (idx < 5) =
    (if ?low = 0 then Bar_None else if odd (unat ?low) then Bar_Io (4 * (?low div 4))
     else if m (if bit ?low 2 \<and> idx < 5 then ?high else 0) = 0 then Bar_None
     else Bar_Mm (m (if bit ?low 2 \<and> idx < 5 then ?high else 0)))"
    unfolding bar_of_registers_def base Let_def by (simp add: unat_eq_zero)
  then show ?thesis
    using assms
    by (simp add: get_bar_def Pci_config_read_u32_def config_read_u32_eq
        idx_to_enum_offset z low_bits io_bar_value plain Let_def m_def [symmetric])
qed

section \<open>Enumeration\<close>

lemma vendor_at_cong: "config_space q = config_space p \<Longrightarrow> vendor_at q = vendor_at p"
  by (intro ext) (simp add: vendor_at_def config_read_eqs pci_register_def)

lemma multifunction_cong: "config_space q = config_space p \<Longrightarrow> multifunction q = multifunction p"
  by (intro ext) (simp add: multifunction_def config_read_eqs pci_register_def)

lemma present_cong: "config_space q = config_space p \<Longrightarrow> present q = present p"
  using vendor_at_cong [of q p] multifunction_cong [of q p] by (intro ext) (simp add: present_def)

lemma scan_funcs_nonzero:
  assumes "0 \<notin> set fs"
  shows "fst (scan_funcs bus slot fs (devs, p)) =
      devs @ map (pci_at bus slot) (filter (\<lambda>f. vendor_at p bus slot f \<noteq> 0xFFFF) fs)"
    and "config_space (snd (scan_funcs bus slot fs (devs, p))) = config_space p"
  using assms
  by (induction fs arbitrary: devs p)
    (auto simp: config_read_eqs vendor_at_def Let_def pci_at_def split: prod.splits)

lemma funcs_split: "map of_nat [0..<8] = (0 :: u8) # map of_nat [1..<8]"
  by (simp add: upt_conv_Cons)

lemma zero_not_in_funcs: "(0 :: u8) \<notin> set (map of_nat [1..<8])"
proof
  assume "(0 :: u8) \<in> set (map of_nat [1..<8])"
  then obtain n where "1 \<le> n" "n < 8" "(of_nat n :: u8) = 0" by auto
  then have "unat (of_nat n :: u8) = 0" by simp
  with \<open>1 \<le> n\<close> \<open>n < 8\<close> show False by (simp add: unat_of_nat_small)
qed

lemma scan_funcs_slot:
  "fst (scan_funcs bus slot (map of_nat [0..<8]) (devs, p)) = devs @ slot_devices p bus slot"
  "config_space (snd (scan_funcs bus slot (map of_nat [0..<8]) (devs, p))) = config_space p"
proof -
  define fs :: "u8 list" where "fs = map of_nat [1..<8]"
  have nz: "0 \<notin> set fs" unfolding fs_def by (rule zero_not_in_funcs)
  have split: "map of_nat [0..<8] = 0 # fs"
    unfolding fs_def by (rule funcs_split)
  have filt: "filter (present p bus slot) fs =
      (if vendor_at p bus slot 0 \<noteq> 0xFFFF \<and> \<not> multifunction p bus slot then []
       else filter (\<lambda>f. vendor_at p bus slot f \<noteq> 0xFFFF) fs)"
    using nz by (auto simp: present_def filter_empty_conv intro!: filter_cong)
  have step: "scan_funcs bus slot (0 # fs) (devs, p) =
      (if vendor_at p bus slot 0 \<noteq> 0xFFFF
       then if \<not> multifunction p bus slot
            then (devs @ [pci_at bus slot 0],
                  p\<lparr> port_config_address := config_address_word bus slot 0 0xE \<rparr>)
            else scan_funcs bus slot fs (devs @ [pci_at bus slot 0],
                  p\<lparr> port_config_address := config_address_word bus slot 0 0xE \<rparr>)
       else scan_funcs bus slot fs (devs, p\<lparr> port_config_address := config_address_word bus slot 0 0 \<rparr>))"
    by (simp add: config_read_eqs vendor_at_def multifunction_def Let_def pci_at_def)
  show "fst (scan_funcs bus slot (map of_nat [0..<8]) (devs, p)) = devs @ slot_devices p bus slot"
    unfolding split slot_devices_def step
    using filt by (simp add: scan_funcs_nonzero(1) [OF nz] present_def)
  show "config_space (snd (scan_funcs bus slot (map of_nat [0..<8]) (devs, p))) = config_space p"
    unfolding split step
    by (simp add: scan_funcs_nonzero(2) [OF nz])
qed

lemma fold_collect:
  assumes "\<And>x devs q. config_space q = config_space p \<Longrightarrow>
      fst (f x (devs, q)) = devs @ g x \<and> config_space (snd (f x (devs, q))) = config_space p"
    and "config_space q = config_space p"
  shows "fst (fold f xs (devs, q)) = devs @ concat (map g xs) \<and>
    config_space (snd (fold f xs (devs, q))) = config_space (p :: pci_ports)"
  using assms(2)
proof (induction xs arbitrary: devs q)
  case Nil
  then show ?case by simp
next
  case (Cons x xs)
  obtain devs' q' where s: "f x (devs, q) = (devs', q')" by (cases "f x (devs, q)")
  with assms(1) [OF Cons.prems, of x devs] have "devs' = devs @ g x" "config_space q' = config_space p"
    by simp_all
  with Cons.IH [of q' devs'] s show ?case by simp
qed

lemma slot_devices_cong: "config_space q = config_space p \<Longrightarrow> slot_devices q = slot_devices p"
  using present_cong [of q p] by (intro ext) (simp add: slot_devices_def)

lemma scan_slots_eq:
  assumes "config_space q = config_space p"
  shows "fst (scan_slots bus (devs, q)) = devs @ concat (map (slot_devices p bus) (map of_nat [0..<32])) \<and>
    config_space (snd (scan_slots bus (devs, q))) = config_space p"
  unfolding scan_slots_def
proof (rule fold_collect [OF _ assms])
  fix slot devs and q :: pci_ports assume "config_space q = config_space p"
  then show "fst (scan_funcs bus slot (map of_nat [0..<8]) (devs, q)) = devs @ slot_devices p bus slot \<and>
      config_space (snd (scan_funcs bus slot (map of_nat [0..<8]) (devs, q))) = config_space p"
    using scan_funcs_slot [of bus slot devs q] slot_devices_cong [of q p] by simp
qed

lemma u32_of_halves:
  fixes r :: u32
  shows "ucast (ucast r :: u16) OR push_bit 16 (ucast (ucast (drop_bit 16 r) :: u16)) = r" (is "?lhs = r")
proof (rule bit_word_eqI)
  fix n assume "n < LENGTH(32)"
  then consider "n < 16" | "16 \<le> n" "n < 32" by force
  then show "bit ?lhs n = bit r n"
    by cases (auto simp: bit_simps)
qed

lemma read_u16_halves:
  assumes "off AND 3 = 0"
  shows "fst (config_read_u16 bus slot func off p) = ucast (pci_register p bus slot func off)"
    and "fst (config_read_u16 bus slot func (off + 2) p) =
      ucast (drop_bit 16 (pci_register p bus slot func off))"
proof -
  have "\<not> bit (off AND 3) 1" "bit ((off + 2) AND 3) 1"
    using assms aligned_offset(2) [OF assms, of 2] by simp_all
  then have "\<not> bit off 1" "bit (off + 2) 1"
    by (simp_all add: bit_and_iff)
  then show "fst (config_read_u16 bus slot func off p) = ucast (pci_register p bus slot func off)"
    and "fst (config_read_u16 bus slot func (off + 2) p) =
      ucast (drop_bit 16 (pci_register p bus slot func off))"
    using pci_register_aligned [OF assms, of 2] by (simp_all add: config_read_u16_eq)
qed

section \<open>Properties\<close>

text \<open>the address written to the configuration port determines the function and the register:
  two accesses use the same address exactly when bus, slot and function agree and the offsets lie
  in the same 32-bit register, and bit 31 (enable) is always set.\<close>

theorem config_address_unambiguous:
  assumes "slot < 32" and "func < 8" and "slot' < 32" and "func' < 8"
  shows "(port_config_address (config_address bus' slot' func' off' p) =
          port_config_address (config_address bus slot func off p) \<longleftrightarrow>
            bus' = bus \<and> slot' = slot \<and> func' = func \<and> off' AND 0xfc = off AND 0xfc) \<and>
         bit (port_config_address (config_address bus slot func off p)) 31"
  using config_address_word_eq_iff [OF assms] config_address_word_fields(5) [OF assms(1,2)]
  by (simp add: config_address_def)

theorem config_address_unambiguous_witness:
  "(3 :: u8) < 32 \<and> (1 :: u8) < 8 \<and>
   port_config_address (config_address 0 3 1 0x11 \<lparr> port_config_address = 0, config_space = (\<lambda>_. 0) \<rparr>) =
   port_config_address (config_address 0 3 1 0x10 \<lparr> port_config_address = 0, config_space = (\<lambda>_. 0) \<rparr>)"
  using config_address_unambiguous [where slot = 3 and func = 1 and slot' = 3 and func' = 1
      and bus = 0 and bus' = 0 and off' = "0x11" and off = "0x10"
      and p = "\<lparr> port_config_address = 0, config_space = (\<lambda>_. 0) \<rparr>"]
  by simp

text \<open>the byte and half-word reads are views of the 32-bit read: the four byte reads of an aligned
  register reassemble it, and so do its two half-word reads.\<close>

theorem narrow_reads_agree:
  assumes "off AND 3 = 0"
  shows "fst (config_read_u32 bus slot func off p) =
      ucast (fst (config_read_u8 bus slot func off p))
      OR push_bit 8 (ucast (fst (config_read_u8 bus slot func (off + 1) p)))
      OR push_bit 16 (ucast (fst (config_read_u8 bus slot func (off + 2) p)))
      OR push_bit 24 (ucast (fst (config_read_u8 bus slot func (off + 3) p))) \<and>
    fst (config_read_u32 bus slot func off p) =
      ucast (fst (config_read_u16 bus slot func off p))
      OR push_bit 16 (ucast (fst (config_read_u16 bus slot func (off + 2) p)))"
proof -
  let ?r = "pci_register p bus slot func off"
  have b: "fst (config_read_u8 bus slot func (off + i) p) = ucast (drop_bit (8 * unat i) ?r)" if "i < 4" for i
    using assms that by (rule read_u8_aligned)
  have b0: "fst (config_read_u8 bus slot func off p) = ucast ?r"
    using b [of 0] by simp
  have h0: "fst (config_read_u16 bus slot func off p) = ucast ?r"
    and h1: "fst (config_read_u16 bus slot func (off + 2) p) = ucast (drop_bit 16 ?r)"
    using read_u16_halves [OF assms, of bus slot func p] by simp_all
  show ?thesis
    using u32_of_bytes [of ?r] u32_of_halves [of ?r] by (simp add: b b0 h0 h1 config_read_u32_eq)
qed

theorem narrow_reads_agree_witness:
  "(0x10 :: u8) AND 3 = 0 \<and>
   fst (config_read_u16 0 0 0 0x12 \<lparr> port_config_address = 0, config_space = (\<lambda>_. 0x12345678) \<rparr>) = 0x1234"
proof -
  let ?p = "\<lparr> port_config_address = 0, config_space = (\<lambda>_. 0x12345678) \<rparr>"
  have h: "(0x10 :: u8) AND 3 = 0" by simp
  have "fst (config_read_u32 0 0 0 0x10 ?p) = 0x12345678"
    by (simp add: config_read_u32_eq pci_register_def)
  with narrow_reads_agree [OF h, of 0 0 0 ?p] show ?thesis
    by (simp add: config_read_u16_eq pci_register_def)
qed

text \<open>on ordinary read-write registers the byte write is a read-modify-write that changes exactly
  the addressed byte: it is read back, and every other byte of every function is left alone.\<close>

theorem byte_write_is_local:
  assumes "plain_register hw" and "slot < 32" and "func < 8" and "slot' < 32" and "func' < 8"
  shows "fst (config_read_u8 bus' slot' func' off' (config_write_u8 hw bus slot func off d p)) =
    (if bus' = bus \<and> slot' = slot \<and> func' = func \<and> off' = off then d
     else fst (config_read_u8 bus' slot' func' off' p))"
  using assms by (rule read_u8_after_write_u8)

theorem byte_write_is_local_witness:
  "fst (config_read_u8 0 2 1 5 (config_write_u8 (\<lambda>a v sp. sp(a := v)) 0 2 1 5 0xAB
     \<lparr> port_config_address = 0, config_space = (\<lambda>_. 0) \<rparr>)) = 0xAB"
proof -
  have "plain_register (\<lambda>a v sp. sp(a := v))" by (simp add: plain_register_def)
  from byte_write_is_local [OF this, of 2 1 2 1 0 5 0 5] show ?thesis by simp
qed

text \<open>on ordinary read-write registers the half-word write changes exactly the addressed half of a
  register: it is read back, and the other half keeps its value.\<close>

theorem half_word_write_is_local:
  assumes "plain_register hw" and "off AND 3 = 0"
  shows "fst (config_read_u16 bus slot func off (config_write_u16 hw bus slot func off d p)) = d \<and>
    fst (config_read_u16 bus slot func (off + 2) (config_write_u16 hw bus slot func off d p)) =
      fst (config_read_u16 bus slot func (off + 2) p) \<and>
    fst (config_read_u16 bus slot func (off + 2) (config_write_u16 hw bus slot func (off + 2) d p)) = d \<and>
    fst (config_read_u16 bus slot func off (config_write_u16 hw bus slot func (off + 2) d p)) =
      fst (config_read_u16 bus slot func off p)"
  using read_u16_after_write_u16 [OF assms] by blast

theorem half_word_write_is_local_witness:
  "fst (config_read_u16 0 2 1 6 (config_write_u16 (\<lambda>a v sp. sp(a := v)) 0 2 1 6 0xABCD
     \<lparr> port_config_address = 0, config_space = (\<lambda>_. 0) \<rparr>)) = 0xABCD"
proof -
  have "plain_register (\<lambda>a v sp. sp(a := v))" by (simp add: plain_register_def)
  from half_word_write_is_local [OF this, of 4 0 2 1 "0xABCD" "\<lparr> port_config_address = 0, config_space = (\<lambda>_. 0) \<rparr>"]
  show ?thesis by simp
qed

text \<open>a base address register is decoded to the base its register pair encodes: nothing for an
  empty register, an I/O base with the two flag bits cleared, a memory base with the four flag bits
  cleared and, for a 64-bit register that is not the last one, the next register as its upper half.\<close>

theorem bar_decoding:
  assumes "idx < 6"
  shows "res_map fst (get_bar Inr d idx p) =
    Inr (bar_of_registers (pci_register p (pci_bus d) (pci_slot d) (pci_func d) (0x10 + idx * 4))
      (pci_register p (pci_bus d) (pci_slot d) (pci_func d) (0x10 + (idx + 1) * 4)) (idx < 5))"
  using assms by (rule get_bar_decodes)

theorem bar_decoding_witness:
  "(4 :: u8) < 6 \<and>
   res_map fst (get_bar Inr (pci_at 0 2 0) 4 \<lparr> port_config_address = 0,
     config_space = (\<lambda>a. if a = config_address_word 0 2 0 0x20 then 0xE000000C else 0x8) \<rparr>) =
   Inr (Bar_Mm 0x8E0000000)"
proof -
  let ?p = "\<lparr> port_config_address = 0,
     config_space = (\<lambda>a. if a = config_address_word 0 2 0 0x20 then 0xE000000C else 0x8) \<rparr>"
  have h: "(4 :: u8) < 6" by simp
  from bar_decoding [OF h, of "pci_at 0 2 0" ?p] show ?thesis
    by (simp add: bar_of_registers_def pci_register_def pci_at_def config_address_word_def Let_def)
qed

text \<open>C32: the enumeration lists exactly the present functions, each once, in the order of bus, slot and
  function: a function is present when its vendor id is valid and its slot is either headed by a
  multi-function device or has no function 0.\<close>

theorem enumeration_complete:
  "fst (Pcis_new p) =
     concat (map (\<lambda>bus. concat (map (\<lambda>slot. map (pci_at bus slot)
        (filter (present p bus slot) (map of_nat [0..<8]))) (map of_nat [0..<32])))
      (map of_nat [0..<256]))"
  using fold_collect [where f = scan_slots and p = p and q = p and devs = "[]" and xs = "map of_nat [0..<256]"
      and g = "\<lambda>bus. concat (map (slot_devices p bus) (map of_nat [0..<32]))", OF scan_slots_eq refl]
  unfolding Pcis_new_def slot_devices_def by simp

end
