(* ===== verification/Virtio_Queue.thy ===== *)
theory Virtio_Queue
  imports Ring_Window Byte_Memory Pci_Config "HOL-Library.Multiset"
begin

text \<open>
  The virtqueue operations of \<^verbatim>\<open>src/bootloader/kernel/src/virtio.rs\<close>: the stack of free descriptors,
  the descriptor table, the available ring the driver fills, the used ring the device fills, and
  the notification. The rings and descriptors live in byte memory at the addresses the register
  block holds, exactly as the raw pointers of the code reach them.

  The registers belong to the device: a store to one of them is followed by the device's reaction,
  the parameter \<open>dev\<close> (a function on the device's own state and the register block) of the operations that store. The
  address checks of the \<^verbatim>\<open>x86_64\<close> crate are the parameter \<open>X\<close> of \<open>kick\<close>.

  The lemmas show that descriptors are neither lost nor duplicated, that the available ring is a
  window on the log of everything made available, that a request leaves the two-descriptor chain the
  device expects, and that \<open>next_used\<close> delivers the device's log in order and exactly once.
\<close>

section \<open>Definitions\<close>

subsection \<open>Structures\<close>

record VirtioPciCommonCfg =
  device_feature_select :: u32
  device_feature :: u32
  driver_feature_select :: u32
  driver_feature :: u32
  msix_config :: u16
  num_queues :: u16
  device_status :: u8
  config_generation :: u8
  cfg_queue_select :: u16
  queue_size :: u16
  queue_msix_vector :: u16
  queue_enable :: u16
  queue_notify_off :: u16
  queue_desc :: u64
  queue_driver :: u64
  queue_device :: u64

record 'c VirtioCap =
  cap :: 'c
  cap_bar :: Bar
  cap_offset :: u32
  cap_length :: u32

definition VirtioCap_new :: "'c \<Rightarrow> Bar \<Rightarrow> u32 \<Rightarrow> u32 \<Rightarrow> 'c VirtioCap" where
  "VirtioCap_new t bar offset len = \<lparr> cap = t, cap_bar = bar, cap_offset = offset, cap_length = len \<rparr>"

record Desc =
  desc_addr :: u64
  desc_len :: u32
  desc_flags :: u16
  desc_next :: u16

record UsedElem =
  used_id :: u32
  used_len :: u32

definition VIRTQ_DESC_F_NEXT :: u16 where "VIRTQ_DESC_F_NEXT = 1"

definition VIRTQ_DESC_F_WRITE :: u16 where "VIRTQ_DESC_F_WRITE = 2"

definition MAX_NUM_QUEUE :: nat where "MAX_NUM_QUEUE = 256"

text \<open>The \<^verbatim>\<open>repr(C)\<close> layouts of the two structures shared with the device.\<close>

definition Desc_bytes :: "Desc \<Rightarrow> u8 list" where
  "Desc_bytes d = le_bytes 8 (desc_addr d) @ le_bytes 4 (desc_len d) @
     le_bytes 2 (desc_flags d) @ le_bytes 2 (desc_next d)"

definition Desc_of_bytes :: "u8 list \<Rightarrow> Desc" where
  "Desc_of_bytes bs = \<lparr> desc_addr = le_word (take 8 bs), desc_len = le_word (take 4 (drop 8 bs)),
     desc_flags = le_word (take 2 (drop 12 bs)), desc_next = le_word (take 2 (drop 14 bs)) \<rparr>"

definition UsedElem_bytes :: "UsedElem \<Rightarrow> u8 list" where
  "UsedElem_bytes e = le_bytes 4 (used_id e) @ le_bytes 4 (used_len e)"

definition UsedElem_of_bytes :: "u8 list \<Rightarrow> UsedElem" where
  "UsedElem_of_bytes bs = \<lparr> used_id = le_word (take 4 bs), used_len = le_word (take 4 (drop 4 bs)) \<rparr>"

subsection \<open>Free descriptors\<close>

text \<open>A \<^verbatim>\<open>Vec\<close> used as a stack: the top is the last element.\<close>

record QueueFreeDescs =
  free :: "u16 list"

definition QueueFreeDescs_new :: "u16 \<Rightarrow> QueueFreeDescs" where
  "QueueFreeDescs_new qsize = \<lparr> free = fold (\<lambda>i fr. fr @ [of_nat i]) [0..<unat qsize] [] \<rparr>"

definition get_free :: "QueueFreeDescs \<Rightarrow> u16 option \<times> QueueFreeDescs" where
  "get_free q = (let (r, fr) = vec_pop (free q) in (r, q\<lparr> free := fr \<rparr>))"

definition get_free_twice :: "QueueFreeDescs \<Rightarrow> (u16 \<times> u16) option \<times> QueueFreeDescs" where
  "get_free_twice q =
     (if 2 \<le> length (free q)
      then (let (a, fr) = vec_pop (free q); (b, fr) = vec_pop fr
            in (Some (the a, the b), q\<lparr> free := fr \<rparr>))
      else (None, q))"

definition set_free :: "u16 \<Rightarrow> QueueFreeDescs \<Rightarrow> QueueFreeDescs" where
  "set_free desc_id q = q\<lparr> free := free q @ [desc_id] \<rparr>"

subsection \<open>The driver's side of a device\<close>

datatype DeviceType = DeviceType_Input | DeviceType_Gpu

text \<open>The references \<^verbatim>\<open>&'static mut VirtioPciCommonCfg\<close> and \<^verbatim>\<open>&'static mut ()\<close> are addresses here; what
  they refer to is in the registers and the memory of \<open>virtio_io\<close>.\<close>

record Virtio =
  virtio_pci :: Pci
  common :: "u64 VirtioCap"
  device :: "u64 VirtioCap"
  notify :: "u32 VirtioCap"
  pci_conf :: "u8 list VirtioCap"
  virtio_step :: usize
  last_used_idx :: "u16 list"
  device_type :: DeviceType
  queues_free :: "QueueFreeDescs list"
  queue_select :: u16

text \<open>What the driver shares with the device: memory, the register block, whatever the device keeps to
  itself (\<open>io_dev\<close>, for instance the registers of the queues that are not selected) and the stores to the
  notification area, in order.\<close>

record 'd virtio_io =
  io_mem :: mem
  io_dev :: 'd
  io_regs :: VirtioPciCommonCfg
  io_notified :: "(u64 \<times> u16) list"

type_synonym 'd virtio_dev = "'d \<times> VirtioPciCommonCfg \<Rightarrow> 'd \<times> VirtioPciCommonCfg"

definition store_reg ::
  "'d virtio_dev \<Rightarrow> (VirtioPciCommonCfg \<Rightarrow> VirtioPciCommonCfg) \<Rightarrow> 'd virtio_io \<Rightarrow> 'd virtio_io" where
  "store_reg dev upd io =
     (let (d, r) = dev (io_dev io, upd (io_regs io)) in io\<lparr> io_dev := d, io_regs := r \<rparr>)"

definition with_queue ::
  "(QueueFreeDescs \<Rightarrow> 'r \<times> QueueFreeDescs) \<Rightarrow> Virtio \<Rightarrow> ('r \<times> Virtio) res" where
  "with_queue f v =
     res_bind (array_get (queues_free v) (unat (queue_select v)))
       (\<lambda>q. let (r, q) = f q
             in Inr (r, v\<lparr> queues_free := (queues_free v)[unat (queue_select v) := q] \<rparr>))"

definition get_free_desc_id :: "Virtio \<Rightarrow> (u16 option \<times> Virtio) res" where
  "get_free_desc_id = with_queue get_free"

definition get_free_twice_desc_id :: "Virtio \<Rightarrow> ((u16 \<times> u16) option \<times> Virtio) res" where
  "get_free_twice_desc_id = with_queue get_free_twice"

definition set_free_desc_id :: "u16 \<Rightarrow> Virtio \<Rightarrow> Virtio res" where
  "set_free_desc_id desc_id v = res_map snd (with_queue (\<lambda>q. ((), set_free desc_id q)) v)"

definition Virtio_queue_select :: "'d virtio_dev \<Rightarrow> u16 \<Rightarrow> Virtio \<Rightarrow> 'd virtio_io \<Rightarrow> Virtio \<times> 'd virtio_io" where
  "Virtio_queue_select dev q v io =
     (v\<lparr> queue_select := q \<rparr>, store_reg dev (\<lambda>r. r\<lparr> cfg_queue_select := q \<rparr>) io)"

definition avail_slot :: "VirtioPciCommonCfg \<Rightarrow> nat \<Rightarrow> u64" where
  "avail_slot r j = queue_driver r + 4 + of_nat (2 * j)"

definition used_slot :: "VirtioPciCommonCfg \<Rightarrow> nat \<Rightarrow> u64" where
  "used_slot r j = queue_device r + 4 + of_nat (8 * j)"

definition desc_ptr :: "VirtioPciCommonCfg \<Rightarrow> u16 \<Rightarrow> u64" where
  "desc_ptr r desc_id = queue_desc r + of_nat (16 * unat desc_id)"

definition set_available :: "u16 \<Rightarrow> 'd virtio_io \<Rightarrow> 'd virtio_io res" where
  "set_available desc_id io =
     (let r = io_regs io; m = io_mem io;
          driver_idx = queue_driver r + 2;
          idx = read_u16 m driver_idx
      in if queue_size r = 0 then Inl DivisionByZero
         else let elem_ptr = avail_slot r (unat idx mod unat (queue_size r));
                  m = write_u16 m elem_ptr desc_id;
                  m = write_u16 m driver_idx (idx + 1)
              in Inr (io\<lparr> io_mem := m \<rparr>))"

definition load_desc :: "'d virtio_io \<Rightarrow> u16 \<Rightarrow> Desc" where
  "load_desc io desc_id = Desc_of_bytes (read_bytes (io_mem io) (desc_ptr (io_regs io) desc_id) 16)"

definition store_desc :: "u16 \<Rightarrow> Desc \<Rightarrow> 'd virtio_io \<Rightarrow> 'd virtio_io" where
  "store_desc desc_id d io =
     io\<lparr> io_mem := write_bytes (io_mem io) (desc_ptr (io_regs io) desc_id) (Desc_bytes d) \<rparr>"

definition set_writable :: "u16 \<Rightarrow> 'd virtio_io \<Rightarrow> 'd virtio_io" where
  "set_writable desc_id io =
     (let desc = load_desc io desc_id
      in store_desc desc_id (desc\<lparr> desc_flags := VIRTQ_DESC_F_WRITE, desc_len := 4096 \<rparr>) io)"

definition set_writable_available :: "u16 \<Rightarrow> 'd virtio_io \<Rightarrow> 'd virtio_io res" where
  "set_writable_available desc_id io = set_available desc_id (set_writable desc_id io)"

text \<open>The request \<^verbatim>\<open>data: T\<close> is the list of its bytes.\<close>

definition add_request :: "u16 \<Rightarrow> u16 \<Rightarrow> u8 list \<Rightarrow> 'd virtio_io \<Rightarrow> 'd virtio_io res" where
  "add_request desc_id desc_next_id data io =
     (let desc = load_desc io desc_id;
          desc = desc\<lparr> desc_len := of_nat (length data) \<rparr>;
          io = io\<lparr> io_mem := write_bytes (io_mem io) (desc_addr desc) data \<rparr>;
          desc = desc\<lparr> desc_flags := VIRTQ_DESC_F_NEXT, desc_next := desc_next_id \<rparr>;
          io = store_desc desc_id desc io;
          io = set_writable desc_next_id io
      in set_available desc_id io)"

definition kick :: "addr_crate \<Rightarrow> u64 \<Rightarrow> u16 \<Rightarrow> Virtio \<Rightarrow> 'd virtio_io \<Rightarrow> 'd virtio_io res" where
  "kick X voff q v io =
     (let r = io_regs io in
      case cap_bar (notify v) of
        Bar_Mm addr \<Rightarrow>
          res_bind (phys_new X (addr + ucast (cap_offset (notify v)) +
                      ucast (cap (notify v)) * ucast (queue_notify_off r)))
            (\<lambda>phys. res_bind (phys_to_virt X voff phys)
              (\<lambda>a. Inr (io\<lparr> io_notified := io_notified io @ [(a, q)] \<rparr>)))
      | _ \<Rightarrow> Inr io)"

definition next_used :: "Virtio \<Rightarrow> 'd virtio_io \<Rightarrow> (UsedElem option \<times> Virtio) res" where
  "next_used v io =
     (let r = io_regs io; m = io_mem io;
          idx_next = read_u16 m (queue_device r + 2);
          sel = unat (queue_select v)
      in res_bind (array_get (last_used_idx v) sel)
           (\<lambda>last. if last + 1 \<noteq> idx_next
              then (let last = last + 1; v = v\<lparr> last_used_idx := (last_used_idx v)[sel := last] \<rparr>
                    in if queue_size r = 0 then Inl DivisionByZero
                       else Inr (Some (UsedElem_of_bytes (read_bytes m
                                   (used_slot r (unat last mod unat (queue_size r))) 8)), v))
              else Inr (None, v)))"

definition read_desc :: "u16 \<Rightarrow> 'd virtio_io \<Rightarrow> Desc" where
  "read_desc desc_id io = load_desc io desc_id"

subsection \<open>Specification vocabulary\<close>

text \<open>The three areas of a queue, as the specification of virtio lays them out.\<close>

definition queue_areas_ok :: "VirtioPciCommonCfg \<Rightarrow> bool" where
  "queue_areas_ok r \<longleftrightarrow>
     (let q = unat (queue_size r) in
      0 < q \<and> q dvd 65536 \<and>
      region_ok (queue_desc r) (16 * q) \<and> region_ok (queue_driver r) (4 + 2 * q) \<and>
      region_ok (queue_device r) (4 + 8 * q) \<and>
      region_disjoint (queue_desc r) (16 * q) (queue_driver r) (4 + 2 * q) \<and>
      region_disjoint (queue_desc r) (16 * q) (queue_device r) (4 + 8 * q) \<and>
      region_disjoint (queue_driver r) (4 + 2 * q) (queue_device r) (4 + 8 * q))"

text \<open>Where a buffer must not lie: in the areas of the queue itself.\<close>

definition buffer_ok :: "VirtioPciCommonCfg \<Rightarrow> u64 \<Rightarrow> nat \<Rightarrow> bool" where
  "buffer_ok r a n \<longleftrightarrow> region_ok a n \<and>
     region_disjoint (queue_desc r) (16 * unat (queue_size r)) a n \<and>
     region_disjoint (queue_driver r) (4 + 2 * unat (queue_size r)) a n \<and>
     region_disjoint (queue_device r) (4 + 8 * unat (queue_size r)) a n"

text \<open>A queue of four descriptors as initialisation leaves it, for concrete inputs.\<close>

definition sample_regs :: VirtioPciCommonCfg where
  "sample_regs = \<lparr> device_feature_select = 0, device_feature = 0, driver_feature_select = 0,
     driver_feature = 0, msix_config = 0, num_queues = 1, device_status = 15, config_generation = 0,
     cfg_queue_select = 0, queue_size = 4, queue_msix_vector = 0, queue_enable = 1,
     queue_notify_off = 0, queue_desc = 0x1000, queue_driver = 0x2000, queue_device = 0x3000 \<rparr>"

definition sample_io :: "unit virtio_io" where
  "sample_io = \<lparr> io_mem = (\<lambda>_. 0)(0x1001 := 0x80, 0x3002 := 1, 0x3004 := 2, 0x3008 := 8),
     io_dev = (), io_regs = sample_regs, io_notified = [] \<rparr>"

definition sample_virtio :: Virtio where
  "sample_virtio = \<lparr> virtio_pci = pci_at 0 3 0, common = VirtioCap_new 0x4000 (Bar_Mm 0x4000) 0 56,
     device = VirtioCap_new 0x5000 (Bar_Mm 0x4000) 0x1000 136,
     notify = VirtioCap_new 4 (Bar_Mm 0x4000) 0x2000 4096,
     pci_conf = VirtioCap_new [0, 0, 0, 0] (Bar_Mm 0x4000) 0 0,
     virtio_step = 0, last_used_idx = replicate MAX_NUM_QUEUE (-1), device_type = DeviceType_Input,
     queues_free = [QueueFreeDescs_new 4], queue_select = 0 \<rparr>"

text \<open>The driver has made the descriptors of \<open>log\<close> available, in this order.\<close>

definition avail_log :: "u16 list \<Rightarrow> 'd virtio_io \<Rightarrow> bool" where
  "avail_log log io \<longleftrightarrow>
     read_u16 (io_mem io) (queue_driver (io_regs io) + 2) = of_nat (length log) \<and>
     ring_holds (\<lambda>j. read_u16 (io_mem io) (avail_slot (io_regs io) j))
       (unat (queue_size (io_regs io))) log"

text \<open>The device has used the elements of \<open>log\<close>, in this order.\<close>

definition used_at :: "VirtioPciCommonCfg \<Rightarrow> mem \<Rightarrow> nat \<Rightarrow> UsedElem" where
  "used_at r m i = UsedElem_of_bytes (read_bytes m (used_slot r (i mod unat (queue_size r))) 8)"

definition used_log :: "VirtioPciCommonCfg \<Rightarrow> UsedElem list \<Rightarrow> mem \<Rightarrow> bool" where
  "used_log r log m \<longleftrightarrow>
     read_u16 m (queue_device r + 2) = of_nat (length log) \<and>
     ring_holds (\<lambda>j. UsedElem_of_bytes (read_bytes m (used_slot r j) 8)) (unat (queue_size r)) log"

text \<open>The driver has consumed the first \<open>n\<close> elements of the selected queue.\<close>

definition consumed :: "Virtio \<Rightarrow> nat \<Rightarrow> bool" where
  "consumed v n \<longleftrightarrow> unat (queue_select v) < length (last_used_idx v) \<and>
     last_used_idx v ! unat (queue_select v) = of_nat n - 1"

text \<open>Who owns the descriptors of a queue: the free stack, or the driver and the device. A step is one
  of the three operations on the stack; only a descriptor that is held can be given back.\<close>

inductive desc_step :: "QueueFreeDescs \<times> u16 list \<Rightarrow> QueueFreeDescs \<times> u16 list \<Rightarrow> bool" where
  take1: "get_free q = (Some d, q') \<Longrightarrow> desc_step (q, held) (q', d # held)"
| take2: "get_free_twice q = (Some (d, e), q') \<Longrightarrow> desc_step (q, held) (q', d # e # held)"
| give: "d \<in> set held \<Longrightarrow> desc_step (q, held) (set_free d q, remove1 d held)"

section \<open>Structures in memory\<close>

interpretation codec_desc: byte_codec Desc_bytes Desc_of_bytes 16
  by unfold_locales
    (simp_all add: Desc_bytes_def Desc_of_bytes_def le_word_le_bytes take_bit_word_eq_self)

interpretation codec_used: byte_codec UsedElem_bytes UsedElem_of_bytes 8
  by unfold_locales
    (simp_all add: UsedElem_bytes_def UsedElem_of_bytes_def le_word_le_bytes take_bit_word_eq_self)

section \<open>Free descriptors\<close>

lemma free_new: "free (QueueFreeDescs_new qsize) = map of_nat [0..<unat qsize]"
  by (simp add: QueueFreeDescs_new_def fold_append_map)

lemma distinct_ids: "distinct (map of_nat [0..<unat (qsize :: u16)] :: u16 list)"
proof -
  have "inj_on (of_nat :: nat \<Rightarrow> u16) {0..<unat qsize}"
  proof (rule inj_onI)
    fix a b assume "a \<in> {0..<unat qsize}" "b \<in> {0..<unat qsize}" "(of_nat a :: u16) = of_nat b"
    moreover have "unat qsize < 2 ^ LENGTH(16)" by (rule unsigned_less)
    ultimately show "a = b"
      by (metis atLeastLessThan_iff less_trans unat_of_nat_small)
  qed
  then show ?thesis by (simp add: distinct_map)
qed

lemma get_free_Some_iff:
  "get_free q = (Some d, q') \<longleftrightarrow> (\<exists>fr. free q = fr @ [d] \<and> q' = q\<lparr> free := fr \<rparr>)"
  by (cases "free q" rule: rev_cases) (auto simp: get_free_def vec_pop_def)

lemma get_free_None_iff: "fst (get_free q) = None \<longleftrightarrow> free q = []"
  by (simp add: get_free_def vec_pop_def)

lemma get_free_twice_Some_iff:
  "get_free_twice q = (Some (d, e), q') \<longleftrightarrow> (\<exists>fr. free q = fr @ [e, d] \<and> q' = q\<lparr> free := fr \<rparr>)"
proof (cases "2 \<le> length (free q)")
  case True
  then obtain fr x y where "free q = fr @ [x, y]"
    by (cases "free q" rule: rev_cases; cases "butlast (free q)" rule: rev_cases) auto
  then show ?thesis
    by (auto simp: get_free_twice_def vec_pop_def butlast_append)
next
  case False
  then show ?thesis by (auto simp: get_free_twice_def)
qed

inductive_cases desc_stepE: "desc_step (q, held) s'"

lemma desc_step_conserves:
  "desc_step (q, held) (q', held') \<Longrightarrow>
     mset (free q') + mset held' = mset (free q) + mset held"
  by (erule desc_stepE) (auto simp: get_free_Some_iff get_free_twice_Some_iff set_free_def)

lemma desc_steps_conserve:
  "desc_step\<^sup>*\<^sup>* (q, held) (q', held') \<Longrightarrow>
     mset (free q') + mset held' = mset (free q) + mset held"
proof (induction "(q', held')" arbitrary: q' held' rule: rtranclp_induct)
  case base
  then show ?case by simp
next
  case (step s)
  obtain q1 h1 where s: "s = (q1, h1)" by (cases s)
  with step.hyps(2) have "mset (free q') + mset held' = mset (free q1) + mset h1"
    by (auto dest: desc_step_conserves)
  with step.hyps(3) [OF s] show ?case by simp
qed

section \<open>Addresses of a well-formed queue\<close>

lemma queue_areas_okD:
  assumes "queue_areas_ok r"
  shows "0 < unat (queue_size r)" and "unat (queue_size r) dvd 65536"
    and "region_ok (queue_desc r) (16 * unat (queue_size r))"
    and "region_ok (queue_driver r) (4 + 2 * unat (queue_size r))"
    and "region_ok (queue_device r) (4 + 8 * unat (queue_size r))"
    and "region_disjoint (queue_desc r) (16 * unat (queue_size r))
           (queue_driver r) (4 + 2 * unat (queue_size r))"
    and "region_disjoint (queue_desc r) (16 * unat (queue_size r))
           (queue_device r) (4 + 8 * unat (queue_size r))"
    and "region_disjoint (queue_driver r) (4 + 2 * unat (queue_size r))
           (queue_device r) (4 + 8 * unat (queue_size r))"
  using assms unfolding queue_areas_ok_def Let_def by blast+

lemma driver_idx_addr:
  assumes "queue_areas_ok r"
  shows "unat (queue_driver r + 2) = unat (queue_driver r) + 2" and "region_ok (queue_driver r + 2) 2"
  using unat_add_offset [OF queue_areas_okD(4) [OF assms], of 2]
    region_ok_offset [OF queue_areas_okD(4) [OF assms], of 2 2] by simp_all

lemma avail_slot_addr:
  assumes "queue_areas_ok r" and "j < unat (queue_size r)"
  shows "unat (avail_slot r j) = unat (queue_driver r) + 4 + 2 * j" and "region_ok (avail_slot r j) 2"
  using unat_add_offset [OF queue_areas_okD(4) [OF assms(1)], of "4 + 2 * j"]
    region_ok_offset [OF queue_areas_okD(4) [OF assms(1)], of "4 + 2 * j" 2] assms(2)
  by (simp_all add: avail_slot_def add.assoc)

lemma used_slot_addr:
  assumes "queue_areas_ok r" and "j < unat (queue_size r)"
  shows "unat (used_slot r j) = unat (queue_device r) + 4 + 8 * j" and "region_ok (used_slot r j) 8"
  using unat_add_offset [OF queue_areas_okD(5) [OF assms(1)], of "4 + 8 * j"]
    region_ok_offset [OF queue_areas_okD(5) [OF assms(1)], of "4 + 8 * j" 8] assms(2)
  by (simp_all add: used_slot_def add.assoc)

lemma device_idx_addr:
  assumes "queue_areas_ok r"
  shows "unat (queue_device r + 2) = unat (queue_device r) + 2" and "region_ok (queue_device r + 2) 2"
  using unat_add_offset [OF queue_areas_okD(5) [OF assms], of 2]
    region_ok_offset [OF queue_areas_okD(5) [OF assms], of 2 2] queue_areas_okD(1) [OF assms] by simp_all

lemma desc_ptr_addr:
  assumes "queue_areas_ok r" and "unat d < unat (queue_size r)"
  shows "unat (desc_ptr r d) = unat (queue_desc r) + 16 * unat d" and "region_ok (desc_ptr r d) 16"
  using unat_add_offset [OF queue_areas_okD(3) [OF assms(1)], of "16 * unat d"]
    region_ok_offset [OF queue_areas_okD(3) [OF assms(1)], of "16 * unat d" 16] assms(2)
  by (simp_all add: desc_ptr_def)

lemmas queue_addrs = driver_idx_addr avail_slot_addr used_slot_addr device_idx_addr desc_ptr_addr

section \<open>The available ring\<close>

lemma unat_of_nat_u16_mod:
  "q dvd 65536 \<Longrightarrow> unat (of_nat n :: u16) mod q = n mod q"
  by (simp add: unat_of_nat take_bit_eq_mod mod_mod_cancel)

lemma set_available_total:
  "queue_size (io_regs io) \<noteq> 0 \<Longrightarrow> \<exists>io'. set_available d io = Inr io'"
  by (simp add: set_available_def Let_def)

lemma set_available_eq:
  assumes "queue_areas_ok (io_regs io)" and "avail_log log io"
  shows "set_available d io = Inr (io\<lparr> io_mem :=
     write_u16 (write_u16 (io_mem io)
         (avail_slot (io_regs io) (length log mod unat (queue_size (io_regs io)))) d)
       (queue_driver (io_regs io) + 2) (of_nat (Suc (length log))) \<rparr>)"
proof -
  let ?q = "unat (queue_size (io_regs io))"
  have "queue_size (io_regs io) \<noteq> 0"
    using queue_areas_okD(1) [OF assms(1)] by auto
  moreover have "unat (of_nat (length log) :: u16) mod ?q = length log mod ?q"
    by (rule unat_of_nat_u16_mod) (rule queue_areas_okD(2) [OF assms(1)])
  ultimately show ?thesis
    using assms(2) by (simp add: set_available_def avail_log_def Let_def add.commute)
qed

lemma avail_log_push:
  assumes ok: "queue_areas_ok (io_regs io)" and log: "avail_log log io"
    and res: "set_available d io = Inr io'"
  shows "avail_log (log @ [d]) io'" and "io_regs io' = io_regs io"
    and "io_notified io' = io_notified io"
proof -
  let ?r = "io_regs io"
  let ?q = "unat (queue_size ?r)"
  let ?k = "length log mod ?q"
  let ?m1 = "write_u16 (io_mem io) (avail_slot ?r ?k) d"
  let ?m2 = "write_u16 ?m1 (queue_driver ?r + 2) (of_nat (Suc (length log)))"
  have io': "io' = io\<lparr> io_mem := ?m2 \<rparr>"
    using set_available_eq [OF ok log, of d] res by simp
  then show "io_regs io' = ?r" "io_notified io' = io_notified io" by simp_all
  have q: "0 < ?q" and k: "?k < ?q"
    using queue_areas_okD(1) [OF ok] by auto
  have keep: "read_u16 ?m2 (avail_slot ?r j) = read_u16 ?m1 (avail_slot ?r j)" if "j < ?q" for j
    using that by (intro read_u16_write_u16_disjoint)
      (auto simp: region_disjoint_def queue_addrs [OF ok])
  have "ring_holds (\<lambda>j. read_u16 ?m2 (avail_slot ?r j)) ?q (log @ [d])"
  proof (rule ring_holds_push [OF _ _ _ q])
    show "ring_holds (\<lambda>j. read_u16 (io_mem io) (avail_slot ?r j)) ?q log"
      using log by (simp add: avail_log_def)
    show "read_u16 ?m2 (avail_slot ?r ?k) = d"
      using keep [OF k] avail_slot_addr(2) [OF ok k] by (simp add: read_u16_write_u16_same)
    fix j assume j: "j < ?q" "j \<noteq> ?k"
    have "read_u16 ?m1 (avail_slot ?r j) = read_u16 (io_mem io) (avail_slot ?r j)"
      using j k by (intro read_u16_write_u16_disjoint)
        (auto simp: region_disjoint_def queue_addrs [OF ok])
    with keep [OF j(1)] show "read_u16 ?m2 (avail_slot ?r j) = read_u16 (io_mem io) (avail_slot ?r j)"
      by simp
  qed
  moreover have "read_u16 ?m2 (queue_driver ?r + 2) = of_nat (Suc (length log))"
    by (rule read_u16_write_u16_same) (rule driver_idx_addr(2) [OF ok])
  ultimately show "avail_log (log @ [d]) io'"
    by (simp add: avail_log_def io' del: of_nat_Suc)
qed

lemma set_available_frame:
  assumes ok: "queue_areas_ok (io_regs io)" and log: "avail_log log io"
    and res: "set_available d io = Inr io'"
    and b: "region_ok b n"
      "region_disjoint (queue_driver (io_regs io)) (4 + 2 * unat (queue_size (io_regs io))) b n"
  shows "read_bytes (io_mem io') b n = read_bytes (io_mem io) b n"
proof -
  let ?r = "io_regs io"
  let ?k = "length log mod unat (queue_size ?r)"
  have k: "?k < unat (queue_size ?r)"
    using queue_areas_okD(1) [OF ok] by auto
  have io': "io_mem io' = write_u16 (write_u16 (io_mem io) (avail_slot ?r ?k) d)
      (queue_driver ?r + 2) (of_nat (Suc (length log)))"
    using set_available_eq [OF ok log, of d] res by auto
  have d1: "region_disjoint (queue_driver ?r + 2) 2 b n"
    using b(2) by (auto simp: region_disjoint_def queue_addrs [OF ok])
  have d2: "region_disjoint (avail_slot ?r ?k) 2 b n"
    using b(2) k by (auto simp: region_disjoint_def queue_addrs [OF ok])
  show ?thesis
    unfolding io' using k
    by (simp add: read_bytes_write_u16_disjoint [OF _ b(1) d1]
        read_bytes_write_u16_disjoint [OF _ b(1) d2] queue_addrs [OF ok])
qed

section \<open>Descriptors\<close>

lemma io_regs_store_desc [simp]: "io_regs (store_desc d x io) = io_regs io"
  and io_notified_store_desc [simp]: "io_notified (store_desc d x io) = io_notified io"
  by (simp_all add: store_desc_def)

lemma io_regs_set_writable [simp]: "io_regs (set_writable d io) = io_regs io"
  by (simp add: set_writable_def Let_def)

lemma store_desc_frame:
  assumes "queue_areas_ok (io_regs io)" and "unat d < unat (queue_size (io_regs io))"
    and "region_ok b n"
    and "region_disjoint (queue_desc (io_regs io)) (16 * unat (queue_size (io_regs io))) b n \<or>
         region_disjoint (desc_ptr (io_regs io) d) 16 b n"
  shows "read_bytes (io_mem (store_desc d x io)) b n = read_bytes (io_mem io) b n"
proof -
  have "region_disjoint (desc_ptr (io_regs io) d) 16 b n"
    using assms(2,4) by (auto simp: region_disjoint_def queue_addrs [OF assms(1)])
  then show ?thesis
    unfolding store_desc_def
    using codec_desc.frame [OF desc_ptr_addr(2) [OF assms(1,2)] assms(3)] by simp
qed

lemma load_store_desc:
  assumes ok: "queue_areas_ok (io_regs io)" and "unat d < unat (queue_size (io_regs io))"
    and "unat e < unat (queue_size (io_regs io))"
  shows "load_desc (store_desc d x io) e = (if e = d then x else load_desc io e)"
proof (cases "e = d")
  case True
  with desc_ptr_addr(2) [OF ok assms(2)] show ?thesis
    by (simp add: load_desc_def store_desc_def codec_desc.read_back)
next
  case False
  then have "unat e \<noteq> unat d" by (simp add: word_unat_eq_iff)
  with assms(2,3) have "region_disjoint (desc_ptr (io_regs io) d) 16 (desc_ptr (io_regs io) e) 16"
    by (auto simp: region_disjoint_def queue_addrs [OF ok])
  then have "read_bytes (io_mem (store_desc d x io)) (desc_ptr (io_regs io) e) 16 =
      read_bytes (io_mem io) (desc_ptr (io_regs io) e) 16"
    using store_desc_frame [OF ok assms(2) desc_ptr_addr(2) [OF ok assms(3)]] by blast
  with False show ?thesis by (simp add: load_desc_def)
qed

lemma avail_log_cong:
  assumes ok: "queue_areas_ok (io_regs io)" and regs: "io_regs io' = io_regs io"
    and bytes: "\<And>b n. region_ok b n \<Longrightarrow> unat (queue_driver (io_regs io)) \<le> unat b \<Longrightarrow>
      unat b + n \<le> unat (queue_driver (io_regs io)) + 4 + 2 * unat (queue_size (io_regs io)) \<Longrightarrow>
      read_bytes (io_mem io') b n = read_bytes (io_mem io) b n"
    and log: "avail_log log io"
  shows "avail_log log io'"
proof -
  let ?r = "io_regs io"
  have "read_u16 (io_mem io') (queue_driver ?r + 2) = read_u16 (io_mem io) (queue_driver ?r + 2)"
    using bytes [OF driver_idx_addr(2) [OF ok]] by (simp add: read_u16_def driver_idx_addr(1) [OF ok])
  moreover have "read_u16 (io_mem io') (avail_slot ?r j) = read_u16 (io_mem io) (avail_slot ?r j)"
    if "j < unat (queue_size ?r)" for j
    using bytes [OF avail_slot_addr(2) [OF ok that]] that
    by (simp add: read_u16_def avail_slot_addr(1) [OF ok that])
  ultimately show ?thesis
    using log by (auto simp: avail_log_def regs elim: ring_holds_cong)
qed

lemma avail_log_store_desc:
  assumes ok: "queue_areas_ok (io_regs io)" and d: "unat d < unat (queue_size (io_regs io))"
    and log: "avail_log log io"
  shows "avail_log log (store_desc d x io)"
proof (rule avail_log_cong [OF ok _ _ log])
  fix b :: u64 and n
  assume "region_ok b n" "unat (queue_driver (io_regs io)) \<le> unat b"
    "unat b + n \<le> unat (queue_driver (io_regs io)) + 4 + 2 * unat (queue_size (io_regs io))"
  moreover from this queue_areas_okD(6) [OF ok]
  have "region_disjoint (queue_desc (io_regs io)) (16 * unat (queue_size (io_regs io))) b n"
    by (auto simp: region_disjoint_def)
  ultimately show "read_bytes (io_mem (store_desc d x io)) b n = read_bytes (io_mem io) b n"
    by (intro store_desc_frame [OF ok d]) auto
qed simp

lemma load_desc_after_available:
  assumes ok: "queue_areas_ok (io_regs io)" and log: "avail_log log io"
    and res: "set_available d io = Inr io'" and e: "unat e < unat (queue_size (io_regs io))"
  shows "load_desc io' e = load_desc io e"
proof -
  have "region_disjoint (queue_driver (io_regs io)) (4 + 2 * unat (queue_size (io_regs io)))
      (desc_ptr (io_regs io) e) 16"
    using queue_areas_okD(6) [OF ok] e by (auto simp: region_disjoint_def queue_addrs [OF ok])
  from set_available_frame [OF ok log res desc_ptr_addr(2) [OF ok e] this] show ?thesis
    by (simp add: load_desc_def avail_log_push(2) [OF ok log res])
qed

lemma write_buffer_frame:
  assumes ok: "queue_areas_ok (io_regs io)" and buf: "buffer_ok (io_regs io) a (length data)"
    and io1: "io1 = io\<lparr> io_mem := write_bytes (io_mem io) a data \<rparr>"
  shows "unat e < unat (queue_size (io_regs io)) \<Longrightarrow> load_desc io1 e = load_desc io e"
    and "avail_log log io \<Longrightarrow> avail_log log io1"
proof -
  assume e: "unat e < unat (queue_size (io_regs io))"
  have "region_disjoint a (length data) (desc_ptr (io_regs io) e) 16"
    using buf e by (auto simp: buffer_ok_def region_disjoint_def queue_addrs [OF ok])
  with buf desc_ptr_addr(2) [OF ok e] show "load_desc io1 e = load_desc io e"
    by (simp add: load_desc_def io1 read_write_bytes_disjoint buffer_ok_def)
next
  assume log: "avail_log log io"
  show "avail_log log io1"
  proof (rule avail_log_cong [OF ok _ _ log])
    fix b :: u64 and n
    assume "region_ok b n" "unat (queue_driver (io_regs io)) \<le> unat b"
      "unat b + n \<le> unat (queue_driver (io_regs io)) + 4 + 2 * unat (queue_size (io_regs io))"
    with buf show "read_bytes (io_mem io1) b n = read_bytes (io_mem io) b n"
      unfolding io1 by (auto simp: buffer_ok_def region_disjoint_def intro!: read_write_bytes_disjoint)
  qed (simp add: io1)
qed

lemma add_request_chain:
  assumes ok: "queue_areas_ok (io_regs io)" and log: "avail_log log io"
    and d: "unat d < unat (queue_size (io_regs io))" and e: "unat e < unat (queue_size (io_regs io))"
    and de: "d \<noteq> e" and buf: "buffer_ok (io_regs io) (desc_addr (load_desc io d)) (length data)"
    and res: "add_request d e data io = Inr io'"
  shows "avail_log (log @ [d]) io'"
    and "load_desc io' d = \<lparr> desc_addr = desc_addr (load_desc io d), desc_len = of_nat (length data),
           desc_flags = VIRTQ_DESC_F_NEXT, desc_next = e \<rparr>"
    and "load_desc io' e = (load_desc io e)\<lparr> desc_flags := VIRTQ_DESC_F_WRITE, desc_len := 4096 \<rparr>"
    and "unat f < unat (queue_size (io_regs io)) \<Longrightarrow> f \<noteq> d \<Longrightarrow> f \<noteq> e \<Longrightarrow> load_desc io' f = load_desc io f"
    and "read_bytes (io_mem io') (desc_addr (load_desc io d)) (length data) = data"
proof -
  let ?r = "io_regs io" and ?a = "desc_addr (load_desc io d)"
  define io1 where "io1 = io\<lparr> io_mem := write_bytes (io_mem io) ?a data \<rparr>"
  define x where "x = \<lparr> desc_addr = ?a, desc_len = of_nat (length data) :: u32,
           desc_flags = VIRTQ_DESC_F_NEXT, desc_next = e \<rparr>"
  define y where "y = (load_desc io e)\<lparr> desc_flags := VIRTQ_DESC_F_WRITE, desc_len := 4096 \<rparr>"
  define io2 where "io2 = store_desc d x io1"
  define io3 where "io3 = store_desc e y io2"
  have r1: "io_regs io1 = ?r" by (simp add: io1_def)
  note f1 = write_buffer_frame [OF ok buf io1_def]
  have okd: "queue_areas_ok (io_regs io1)" "unat d < unat (queue_size (io_regs io1))"
    using ok d by (simp_all add: r1)
  have e2: "load_desc io2 e = load_desc io e"
    using load_store_desc [OF okd, of e x] de e f1(1) [OF e] by (simp add: io2_def r1)
  have x': "(load_desc io d)\<lparr> desc_len := of_nat (length data), desc_flags := VIRTQ_DESC_F_NEXT,
      desc_next := e \<rparr> = x"
    by (simp add: x_def)
  have "set_writable e io2 = io3"
    by (simp add: set_writable_def Let_def e2 io3_def y_def)
  then have set: "set_available d io3 = Inr io'"
    using res by (simp add: add_request_def Let_def x' io2_def io1_def)
  have r2: "io_regs io2 = ?r" and r3: "io_regs io3 = ?r"
    by (simp_all add: io2_def io3_def r1)
  have oke: "queue_areas_ok (io_regs io2)" "unat e < unat (queue_size (io_regs io2))"
    and ok3: "queue_areas_ok (io_regs io3)"
    using ok e by (simp_all add: r2 r3)
  have log3: "avail_log log io3"
    unfolding io3_def io2_def using okd oke f1(2) [OF log]
    by (intro avail_log_store_desc) (simp_all add: r1 r2 io2_def)
  show "avail_log (log @ [d]) io'"
    by (rule avail_log_push(1) [OF ok3 log3 set])
  have load': "load_desc io' f = (if f = e then y else if f = d then x else load_desc io f)"
    if "unat f < unat (queue_size ?r)" for f
    using load_desc_after_available [OF ok3 log3 set, of f] load_store_desc [OF oke, of f y]
      load_store_desc [OF okd, of f x] that f1(1) [OF that] by (simp add: io3_def io2_def r1 r2)
  show "load_desc io' d = x" "load_desc io' e = y"
    using load' [OF d] load' [OF e] de by simp_all
  show "load_desc io' f = load_desc io f" if "unat f < unat (queue_size ?r)" "f \<noteq> d" "f \<noteq> e"
    using load' [OF that(1)] that by simp
  have b: "region_ok ?a (length data)" "region_disjoint (queue_desc ?r) (16 * unat (queue_size ?r)) ?a (length data)"
    "region_disjoint (queue_driver ?r) (4 + 2 * unat (queue_size ?r)) ?a (length data)"
    using buf by (simp_all add: buffer_ok_def)
  have "read_bytes (io_mem io') ?a (length data) = read_bytes (io_mem io3) ?a (length data)"
    using set_available_frame [OF ok3 log3 set b(1)] b(3) by (simp add: r3)
  also have "\<dots> = read_bytes (io_mem io1) ?a (length data)"
    unfolding io3_def io2_def
    using store_desc_frame [OF oke b(1), of y] store_desc_frame [OF okd b(1), of x] b(2)
    by (simp add: r1 r2 io2_def)
  also have "\<dots> = data"
    using b(1) by (simp add: io1_def read_write_bytes)
  finally show "read_bytes (io_mem io') ?a (length data) = data" .
qed

lemma add_request_total:
  "queue_size (io_regs io) \<noteq> 0 \<Longrightarrow> \<exists>io'. add_request d e data io = Inr io'"
  unfolding add_request_def Let_def by (rule set_available_total) simp

section \<open>The used ring\<close>

interpretation used_ring: event_history "used_log r" "used_at r" "unat (queue_size r)"
  for r
proof unfold_locales
  fix log s i
  assume "used_log r log s" "i < length log" "length log \<le> i + unat (queue_size r)"
  then show "used_at r s i = log ! i"
    by (simp add: used_log_def used_at_def ring_holds_def)
next
  fix s i
  show "used_at r s (i + unat (queue_size r)) = used_at r s i"
    by (simp add: used_at_def)
qed

lemma of_nat_u16_eq_iff_close:
  "n \<le> m \<Longrightarrow> m < n + 65536 \<Longrightarrow> (of_nat n :: u16) = of_nat m \<longleftrightarrow> n = m"
  using mod_neq_of_close [of n m 65536]
  by (auto simp: word_of_nat_eq_iff take_bit_eq_mod le_less)

lemma next_used_step:
  assumes ok: "queue_areas_ok (io_regs io)" and log: "used_log (io_regs io) log (io_mem io)"
    and con: "consumed v n" and n: "n \<le> length log" "length log \<le> n + unat (queue_size (io_regs io))"
  shows "next_used v io =
    (if n < length log
     then Inr (Some (log ! n), v\<lparr> last_used_idx := (last_used_idx v)[unat (queue_select v) := of_nat n] \<rparr>)
     else Inr (None, v))"
proof -
  let ?r = "io_regs io"
  have sel: "unat (queue_select v) < length (last_used_idx v)"
    and last: "last_used_idx v ! unat (queue_select v) = of_nat n - 1"
    using con by (auto simp: consumed_def)
  have idx: "read_u16 (io_mem io) (queue_device ?r + 2) = of_nat (length log)"
    using log by (simp add: used_log_def)
  have "unat (queue_size ?r) < 65536"
    using unsigned_less [of "queue_size ?r", where 'a = nat] by simp
  then have eq: "(of_nat n :: u16) = of_nat (length log) \<longleftrightarrow> n = length log"
    using n by (intro of_nat_u16_eq_iff_close) auto
  have slot: "unat (of_nat n :: u16) mod unat (queue_size ?r) = n mod unat (queue_size ?r)"
    by (rule unat_of_nat_u16_mod) (rule queue_areas_okD(2) [OF ok])
  have q: "queue_size ?r \<noteq> 0"
    using queue_areas_okD(1) [OF ok] by auto
  have "UsedElem_of_bytes (read_bytes (io_mem io) (used_slot ?r (n mod unat (queue_size ?r))) 8) = log ! n"
    if "n < length log"
    using used_ring.hist_at [OF log that n(2)] by (simp add: used_at_def)
  then show ?thesis
    using n(1) by (auto simp: next_used_def Let_def array_get_def sel last idx eq slot q)
qed

lemma consumed_step:
  "consumed v n \<Longrightarrow>
     consumed (v\<lparr> last_used_idx := (last_used_idx v)[unat (queue_select v) := of_nat n] \<rparr>) (Suc n)"
  by (simp add: consumed_def)

lemma sample_areas_ok: "queue_areas_ok (io_regs sample_io)"
  by (simp add: queue_areas_ok_def sample_io_def sample_regs_def region_ok_def region_disjoint_def)

lemma sample_avail_log: "avail_log [] sample_io"
  by (simp add: avail_log_def sample_io_def sample_regs_def read_u16_def read_bytes_numeral)

lemma sample_desc: "load_desc sample_io 0 = \<lparr> desc_addr = 0x8000, desc_len = 0, desc_flags = 0, desc_next = 0 \<rparr>"
  by (simp add: load_desc_def desc_ptr_def sample_io_def sample_regs_def Desc_of_bytes_def
      read_bytes_numeral)

lemma sample_used_log:
  "used_log (io_regs sample_io) [\<lparr> used_id = 2, used_len = 8 \<rparr>] (io_mem sample_io)"
  by (simp add: used_log_def ring_holds_def used_slot_def sample_io_def sample_regs_def read_u16_def
      UsedElem_of_bytes_def read_bytes_numeral)

section \<open>Properties\<close>

text \<open>C1: however a driver takes and gives back descriptors of a queue (one at a time or in pairs,
  giving back only what it holds), the free stack and the held descriptors together are always
  exactly the ids 0 to queue_size - 1, each once: no descriptor is lost, duplicated or invented.\<close>

theorem descriptors_conserved:
  assumes "desc_step\<^sup>*\<^sup>* (QueueFreeDescs_new qsize, []) (q, held)"
  shows "mset (free q @ held) = mset (map of_nat [0..<unat qsize]) \<and> distinct (free q @ held) \<and>
     (fst (get_free q) = None \<longleftrightarrow> length held = unat qsize)"
proof -
  have m: "mset (free q @ held) = mset (map of_nat [0..<unat qsize])"
    using desc_steps_conserve [OF assms] by (simp add: free_new)
  then have d: "distinct (free q @ held)"
    using distinct_ids mset_eq_imp_distinct_iff by blast
  have "length (free q @ held) = unat qsize"
    using mset_eq_length [OF m] by simp
  then have "free q = [] \<longleftrightarrow> length held = unat qsize" by auto
  with m d show ?thesis by (simp add: get_free_None_iff)
qed

theorem descriptors_conserved_witness:
  "\<exists>q. desc_step\<^sup>*\<^sup>* (QueueFreeDescs_new 4, []) (q, [3, 2]) \<and> distinct (free q @ [3, 2])"
proof -
  let ?q = "\<lparr> free = [0, 1] \<rparr>"
  have "get_free_twice (QueueFreeDescs_new 4) = (Some (3, 2), ?q)"
    by (simp add: get_free_twice_Some_iff free_new upt_rec)
  then have "desc_step\<^sup>*\<^sup>* (QueueFreeDescs_new 4, []) (?q, [3, 2])"
    by (intro r_into_rtranclp desc_step.take2)
  with descriptors_conserved [OF this] show ?thesis by blast
qed

text \<open>making a descriptor available appends it to the log of available descriptors that the
  device reads through the ring, across the wrap-around of the 16-bit index, and touches neither the
  descriptor table nor the used ring; with a queue size of zero it is a division by zero.\<close>

theorem set_available_appends:
  assumes "queue_areas_ok (io_regs io)" and "avail_log log io"
  shows "(\<exists>io'. set_available d io = Inr io' \<and> avail_log (log @ [d]) io' \<and> io_regs io' = io_regs io \<and>
     (\<forall>e. unat e < unat (queue_size (io_regs io)) \<longrightarrow> load_desc io' e = load_desc io e) \<and>
     (\<forall>j < unat (queue_size (io_regs io)).
        read_bytes (io_mem io') (used_slot (io_regs io) j) 8 =
        read_bytes (io_mem io) (used_slot (io_regs io) j) 8)) \<and>
     set_available d (io\<lparr> io_regs := (io_regs io)\<lparr> queue_size := 0 \<rparr> \<rparr>) = Inl DivisionByZero"
proof -
  let ?r = "io_regs io"
  obtain io' where res: "set_available d io = Inr io'"
    using set_available_eq [OF assms] by blast
  have "read_bytes (io_mem io') (used_slot ?r j) 8 = read_bytes (io_mem io) (used_slot ?r j) 8"
    if "j < unat (queue_size ?r)" for j
    using queue_areas_okD(8) [OF assms(1)] that
    by (intro set_available_frame [OF assms res])
      (auto simp: region_disjoint_def queue_addrs [OF assms(1)])
  moreover have "set_available d (io\<lparr> io_regs := ?r\<lparr> queue_size := 0 \<rparr> \<rparr>) = Inl DivisionByZero"
    by (simp add: set_available_def)
  ultimately show ?thesis
    using res avail_log_push [OF assms res] load_desc_after_available [OF assms res] by blast
qed

theorem set_available_appends_witness:
  "\<exists>io'. set_available 3 sample_io = Inr io' \<and> avail_log [3] io'"
  using set_available_appends [OF sample_areas_ok sample_avail_log, of 3] by auto

text \<open>C6: a request leaves the chain the device expects: the request bytes in the first
  descriptor's buffer, that descriptor with their length and linked to the second, the second writable
  and 4096 bytes long, every other descriptor as it was, and the first one appended to the available
  log.\<close>

theorem add_request_builds_chain:
  assumes "queue_areas_ok (io_regs io)" and "avail_log log io"
    and "unat d < unat (queue_size (io_regs io))" and "unat e < unat (queue_size (io_regs io))"
    and "d \<noteq> e" and "buffer_ok (io_regs io) (desc_addr (load_desc io d)) (length data)"
  shows "\<exists>io'. add_request d e data io = Inr io' \<and> avail_log (log @ [d]) io' \<and>
     load_desc io' d = \<lparr> desc_addr = desc_addr (load_desc io d), desc_len = of_nat (length data),
           desc_flags = VIRTQ_DESC_F_NEXT, desc_next = e \<rparr> \<and>
     load_desc io' e = (load_desc io e)\<lparr> desc_flags := VIRTQ_DESC_F_WRITE, desc_len := 4096 \<rparr> \<and>
     (\<forall>f. unat f < unat (queue_size (io_regs io)) \<longrightarrow> f \<noteq> d \<longrightarrow> f \<noteq> e \<longrightarrow>
        load_desc io' f = load_desc io f) \<and>
     read_bytes (io_mem io') (desc_addr (load_desc io d)) (length data) = data"
proof -
  have "queue_size (io_regs io) \<noteq> 0"
    using queue_areas_okD(1) [OF assms(1)] by auto
  then obtain io' where res: "add_request d e data io = Inr io'"
    using add_request_total by blast
  note chain = add_request_chain [OF assms res]
  from res chain show ?thesis by blast
qed

theorem add_request_builds_chain_witness:
  "\<exists>io'. add_request 0 1 [7, 8, 9] sample_io = Inr io' \<and> avail_log [0] io' \<and>
     read_bytes (io_mem io') 0x8000 3 = [7, 8, 9] \<and> desc_next (load_desc io' 0) = 1"
proof -
  have "buffer_ok (io_regs sample_io) (desc_addr (load_desc sample_io 0)) (length [7 :: u8, 8, 9])"
    by (simp add: sample_desc) (simp add: buffer_ok_def region_ok_def region_disjoint_def sample_io_def sample_regs_def)
  then have "\<exists>io'. add_request 0 1 [7, 8, 9] sample_io = Inr io' \<and> avail_log ([] @ [0]) io' \<and>
     load_desc io' 0 = \<lparr> desc_addr = desc_addr (load_desc sample_io 0),
        desc_len = of_nat (length [7 :: u8, 8, 9]), desc_flags = VIRTQ_DESC_F_NEXT, desc_next = 1 \<rparr> \<and>
     read_bytes (io_mem io') (desc_addr (load_desc sample_io 0)) (length [7 :: u8, 8, 9]) = [7, 8, 9]"
    using add_request_builds_chain [OF sample_areas_ok sample_avail_log, of 0 1 "[7, 8, 9]"]
    by (auto simp: sample_io_def sample_regs_def)
  then show ?thesis by (auto simp: sample_desc read_bytes_numeral)
qed

text \<open>C5: polling the used ring delivers the device's completions in order and exactly once: with
  the first n consumed, the next call returns the entry with number n and consumes it, or None when
  there is none, for every n, the wrap-around of the 16-bit index included.\<close>

theorem next_used_in_order:
  assumes "queue_areas_ok (io_regs io)" and "used_log (io_regs io) log (io_mem io)"
    and "consumed v n" and "n \<le> length log" and "length log \<le> n + unat (queue_size (io_regs io))"
  shows "\<exists>v'. next_used v io = Inr (if n < length log then Some (log ! n) else None, v') \<and>
     consumed v' (if n < length log then Suc n else n) \<and>
     queues_free v' = queues_free v \<and> queue_select v' = queue_select v"
  using next_used_step [OF assms] consumed_step [OF assms(3)] assms(3) by auto

theorem next_used_in_order_witness:
  "\<exists>v'. next_used sample_virtio sample_io = Inr (Some \<lparr> used_id = 2, used_len = 8 \<rparr>, v') \<and>
     consumed v' 1"
proof -
  have "consumed sample_virtio 0"
    by (simp add: consumed_def sample_virtio_def MAX_NUM_QUEUE_def)
  moreover have "length [\<lparr> used_id = 2, used_len = 8 \<rparr>] \<le> 0 + unat (queue_size (io_regs sample_io))"
    by (simp add: sample_io_def sample_regs_def)
  ultimately show ?thesis
    using next_used_in_order [OF sample_areas_ok sample_used_log, of sample_virtio 0] by auto
qed

end
