(* ===== verification/Frame_Alloc.thy ===== *)
theory Frame_Alloc
  imports Byte_Memory
begin

text \<open>
  Physical memory, \<^verbatim>\<open>src/bootloader/kernel/src/memory.rs\<close>, \<^verbatim>\<open>allocator.rs\<close> and the mapping helpers of
  \<^verbatim>\<open>main.rs\<close>: the frame allocator that hands out the usable frames of the bootloader's memory map,
  refilling a buffer of 32 frames at a time, and the functions that map fresh frames.

  Page tables belong to the \<^verbatim>\<open>x86_64\<close> crate: the mapper is a parameter \<open>map_to\<close> on an abstract page
  table state, which may itself take frames from the allocator. The locale \<open>frame_source\<close> is the
  contract of an allocator (it hands out a list of frames, in order); the allocator of the kernel
  interprets it, and the mapping functions are analysed against it.
\<close>

section \<open>Definitions\<close>

subsection \<open>The frame allocator\<close>

datatype MemoryRegionKind = Usable | Bootloader | UnknownUefi u32 | UnknownBios u32

record MemoryRegion =
  region_start :: u64
  region_end :: u64
  region_kind :: MemoryRegionKind

definition BUFFER_SIZE_ADVANCE :: nat where
  "BUFFER_SIZE_ADVANCE = 32"

record BootInfoFrameAllocator =
  memory_map :: "MemoryRegion list"
  fa_next :: usize
  fa_buf :: "u64 list"

definition BootInfoFrameAllocator_init :: "MemoryRegion list \<Rightarrow> BootInfoFrameAllocator" where
  "BootInfoFrameAllocator_init mm = \<lparr> memory_map = mm, fa_next = 1, fa_buf = [] \<rparr>"

text \<open>\<^verbatim>\<open>(start..end).step_by(4096)\<close>\<close>

definition range_step_4096 :: "u64 \<Rightarrow> u64 \<Rightarrow> u64 list" where
  "range_step_4096 a b =
     map (\<lambda>i. a + of_nat (4096 * i)) [0..<(unat b - unat a + 4095) div 4096]"

text \<open>The iterator \<^verbatim>\<open>usable_frames\<close> is lazy: its items are the addresses, and the construction of the
  frame (which can panic) is \<open>frame_of\<close>, applied to the items that are pulled. The frame is
  represented by its start address; \<open>containing\<close> is \<^verbatim>\<open>PhysFrame::containing_address\<close> and
  \<^verbatim>\<open>Page::containing_address\<close> of the \<^verbatim>\<open>x86_64\<close> crate.\<close>

definition usable_addresses :: "MemoryRegion list \<Rightarrow> u64 list" where
  "usable_addresses mm =
     concat (map (\<lambda>r. range_step_4096 (region_start r) (region_end r))
       (filter (\<lambda>r. region_kind r = Usable) mm))"

definition frame_of :: "addr_crate \<Rightarrow> (u64 \<Rightarrow> u64) \<Rightarrow> u64 \<Rightarrow> u64 res" where
  "frame_of X containing addr = res_map containing (phys_new X addr)"

definition arrayvec_push :: "nat \<Rightarrow> 'a \<Rightarrow> 'a list \<Rightarrow> 'a list res" where
  "arrayvec_push cap x xs = (if length xs < cap then Inr (xs @ [x]) else Inl (Panicked ''ArrayVec::push''))"

definition allocate_frame ::
  "addr_crate \<Rightarrow> (u64 \<Rightarrow> u64) \<Rightarrow> BootInfoFrameAllocator \<Rightarrow> (u64 option \<times> BootInfoFrameAllocator) res" where
  "allocate_frame X containing a =
     res_bind
       (if length (fa_buf a) = 0
        then (let skip = unat (fa_next a - 1) in
              res_bind (res_traverse (frame_of X containing)
                  (take (skip + BUFFER_SIZE_ADVANCE) (usable_addresses (memory_map a))))
                (\<lambda>frames. res_bind (res_fold (arrayvec_push BUFFER_SIZE_ADVANCE) (drop skip frames) (fa_buf a))
                  (\<lambda>buf. Inr (a\<lparr> fa_buf := rev buf,
                     fa_next := fa_next a + of_nat BUFFER_SIZE_ADVANCE \<rparr>))))
        else Inr a)
       (\<lambda>a. let (frame, buf) = vec_pop (fa_buf a) in Inr (frame, a\<lparr> fa_buf := buf \<rparr>))"

subsection \<open>Mapping\<close>

text \<open>The mapper with the allocator it draws on. \<open>map_to page frame\<close> answers an error of the crate or
  the new state.\<close>

datatype map_error = FrameAllocationFailed | MapToError string

type_synonym ('p, 'a) map_state = "'p \<times> 'a"
type_synonym ('p, 'a) mapper = "u64 \<Rightarrow> u64 \<Rightarrow> 'p \<times> 'a \<Rightarrow> (map_error + 'p \<times> 'a) res"
type_synonym 'a allocator = "'a \<Rightarrow> (u64 option \<times> 'a) res"

definition res_unwrap :: "'b option \<Rightarrow> 'b res" where
  "res_unwrap x = (case x of None \<Rightarrow> Inl UnwrapNone | Some b \<Rightarrow> Inr b)"

definition create_virt_from_phys ::
  "addr_crate \<Rightarrow> (u64 \<Rightarrow> u64) \<Rightarrow> ('p, 'a) mapper \<Rightarrow> u64 \<Rightarrow> u64 \<times> 'p \<times> 'a \<Rightarrow>
     ((map_error + u64) \<times> u64 \<times> 'p \<times> 'a) res" where
  "create_virt_from_phys X containing map_to frame s =
     (let (other_virt, pt, fa) = s in
      res_bind (virt_new X other_virt)
        (\<lambda>start. let page = containing start; other_virt = other_virt + 4096 in
           res_bind (map_to page frame (pt, fa))
             (\<lambda>r. case r of Inl e \<Rightarrow> Inr (Inl e, other_virt, pt, fa)
                | Inr (pt, fa) \<Rightarrow> Inr (Inr page, other_virt, pt, fa))))"

definition create_identity_virt_from_phys ::
  "addr_crate \<Rightarrow> (u64 \<Rightarrow> u64) \<Rightarrow> 'a allocator \<Rightarrow> ('p, 'a) mapper \<Rightarrow> 'p \<times> 'a \<Rightarrow>
     (map_error + u64 \<times> 'p \<times> 'a) res" where
  "create_identity_virt_from_phys X containing alloc map_to s =
     (let (pt, fa) = s in
      res_bind (alloc fa)
        (\<lambda>(f, fa). res_bind (res_unwrap f)
          (\<lambda>frame. res_bind (virt_new X frame)
            (\<lambda>start. let page = containing start in
               res_bind (map_to page frame (pt, fa))
                 (\<lambda>r. case r of Inl e \<Rightarrow> Inr (Inl e) | Inr s \<Rightarrow> Inr (Inr (page, s)))))))"

text \<open>The two loops of \<^verbatim>\<open>create_identity_virt_from_phys_n\<close>: pull the frames and insist that they are
  consecutive, then map them.\<close>

fun pull_contiguous :: "'a allocator \<Rightarrow> u64 \<Rightarrow> nat list \<Rightarrow> 'a \<Rightarrow> 'a res" where
  "pull_contiguous alloc first [] fa = Inr fa"
| "pull_contiguous alloc first (i # is) fa =
     res_bind (alloc fa)
       (\<lambda>(f, fa). res_bind (res_unwrap f)
         (\<lambda>frame_start. if first + of_nat i * 4096 \<noteq> frame_start
            then Inl (Panicked ''create_identity_virt_from_phys_n NON CONTIGUOUS'')
            else pull_contiguous alloc first is fa))"

fun map_pages :: "addr_crate \<Rightarrow> (u64 \<Rightarrow> u64) \<Rightarrow> ('p, 'a) mapper \<Rightarrow> u64 list \<Rightarrow> 'p \<times> 'a \<Rightarrow>
     (map_error + 'p \<times> 'a) res" where
  "map_pages X containing map_to [] s = Inr (Inr s)"
| "map_pages X containing map_to (addr # as) s =
     res_bind (phys_new X addr)
       (\<lambda>phys. res_bind (virt_new X addr)
         (\<lambda>virt. res_bind (map_to (containing virt) (containing phys) s)
           (\<lambda>r. case r of Inl e \<Rightarrow> Inr (Inl e) | Inr s \<Rightarrow> map_pages X containing map_to as s)))"

definition create_identity_virt_from_phys_n ::
  "addr_crate \<Rightarrow> (u64 \<Rightarrow> u64) \<Rightarrow> 'a allocator \<Rightarrow> ('p, 'a) mapper \<Rightarrow> nat \<Rightarrow> 'p \<times> 'a \<Rightarrow>
     (map_error + u64 \<times> 'p \<times> 'a) res" where
  "create_identity_virt_from_phys_n X containing alloc map_to pages s =
     (let (pt, fa) = s in
      res_bind (alloc fa)
        (\<lambda>(f, fa). res_bind (res_unwrap f)
          (\<lambda>first. res_bind (pull_contiguous alloc first [1..<pages] fa)
            (\<lambda>fa. res_bind (map_pages X containing map_to
                (map (\<lambda>i. first + of_nat i * 4096) [0..<pages]) (pt, fa))
              (\<lambda>r. case r of Inl e \<Rightarrow> Inr (Inl e)
                 | Inr s \<Rightarrow> res_bind (virt_new X first) (\<lambda>v. Inr (Inr (containing v, s))))))))"

subsection \<open>The heap\<close>

definition HEAP_START :: usize where
  "HEAP_START = 0x444444440000"

definition HEAP_SIZE :: usize where
  "HEAP_SIZE = 128 * 1024 * 1024"

text \<open>\<^verbatim>\<open>Page::range_inclusive\<close> over the pages from the first to the last byte of the heap.\<close>

definition page_range_inclusive :: "u64 \<Rightarrow> u64 \<Rightarrow> u64 list" where
  "page_range_inclusive a b = map (\<lambda>i. a + of_nat (4096 * i)) [0..<Suc ((unat b - unat a) div 4096)]"

fun map_heap_pages :: "'a allocator \<Rightarrow> ('p, 'a) mapper \<Rightarrow> u64 list \<Rightarrow> 'p \<times> 'a \<Rightarrow>
     (map_error + 'p \<times> 'a) res" where
  "map_heap_pages alloc map_to [] s = Inr (Inr s)"
| "map_heap_pages alloc map_to (page # pages) (pt, fa) =
     res_bind (alloc fa)
       (\<lambda>(f, fa). case f of None \<Rightarrow> Inr (Inl FrameAllocationFailed)
          | Some frame \<Rightarrow> res_bind (map_to page frame (pt, fa))
             (\<lambda>r. case r of Inl e \<Rightarrow> Inr (Inl e) | Inr s \<Rightarrow> map_heap_pages alloc map_to pages s))"

text \<open>On success the linked-list allocator is initialised with the heap's start and size, the third
  component of the result.\<close>

definition init_heap ::
  "addr_crate \<Rightarrow> (u64 \<Rightarrow> u64) \<Rightarrow> 'a allocator \<Rightarrow> ('p, 'a) mapper \<Rightarrow> 'p \<times> 'a \<Rightarrow>
     (map_error + ('p \<times> 'a) \<times> usize \<times> usize) res" where
  "init_heap X containing alloc map_to s =
     res_bind (virt_new X HEAP_START)
       (\<lambda>heap_start. res_bind (virt_add X heap_start HEAP_SIZE)
         (\<lambda>past_end. let heap_end = past_end - 1 in
            res_bind (map_heap_pages alloc map_to
                (page_range_inclusive (containing heap_start) (containing heap_end)) s)
              (\<lambda>r. case r of Inl e \<Rightarrow> Inr (Inl e) | Inr s \<Rightarrow> Inr (Inr (s, HEAP_START, HEAP_SIZE)))))"

subsection \<open>Specification vocabulary\<close>

text \<open>The documented behaviour of the crate's address types: addresses up to \<open>lim\<close> are accepted as
  they are, and the containing page or frame is the address rounded down.\<close>

definition crate_ok :: "addr_crate \<Rightarrow> (u64 \<Rightarrow> u64) \<Rightarrow> u64 \<Rightarrow> bool" where
  "crate_ok X containing lim \<longleftrightarrow>
     (\<forall>a \<le> lim. phys_new X a = Inr a \<and> virt_new X a = Inr a) \<and>
     (\<forall>a b. unat a + unat b \<le> unat lim \<longrightarrow> virt_add X a b = Inr (a + b)) \<and>
     (\<forall>a. containing a = 4096 * (a div 4096))"

text \<open>A memory map the allocator is made for: usable regions lie below \<open>lim\<close>, start on a page boundary
  and do not overlap.\<close>

definition usable_regions :: "MemoryRegion list \<Rightarrow> MemoryRegion list" where
  "usable_regions mm = filter (\<lambda>r. region_kind r = Usable) mm"

definition memory_map_ok :: "u64 \<Rightarrow> MemoryRegion list \<Rightarrow> bool" where
  "memory_map_ok lim mm \<longleftrightarrow>
     (\<forall>r \<in> set (usable_regions mm). 4096 dvd unat (region_start r) \<and> 4096 dvd unat (region_end r) \<and>
        unat (region_end r) \<le> unat lim) \<and>
     sorted_wrt (\<lambda>r s. unat (region_end r) \<le> unat (region_start s) \<or>
        unat (region_end s) \<le> unat (region_start r)) (usable_regions mm)"

text \<open>The frames the allocator still has to hand out, in order: the buffer, then what the map holds
  beyond the part already buffered.\<close>

definition frames_left :: "u64 \<Rightarrow> MemoryRegion list \<Rightarrow> u64 list \<Rightarrow> BootInfoFrameAllocator \<Rightarrow> bool" where
  "frames_left lim mm fs a \<longleftrightarrow>
     memory_map a = mm \<and> memory_map_ok lim mm \<and>
     length (usable_addresses mm) + 64 < 2 ^ 64 \<and>
     0 < unat (fa_next a) \<and> (\<exists>k. fs = drop k (usable_addresses mm)) \<and>
     fs = rev (fa_buf a) @ drop (unat (fa_next a) - 1) (usable_addresses mm)"

text \<open>The documented behaviour of a mapper: an unmapped page is mapped to the frame, and at most three
  frames are taken from the allocator for page tables. \<open>lookup\<close> is the translation the page table
  state gives, \<open>left\<close> what the allocator has left.\<close>

definition mapper_ok ::
  "(u64 list \<Rightarrow> 'a \<Rightarrow> bool) \<Rightarrow> ('p \<Rightarrow> u64 \<Rightarrow> u64 option) \<Rightarrow> ('p, 'a) mapper \<Rightarrow> bool" where
  "mapper_ok left lookup map_to \<longleftrightarrow>
     (\<forall>fs s pt page frame. left fs s \<longrightarrow> 3 \<le> length fs \<longrightarrow> lookup pt page = None \<longrightarrow>
        (\<exists>n pt' s'. n \<le> 3 \<and> map_to page frame (pt, s) = Inr (Inr (pt', s')) \<and>
           lookup pt' = (lookup pt)(page \<mapsto> frame) \<and> left (drop n fs) s'))"

definition frames_of :: "addr_crate \<Rightarrow> (u64 \<Rightarrow> u64) \<Rightarrow> u64 \<Rightarrow> MemoryRegion list \<Rightarrow> u64 list \<Rightarrow>
    BootInfoFrameAllocator \<Rightarrow> bool" where
  "frames_of X containing lim mm fs a \<longleftrightarrow> crate_ok X containing lim \<and> frames_left lim mm fs a"

text \<open>A run of successive allocations.\<close>

fun allocate_many :: "'a allocator \<Rightarrow> nat \<Rightarrow> 'a \<Rightarrow> (u64 option list \<times> 'a) res" where
  "allocate_many alloc 0 s = Inr ([], s)"
| "allocate_many alloc (Suc n) s =
     res_bind (alloc s) (\<lambda>(f, s). res_map (\<lambda>(fs, s). (f # fs, s)) (allocate_many alloc n s))"

text \<open>The address types of the crate, for concrete inputs.\<close>

definition x86_page :: "u64 \<Rightarrow> u64" where
  "x86_page a = 4096 * (a div 4096)"

definition x86_crate :: addr_crate where
  "x86_crate = \<lparr> phys_new = (\<lambda>a. if a < 2 ^ 52 then Inr a else Inl (Panicked ''PhysAddr::new'')),
     virt_new = (\<lambda>a. if a < 2 ^ 47 \<or> 2 ^ 64 - 2 ^ 47 \<le> a then Inr a else Inl (Panicked ''VirtAddr::new'')),
     virt_add = (\<lambda>a b. if a + b < 2 ^ 47 \<or> 2 ^ 64 - 2 ^ 47 \<le> a + b then Inr (a + b)
        else Inl (Panicked ''VirtAddr::new'')) \<rparr>"

definition array_mapper :: "(u64 \<Rightarrow> u64 option, 'a) mapper" where
  "array_mapper page frame s = Inr (Inr ((fst s)(page \<mapsto> frame), snd s))"

definition sample_map :: "MemoryRegion list" where
  "sample_map = [\<lparr> region_start = 0, region_end = 0x1000, region_kind = Bootloader \<rparr>,
     \<lparr> region_start = 0x1000, region_end = 0x80000000, region_kind = Usable \<rparr>]"

definition holed_map :: "MemoryRegion list" where
  "holed_map = [\<lparr> region_start = 0x1000, region_end = 0x3000, region_kind = Usable \<rparr>,
     \<lparr> region_start = 0x8000, region_end = 0x9000, region_kind = Usable \<rparr>]"

section \<open>The usable addresses\<close>

lemma map_upds_nth:
  "distinct xs \<Longrightarrow> length ys = length xs \<Longrightarrow> i < length xs \<Longrightarrow> (m(xs [\<mapsto>] ys)) (xs ! i) = Some (ys ! i)"
proof (induction xs arbitrary: ys i m)
  case Nil
  then show ?case by simp
next
  case (Cons x xs)
  then obtain y ys' where "ys = y # ys'" by (cases ys) auto
  with Cons show ?case by (cases i) auto
qed

lemma map_upds_self: "(m(xs [\<mapsto>] xs)) x = (if x \<in> set xs then Some x else m x)"
  by (induction xs arbitrary: m) auto

lemma range_step_nth:
  fixes a b :: u64
  assumes "i < (unat b - unat a + 4095) div 4096"
  shows "unat (a + of_nat (4096 * i)) = unat a + 4096 * i" and "unat a + 4096 * i < unat b"
proof -
  have "4096 * i < unat b - unat a" using assms by linarith
  then show lt: "unat a + 4096 * i < unat b" by linarith
  have "unat b < 2 ^ 64" using unsigned_less [of b, where 'a = nat] by simp
  with lt show "unat (a + of_nat (4096 * i)) = unat a + 4096 * i"
    by (intro unat_add_offset [where n = "unat b - unat a"]) (auto simp: region_ok_def)
qed

lemma range_step_bounds:
  "x \<in> set (range_step_4096 a b) \<Longrightarrow> unat a \<le> unat x \<and> unat x < unat b \<and> 4096 dvd unat x - unat a"
  using range_step_nth [of _ b a] by (auto simp: range_step_4096_def)

lemma distinct_range_step: "distinct (range_step_4096 a b)"
  unfolding range_step_4096_def distinct_map
proof (intro conjI inj_onI)
  fix i j assume "i \<in> set [0..<(unat b - unat a + 4095) div 4096]"
    "j \<in> set [0..<(unat b - unat a + 4095) div 4096]"
    "a + of_nat (4096 * i) = a + (of_nat (4096 * j) :: u64)"
  then show "i = j"
    using range_step_nth(1) [of i b a] range_step_nth(1) [of j b a] by simp
qed simp

lemma usable_address_region:
  "x \<in> set (usable_addresses mm) \<Longrightarrow>
     \<exists>r \<in> set (usable_regions mm). x \<in> set (range_step_4096 (region_start r) (region_end r))"
  by (auto simp: usable_addresses_def usable_regions_def)

lemma usable_address_ok:
  assumes "memory_map_ok lim mm" and "x \<in> set (usable_addresses mm)"
  shows "4096 dvd unat x" and "unat x < unat lim"
proof -
  obtain r where r: "r \<in> set (usable_regions mm)"
    "x \<in> set (range_step_4096 (region_start r) (region_end r))"
    using usable_address_region [OF assms(2)] by blast
  with assms(1) range_step_bounds [OF r(2)] show "unat x < unat lim"
    by (force simp: memory_map_ok_def)
  from r assms(1) range_step_bounds [OF r(2)] show "4096 dvd unat x"
    by (meson dvd_diffD memory_map_ok_def)
qed

lemma distinct_usable_addresses:
  assumes "memory_map_ok lim mm"
  shows "distinct (usable_addresses mm)"
proof -
  let ?apart = "\<lambda>r s. unat (region_end r) \<le> unat (region_start s) \<or>
    unat (region_end s) \<le> unat (region_start r)"
  have all: "distinct (concat (map (\<lambda>r. range_step_4096 (region_start r) (region_end r)) rs))"
    if "sorted_wrt ?apart rs" for rs
    using that
  proof (induction rs)
    case Nil
    then show ?case by simp
  next
    case (Cons r rs)
    have "set (range_step_4096 (region_start r) (region_end r)) \<inter>
        set (range_step_4096 (region_start s) (region_end s)) = {}" if "s \<in> set rs" for s
      using Cons.prems that
      by (fastforce dest: range_step_bounds)
    with Cons show ?case
      by (auto simp: distinct_range_step)
  qed
  show ?thesis
    using all [of "usable_regions mm"] assms
    by (simp only: memory_map_ok_def usable_addresses_def usable_regions_def)
qed

lemma page_aligned:
  fixes x :: u64
  assumes "4096 dvd unat x"
  shows "4096 * (x div 4096) = x"
proof (rule word_unat_eq_iff [THEN iffD2])
  have "4096 * (unat x div 4096) = unat x" using assms by simp
  moreover have "unat x < 2 ^ 64" using unsigned_less [of x, where 'a = nat] by simp
  ultimately show "unat (4096 * (x div 4096)) = unat x"
    by (simp add: unat_word_ariths unat_div)
qed

lemma frame_of_usable:
  assumes "crate_ok X containing lim" and "memory_map_ok lim mm" and "x \<in> set (usable_addresses mm)"
  shows "frame_of X containing x = Inr x"
proof -
  have "x \<le> lim" using usable_address_ok(2) [OF assms(2,3)] by (simp add: word_le_nat_alt)
  moreover have "4096 * (x div 4096) = x"
    by (rule page_aligned) (rule usable_address_ok(1) [OF assms(2,3)])
  ultimately show ?thesis
    using assms(1) by (simp add: frame_of_def crate_ok_def)
qed

lemma arrayvec_fill:
  "length xs + length acc \<le> cap \<Longrightarrow> res_fold (arrayvec_push cap) xs acc = Inr (acc @ xs)"
  by (induction xs arbitrary: acc) (auto simp: arrayvec_push_def)

section \<open>The allocator as a source of frames\<close>

locale frame_source =
  fixes alloc :: "'a allocator"
    and left :: "u64 list \<Rightarrow> 'a \<Rightarrow> bool"
  assumes alloc_Cons: "left (f # fs) s \<Longrightarrow> \<exists>s'. alloc s = Inr (Some f, s') \<and> left fs s'"
    and alloc_Nil: "left [] s \<Longrightarrow> \<exists>s'. alloc s = Inr (None, s')"
begin

lemma pull_contiguous_exact:
  assumes "left fs s" and "length is \<le> length fs"
    and "\<And>k. k < length is \<Longrightarrow> fs ! k = first + of_nat (is ! k) * 4096"
  shows "\<exists>s'. pull_contiguous alloc first is s = Inr s' \<and> left (drop (length is) fs) s'"
  using assms
proof (induction "is" arbitrary: fs s)
  case Nil
  then show ?case by simp
next
  case (Cons i "is")
  then obtain f fs' where fs: "fs = f # fs'" by (cases fs) auto
  with Cons.prems obtain s1 where s1: "alloc s = Inr (Some f, s1)" "left fs' s1"
    using alloc_Cons by blast
  have f: "f = first + of_nat i * 4096"
    using Cons.prems(3) [of 0] fs by simp
  have "\<exists>s'. pull_contiguous alloc first is s1 = Inr s' \<and> left (drop (length is) fs') s'"
    using Cons.prems(2,3) fs by (intro Cons.IH [OF s1(2)]) force+
  with s1 f fs show ?case by (simp add: res_unwrap_def)
qed

lemma pull_contiguous_gap:
  assumes "left fs s" and "k < length is" and "k < length fs"
    and "\<And>j. j < k \<Longrightarrow> fs ! j = first + of_nat (is ! j) * 4096"
    and "fs ! k \<noteq> first + of_nat (is ! k) * 4096"
  shows "pull_contiguous alloc first is s =
    Inl (Panicked ''create_identity_virt_from_phys_n NON CONTIGUOUS'')"
  using assms
proof (induction "is" arbitrary: fs s k)
  case Nil
  then show ?case by simp
next
  case (Cons i "is")
  then obtain f fs' where fs: "fs = f # fs'" by (cases fs) auto
  with Cons.prems obtain s1 where s1: "alloc s = Inr (Some f, s1)" "left fs' s1"
    using alloc_Cons by blast
  show ?case
  proof (cases k)
    case 0
    with Cons.prems(5) s1 fs show ?thesis by (simp add: res_unwrap_def)
  next
    case (Suc k')
    have f: "f = first + of_nat i * 4096"
      using Cons.prems(4) [of 0] fs Suc by simp
    have "fs' ! j = first + of_nat (is ! j) * 4096" if "j < k'" for j
      using Cons.prems(4) [of "Suc j"] that fs Suc by simp
    then have "pull_contiguous alloc first is s1 =
        Inl (Panicked ''create_identity_virt_from_phys_n NON CONTIGUOUS'')"
      using Cons.prems fs Suc by (intro Cons.IH [OF s1(2), of k']) auto
    with s1 f fs show ?thesis by (simp add: res_unwrap_def)
  qed
qed

lemma allocate_many_take:
  "left fs s \<Longrightarrow> n \<le> length fs \<Longrightarrow>
     \<exists>s'. allocate_many alloc n s = Inr (map Some (take n fs), s') \<and> left (drop n fs) s'"
proof (induction n arbitrary: fs s)
  case 0
  then show ?case by simp
next
  case (Suc n)
  then obtain f fs' where fs: "fs = f # fs'" by (cases fs) auto
  with Suc.prems obtain s1 where "alloc s = Inr (Some f, s1)" "left fs' s1"
    using alloc_Cons by blast
  with Suc.IH [of fs' s1] Suc.prems(2) fs show ?case by auto
qed

lemma map_pages_identity:
  assumes "mapper_ok left lookup map_to"
    and "\<And>a. a \<in> set as \<Longrightarrow> phys_new X a = Inr a \<and> virt_new X a = Inr a \<and> containing a = a"
    and "distinct as" and "\<And>a. a \<in> set as \<Longrightarrow> lookup pt a = None"
    and "left fs s" and "3 * length as \<le> length fs"
  shows "\<exists>pt' s' n. map_pages X containing map_to as (pt, s) = Inr (Inr (pt', s')) \<and>
    lookup pt' = (lookup pt)(as [\<mapsto>] as) \<and> left (drop n fs) s'"
  using assms(2-)
proof (induction as arbitrary: pt s fs)
  case Nil
  then show ?case by (auto intro: exI [of _ 0])
next
  case (Cons a as)
  have "3 \<le> length fs" "lookup pt a = None"
    using Cons.prems by auto
  with assms(1) Cons.prems(4) obtain n pt1 s1 where n: "n \<le> 3"
    and m: "map_to a a (pt, s) = Inr (Inr (pt1, s1))"
    and l: "lookup pt1 = (lookup pt)(a \<mapsto> a)" and s1: "left (drop n fs) s1"
    unfolding mapper_ok_def by meson
  have "\<exists>pt' s' k. map_pages X containing map_to as (pt1, s1) = Inr (Inr (pt', s')) \<and>
      lookup pt' = (lookup pt1)(as [\<mapsto>] as) \<and> left (drop k (drop n fs)) s'"
    using Cons.prems n s1 by (intro Cons.IH) (auto simp: l)
  moreover have "phys_new X a = Inr a" "virt_new X a = Inr a" "containing a = a"
    using Cons.prems(1) by auto
  ultimately show ?case
    using m l by auto
qed

lemma map_heap_pages_ok:
  assumes "mapper_ok left lookup map_to"
    and "distinct pages" and "\<And>p. p \<in> set pages \<Longrightarrow> lookup pt p = None"
    and "left fs s" and "4 * length pages \<le> length fs" and "distinct fs"
  shows "\<exists>pt' s' gs. map_heap_pages alloc map_to pages (pt, s) = Inr (Inr (pt', s')) \<and>
    length gs = length pages \<and> distinct gs \<and> set gs \<subseteq> set fs \<and> lookup pt' = (lookup pt)(pages [\<mapsto>] gs)"
  using assms(2-)
proof (induction pages arbitrary: pt s fs)
  case Nil
  then show ?case by auto
next
  case (Cons p pages)
  then obtain f fs' where fs: "fs = f # fs'" by (cases fs) auto
  with Cons.prems obtain s1 where a: "alloc s = Inr (Some f, s1)" and s1: "left fs' s1"
    using alloc_Cons by blast
  have "3 \<le> length fs'" "lookup pt p = None"
    using Cons.prems fs by auto
  with assms(1) s1 obtain n pt1 s2 where n: "n \<le> 3" and m: "map_to p f (pt, s1) = Inr (Inr (pt1, s2))"
    and l: "lookup pt1 = (lookup pt)(p \<mapsto> f)" and s2: "left (drop n fs') s2"
    unfolding mapper_ok_def by meson
  have "\<exists>pt' s' gs. map_heap_pages alloc map_to pages (pt1, s2) = Inr (Inr (pt', s')) \<and>
      length gs = length pages \<and> distinct gs \<and> set gs \<subseteq> set (drop n fs') \<and>
      lookup pt' = (lookup pt1)(pages [\<mapsto>] gs)"
    using Cons.prems fs n s2 by (intro Cons.IH) (auto simp: l)
  then obtain pt' s' gs where *: "map_heap_pages alloc map_to pages (pt1, s2) = Inr (Inr (pt', s'))"
      "length gs = length pages" "distinct gs" "set gs \<subseteq> set (drop n fs')"
      "lookup pt' = (lookup pt1)(pages [\<mapsto>] gs)"
    by blast
  have sub: "set gs \<subseteq> set fs'" using *(4) set_drop_subset by fast
  then have "distinct (f # gs)" "set (f # gs) \<subseteq> set fs"
    using *(3) fs Cons.prems(5) by auto
  moreover have "map_heap_pages alloc map_to (p # pages) (pt, s) = Inr (Inr (pt', s'))"
    using a m *(1) by simp
  moreover have "lookup pt' = (lookup pt)(p # pages [\<mapsto>] f # gs)"
    using *(5) l by simp
  ultimately show ?case
    using *(2) by (metis length_Cons)
qed

end

lemma frames_left_suffix: "frames_left lim mm (f # fs) a \<Longrightarrow> \<exists>k. fs = drop k (usable_addresses mm)"
proof -
  assume "frames_left lim mm (f # fs) a"
  then obtain k where "f # fs = drop k (usable_addresses mm)"
    unfolding frames_left_def by blast
  then have "fs = drop (Suc k) (usable_addresses mm)"
    by (metis drop_Suc list.sel(3) tl_drop)
  then show ?thesis by blast
qed

lemma frames_left_usable:
  assumes "frames_left lim mm fs a"
  shows "distinct fs" and "f \<in> set fs \<Longrightarrow> f \<in> set (usable_addresses mm)"
    and "f \<in> set fs \<Longrightarrow> 4096 dvd unat f \<and> f \<le> lim"
proof -
  obtain k where k: "fs = drop k (usable_addresses mm)" and mm: "memory_map_ok lim mm"
    using assms by (auto simp: frames_left_def)
  show "distinct fs" using distinct_usable_addresses [OF mm] k by simp
  show sub: "f \<in> set (usable_addresses mm)" if "f \<in> set fs"
    using that k by (simp add: in_set_dropD)
  show "4096 dvd unat f \<and> f \<le> lim" if "f \<in> set fs"
    using usable_address_ok [OF mm sub [OF that]] by (simp add: word_le_nat_alt)
qed

lemma allocate_refill:
  assumes crate: "crate_ok X containing lim" and left: "frames_left lim mm fs a" and buf: "fa_buf a = []"
  shows "allocate_frame X containing a =
    (let b = take 32 fs in
     Inr (if b = [] then None else Some (hd b), a\<lparr> fa_buf := rev (tl b), fa_next := fa_next a + 32 \<rparr>))"
proof -
  let ?us = "usable_addresses mm" and ?k = "unat (fa_next a) - 1"
  have mm: "memory_map a = mm" "memory_map_ok lim mm" and fs: "fs = drop ?k ?us"
    and pos: "0 < unat (fa_next a)"
    using left buf by (simp_all add: frames_left_def)
  have skip: "unat (fa_next a - 1) = ?k"
    using pos by (simp add: unat_sub word_le_nat_alt)
  have "res_traverse (frame_of X containing) (take (?k + 32) ?us) = Inr (map id (take (?k + 32) ?us))"
    by (rule res_traverse_Inr) (auto simp: frame_of_usable [OF crate mm(2)] dest: in_set_takeD)
  moreover have "drop ?k (take (?k + 32) ?us) = take 32 fs"
    by (simp add: fs drop_take)
  moreover have "res_fold (arrayvec_push 32) (take 32 fs) [] = Inr (take 32 fs)"
    using arrayvec_fill [of "take 32 fs" "[]" 32] by simp
  ultimately show ?thesis
    by (cases "take 32 fs")
      (auto simp: allocate_frame_def Let_def buf skip mm BUFFER_SIZE_ADVANCE_def vec_pop_def)
qed

lemma allocate_buffered:
  assumes "frames_left lim mm fs a" and "fa_buf a \<noteq> []"
  shows "allocate_frame X containing a = Inr (Some (hd fs), a\<lparr> fa_buf := butlast (fa_buf a) \<rparr>)"
  using assms by (cases "fa_buf a" rule: rev_cases) (auto simp: allocate_frame_def vec_pop_def frames_left_def)

lemma allocate_frame_refines:
  assumes crate: "crate_ok X containing lim" and left: "frames_left lim mm (f # fs) a"
  shows "\<exists>a'. allocate_frame X containing a = Inr (Some f, a') \<and> frames_left lim mm fs a'"
proof (cases "fa_buf a = []")
  case True
  let ?us = "usable_addresses mm" and ?k = "unat (fa_next a) - 1"
  from left True have us: "f # fs = drop ?k ?us" and pos: "0 < unat (fa_next a)"
    and len: "length ?us + 64 < 2 ^ 64"
    by (simp_all add: frames_left_def)
  from us have "?k < length ?us"
    by (metis drop_all list.discI not_le)
  then have nxt: "unat (fa_next a + 32) = unat (fa_next a) + 32"
    using len by (simp add: unat_word_ariths)
  have "fs = tl (take 32 (f # fs)) @ drop 32 (f # fs)"
    by (metis append_take_drop_id list.sel(3) take_eq_Nil2 tl_append2 zero_neq_numeral list.discI)
  also have "drop 32 (f # fs) = drop (?k + 32) ?us"
    by (simp only: us drop_drop add.commute)
  also have "?k + 32 = unat (fa_next a + 32) - 1"
    using pos nxt by simp
  finally have eq: "fs = tl (take 32 (f # fs)) @ drop (unat (fa_next a + 32) - 1) ?us" .
  have "memory_map a = mm" "memory_map_ok lim mm"
    using left by (simp_all add: frames_left_def)
  with eq len nxt frames_left_suffix [OF left]
  have "frames_left lim mm fs (a\<lparr> fa_buf := rev (tl (take 32 (f # fs))), fa_next := fa_next a + 32 \<rparr>)"
    by (simp add: frames_left_def)
  then show ?thesis
    using allocate_refill [OF crate left True] by (auto simp: Let_def)
next
  case False
  then obtain b x where "fa_buf a = b @ [x]" by (cases "fa_buf a" rule: rev_cases) auto
  with left frames_left_suffix [OF left] allocate_buffered [OF left False, of X containing] show ?thesis
    by (auto simp: frames_left_def)
qed

lemma allocate_frame_exhausted:
  assumes crate: "crate_ok X containing lim" and left: "frames_left lim mm [] a"
  shows "\<exists>a'. allocate_frame X containing a = Inr (None, a')"
proof -
  have "fa_buf a = []" using left by (simp add: frames_left_def)
  from allocate_refill [OF crate left this] show ?thesis by (simp add: Let_def)
qed

lemma frames_left_init:
  assumes "memory_map_ok lim mm" and "length (usable_addresses mm) + 64 < 2 ^ 64"
  shows "frames_left lim mm (usable_addresses mm) (BootInfoFrameAllocator_init mm)"
  using assms by (auto simp: frames_left_def BootInfoFrameAllocator_init_def intro: exI [of _ 0])

lemma x86_crate_ok: "crate_ok x86_crate x86_page (2 ^ 47 - 1)"
proof -
  have "a < 2 ^ 52 \<and> a < 2 ^ 47" if "a \<le> 2 ^ 47 - 1" for a :: u64
    using that by (simp add: word_less_nat_alt word_le_nat_alt)
  moreover have "a + b < 2 ^ 47" if "unat a + unat b \<le> unat (2 ^ 47 - 1 :: u64)" for a b :: u64
    using that by (simp add: word_less_nat_alt unat_word_ariths)
  ultimately show ?thesis
    by (simp add: crate_ok_def x86_crate_def x86_page_def)
qed

interpretation boot_frames: frame_source "allocate_frame X containing" "frames_of X containing lim mm"
  for X containing lim mm
  by unfold_locales (use allocate_frame_refines allocate_frame_exhausted in \<open>auto simp: frames_of_def\<close>)

section \<open>Properties\<close>

text \<open>C4: over a memory map whose usable regions are page aligned and disjoint, successive
  allocations return exactly the usable frames in the order of the map, each one once, and None when
  they are used up; refilling the buffer of 32 neither skips nor repeats a frame.\<close>

theorem frames_allocated_once:
  assumes "crate_ok X containing lim" and "memory_map_ok lim mm"
    and "length (usable_addresses mm) + 64 < 2 ^ 64" and "n \<le> length (usable_addresses mm)"
  shows "(\<exists>a. allocate_many (allocate_frame X containing) n (BootInfoFrameAllocator_init mm) =
            Inr (map Some (take n (usable_addresses mm)), a) \<and>
            (n = length (usable_addresses mm) \<longrightarrow>
              (\<exists>a'. allocate_frame X containing a = Inr (None, a')))) \<and>
    distinct (take n (usable_addresses mm)) \<and>
    (\<forall>f \<in> set (take n (usable_addresses mm)). 4096 dvd unat f \<and>
       (\<exists>r \<in> set mm. region_kind r = Usable \<and> unat (region_start r) \<le> unat f \<and>
          unat f < unat (region_end r)))"
proof (intro conjI)
  let ?us = "usable_addresses mm"
  have "frames_of X containing lim mm ?us (BootInfoFrameAllocator_init mm)"
    using assms(1) frames_left_init [OF assms(2,3)] by (simp add: frames_of_def)
  from boot_frames.allocate_many_take [OF this assms(4)] boot_frames.alloc_Nil
  show "\<exists>a. allocate_many (allocate_frame X containing) n (BootInfoFrameAllocator_init mm) =
            Inr (map Some (take n ?us), a) \<and>
          (n = length ?us \<longrightarrow> (\<exists>a'. allocate_frame X containing a = Inr (None, a')))"
    by fastforce
  show "distinct (take n ?us)"
    using distinct_usable_addresses [OF assms(2)] by simp
  show "\<forall>f \<in> set (take n ?us). 4096 dvd unat f \<and>
       (\<exists>r \<in> set mm. region_kind r = Usable \<and> unat (region_start r) \<le> unat f \<and>
          unat f < unat (region_end r))"
    using usable_address_ok(1) [OF assms(2)] usable_address_region [of _ mm] range_step_bounds
    by (fastforce simp: usable_regions_def dest: in_set_takeD)
qed

lemma sample_map_ok: "memory_map_ok (2 ^ 47 - 1) sample_map"
  by (simp add: memory_map_ok_def usable_regions_def sample_map_def)

lemma length_sample_map: "length (usable_addresses sample_map) = 524287"
  by (simp add: usable_addresses_def sample_map_def range_step_4096_def)

theorem frames_allocated_once_witness:
  "(\<exists>a. allocate_many (allocate_frame x86_crate x86_page) 524287 (BootInfoFrameAllocator_init sample_map) =
      Inr (map Some (take 524287 (usable_addresses sample_map)), a) \<and>
      (\<exists>a'. allocate_frame x86_crate x86_page a = Inr (None, a'))) \<and>
   distinct (take 524287 (usable_addresses sample_map))"
  using frames_allocated_once [OF x86_crate_ok sample_map_ok, of 524287] by (simp add: length_sample_map)

text \<open>asking for n identity-mapped pages succeeds when the next n frames are consecutive (and
  the mapper succeeds): the page returned is the first frame, and each of the n pages is mapped to
  the frame with its own address while every other page keeps its translation.\<close>

theorem identity_pages_contiguous:
  assumes "crate_ok X containing lim" and "frames_left lim mm fs fa"
    and "mapper_ok (frames_of X containing lim mm) lookup map_to"
    and "0 < n" and "4 * n \<le> length fs"
    and "\<And>i. i < n \<Longrightarrow> fs ! i = hd fs + of_nat i * 4096 \<and> lookup pt (fs ! i) = None"
  shows "\<exists>pt' fa'. create_identity_virt_from_phys_n X containing (allocate_frame X containing) map_to n (pt, fa) =
      Inr (Inr (hd fs, pt', fa')) \<and>
    (\<forall>i < n. lookup pt' (fs ! i) = Some (fs ! i)) \<and>
    (\<forall>a. a \<notin> set (take n fs) \<longrightarrow> lookup pt' a = lookup pt a)"
proof -
  let ?left = "frames_of X containing lim mm" and ?alloc = "allocate_frame X containing"
  obtain f fs1 where fs: "fs = f # fs1" using assms(4,5) by (cases fs) auto
  have "?left fs fa" using assms(1,2) by (simp add: frames_of_def)
  then obtain fa1 where fa1: "?alloc fa = Inr (Some f, fa1)" "?left fs1 fa1"
    using boot_frames.alloc_Cons fs by blast
  have "fs1 ! k = f + of_nat ([1..<n] ! k) * 4096" if "k < length [1..<n]" for k
    using assms(6) [of "Suc k"] that fs by simp
  moreover have "n - 1 \<le> length fs1" using assms(4,5) fs by simp
  ultimately obtain fa2 where fa2: "pull_contiguous ?alloc f [1..<n] fa1 = Inr fa2"
    "?left (drop (n - 1) fs1) fa2"
    using boot_frames.pull_contiguous_exact [OF fa1(2), of "[1..<n]" f] by auto
  have eq: "map (\<lambda>i. f + of_nat i * 4096) [0..<n] = take n fs"
    using assms(5,6) fs by (intro nth_equalityI) auto
  have ok: "phys_new X a = Inr a \<and> virt_new X a = Inr a \<and> containing a = a" if "a \<in> set fs" for a
    using frames_left_usable(3) [OF assms(2) that] assms(1) page_aligned by (simp add: crate_ok_def)
  have "\<exists>pt' s' k. map_pages X containing map_to (take n fs) (pt, fa2) = Inr (Inr (pt', s')) \<and>
    lookup pt' = (lookup pt)(take n fs [\<mapsto>] take n fs) \<and> ?left (drop k (drop (n - 1) fs1)) s'"
  proof (rule boot_frames.map_pages_identity [OF assms(3) _ _ _ fa2(2)])
    show "distinct (take n fs)" using frames_left_usable(1) [OF assms(2)] by simp
    show "lookup pt a = None" if a: "a \<in> set (take n fs)" for a
    proof -
      obtain i where i: "i < n" "a = fs ! i" using a by (auto simp: in_set_conv_nth)
      show ?thesis unfolding i(2) by (rule assms(6) [THEN conjunct2]) (rule i(1))
    qed
    show "3 * length (take n fs) \<le> length (drop (n - 1) fs1)" using assms(4,5) fs by simp
  qed (use ok in \<open>auto dest: in_set_takeD\<close>)
  then obtain pt' s' where m: "map_pages X containing map_to (take n fs) (pt, fa2) = Inr (Inr (pt', s'))"
    and l: "lookup pt' = (lookup pt)(take n fs [\<mapsto>] take n fs)"
    by blast
  have "create_identity_virt_from_phys_n X containing ?alloc map_to n (pt, fa) = Inr (Inr (f, pt', s'))"
    using fa1(1) fa2(1) m ok [of f] fs
    by (simp add: create_identity_virt_from_phys_n_def res_unwrap_def eq del: upt_Suc)
  moreover have "lookup pt' (fs ! i) = Some (fs ! i)" if "i < n" for i
  proof -
    have "i < length (take n fs)" using that assms(5) by simp
    then have "fs ! i \<in> set (take n fs)" by (metis nth_mem nth_take that)
    then show ?thesis by (simp add: l map_upds_self)
  qed
  moreover have "lookup pt' a = lookup pt a" if "a \<notin> set (take n fs)" for a
    using that by (simp add: l)
  ultimately show ?thesis using fs by auto
qed

lemma sample_frames_left:
  "frames_left (2 ^ 47 - 1) sample_map (usable_addresses sample_map) (BootInfoFrameAllocator_init sample_map)"
  by (rule frames_left_init [OF sample_map_ok]) (simp add: length_sample_map)

lemma array_mapper_ok: "mapper_ok left (\<lambda>pt. pt) array_mapper"
  unfolding mapper_ok_def array_mapper_def by (auto intro!: exI [of _ "0 :: nat"])

lemma sample_frame_nth: "i < 524287 \<Longrightarrow> usable_addresses sample_map ! i = 0x1000 + of_nat i * 4096"
  by (simp add: usable_addresses_def sample_map_def range_step_4096_def mult.commute)

theorem identity_pages_contiguous_witness:
  "\<exists>pt' fa'. create_identity_virt_from_phys_n x86_crate x86_page (allocate_frame x86_crate x86_page)
      array_mapper 3 (Map.empty, BootInfoFrameAllocator_init sample_map) = Inr (Inr (0x1000, pt', fa')) \<and>
     pt' 0x2000 = Some 0x2000"
proof -
  let ?fs = "usable_addresses sample_map"
  have hd: "hd ?fs = 0x1000"
    using sample_frame_nth [of 0] length_sample_map hd_conv_nth [of ?fs] by (cases ?fs) simp_all
  have step: "?fs ! i = hd ?fs + of_nat i * 4096 \<and> (Map.empty :: u64 \<Rightarrow> u64 option) (?fs ! i) = None" if "i < 3" for i
    using that sample_frame_nth [of i] by (simp add: hd)
  have "\<exists>pt' fa'. create_identity_virt_from_phys_n x86_crate x86_page (allocate_frame x86_crate x86_page)
      array_mapper 3 (Map.empty, BootInfoFrameAllocator_init sample_map) = Inr (Inr (hd ?fs, pt', fa')) \<and>
      (\<forall>i < 3. pt' (?fs ! i) = Some (?fs ! i)) \<and>
      (\<forall>a. a \<notin> set (take 3 ?fs) \<longrightarrow> pt' a = Map.empty a)"
    using identity_pages_contiguous [OF x86_crate_ok sample_frames_left array_mapper_ok, of 3 Map.empty]
      step by (simp add: length_sample_map)
  moreover have "?fs ! 1 = 0x2000" using sample_frame_nth [of 1] by simp
  ultimately show ?thesis
    unfolding hd by (metis one_less_numeral_iff semiring_norm(77))
qed

text \<open>when one of the next n frames is not adjacent to the one before, asking for n
  identity-mapped pages panics; the pages of one request never straddle a hole of the memory map.\<close>

theorem identity_pages_gap_panics:
  assumes "crate_ok X containing lim" and "frames_left lim mm fs fa"
    and "Suc k < n" and "Suc k < length fs"
    and "\<And>i. i \<le> k \<Longrightarrow> fs ! i = hd fs + of_nat i * 4096"
    and "fs ! Suc k \<noteq> hd fs + of_nat (Suc k) * 4096"
  shows "create_identity_virt_from_phys_n X containing (allocate_frame X containing) map_to n (pt, fa) =
    Inl (Panicked ''create_identity_virt_from_phys_n NON CONTIGUOUS'')"
proof -
  let ?left = "frames_of X containing lim mm" and ?alloc = "allocate_frame X containing"
  obtain f fs1 where fs: "fs = f # fs1" using assms(4) by (cases fs) auto
  have "?left fs fa" using assms(1,2) by (simp add: frames_of_def)
  then obtain fa1 where fa1: "?alloc fa = Inr (Some f, fa1)" "?left fs1 fa1"
    using boot_frames.alloc_Cons fs by blast
  have "pull_contiguous ?alloc f [1..<n] fa1 =
      Inl (Panicked ''create_identity_virt_from_phys_n NON CONTIGUOUS'')"
  proof (rule boot_frames.pull_contiguous_gap [OF fa1(2), of k])
    show "fs1 ! j = f + of_nat ([1..<n] ! j) * 4096" if "j < k" for j
      using assms(5) [of "Suc j"] that assms(3) fs by simp
  qed (use assms(3,4,6) fs in auto)
  then show ?thesis
    using fa1(1) by (simp add: create_identity_virt_from_phys_n_def res_unwrap_def)
qed

theorem identity_pages_gap_panics_witness:
  "create_identity_virt_from_phys_n x86_crate x86_page (allocate_frame x86_crate x86_page)
      array_mapper 3 (Map.empty, BootInfoFrameAllocator_init holed_map) =
    Inl (Panicked ''create_identity_virt_from_phys_n NON CONTIGUOUS'')"
proof -
  have us: "usable_addresses holed_map = [0x1000, 0x2000, 0x8000]"
    by (simp add: usable_addresses_def holed_map_def range_step_4096_def upt_rec)
  have "memory_map_ok (2 ^ 47 - 1) holed_map"
    by (simp add: memory_map_ok_def usable_regions_def holed_map_def)
  then have "frames_left (2 ^ 47 - 1) holed_map [0x1000, 0x2000, 0x8000] (BootInfoFrameAllocator_init holed_map)"
    using frames_left_init [of "2 ^ 47 - 1" holed_map] us by simp
  moreover have "[0x1000, 0x2000, 0x8000 :: u64] ! i = hd [0x1000, 0x2000, 0x8000] + of_nat i * 4096"
    if "i \<le> 1" for i
    using that by (cases i) auto
  ultimately show ?thesis
    using identity_pages_gap_panics [OF x86_crate_ok, of holed_map "[0x1000, 0x2000, 0x8000]"
        "BootInfoFrameAllocator_init holed_map" 1 3] by simp
qed

lemma heap_page_range:
  "page_range_inclusive (4096 * (HEAP_START div 4096)) (4096 * ((HEAP_START + HEAP_SIZE - 1) div 4096)) =
     map (\<lambda>i. HEAP_START + of_nat (4096 * i)) [0..<32768]"
  by (simp add: page_range_inclusive_def HEAP_START_def HEAP_SIZE_def del: upt_Suc)

lemma heap_page_unat:
  "i < 32768 \<Longrightarrow> unat (HEAP_START + of_nat (4096 * i)) = unat HEAP_START + 4096 * i"
  by (rule unat_add_offset [where n = "2 ^ 30"]) (simp_all add: region_ok_def HEAP_START_def)

text \<open>with enough frames (one for each page and at most three more for page tables),
  initialising the heap maps each of its 32768 pages to a usable frame of its own, leaves every
  other page alone and hands exactly the range of 128 MiB that it mapped to the allocator.\<close>

theorem init_heap_maps_every_page:
  assumes "crate_ok X containing lim" and "frames_left lim mm fs fa"
    and "mapper_ok (frames_of X containing lim mm) lookup map_to"
    and "unat HEAP_START + unat HEAP_SIZE \<le> unat lim" and "4 * 32768 \<le> length fs"
    and "\<And>i. i < 32768 \<Longrightarrow> lookup pt (HEAP_START + of_nat (4096 * i)) = None"
  shows "\<exists>pt' fa' gs. init_heap X containing (allocate_frame X containing) map_to (pt, fa) =
      Inr (Inr ((pt', fa'), HEAP_START, HEAP_SIZE)) \<and>
    length gs = 32768 \<and> distinct gs \<and> set gs \<subseteq> set fs \<and> unat HEAP_SIZE = 32768 * 4096 \<and>
    (\<forall>i < 32768. lookup pt' (HEAP_START + of_nat (4096 * i)) = Some (gs ! i)) \<and>
    (\<forall>a. (\<forall>i < 32768. a \<noteq> HEAP_START + of_nat (4096 * i)) \<longrightarrow> lookup pt' a = lookup pt a)"
proof -
  let ?pages = "map (\<lambda>i. HEAP_START + of_nat (4096 * i)) [0..<32768]"
  have dist: "distinct ?pages"
    unfolding distinct_map
  proof (intro conjI inj_onI)
    fix i j assume "i \<in> set [0..<32768]" "j \<in> set [0..<32768]"
      "HEAP_START + of_nat (4096 * i) = HEAP_START + (of_nat (4096 * j) :: u64)"
    then show "i = j" using heap_page_unat [of i] heap_page_unat [of j] by simp
  qed simp
  have left: "frames_of X containing lim mm fs fa" using assms(1,2) by (simp add: frames_of_def)
  have none: "lookup pt p = None" if "p \<in> set ?pages" for p
    using that assms(6) by auto
  have len: "4 * length ?pages \<le> length fs" using assms(5) by simp
  obtain pt' fa' gs where m: "map_heap_pages (allocate_frame X containing) map_to ?pages (pt, fa) = Inr (Inr (pt', fa'))"
    and gs: "length gs = length ?pages" "distinct gs" "set gs \<subseteq> set fs"
    and l: "lookup pt' = (lookup pt)(?pages [\<mapsto>] gs)"
    using boot_frames.map_heap_pages_ok [OF assms(3) dist none left len frames_left_usable(1) [OF assms(2)]]
    by blast
  have "HEAP_START \<le> lim" using assms(4) by (simp add: word_le_nat_alt)
  then have "virt_new X HEAP_START = Inr HEAP_START"
    "virt_add X HEAP_START HEAP_SIZE = Inr (HEAP_START + HEAP_SIZE)"
    "containing a = 4096 * (a div 4096)" for a
    using assms(1,4) by (auto simp: crate_ok_def)
  with m have "init_heap X containing (allocate_frame X containing) map_to (pt, fa) =
      Inr (Inr ((pt', fa'), HEAP_START, HEAP_SIZE))"
    by (simp add: init_heap_def Let_def heap_page_range del: of_nat_mult)
  moreover have "lookup pt' (HEAP_START + of_nat (4096 * i)) = Some (gs ! i)" if "i < 32768" for i
    using map_upds_nth [OF dist, of gs i "lookup pt"] gs(1) that by (simp add: l)
  moreover have "lookup pt' a = lookup pt a" if "\<forall>i < 32768. a \<noteq> HEAP_START + of_nat (4096 * i)" for a
  proof -
    have "a \<notin> set ?pages" using that by auto
    then show ?thesis unfolding l by (rule map_upds_apply_nontin)
  qed
  ultimately show ?thesis
    using gs by (intro exI [of _ pt'] exI [of _ fa'] exI [of _ gs]) (simp add: HEAP_SIZE_def)
qed

theorem init_heap_maps_every_page_witness:
  "\<exists>pt' fa' (gs :: u64 list). init_heap x86_crate x86_page (allocate_frame x86_crate x86_page) array_mapper
      (Map.empty, BootInfoFrameAllocator_init sample_map) = Inr (Inr ((pt', fa'), HEAP_START, HEAP_SIZE)) \<and>
    length gs = 32768 \<and> distinct gs"
proof -
  have "unat HEAP_START + unat HEAP_SIZE \<le> unat (2 ^ 47 - 1 :: u64)"
    by (simp add: HEAP_START_def HEAP_SIZE_def)
  then show ?thesis
    using init_heap_maps_every_page [OF x86_crate_ok sample_frames_left array_mapper_ok, of Map.empty]
      length_sample_map by auto
qed

end
