(* ===== verification/Virtio_Init.thy ===== *)
theory Virtio_Init
  imports Virtio_Queue Frame_Alloc
begin

text \<open>
  Initialisation of a virtio device, \<^verbatim>\<open>Virtio::init\<close> of \<^verbatim>\<open>src/bootloader/kernel/src/virtio.rs\<close>: the
  device type from the PCI device id, the walk over the capability list of the configuration space,
  the status handshake and the set-up of every queue with freshly mapped pages.

  The list of capabilities is in device memory and may be cyclic, so the walk runs on fuel: \<open>None\<close> is
  the loop that does not end. The pages come from \<open>identity_page\<close>, the expression
  \<^verbatim>\<open>create_identity_virt_from_phys(mapper, frame_allocator).unwrap().start_address().as_u64()\<close>; the
  locale \<open>page_source\<close> is what the set-up relies on, and the allocator and mapper of the kernel
  interpret it. The volatile reads whose value only goes to the log are not part of the model.
\<close>

section \<open>Definitions\<close>

subsection \<open>Device types and capabilities\<close>

definition DEVICE_ID_INPUT :: int where "DEVICE_ID_INPUT = 18"

definition DEVICE_ID_GPU :: int where "DEVICE_ID_GPU = 16"

definition device_id_to_type :: "int \<Rightarrow> DeviceType option" where
  "device_id_to_type i =
     (if i = DEVICE_ID_INPUT then Some DeviceType_Input
      else if i = DEVICE_ID_GPU then Some DeviceType_Gpu else None)"

definition VirtioPciCapCommonCfg :: u8 where "VirtioPciCapCommonCfg = 1"

definition VirtioPciCapNotifyCfg :: u8 where "VirtioPciCapNotifyCfg = 2"

definition VirtioPciCapIsrCfg :: u8 where "VirtioPciCapIsrCfg = 3"

definition VirtioPciCapDeviceCfg :: u8 where "VirtioPciCapDeviceCfg = 4"

definition VirtioPciCapPciCfg :: u8 where "VirtioPciCapPciCfg = 5"

record virtio_caps =
  found_common :: "u64 VirtioCap option"
  found_device :: "u64 VirtioCap option"
  found_notify :: "u32 VirtioCap option"
  found_pci_conf :: "u8 list VirtioCap option"

definition no_caps :: virtio_caps where
  "no_caps = \<lparr> found_common = None, found_device = None, found_notify = None, found_pci_conf = None \<rparr>"

text \<open>The pointer to a capability's structure: \<^verbatim>\<open>phys_to_virt(phys + offset as u64)\<close>.\<close>

definition cap_pointer :: "addr_crate \<Rightarrow> u64 \<Rightarrow> u64 \<Rightarrow> u32 \<Rightarrow> u64 res" where
  "cap_pointer X voff phys offset =
     res_bind (phys_new X (phys + ucast offset)) (\<lambda>a. phys_to_virt X voff a)"

text \<open>One iteration of the capability loop, up to the read of the next offset.\<close>

definition cap_entry :: "addr_crate \<Rightarrow> u64 \<Rightarrow> Pci \<Rightarrow> Bar list \<Rightarrow> u8 \<Rightarrow>
    virtio_caps \<times> pci_ports \<Rightarrow> (virtio_caps \<times> pci_ports) res" where
  "cap_entry X voff d bars off s =
     (let (caps, p) = s; (cap_id, p) = Pci_config_read_u8 d off p
      in if cap_id \<noteq> 0x9 then Inr (caps, p)
         else
           let (cap_len, p) = Pci_config_read_u8 d (off + 2) p;
               (cfg_type, p) = Pci_config_read_u8 d (off + 3) p;
               (bar, p) = Pci_config_read_u8 d (off + 4) p;
               (offset, p) = Pci_config_read_u32 d (off + 8) p;
               (len, p) = Pci_config_read_u32 d (off + 12) p
           in if cfg_type = VirtioPciCapCommonCfg then
                res_bind (array_get bars (unat bar)) (\<lambda>b. case b of
                    Bar_Mm phys \<Rightarrow> res_bind (cap_pointer X voff phys offset)
                      (\<lambda>cfg. Inr (caps\<lparr> found_common := Some (VirtioCap_new cfg b offset len) \<rparr>, p))
                  | _ \<Rightarrow> Inr (caps, p))
              else if cfg_type = VirtioPciCapNotifyCfg then
                let (mult, p) = Pci_config_read_u32 d (off + 16) p in
                res_bind (array_get bars (unat bar))
                  (\<lambda>b. Inr (caps\<lparr> found_notify := Some (VirtioCap_new mult b offset len) \<rparr>, p))
              else if cfg_type = VirtioPciCapIsrCfg then Inr (caps, p)
              else if cfg_type = VirtioPciCapDeviceCfg then
                res_bind (array_get bars (unat bar)) (\<lambda>b. case b of
                    Bar_Mm phys \<Rightarrow> res_bind (cap_pointer X voff phys offset)
                      (\<lambda>cfg. Inr (caps\<lparr> found_device := Some (VirtioCap_new cfg b offset len) \<rparr>, p))
                  | _ \<Rightarrow> Inr (caps, p))
              else if cfg_type = VirtioPciCapPciCfg then
                let (d0, p) = Pci_config_read_u8 d (off + 16) p;
                    (d1, p) = Pci_config_read_u8 d (off + 17) p;
                    (d2, p) = Pci_config_read_u8 d (off + 18) p;
                    (d3, p) = Pci_config_read_u8 d (off + 19) p in
                res_bind (array_get bars (unat bar))
                  (\<lambda>b. Inr (caps\<lparr> found_pci_conf := Some (VirtioCap_new [d0, d1, d2, d3] b offset len) \<rparr>, p))
              else Inr (caps, p))"

text \<open>The loop; the body runs before the offset is tested.\<close>

fun cap_walk :: "addr_crate \<Rightarrow> u64 \<Rightarrow> Pci \<Rightarrow> Bar list \<Rightarrow> nat \<Rightarrow> u8 \<Rightarrow>
    virtio_caps \<times> pci_ports \<Rightarrow> (virtio_caps \<times> pci_ports) res option" where
  "cap_walk X voff d bars 0 off s = None"
| "cap_walk X voff d bars (Suc n) off s =
     (case cap_entry X voff d bars off s of
        Inl e \<Rightarrow> Some (Inl e)
      | Inr (caps, p) \<Rightarrow>
          (let (next_off, p) = Pci_config_read_u8 d (1 + off) p
           in if next_off = 0 then Some (Inr (caps, p))
              else cap_walk X voff d bars n next_off (caps, p)))"

definition read_bars :: "addr_crate \<Rightarrow> Pci \<Rightarrow> pci_ports \<Rightarrow> (Bar list \<times> pci_ports) res" where
  "read_bars X d p =
     res_fold (\<lambda>idx (bars, p). res_bind (get_bar (phys_new X) d (of_nat idx) p)
         (\<lambda>(bar, p). res_bind (array_set bars idx bar) (\<lambda>bars. Inr (bars, p))))
       [0..<6] (replicate 6 Bar_None, p)"

subsection \<open>Queues\<close>

definition identity_page :: "addr_crate \<Rightarrow> (u64 \<Rightarrow> u64) \<Rightarrow> 'a allocator \<Rightarrow> ('p, 'a) mapper \<Rightarrow>
    'p \<times> 'a \<Rightarrow> (u64 \<times> 'p \<times> 'a) res" where
  "identity_page X containing alloc map_to s =
     res_bind (create_identity_virt_from_phys X containing alloc map_to s)
       (\<lambda>r. case r of Inl e \<Rightarrow> Inl (Panicked ''called Result::unwrap() on an Err value'')
          | Inr (page, s) \<Rightarrow> Inr (page, s))"

definition fresh_desc :: "u64 \<Rightarrow> Desc" where
  "fresh_desc addr = \<lparr> desc_addr = addr, desc_len = 4096, desc_flags = VIRTQ_DESC_F_WRITE,
     desc_next = 0xffff \<rparr>"

fun fill_descs :: "('s \<Rightarrow> (u64 \<times> 's) res) \<Rightarrow> u64 \<Rightarrow> nat list \<Rightarrow> mem \<times> 's \<Rightarrow> (mem \<times> 's) res" where
  "fill_descs get_page descs [] s = Inr s"
| "fill_descs get_page descs (i # is) (m, s) =
     res_bind (get_page s)
       (\<lambda>(addr, s). fill_descs get_page descs is
          (write_bytes m (descs + of_nat (16 * i)) (Desc_bytes (fresh_desc addr)), s))"

definition setup_queue :: "'d virtio_dev \<Rightarrow> ('s \<Rightarrow> (u64 \<times> 's) res) \<Rightarrow> u16 \<Rightarrow>
    QueueFreeDescs list \<times> 'd virtio_io \<times> 's \<Rightarrow> (QueueFreeDescs list \<times> 'd virtio_io \<times> 's) res" where
  "setup_queue dev get_page q st =
     (let (queues, io, s) = st;
          io = store_reg dev (\<lambda>r. r\<lparr> cfg_queue_select := q \<rparr>) io;
          queues = queues @ [QueueFreeDescs_new (queue_size (io_regs io))]
      in res_bind (get_page s) (\<lambda>(a, s).
         let io = store_reg dev (\<lambda>r. r\<lparr> queue_desc := a \<rparr>) io in
         res_bind (fill_descs get_page (queue_desc (io_regs io)) [0..<unat (queue_size (io_regs io))]
             (io_mem io, s)) (\<lambda>(m, s).
         let io = io\<lparr> io_mem := m \<rparr> in
         res_bind (get_page s) (\<lambda>(a, s).
         let io = store_reg dev (\<lambda>r. r\<lparr> queue_driver := a \<rparr>) io;
             io = io\<lparr> io_mem := write_u16 (io_mem io) (queue_driver (io_regs io)) 1 \<rparr> in
         res_bind (get_page s) (\<lambda>(a, s).
         let io = store_reg dev (\<lambda>r. r\<lparr> queue_device := a \<rparr>) io;
             io = store_reg dev (\<lambda>r. r\<lparr> queue_enable := 1 \<rparr>) io
         in Inr (queues, io, s))))))"

subsection \<open>The whole initialisation\<close>

definition VirtioStatusAcknowledge :: u8 where "VirtioStatusAcknowledge = 1"

definition VirtioStatusDriver :: u8 where "VirtioStatusDriver = 2"

definition VirtioStatusFeatureOk :: u8 where "VirtioStatusFeatureOk = 8"

definition VirtioStatusDriverOk :: u8 where "VirtioStatusDriverOk = 4"

definition add_status :: "'d virtio_dev \<Rightarrow> u8 \<Rightarrow> 'd virtio_io \<Rightarrow> 'd virtio_io" where
  "add_status dev b io =
     store_reg dev (\<lambda>r. r\<lparr> device_status := device_status (io_regs io) OR b \<rparr>) io"

text \<open>The device specific part: an input device reports the length of its name, which bounds the slice
  of the 128 bytes that is logged; \<open>name_len\<close> is what the device answers.\<close>

definition device_config :: "u8 \<Rightarrow> DeviceType \<Rightarrow> unit res" where
  "device_config name_len dt =
     (case dt of
        DeviceType_Input \<Rightarrow> if 128 < unat name_len then Inl SliceOutOfRange else Inr ()
      | DeviceType_Gpu \<Rightarrow> Inr ())"

definition bring_up :: "'d virtio_dev \<Rightarrow> ('s \<Rightarrow> (u64 \<times> 's) res) \<Rightarrow> u8 \<Rightarrow> DeviceType \<Rightarrow>
    'd virtio_io \<times> 's \<Rightarrow> (QueueFreeDescs list \<times> 'd virtio_io \<times> 's) res" where
  "bring_up dev get_page name_len dt st =
     (let (io, s) = st;
          io = store_reg dev (\<lambda>r. r\<lparr> device_status := 0 \<rparr>) io;
          io = add_status dev VirtioStatusAcknowledge io;
          io = add_status dev VirtioStatusDriver io;
          io = store_reg dev (\<lambda>r. r\<lparr> driver_feature := (case dt of DeviceType_Gpu \<Rightarrow> 3 | _ \<Rightarrow> 0) \<rparr>) io;
          io = add_status dev VirtioStatusFeatureOk io
      in if device_status (io_regs io) AND VirtioStatusFeatureOk = 0
         then Inl (Panicked ''Cant enable set of feature'')
         else res_bind (res_fold (setup_queue dev get_page)
                  (map of_nat [0..<unat (num_queues (io_regs io))]) ([], io, s))
                (\<lambda>(queues, io, s). res_bind (device_config name_len dt)
                  (\<lambda>_. Inr (queues, add_status dev VirtioStatusDriverOk io, s))))"

text \<open>\<^verbatim>\<open>Virtio::init\<close>. The outer option is the capability loop that does not end within the fuel; the inner
  one is the \<^verbatim>\<open>Option<Self>\<close> of the code.\<close>

definition Virtio_init :: "addr_crate \<Rightarrow> u64 \<Rightarrow> 'd virtio_dev \<Rightarrow> ('s \<Rightarrow> (u64 \<times> 's) res) \<Rightarrow> u8 \<Rightarrow> nat \<Rightarrow> Pci \<Rightarrow>
    pci_ports \<times> 'd virtio_io \<times> 's \<Rightarrow> (Virtio option \<times> pci_ports \<times> 'd virtio_io \<times> 's) res option" where
  "Virtio_init X voff dev get_page name_len fuel d st =
     (let (p, io, s) = st;
          (dev_id, p) = Pci_config_read_u16 d (PCIConfigRegisters_repr PCIDeviceID) p
      in case device_id_to_type (uint dev_id - 0x1040) of
           None \<Rightarrow> Some (Inr (None, p, io, s))
         | Some dt \<Rightarrow>
             (case read_bars X d p of
                Inl e \<Rightarrow> Some (Inl e)
              | Inr (bars, p) \<Rightarrow>
                  (let (cap_ptr, p) = Pci_config_read_u8 d (PCIConfigRegisters_repr PCICapabilitiesPointer) p
                   in case cap_walk X voff d bars fuel cap_ptr (no_caps, p) of
                        None \<Rightarrow> None
                      | Some (Inl e) \<Rightarrow> Some (Inl e)
                      | Some (Inr (caps, p)) \<Rightarrow>
                          (case (found_common caps, found_pci_conf caps, found_device caps, found_notify caps) of
                             (Some com, Some conf, Some devc, Some notif) \<Rightarrow>
                               Some (res_bind (bring_up dev get_page name_len dt (io, s))
                                 (\<lambda>(queues, io, s).
                                   let v = \<lparr> virtio_pci = d, common = com, device = devc, notify = notif,
                                              pci_conf = conf, virtio_step = 0,
                                              last_used_idx = replicate MAX_NUM_QUEUE (-1),
                                              device_type = dt, queues_free = queues, queue_select = 0 \<rparr>;
                                       (v, io) = Virtio_queue_select dev 0 v io
                                   in Inr (Some v, p, io, s)))
                           | _ \<Rightarrow> Some (Inr (None, p, io, s))))))"

subsection \<open>Specification vocabulary\<close>

definition next_cap :: "Pci \<Rightarrow> pci_ports \<Rightarrow> u8 \<Rightarrow> u8" where
  "next_cap d p off = fst (Pci_config_read_u8 d (1 + off) p)"

text \<open>The offsets of a capability list that ends.\<close>

inductive cap_chain :: "Pci \<Rightarrow> pci_ports \<Rightarrow> u8 \<Rightarrow> u8 list \<Rightarrow> bool" for d p where
  last_cap: "next_cap d p off = 0 \<Longrightarrow> cap_chain d p off [off]"
| more_caps: "next_cap d p off = nxt \<Longrightarrow> nxt \<noteq> 0 \<Longrightarrow> cap_chain d p nxt offs \<Longrightarrow> cap_chain d p off (off # offs)"

text \<open>A visit of one capability: the body of the loop and the read of the next offset.\<close>

definition cap_visit :: "addr_crate \<Rightarrow> u64 \<Rightarrow> Pci \<Rightarrow> Bar list \<Rightarrow> u8 \<Rightarrow>
    virtio_caps \<times> pci_ports \<Rightarrow> (virtio_caps \<times> pci_ports) res" where
  "cap_visit X voff d bars off s =
     res_map (\<lambda>(caps, p). (caps, snd (Pci_config_read_u8 d (1 + off) p))) (cap_entry X voff d bars off s)"

text \<open>The documented behaviour of a device: it keeps its status and the number of queues; after a
  queue is selected it shows that queue's size (\<open>qs\<close>), and it keeps the addresses and the enable bit
  that the driver then stores. \<open>reacted\<close> is the device having reacted to a selection.\<close>

definition queue_stores :: "(VirtioPciCommonCfg \<Rightarrow> VirtioPciCommonCfg) set" where
  "queue_stores = range (\<lambda>a. queue_desc_update (\<lambda>_. a)) \<union> range (\<lambda>a. queue_driver_update (\<lambda>_. a)) \<union>
     range (\<lambda>a. queue_device_update (\<lambda>_. a)) \<union> {queue_enable_update (\<lambda>_. 1)}"

definition queue_device_ok :: "'d virtio_dev \<Rightarrow> ('d \<times> VirtioPciCommonCfg \<Rightarrow> bool) \<Rightarrow> (u16 \<Rightarrow> u16) \<Rightarrow> bool" where
  "queue_device_ok dev reacted qs \<longleftrightarrow>
     (\<forall>d r q. \<exists>d' r'. dev (d, r\<lparr> cfg_queue_select := q \<rparr>) = (d', r') \<and> reacted (d', r') \<and>
        cfg_queue_select r' = q \<and> queue_size r' = qs q \<and>
        device_status r' = device_status r \<and> num_queues r' = num_queues r) \<and>
     (\<forall>d r. \<forall>upd \<in> queue_stores. reacted (d, r) \<longrightarrow> (\<exists>d'. dev (d, upd r) = (d', upd r) \<and> reacted (d', upd r)))"

definition queue_ready :: "'d virtio_io \<Rightarrow> bool" where
  "queue_ready io \<longleftrightarrow> queue_areas_ok (io_regs io) \<and> queue_enable (io_regs io) = 1 \<and>
     read_u16 (io_mem io) (queue_driver (io_regs io)) = 1 \<and>
     (\<exists>bufs. length bufs = unat (queue_size (io_regs io)) \<and> distinct bufs \<and>
        (\<forall>i < length bufs. load_desc io (of_nat i) = fresh_desc (bufs ! i) \<and>
           buffer_ok (io_regs io) (bufs ! i) 4096))"

text \<open>What the kernel's allocator and mapper have left to give: frames whose own address is not
  mapped yet.\<close>

definition identity_left :: "addr_crate \<Rightarrow> (u64 \<Rightarrow> u64) \<Rightarrow> u64 \<Rightarrow> MemoryRegion list \<Rightarrow> ('p \<Rightarrow> u64 \<Rightarrow> u64 option) \<Rightarrow>
    ('p, BootInfoFrameAllocator) mapper \<Rightarrow> u64 list \<Rightarrow> 'p \<times> BootInfoFrameAllocator \<Rightarrow> bool" where
  "identity_left X containing lim mm lookup map_to fs s \<longleftrightarrow>
     crate_ok X containing lim \<and> frames_left lim mm fs (snd s) \<and>
     mapper_ok (frames_of X containing lim mm) lookup map_to \<and> (\<forall>f \<in> set fs. lookup (fst s) f = None)"

definition status_kept :: "'d virtio_dev \<Rightarrow> bool" where
  "status_kept dev \<longleftrightarrow> (\<forall>d r. device_status (snd (dev (d, r))) = device_status r \<and>
     num_queues (snd (dev (d, r))) = num_queues r)"

text \<open>A device with queues of four descriptors, for concrete inputs.\<close>

definition four_desc_dev :: "unit virtio_dev" where
  "four_desc_dev s = (fst s, (snd s)\<lparr> queue_size := 4 \<rparr>)"

text \<open>A configuration space of zeros but for one capability at 0x40 with the given id, type and BAR.\<close>

definition one_cap_ports :: "u32 \<Rightarrow> pci_ports" where
  "one_cap_ports bar = \<lparr> port_config_address = 0, config_space = (\<lambda>a.
     if a = config_address_word 0 3 0 0x40 then 0x01140009
     else if a = config_address_word 0 3 0 0x44 then bar else 0) \<rparr>"

section \<open>The capability list\<close>

lemma config_space_read_u8 [simp]: "config_space (snd (Pci_config_read_u8 d off p)) = config_space p"
  and config_space_read_u32 [simp]: "config_space (snd (Pci_config_read_u32 d off p)) = config_space p"
  by (simp_all add: Pci_config_read_u8_def Pci_config_read_u32_def config_read_eqs)

lemma read_u8_cong:
  "config_space p = config_space q \<Longrightarrow> fst (Pci_config_read_u8 d off p) = fst (Pci_config_read_u8 d off q)"
  by (simp add: Pci_config_read_u8_def config_read_eqs pci_register_def)

lemma next_cap_cong: "config_space p = config_space q \<Longrightarrow> next_cap d p off = next_cap d q off"
  unfolding next_cap_def by (rule read_u8_cong)

lemma cap_entry_space:
  "cap_entry X voff d bars off (caps, p) = Inr (caps', p') \<Longrightarrow> config_space p' = config_space p"
  by (auto simp: cap_entry_def Let_def split_beta res_iffs split: if_splits Bar.splits)

lemma cap_visit_space:
  "cap_visit X voff d bars off (caps, p) = Inr (caps', p') \<Longrightarrow> config_space p' = config_space p"
  by (auto simp: cap_visit_def res_map_def res_iffs dest: cap_entry_space)

lemma cap_chain_cong:
  assumes "config_space p = config_space q"
  shows "cap_chain d p off offs \<Longrightarrow> cap_chain d q off offs"
proof (induction rule: cap_chain.induct)
  case (last_cap off)
  then show ?case using next_cap_cong [OF assms] by (auto intro: cap_chain.last_cap)
next
  case (more_caps off nxt offs)
  then show ?case using next_cap_cong [OF assms] by (auto intro: cap_chain.more_caps)
qed

inductive_cases cap_chainE: "cap_chain d p off offs"

lemma cap_chain_det: "cap_chain d p off xs \<Longrightarrow> cap_chain d p off ys \<Longrightarrow> xs = ys"
proof (induction arbitrary: ys rule: cap_chain.induct)
  case (last_cap off)
  from last_cap.prems show ?case using last_cap.hyps by (cases rule: cap_chain.cases) auto
next
  case (more_caps off nxt offs)
  from more_caps.prems obtain offs' where "ys = off # offs'" "cap_chain d p nxt offs'"
    by (rule cap_chainE) (use more_caps.hyps(1,2) in simp_all)
  with more_caps.IH show ?case by simp
qed

lemma cap_chain_nonempty: "cap_chain d p off offs \<Longrightarrow> offs \<noteq> []"
  by (auto elim: cap_chain.cases)

lemma cap_chain_from:
  "cap_chain d p off offs \<Longrightarrow> offs = xs @ y # ys \<Longrightarrow> cap_chain d p y (y # ys)"
proof (induction arbitrary: xs rule: cap_chain.induct)
  case (last_cap off)
  then show ?case by (auto simp: Cons_eq_append_conv intro: cap_chain.last_cap)
next
  case (more_caps off nxt offs)
  then show ?case
    by (cases xs) (auto intro: cap_chain.more_caps)
qed

lemma cap_chain_distinct: "cap_chain d p off offs \<Longrightarrow> distinct offs"
proof (induction rule: cap_chain.induct)
  case (last_cap off)
  then show ?case by simp
next
  case (more_caps off nxt offs)
  have "off \<notin> set offs"
  proof
    assume "off \<in> set offs"
    then obtain xs ys where "offs = xs @ off # ys" by (meson split_list)
    then have "cap_chain d p off (off # ys)"
      using more_caps.hyps(3) by (auto intro: cap_chain_from)
    moreover have "cap_chain d p off (off # offs)"
      using more_caps.hyps by (auto intro: cap_chain.more_caps)
    ultimately have "ys = offs" using cap_chain_det by blast
    with \<open>offs = xs @ off # ys\<close> show False by (metis append_Cons length_append less_not_refl
        length_Cons not_add_less2 lessI)
  qed
  with more_caps.IH show ?case by simp
qed

lemma distinct_u8_length: "distinct (xs :: u8 list) \<Longrightarrow> length xs \<le> 256"
proof -
  assume "distinct xs"
  then have "length xs = card (set xs)" by (simp add: distinct_card)
  also have "\<dots> \<le> card (UNIV :: u8 set)" by (rule card_mono) simp_all
  finally show ?thesis by (simp add: card_word)
qed

lemma cap_walk_unfold:
  "cap_walk X voff d bars (Suc n) off (caps, p) =
     (case cap_visit X voff d bars off (caps, p) of
        Inl e \<Rightarrow> Some (Inl e)
      | Inr (caps', p') \<Rightarrow> if next_cap d p off = 0 then Some (Inr (caps', p'))
          else cap_walk X voff d bars n (next_cap d p off) (caps', p'))"
proof (cases "cap_entry X voff d bars off (caps, p)")
  case (Inr a)
  then obtain caps' p' where "cap_entry X voff d bars off (caps, p) = Inr (caps', p')"
    by (cases a) simp
  moreover from this have "next_cap d p' off = next_cap d p off"
    by (intro next_cap_cong) (rule cap_entry_space)
  ultimately show ?thesis
    by (simp add: cap_visit_def next_cap_def split_beta)
qed (simp add: cap_visit_def)

lemma cap_walk_chain:
  assumes "cap_chain d p off offs" and "length offs \<le> n" and "config_space q = config_space p"
  shows "cap_walk X voff d bars n off (caps, q) =
    Some (res_fold (cap_visit X voff d bars) offs (caps, q))"
  using assms
proof (induction arbitrary: n caps q rule: cap_chain.induct)
  case (last_cap off)
  then obtain k where "n = Suc k" by (cases n) auto
  moreover have "next_cap d q off = 0"
    using last_cap next_cap_cong by metis
  ultimately show ?case
    by (auto simp: cap_walk_unfold simp del: cap_walk.simps split: sum.split)
next
  case (more_caps off nxt offs)
  then obtain k where k: "n = Suc k" "length offs \<le> k" by (cases n) auto
  have nxt: "next_cap d q off = nxt"
    using more_caps.hyps(1) more_caps.prems(2) next_cap_cong by metis
  show ?case
  proof (cases "cap_visit X voff d bars off (caps, q)")
    case (Inl e)
    then show ?thesis by (simp add: cap_walk_unfold k(1) del: cap_walk.simps)
  next
    case (Inr a)
    obtain caps' q' where a: "a = (caps', q')" by (cases a)
    have "config_space q' = config_space p"
      using cap_visit_space [OF Inr [unfolded a]] more_caps.prems(2) by simp
    from more_caps.IH [OF k(2) this] show ?thesis
      using Inr a nxt more_caps.hyps(2) by (simp add: cap_walk_unfold k(1) del: cap_walk.simps)
  qed
qed

lemma cap_walk_endless:
  assumes "\<nexists>offs. cap_chain d p off offs" and "config_space q = config_space p"
  shows "cap_walk X voff d bars n off (caps, q) = None \<or>
    (\<exists>e. cap_walk X voff d bars n off (caps, q) = Some (Inl e))"
  using assms
proof (induction n arbitrary: off caps q)
  case 0
  then show ?case by simp
next
  case (Suc n)
  have nxt: "next_cap d q off = next_cap d p off"
    by (rule next_cap_cong) (rule Suc.prems(2))
  have "next_cap d p off \<noteq> 0" using Suc.prems(1) cap_chain.last_cap by blast
  moreover from this have none: "\<nexists>offs. cap_chain d p (next_cap d p off) offs"
    using Suc.prems(1) cap_chain.more_caps by blast
  show ?case
  proof (cases "cap_visit X voff d bars off (caps, q)")
    case (Inl e)
    then show ?thesis by (simp add: cap_walk_unfold del: cap_walk.simps)
  next
    case (Inr a)
    obtain caps' q' where a: "a = (caps', q')" by (cases a)
    have "config_space q' = config_space p"
      using cap_visit_space [OF Inr [unfolded a]] Suc.prems(2) by simp
    from Suc.IH [OF none this] show ?thesis
      using Inr a nxt \<open>next_cap d p off \<noteq> 0\<close> by (simp add: cap_walk_unfold del: cap_walk.simps)
  qed
qed

section \<open>Pages for the queues\<close>

locale page_source =
  fixes get_page :: "'s \<Rightarrow> (u64 \<times> 's) res"
    and left :: "u64 list \<Rightarrow> 's \<Rightarrow> bool"
  assumes get_page_ok: "left fs s \<Longrightarrow> 4 \<le> length fs \<Longrightarrow>
      \<exists>n s'. n \<le> 3 \<and> get_page s = Inr (hd fs, s') \<and> left (drop (Suc n) fs) s'"
    and pages_ok: "left fs s \<Longrightarrow> distinct fs \<and> (\<forall>f \<in> set fs. 4096 dvd unat f)"
begin

lemma get_pages_bound:
  assumes "left fs s" and "4 \<le> length fs"
  shows "\<exists>n s'. n \<le> 4 \<and> get_page s = Inr (hd fs, s') \<and> left (drop n fs) s' \<and> hd fs \<in> set (take n fs)"
proof -
  obtain n s' where "n \<le> 3" "get_page s = Inr (hd fs, s')" "left (drop (Suc n) fs) s'"
    using get_page_ok [OF assms] by blast
  moreover have "hd fs \<in> set (take (Suc n) fs)" using assms(2) by (cases fs) auto
  ultimately show ?thesis by (intro exI [of _ "Suc n"] exI [of _ s']) simp
qed

lemma fill_descs_ok:
  assumes "left fs s" and "4 * length is \<le> length fs"
  shows "\<exists>n bufs s'. n \<le> 4 * length is \<and> length bufs = length is \<and> distinct bufs \<and>
    set bufs \<subseteq> set (take n fs) \<and> left (drop n fs) s' \<and>
    fill_descs get_page descs is (m, s) = Inr (fold (\<lambda>(i, a) m. write_bytes m (descs + of_nat (16 * i))
      (Desc_bytes (fresh_desc a))) (zip is bufs) m, s')"
  using assms
proof (induction "is" arbitrary: m s fs)
  case Nil
  then show ?case by (auto intro!: exI [of _ "0 :: nat"])
next
  case (Cons i "is")
  then obtain n1 s1 where g: "n1 \<le> 4" "get_page s = Inr (hd fs, s1)" "left (drop n1 fs) s1"
    "hd fs \<in> set (take n1 fs)"
    using get_pages_bound [of fs s] by auto
  let ?m = "write_bytes m (descs + of_nat (16 * i)) (Desc_bytes (fresh_desc (hd fs)))"
  have "4 * length is \<le> length (drop n1 fs)" using Cons.prems(2) g(1) by simp
  from Cons.IH [OF g(3) this, of ?m] obtain n2 bufs s2 where b: "n2 \<le> 4 * length is" "length bufs = length is"
      "distinct bufs" "set bufs \<subseteq> set (take n2 (drop n1 fs))" "left (drop n2 (drop n1 fs)) s2"
      "fill_descs get_page descs is (?m, s1) = Inr (fold (\<lambda>(i, a) m. write_bytes m (descs + of_nat (16 * i))
        (Desc_bytes (fresh_desc a))) (zip is bufs) ?m, s2)"
    by blast
  have parts: "take (n1 + n2) fs = take n1 fs @ take n2 (drop n1 fs)" by (rule take_add)
  have "distinct (take (n1 + n2) fs)" using pages_ok [OF Cons.prems(1)] by simp
  then have "hd fs \<notin> set bufs" using parts g(4) b(4) by auto
  then have "distinct (hd fs # bufs)" "set (hd fs # bufs) \<subseteq> set (take (n1 + n2) fs)"
    using b(3,4) g(4) by (auto simp: parts)
  moreover have "left (drop (n1 + n2) fs) s2" using b(5) by (simp add: add.commute)
  moreover have "n1 + n2 \<le> 4 * length (i # is)" using g(1) b(1) by simp
  moreover have "fill_descs get_page descs (i # is) (m, s) = Inr (fold (\<lambda>(i, a) m. write_bytes m
      (descs + of_nat (16 * i)) (Desc_bytes (fresh_desc a))) (zip (i # is) (hd fs # bufs)) m, s2)"
    using g(2) b(6) by simp
  moreover have "length (hd fs # bufs) = length (i # is)" using b(2) by simp
  ultimately show ?case by blast
qed

end

lemma page_region:
  fixes f g :: u64
  assumes "4096 dvd unat f" and "k \<le> 4096"
  shows "region_ok f k" and "4096 dvd unat g \<Longrightarrow> f \<noteq> g \<Longrightarrow> l \<le> 4096 \<Longrightarrow> region_disjoint f k g l"
proof -
  obtain a where a: "unat f = 4096 * a" using assms(1) by blast
  have "unat f < 2 ^ 64" using unsigned_less [of f, where 'a = nat] by simp
  then have "a < 2 ^ 52" using a by simp
  then show "region_ok f k" using assms(2) a by (simp add: region_ok_def)
  assume "4096 dvd unat g" and "f \<noteq> g" and l: "l \<le> 4096"
  then obtain b where b: "unat g = 4096 * b" and "unat f \<noteq> unat g" by (auto simp: word_unat_eq_iff)
  with a have "a < b \<or> b < a" by auto
  with a b l assms(2) show "region_disjoint f k g l" by (auto simp: region_disjoint_def)
qed

text \<open>The descriptor table that the loop leaves behind.\<close>

lemma desc_table:
  fixes descs :: u64 and bufs :: "u64 list"
  defines "tab \<equiv> \<lambda>bufs m. fold (\<lambda>(i, a) m. write_bytes m (descs + of_nat (16 * i))
      (Desc_bytes (fresh_desc a))) (zip [0..<length bufs] bufs) (m :: mem)"
  assumes "region_ok descs (16 * length bufs)"
  shows "i < length bufs \<Longrightarrow>
      Desc_of_bytes (read_bytes (tab bufs m) (descs + of_nat (16 * i)) 16) = fresh_desc (bufs ! i)"
    and "region_ok b n \<Longrightarrow> region_disjoint descs (16 * length bufs) b n \<Longrightarrow>
      read_bytes (tab bufs m) b n = read_bytes m b n"
  using assms(2)
proof (induction bufs arbitrary: i b n rule: rev_induct)
  case Nil
  { case 1 then show ?case by simp }
  { case 2 then show ?case by (simp add: tab_def) }
next
  case (snoc a bufs)
  let ?k = "length bufs"
  let ?p = "descs + of_nat (16 * ?k)"
  have tab: "tab (bufs @ [a]) m = write_bytes (tab bufs m) ?p (Desc_bytes (fresh_desc a))"
    by (simp add: tab_def)
  have ok: "region_ok descs (16 * ?k + 16) \<Longrightarrow> region_ok descs (16 * ?k)"
    by (simp add: region_ok_def)
  { case 1
    then have ro: "region_ok descs (16 * ?k + 16)" by (simp add: add.commute)
    have pk: "region_ok ?p 16" "unat ?p = unat descs + 16 * ?k"
      using region_ok_offset [OF ro, of "16 * ?k" 16] unat_add_offset [OF ro, of "16 * ?k"] by simp_all
    show ?case
    proof (cases "i = ?k")
      case True
      then show ?thesis using codec_desc.read_back [OF pk(1)] by (simp add: tab)
    next
      case False
      with 1 have i: "i < ?k" by simp
      have qi: "region_ok (descs + of_nat (16 * i)) 16" "unat (descs + of_nat (16 * i)) = unat descs + 16 * i"
        using region_ok_offset [OF ro, of "16 * i" 16] unat_add_offset [OF ro, of "16 * i"] i by simp_all
      have "read_bytes (tab (bufs @ [a]) m) (descs + of_nat (16 * i)) 16 =
          read_bytes (tab bufs m) (descs + of_nat (16 * i)) 16"
        unfolding tab using i by (intro codec_desc.frame [OF pk(1) qi(1)]) (simp only: region_disjoint_def pk qi, simp)
      with snoc.IH(1) [OF i ok [OF ro]] i show ?thesis by (simp add: nth_append)
    qed }
  { case 2
    then have ro: "region_ok descs (16 * ?k + 16)" by (simp add: add.commute)
    have pk: "region_ok ?p 16" "unat ?p = unat descs + 16 * ?k"
      using region_ok_offset [OF ro, of "16 * ?k" 16] unat_add_offset [OF ro, of "16 * ?k"] by simp_all
    have "region_disjoint ?p 16 b n"
      using 2(2) unfolding region_disjoint_def pk(2) length_append_singleton by auto
    then have "read_bytes (tab (bufs @ [a]) m) b n = read_bytes (tab bufs m) b n"
      unfolding tab by (rule codec_desc.frame [OF pk(1) 2(1)])
    also have "\<dots> = read_bytes m b n"
      using 2(2) by (intro snoc.IH(2) [OF 2(1) _ ok [OF ro]]) (auto simp: region_disjoint_def)
    finally show ?case . }
qed

section \<open>Setting up a queue\<close>

lemma queue_device_select:
  assumes "queue_device_ok dev reacted qs"
  shows "\<exists>d r. store_reg dev (\<lambda>r. r\<lparr> cfg_queue_select := q \<rparr>) io = io\<lparr> io_dev := d, io_regs := r \<rparr> \<and>
    reacted (d, r) \<and> cfg_queue_select r = q \<and> queue_size r = qs q \<and>
    device_status r = device_status (io_regs io) \<and> num_queues r = num_queues (io_regs io)"
proof -
  from assms obtain d r where "dev (io_dev io, (io_regs io)\<lparr> cfg_queue_select := q \<rparr>) = (d, r)"
    "reacted (d, r)" "cfg_queue_select r = q" "queue_size r = qs q"
    "device_status r = device_status (io_regs io)" "num_queues r = num_queues (io_regs io)"
    unfolding queue_device_ok_def by meson
  then show ?thesis
    by (intro exI [of _ d] exI [of _ r]) (simp add: store_reg_def)
qed

lemma queue_device_store:
  assumes "queue_device_ok dev reacted qs" and "reacted (io_dev io, io_regs io)" and "upd \<in> queue_stores"
  shows "\<exists>d. store_reg dev upd io = io\<lparr> io_dev := d, io_regs := upd (io_regs io) \<rparr> \<and>
    reacted (d, upd (io_regs io))"
proof -
  from assms obtain d where "dev (io_dev io, upd (io_regs io)) = (d, upd (io_regs io))"
    "reacted (d, upd (io_regs io))"
    unfolding queue_device_ok_def by meson
  then show ?thesis by (intro exI [of _ d]) (simp add: store_reg_def)
qed

lemma queue_stores_intros [simp, intro]:
  "queue_desc_update (\<lambda>_. a) \<in> queue_stores" "queue_driver_update (\<lambda>_. a) \<in> queue_stores"
  "queue_device_update (\<lambda>_. a) \<in> queue_stores" "queue_enable_update (\<lambda>_. 1) \<in> queue_stores"
  by (auto simp: queue_stores_def)

text \<open>The pure outcome of a set-up: the registers and the memory for given pages.\<close>

lemma ready_queue:
  fixes r :: VirtioPciCommonCfg and m m1 :: mem and io :: "'d virtio_io"
  assumes q: "unat (queue_size r) = length bufs" "0 < length bufs" "length bufs \<le> 256" "length bufs dvd 65536"
    and pages: "\<forall>f \<in> set (a # b # c # bufs). 4096 dvd unat f" "distinct (a # b # c # bufs)"
    and m1: "m1 = fold (\<lambda>(i, x) m. write_bytes m (a + of_nat (16 * i)) (Desc_bytes (fresh_desc x)))
        (zip [0..<length bufs] bufs) m"
    and io: "io_regs io = r\<lparr> queue_desc := a, queue_driver := b, queue_device := c, queue_enable := 1 \<rparr>"
      "io_mem io = write_u16 m1 b 1"
  shows "queue_ready io"
proof -
  let ?q = "length bufs"
  have ok: "region_ok a (16 * ?q)" "region_ok b (4 + 2 * ?q)" "region_ok c (4 + 8 * ?q)"
    and dis: "region_disjoint a (16 * ?q) b (4 + 2 * ?q)" "region_disjoint a (16 * ?q) c (4 + 8 * ?q)"
      "region_disjoint b (4 + 2 * ?q) c (4 + 8 * ?q)"
    using pages q(2,3) by (auto intro!: page_region)
  have areas: "queue_areas_ok (io_regs io)"
    using q ok dis by (simp add: queue_areas_ok_def Let_def io(1))
  have b2: "region_ok b 2" using ok(2) by (simp add: region_ok_def)
  have "load_desc io (of_nat i) = fresh_desc (bufs ! i) \<and> buffer_ok (io_regs io) (bufs ! i) 4096"
    if i: "i < ?q" for i
  proof
    have "unat (of_nat i :: u16) = i" using i q(3) by (intro unat_of_nat_small) simp
    then have ptr: "desc_ptr (io_regs io) (of_nat i) = a + of_nat (16 * i)"
      by (simp add: desc_ptr_def io(1))
    have ro: "region_ok (a + of_nat (16 * i)) 16" and at: "unat (a + of_nat (16 * i)) = unat a + 16 * i"
      using region_ok_offset [OF ok(1), of "16 * i" 16] unat_add_offset [OF ok(1), of "16 * i"] i by simp_all
    have "region_disjoint b 2 (a + of_nat (16 * i)) 16"
      using dis(1) i unfolding region_disjoint_def at by linarith
    then have "read_bytes (io_mem io) (a + of_nat (16 * i)) 16 = read_bytes m1 (a + of_nat (16 * i)) 16"
      unfolding io(2) by (rule read_bytes_write_u16_disjoint [OF b2 ro])
    then show "load_desc io (of_nat i) = fresh_desc (bufs ! i)"
      using desc_table(1) [OF ok(1) i, of m] unfolding load_desc_def ptr m1 by metis
    have "bufs ! i \<in> set bufs" using i by simp
    then have al: "4096 dvd unat (bufs ! i)" "bufs ! i \<noteq> a" "bufs ! i \<noteq> b" "bufs ! i \<noteq> c"
      using pages by auto
    then show "buffer_ok (io_regs io) (bufs ! i) 4096"
      unfolding buffer_ok_def using pages q by (auto simp: io(1) intro!: page_region)
  qed
  moreover have "read_u16 (io_mem io) (queue_driver (io_regs io)) = 1"
    using b2 by (simp add: io read_u16_write_u16_same)
  moreover have "distinct bufs" using pages(2) by simp
  ultimately show ?thesis
    using areas q(1) unfolding queue_ready_def
    by (intro conjI exI [of _ bufs] allI impI) (simp_all add: io(1))
qed

lemma distinct_parts:
  assumes "distinct fs" and "fs = A @ B @ C @ D @ E" and "a \<in> set A" and "distinct bufs"
    and "set bufs \<subseteq> set B" and "b \<in> set C" and "c \<in> set D"
  shows "distinct (a # b # c # bufs)" and "set (a # b # c # bufs) \<subseteq> set fs"
  using assms by auto

context page_source
begin

lemma setup_queue_ok:
  assumes left: "left fs s" and dev: "queue_device_ok dev reacted qs"
    and size: "0 < unat (qs q)" "unat (qs q) \<le> 256" "unat (qs q) dvd 65536"
    and enough: "4 * (unat (qs q) + 3) \<le> length fs"
  shows "\<exists>io' s' n. setup_queue dev get_page q (queues, io, s) =
      Inr (queues @ [QueueFreeDescs_new (qs q)], io', s') \<and> n \<le> 4 * (unat (qs q) + 3) \<and>
    left (drop n fs) s' \<and> queue_ready io' \<and>
    cfg_queue_select (io_regs io') = q \<and> queue_size (io_regs io') = qs q \<and>
    device_status (io_regs io') = device_status (io_regs io) \<and>
    num_queues (io_regs io') = num_queues (io_regs io)"
proof -
  let ?q = "unat (qs q)"
  obtain d0 r0 where s0: "store_reg dev (\<lambda>r. r\<lparr> cfg_queue_select := q \<rparr>) io = io\<lparr> io_dev := d0, io_regs := r0 \<rparr>"
    "reacted (d0, r0)" "cfg_queue_select r0 = q" "queue_size r0 = qs q"
    "device_status r0 = device_status (io_regs io)" "num_queues r0 = num_queues (io_regs io)"
    using queue_device_select [OF dev, of q io] by blast
  obtain n1 s1 where g1: "n1 \<le> 4" "get_page s = Inr (hd fs, s1)" "left (drop n1 fs) s1" "hd fs \<in> set (take n1 fs)"
    using get_pages_bound [OF left] enough by auto
  define a where "a = hd fs"
  define fs1 where "fs1 = drop n1 fs"
  have len1: "4 * length [0..<?q] \<le> length (drop n1 fs)" using enough g1(1) by simp
  obtain n2 bufs s2 where g2: "n2 \<le> 4 * ?q" "length bufs = ?q" "distinct bufs" "set bufs \<subseteq> set (take n2 fs1)"
    "left (drop n2 fs1) s2"
    "fill_descs get_page a [0..<?q] (io_mem io, s1) = Inr (fold (\<lambda>(i, x) m. write_bytes m (a + of_nat (16 * i))
        (Desc_bytes (fresh_desc x))) (zip [0..<?q] bufs) (io_mem io), s2)"
    using fill_descs_ok [OF g1(3) len1, of a "io_mem io"] unfolding fs1_def by auto
  define fs2 where "fs2 = drop n2 fs1"
  have len2: "8 \<le> length fs2" using enough g1(1) g2(1) by (simp add: fs2_def fs1_def)
  obtain n3 s3 where g3: "n3 \<le> 4" "get_page s2 = Inr (hd fs2, s3)" "left (drop n3 fs2) s3" "hd fs2 \<in> set (take n3 fs2)"
    using get_pages_bound [OF g2(5) [folded fs2_def]] len2 by auto
  define b where "b = hd fs2"
  define fs3 where "fs3 = drop n3 fs2"
  have len3: "4 \<le> length fs3" using len2 g3(1) by (simp add: fs3_def)
  obtain n4 s4 where g4: "n4 \<le> 4" "get_page s3 = Inr (hd fs3, s4)" "left (drop n4 fs3) s4" "hd fs3 \<in> set (take n4 fs3)"
    using get_pages_bound [OF g3(3) [folded fs3_def]] len3 by auto
  define c where "c = hd fs3"
  define m1 where "m1 = fold (\<lambda>(i, x) m. write_bytes m (a + of_nat (16 * i)) (Desc_bytes (fresh_desc x)))
        (zip [0..<?q] bufs) (io_mem io)"
  obtain d1 where s1: "store_reg dev (\<lambda>r. r\<lparr> queue_desc := a \<rparr>) (io\<lparr> io_dev := d0, io_regs := r0 \<rparr>) =
      io\<lparr> io_dev := d1, io_regs := r0\<lparr> queue_desc := a \<rparr> \<rparr>" "reacted (d1, r0\<lparr> queue_desc := a \<rparr>)"
    using queue_device_store [OF dev, of "io\<lparr> io_dev := d0, io_regs := r0 \<rparr>" "queue_desc_update (\<lambda>_. a)"] s0(2)
    by auto
  let ?io1 = "io\<lparr> io_dev := d1, io_regs := r0\<lparr> queue_desc := a \<rparr>, io_mem := m1 \<rparr>"
  obtain d2 where s2': "store_reg dev (\<lambda>r. r\<lparr> queue_driver := b \<rparr>) ?io1 =
      ?io1\<lparr> io_dev := d2, io_regs := r0\<lparr> queue_desc := a, queue_driver := b \<rparr> \<rparr>"
      "reacted (d2, r0\<lparr> queue_desc := a, queue_driver := b \<rparr>)"
    using queue_device_store [OF dev, of ?io1 "queue_driver_update (\<lambda>_. b)"] s1(2) by auto
  let ?io2 = "io\<lparr> io_dev := d2, io_regs := r0\<lparr> queue_desc := a, queue_driver := b \<rparr>, io_mem := write_u16 m1 b 1 \<rparr>"
  obtain d3 where s3': "store_reg dev (\<lambda>r. r\<lparr> queue_device := c \<rparr>) ?io2 =
      ?io2\<lparr> io_dev := d3, io_regs := r0\<lparr> queue_desc := a, queue_driver := b, queue_device := c \<rparr> \<rparr>"
      "reacted (d3, r0\<lparr> queue_desc := a, queue_driver := b, queue_device := c \<rparr>)"
    using queue_device_store [OF dev, of ?io2 "queue_device_update (\<lambda>_. c)"] s2'(2) by auto
  let ?io3 = "?io2\<lparr> io_dev := d3, io_regs := r0\<lparr> queue_desc := a, queue_driver := b, queue_device := c \<rparr> \<rparr>"
  obtain d4 where s4': "store_reg dev (\<lambda>r. r\<lparr> queue_enable := 1 \<rparr>) ?io3 =
      ?io3\<lparr> io_dev := d4, io_regs := r0\<lparr> queue_desc := a, queue_driver := b, queue_device := c, queue_enable := 1 \<rparr> \<rparr>"
    using queue_device_store [OF dev, of ?io3 "queue_enable_update (\<lambda>_. 1)"] s3'(2) by auto
  let ?io4 = "?io3\<lparr> io_dev := d4, io_regs := r0\<lparr> queue_desc := a, queue_driver := b, queue_device := c, queue_enable := 1 \<rparr> \<rparr>"
  have run: "setup_queue dev get_page q (queues, io, s) = Inr (queues @ [QueueFreeDescs_new (qs q)], ?io4, s4)"
    using g1(2) g2(6) [folded m1_def] g3(2) g4(2) s1(1) s2'(1) s3'(1) s4' s0(1,4)
    by (simp add: setup_queue_def Let_def a_def [symmetric] b_def [symmetric] c_def [symmetric])
  have fs: "fs = take n1 fs @ take n2 fs1 @ take n3 fs2 @ take n4 fs3 @ drop n4 fs3"
    by (simp only: fs1_def fs2_def fs3_def append_take_drop_id)
  have pg: "distinct fs" "\<forall>f \<in> set fs. 4096 dvd unat f" using pages_ok [OF left] by auto
  note split = distinct_parts [OF pg(1) fs g1(4) g2(3,4) g3(4) g4(4), folded a_def b_def c_def]
  then have pages: "distinct (a # b # c # bufs)" "\<forall>f \<in> set (a # b # c # bufs). 4096 dvd unat f"
    using pg(2) by blast+
  have "queue_ready ?io4"
    using size g2(2) s0(4) by (intro ready_queue [OF _ _ _ _ pages(2,1), where r = r0 and m = "io_mem io" and ?m1.0 = m1]) (simp_all add: m1_def)
  moreover have "left (drop (n1 + n2 + n3 + n4) fs) s4"
    using g4(3) by (simp add: fs1_def fs2_def fs3_def add.commute add.left_commute)
  moreover have "n1 + n2 + n3 + n4 \<le> 4 * (?q + 3)" using g1(1) g2(1) g3(1) g4(1) by simp
  ultimately show ?thesis
    using run s0(3-6) by (intro exI [of _ ?io4] exI [of _ s4] exI [of _ "n1 + n2 + n3 + n4"]) simp
qed

end

lemma identity_page_ok:
  assumes left: "identity_left X containing lim mm lookup map_to fs s" and len: "4 \<le> length fs"
  shows "\<exists>n s'. n \<le> 3 \<and> identity_page X containing (allocate_frame X containing) map_to s = Inr (hd fs, s') \<and>
    identity_left X containing lim mm lookup map_to (drop (Suc n) fs) s'"
proof -
  obtain pt fa where s: "s = (pt, fa)" by (cases s)
  obtain f fs' where fs: "fs = f # fs'" using len by (cases fs) auto
  have crate: "crate_ok X containing lim" and fl: "frames_left lim mm fs fa"
    and map: "mapper_ok (frames_of X containing lim mm) lookup map_to" and un: "\<forall>f \<in> set fs. lookup pt f = None"
    using left s by (simp_all add: identity_left_def)
  obtain fa1 where fa1: "allocate_frame X containing fa = Inr (Some f, fa1)" "frames_left lim mm fs' fa1"
    using allocate_frame_refines [OF crate fl [unfolded fs]] by blast
  have f: "virt_new X f = Inr f" "containing f = f"
    using frames_left_usable(3) [OF fl, of f] fs crate page_aligned [of f] by (auto simp: crate_ok_def)
  have "frames_of X containing lim mm fs' fa1" "3 \<le> length fs'" "lookup pt f = None"
    using crate fa1(2) fs len un by (auto simp: frames_of_def)
  then obtain n pt2 fa2 where n: "n \<le> 3" "map_to f f (pt, fa1) = Inr (Inr (pt2, fa2))"
    "lookup pt2 = (lookup pt)(f \<mapsto> f)" "frames_of X containing lim mm (drop n fs') fa2"
    using map unfolding mapper_ok_def by meson
  have "f \<notin> set fs'" using frames_left_usable(1) [OF fl] fs by simp
  then have "\<forall>g \<in> set (drop n fs'). lookup pt2 g = None"
    using un fs n(3) by (auto dest: in_set_dropD)
  with n(4) crate map have "identity_left X containing lim mm lookup map_to (drop (Suc n) fs) (pt2, fa2)"
    by (simp add: identity_left_def frames_of_def fs)
  moreover have "identity_page X containing (allocate_frame X containing) map_to s = Inr (hd fs, pt2, fa2)"
    using fa1(1) f n(2) by (simp add: identity_page_def create_identity_virt_from_phys_def res_unwrap_def s fs)
  ultimately show ?thesis using n(1) by blast
qed

interpretation boot_pages:
  page_source "identity_page X containing (allocate_frame X containing) map_to"
    "identity_left X containing lim mm lookup map_to"
  for X containing lim mm lookup map_to
proof unfold_locales
  fix fs s
  assume left: "identity_left X containing lim mm lookup map_to fs s"
  then show "distinct fs \<and> (\<forall>f \<in> set fs. 4096 dvd unat f)"
    using frames_left_usable by (auto simp: identity_left_def)
qed (rule identity_page_ok)

section \<open>Bringing a device up\<close>

lemma status_keptD:
  assumes "status_kept dev"
  shows "device_status (io_regs (store_reg dev upd io)) = device_status (upd (io_regs io))"
    and "num_queues (io_regs (store_reg dev upd io)) = num_queues (upd (io_regs io))"
  using assms by (auto simp: status_kept_def store_reg_def split_beta)

lemma add_status_kept:
  assumes "status_kept dev"
  shows "device_status (io_regs (add_status dev b io)) = device_status (io_regs io) OR b"
    and "num_queues (io_regs (add_status dev b io)) = num_queues (io_regs io)"
  by (simp_all add: add_status_def status_keptD [OF assms])

context page_source
begin

lemma setup_queues_ok:
  assumes dev: "queue_device_ok dev reacted qs"
    and size: "\<And>q. q \<in> set qlist \<Longrightarrow> 0 < unat (qs q) \<and> unat (qs q) \<le> 256 \<and> unat (qs q) dvd 65536"
    and left: "left fs s" and enough: "1036 * length qlist \<le> length fs"
  shows "\<exists>io' s'. res_fold (setup_queue dev get_page) qlist (queues, io, s) =
      Inr (queues @ map (\<lambda>q. QueueFreeDescs_new (qs q)) qlist, io', s') \<and>
    device_status (io_regs io') = device_status (io_regs io)"
  using size left enough
proof (induction qlist arbitrary: queues io s fs)
  case Nil
  then show ?case by simp
next
  case (Cons q qlist)
  have "0 < unat (qs q)" "unat (qs q) \<le> 256" "unat (qs q) dvd 65536"
    using Cons.prems(1) by auto
  moreover from this have "4 * (unat (qs q) + 3) \<le> length fs" using Cons.prems(3) by simp
  ultimately obtain io1 s1 n where step: "setup_queue dev get_page q (queues, io, s) =
      Inr (queues @ [QueueFreeDescs_new (qs q)], io1, s1)" "n \<le> 4 * (unat (qs q) + 3)"
      "left (drop n fs) s1" "device_status (io_regs io1) = device_status (io_regs io)"
    using setup_queue_ok [OF Cons.prems(2) dev, of q queues io] by blast
  have "n \<le> 1036" using step(2) \<open>unat (qs q) \<le> 256\<close> by simp
  then have "1036 * length qlist \<le> length (drop n fs)" using Cons.prems(3) by simp
  from Cons.IH [OF _ step(3) this, of "queues @ [QueueFreeDescs_new (qs q)]" io1] Cons.prems(1) step
  show ?case by auto
qed

lemma bring_up_ok:
  assumes dev: "queue_device_ok dev reacted qs" "status_kept dev"
    and size: "\<And>q. unat q < unat (num_queues (io_regs io)) \<Longrightarrow>
      0 < unat (qs q) \<and> unat (qs q) \<le> 256 \<and> unat (qs q) dvd 65536"
    and left: "left fs s" and enough: "1036 * unat (num_queues (io_regs io)) \<le> length fs"
    and name: "unat name_len \<le> 128"
  shows "\<exists>io' s'. bring_up dev get_page name_len dt (io, s) =
      Inr (map (\<lambda>q. QueueFreeDescs_new (qs (of_nat q))) [0..<unat (num_queues (io_regs io))], io', s') \<and>
    device_status (io_regs io') = 15"
proof -
  define io1 where "io1 = add_status dev VirtioStatusFeatureOk (store_reg dev
      (\<lambda>r. r\<lparr> driver_feature := (case dt of DeviceType_Gpu \<Rightarrow> 3 | _ \<Rightarrow> 0) \<rparr>)
      (add_status dev VirtioStatusDriver (add_status dev VirtioStatusAcknowledge
      (store_reg dev (\<lambda>r. r\<lparr> device_status := 0 \<rparr>) io))))"
  have io1: "device_status (io_regs io1) = 11" "num_queues (io_regs io1) = num_queues (io_regs io)"
    by (simp_all add: io1_def add_status_kept [OF dev(2)] status_keptD [OF dev(2)] VirtioStatusAcknowledge_def
        VirtioStatusDriver_def VirtioStatusFeatureOk_def)
  let ?n = "unat (num_queues (io_regs io))"
  let ?qs = "map of_nat [0..<?n] :: u16 list"
  have bound: "?n < 2 ^ LENGTH(16)" by (rule unsigned_less)
  have "0 < unat (qs q) \<and> unat (qs q) \<le> 256 \<and> unat (qs q) dvd 65536" if q: "q \<in> set ?qs" for q
  proof -
    obtain i where "i < ?n" "q = of_nat i" using q by auto
    with bound have "unat q < ?n" by (simp add: unat_of_nat_small less_trans)
    then show ?thesis by (rule size)
  qed
  then obtain io2 s2 where fold: "res_fold (setup_queue dev get_page) ?qs ([], io1, s) =
      Inr (map (\<lambda>q. QueueFreeDescs_new (qs q)) ?qs, io2, s2)" "device_status (io_regs io2) = 11"
    using setup_queues_ok [OF dev(1) _ left, of ?qs "[]" io1] enough io1(1) by auto
  have accepted: "11 AND VirtioStatusFeatureOk \<noteq> 0" by (simp add: VirtioStatusFeatureOk_def)
  have "device_config name_len dt = Inr ()"
    using name by (cases dt) (simp_all add: device_config_def)
  then have "bring_up dev get_page name_len dt (io, s) =
      Inr (map (\<lambda>q. QueueFreeDescs_new (qs q)) ?qs, add_status dev VirtioStatusDriverOk io2, s2)"
    using fold(1) io1 accepted by (simp add: bring_up_def Let_def io1_def [symmetric])
  moreover have "device_status (io_regs (add_status dev VirtioStatusDriverOk io2)) = 15"
    by (simp add: add_status_kept [OF dev(2)] fold(2) VirtioStatusDriverOk_def)
  ultimately show ?thesis by (auto simp: comp_def)
qed

end

lemma four_desc_dev_ok:
  "queue_device_ok four_desc_dev (\<lambda>s. queue_size (snd s) = 4) (\<lambda>_. 4)" "status_kept four_desc_dev"
  by (auto simp: queue_device_ok_def four_desc_dev_def queue_stores_def status_kept_def)

lemma sample_identity_left:
  "identity_left x86_crate x86_page (2 ^ 47 - 1) sample_map (\<lambda>pt. pt) array_mapper
     (usable_addresses sample_map) (Map.empty, BootInfoFrameAllocator_init sample_map)"
  using x86_crate_ok sample_frames_left array_mapper_ok by (simp add: identity_left_def)

section \<open>Properties\<close>

text \<open>C26: the capability walk. If the list of next pointers ends, it visits at most 256
  offsets and 256 iterations of the loop are enough: the result is the fold of the loop body over the
  list. If it does not end (a cyclic list), no number of iterations completes the walk.\<close>

theorem capability_walk:
  "(\<forall>offs fuel. cap_chain d p off offs \<longrightarrow> 256 \<le> fuel \<longrightarrow> length offs \<le> 256 \<and>
      cap_walk X voff d bars fuel off (caps, p) = Some (res_fold (cap_visit X voff d bars) offs (caps, p))) \<and>
   ((\<nexists>offs. cap_chain d p off offs) \<longrightarrow>
      (\<forall>fuel r. cap_walk X voff d bars fuel off (caps, p) \<noteq> Some (Inr r)))"
proof (intro conjI allI impI)
  fix offs and fuel :: nat
  assume chain: "cap_chain d p off offs" and fuel: "256 \<le> fuel"
  show len: "length offs \<le> 256"
    by (rule distinct_u8_length) (rule cap_chain_distinct [OF chain])
  with fuel show "cap_walk X voff d bars fuel off (caps, p) =
      Some (res_fold (cap_visit X voff d bars) offs (caps, p))"
    by (intro cap_walk_chain [OF chain]) auto
next
  fix fuel r
  assume "\<nexists>offs. cap_chain d p off offs"
  from cap_walk_endless [OF this refl, of X voff bars fuel caps]
  show "cap_walk X voff d bars fuel off (caps, p) \<noteq> Some (Inr r)" by auto
qed

lemma one_cap_chain: "cap_chain (pci_at 0 3 0) (one_cap_ports bar) 0x40 [0x40]"
proof -
  have "next_cap (pci_at 0 3 0) (one_cap_ports bar) 0x40 = 0"
    by (simp add: next_cap_def Pci_config_read_u8_def config_read_u8_eq pci_register_def one_cap_ports_def
        pci_at_def config_address_word_def)
  then show ?thesis by (rule cap_chain.last_cap)
qed

theorem capability_walk_witness:
  "cap_chain (pci_at 0 3 0) (one_cap_ports 1) 0x40 [0x40] \<and>
   cap_walk x86_crate 0 (pci_at 0 3 0) [] 256 0x40 (no_caps, one_cap_ports 1) =
     Some (res_fold (cap_visit x86_crate 0 (pci_at 0 3 0) []) [0x40] (no_caps, one_cap_ports 1))"
  using one_cap_chain [of 1] capability_walk [where d = "pci_at 0 3 0" and p = "one_cap_ports 1"
      and off = "0x40" and X = x86_crate and voff = 0 and bars = "[]" and caps = no_caps]
  by auto

text \<open>a virtio capability that names a BAR beyond the six that exist stops the kernel with an
  index out of range, for each of the four structure types the driver uses.\<close>

theorem capability_bar_out_of_range:
  assumes "length bars = 6" and "fst (Pci_config_read_u8 d off p) = 0x9"
    and "fst (Pci_config_read_u8 d (off + 3) p) \<in> {VirtioPciCapCommonCfg, VirtioPciCapNotifyCfg,
      VirtioPciCapDeviceCfg, VirtioPciCapPciCfg}"
    and "6 \<le> unat (fst (Pci_config_read_u8 d (off + 4) p))"
  shows "cap_entry X voff d bars off (caps, p) = Inl IndexOutOfBounds"
proof -
  have "array_get bars (unat (fst (Pci_config_read_u8 d (off + 4) p))) = Inl IndexOutOfBounds"
    using assms(1,4) by (simp add: array_get_def)
  with assms(2,3) show ?thesis
    by (auto simp: cap_entry_def Pci_config_read_u8_def Pci_config_read_u32_def config_read_eqs
        VirtioPciCapCommonCfg_def VirtioPciCapNotifyCfg_def VirtioPciCapIsrCfg_def
        VirtioPciCapDeviceCfg_def VirtioPciCapPciCfg_def)
qed

theorem capability_bar_out_of_range_witness:
  "cap_entry x86_crate 0 (pci_at 0 3 0) (replicate 6 Bar_None) 0x40 (no_caps, one_cap_ports 6) =
     Inl IndexOutOfBounds"
proof -
  have "fst (Pci_config_read_u8 (pci_at 0 3 0) 0x40 (one_cap_ports 6)) = 0x9"
    "fst (Pci_config_read_u8 (pci_at 0 3 0) (0x40 + 3) (one_cap_ports 6)) = 1"
    "fst (Pci_config_read_u8 (pci_at 0 3 0) (0x40 + 4) (one_cap_ports 6)) = 6"
    by (simp_all add: Pci_config_read_u8_def config_read_u8_eq pci_register_def one_cap_ports_def
        pci_at_def config_address_word_def)
  then show ?thesis
    by (intro capability_bar_out_of_range) (simp_all add: VirtioPciCapCommonCfg_def)
qed

text \<open>setting up a queue of at most 256 descriptors (a power of two) with pages from the
  kernel's allocator succeeds and leaves a queue the driver can use: the three areas are disjoint,
  every descriptor has a page of its own as buffer outside of them, device interrupts are suppressed,
  the queue is enabled and the free stack holds every descriptor.\<close>

theorem setup_queue_gives_ready_queue:
  assumes "identity_left X containing lim mm lookup map_to fs s" and "queue_device_ok dev reacted qs"
    and "0 < unat (qs q)" and "unat (qs q) \<le> 256" and "unat (qs q) dvd 65536"
    and "4 * (unat (qs q) + 3) \<le> length fs"
  shows "\<exists>io' s' n. setup_queue dev (identity_page X containing (allocate_frame X containing) map_to) q
        (queues, io, s) = Inr (queues @ [QueueFreeDescs_new (qs q)], io', s') \<and>
      queue_ready io' \<and> cfg_queue_select (io_regs io') = q \<and>
      identity_left X containing lim mm lookup map_to (drop n fs) s'"
  using boot_pages.setup_queue_ok [OF assms, of queues io] by blast

theorem setup_queue_gives_ready_queue_witness:
  "\<exists>io' s'. setup_queue four_desc_dev (identity_page x86_crate x86_page (allocate_frame x86_crate x86_page) array_mapper)
        0 ([], sample_io, Map.empty, BootInfoFrameAllocator_init sample_map) =
      Inr ([QueueFreeDescs_new 4], io', s') \<and> queue_ready io'"
  using setup_queue_gives_ready_queue [OF sample_identity_left four_desc_dev_ok(1), of 0 "[]" sample_io]
    length_sample_map by auto



end
