(* ===== verification/Virtio_Input.thy ===== *)
theory Virtio_Input
  imports Virtio_Queue Input_State
begin

text \<open>
  The input driver, \<^verbatim>\<open>src/bootloader/kernel/src/drivers/virtio_input.rs\<close>: it offers every descriptor of
  queue 0 to the device, and on each poll consumes the used ring, feeds the events to the global input
  state and offers the descriptors again. The two loops run on fuel; \<open>None\<close> is a loop that has not ended.

  The lemmas show that a poll delivers exactly the pending events, in the device's order, and gives
  back every descriptor it consumed.
\<close>

section \<open>Definitions\<close>

record VirtioInputEvent =
  evt_type :: u16
  evt_code :: u16
  evt_value :: u32

definition VirtioInputEvent_of_bytes :: "u8 list \<Rightarrow> VirtioInputEvent" where
  "VirtioInputEvent_of_bytes bs = \<lparr> evt_type = le_word (take 2 bs), evt_code = le_word (take 2 (drop 2 bs)),
     evt_value = le_word (take 4 (drop 4 bs)) \<rparr>"

text \<open>\<^verbatim>\<open>(pos as i32 + d).max(0) as usize\<close>: the position is truncated to 32 bits, the addition wraps, and the
  comparison is signed.\<close>

definition move_axis :: "usize \<Rightarrow> u32 \<Rightarrow> usize" where
  "move_axis pos d = (let x = ucast pos + d in if sint x < 0 then 0 else ucast x)"

definition handle_event :: "VirtioInputEvent \<Rightarrow> Input \<Rightarrow> Input res" where
  "handle_event evt inp =
     (if evt_type evt = 0 then Inr inp
      else if evt_type evt = 1
        then Input_handle_incoming_state (ucast (evt_code evt)) (evt_value evt \<noteq> 0) inp
      else if evt_type evt = 2 then
        (let d = evt_value evt in
         if evt_code evt = 0 then Inr (inp\<lparr> mouse_x := move_axis (mouse_x inp) d \<rparr>)
         else if evt_code evt = 1 then Inr (inp\<lparr> mouse_y := move_axis (mouse_y inp) d \<rparr>)
         else Inr inp)
      else Inr inp)"

definition read_event :: "'d virtio_io \<Rightarrow> u64 \<Rightarrow> VirtioInputEvent" where
  "read_event io a = VirtioInputEvent_of_bytes (read_bytes (io_mem io) a 8)"

fun offer_all :: "nat \<Rightarrow> Virtio \<times> 'd virtio_io \<Rightarrow> (Virtio \<times> 'd virtio_io) res option" where
  "offer_all 0 s = None"
| "offer_all (Suc n) (v, io) =
     (case get_free_desc_id v of
        Inl e \<Rightarrow> Some (Inl e)
      | Inr (None, v) \<Rightarrow> Some (Inr (v, io))
      | Inr (Some desc_id, v) \<Rightarrow>
          (case set_writable_available desc_id io of
             Inl e \<Rightarrow> Some (Inl e)
           | Inr io \<Rightarrow> offer_all n (v, io)))"

fun drain_used :: "nat \<Rightarrow> Virtio \<times> 'd virtio_io \<times> Input \<Rightarrow> (Virtio \<times> 'd virtio_io \<times> Input) res option" where
  "drain_used 0 s = None"
| "drain_used (Suc n) (v, io, inp) =
     (case next_used v io of
        Inl e \<Rightarrow> Some (Inl e)
      | Inr (None, v) \<Rightarrow> Some (Inr (v, io, inp))
      | Inr (Some used, v) \<Rightarrow>
          (let desc = read_desc (ucast (used_id used)) io;
               evt = read_event io (desc_addr desc)
           in case handle_event evt inp of
                Inl e \<Rightarrow> Some (Inl e)
              | Inr inp \<Rightarrow>
                  (case set_writable_available (ucast (used_id used)) io of
                     Inl e \<Rightarrow> Some (Inl e)
                   | Inr io \<Rightarrow> drain_used n (v, io, inp))))"

text \<open>\<^verbatim>\<open>drive\<close> up to its first \<^verbatim>\<open>await\<close>; every later poll is \<open>drain_used\<close> again.\<close>

definition drive_start :: "'d virtio_dev \<Rightarrow> nat \<Rightarrow> Virtio \<times> 'd virtio_io \<times> Input \<Rightarrow>
    (Virtio \<times> 'd virtio_io \<times> Input) res option" where
  "drive_start dev fuel s =
     (let (v, io, inp) = s; (v, io) = Virtio_queue_select dev 0 v io
      in case offer_all fuel (v, io) of
           None \<Rightarrow> None
         | Some (Inl e) \<Rightarrow> Some (Inl e)
         | Some (Inr (v, io)) \<Rightarrow> drain_used fuel (v, io, inp))"

subsection \<open>Specification vocabulary\<close>

definition used_desc :: "UsedElem \<Rightarrow> u16" where
  "used_desc u = ucast (used_id u)"

definition event_of :: "'d virtio_io \<Rightarrow> UsedElem \<Rightarrow> VirtioInputEvent" where
  "event_of io u = read_event io (desc_addr (load_desc io (used_desc u)))"

text \<open>Every completion names a descriptor of the queue, whose buffer lies outside the queue's areas.\<close>

definition completions_ok :: "'d virtio_io \<Rightarrow> UsedElem list \<Rightarrow> bool" where
  "completions_ok io us \<longleftrightarrow> (\<forall>u \<in> set us. unat (used_desc u) < unat (queue_size (io_regs io)) \<and>
     buffer_ok (io_regs io) (desc_addr (load_desc io (used_desc u))) 8)"

text \<open>What the driver must find the same after offering a descriptor: the used ring and the event
  buffers.\<close>

definition same_view :: "'d virtio_io \<Rightarrow> 'd virtio_io \<Rightarrow> bool" where
  "same_view io io' \<longleftrightarrow> io_regs io' = io_regs io \<and>
     (\<forall>e. unat e < unat (queue_size (io_regs io)) \<longrightarrow> desc_addr (load_desc io' e) = desc_addr (load_desc io e)) \<and>
     (\<forall>a n. region_ok a n \<longrightarrow>
        region_disjoint (queue_desc (io_regs io)) (16 * unat (queue_size (io_regs io))) a n \<longrightarrow>
        region_disjoint (queue_driver (io_regs io)) (4 + 2 * unat (queue_size (io_regs io))) a n \<longrightarrow>
        read_bytes (io_mem io') a n = read_bytes (io_mem io) a n)"

section \<open>Offering a descriptor\<close>

lemma set_writable_available_ok:
  assumes ok: "queue_areas_ok (io_regs io)" and log: "avail_log log io"
    and d: "unat d < unat (queue_size (io_regs io))"
  shows "\<exists>io'. set_writable_available d io = Inr io' \<and> avail_log (log @ [d]) io' \<and> same_view io io' \<and>
    load_desc io' d = (load_desc io d)\<lparr> desc_flags := VIRTQ_DESC_F_WRITE, desc_len := 4096 \<rparr> \<and>
    (\<forall>e. unat e < unat (queue_size (io_regs io)) \<longrightarrow> e \<noteq> d \<longrightarrow> load_desc io' e = load_desc io e)"
proof -
  let ?x = "(load_desc io d)\<lparr> desc_flags := VIRTQ_DESC_F_WRITE, desc_len := 4096 \<rparr>"
  define io1 where "io1 = store_desc d ?x io"
  have r1: "io_regs io1 = io_regs io" by (simp add: io1_def)
  have ok1: "queue_areas_ok (io_regs io1)" and log1: "avail_log log io1"
    using ok avail_log_store_desc [OF ok d log] by (simp_all add: io1_def)
  obtain io2 where io2: "set_available d io1 = Inr io2"
    using set_available_eq [OF ok1 log1] by blast
  have run: "set_writable_available d io = Inr io2"
    using io2 by (simp add: set_writable_available_def set_writable_def Let_def io1_def)
  have load: "load_desc io2 e = (if e = d then ?x else load_desc io e)"
    if "unat e < unat (queue_size (io_regs io))" for e
    using load_desc_after_available [OF ok1 log1 io2, of e] load_store_desc [OF ok d that, of ?x] that
    by (simp add: r1 io1_def)
  have "read_bytes (io_mem io2) a n = read_bytes (io_mem io) a n"
    if a: "region_ok a n" "region_disjoint (queue_desc (io_regs io)) (16 * unat (queue_size (io_regs io))) a n"
      "region_disjoint (queue_driver (io_regs io)) (4 + 2 * unat (queue_size (io_regs io))) a n" for a n
    using set_available_frame [OF ok1 log1 io2 a(1)] store_desc_frame [OF ok d a(1), of ?x] a(2,3)
    by (simp add: r1 io1_def)
  moreover have "io_regs io2 = io_regs io" using avail_log_push(2) [OF ok1 log1 io2] r1 by simp
  ultimately have "same_view io io2" using load by (simp add: same_view_def)
  with run avail_log_push(1) [OF ok1 log1 io2] load d show ?thesis by auto
qed

lemma same_view_read_event:
  "same_view io io' \<Longrightarrow> buffer_ok (io_regs io) a 8 \<Longrightarrow> read_event io' a = read_event io a"
  by (simp add: same_view_def buffer_ok_def read_event_def)

lemma same_view_event_of:
  assumes "same_view io io'" and "completions_ok io us" and "u \<in> set us"
  shows "event_of io' u = event_of io u"
proof -
  have "desc_addr (load_desc io' (used_desc u)) = desc_addr (load_desc io (used_desc u))"
    "buffer_ok (io_regs io) (desc_addr (load_desc io (used_desc u))) 8"
    using assms by (auto simp: same_view_def completions_ok_def)
  with same_view_read_event [OF assms(1)] show ?thesis by (simp add: event_of_def)
qed

lemma same_view_completions: "same_view io io' \<Longrightarrow> completions_ok io us \<Longrightarrow> completions_ok io' us"
  by (simp add: same_view_def completions_ok_def)

lemma same_view_used_log:
  assumes view: "same_view io io'" and ok: "queue_areas_ok (io_regs io)"
    and log: "used_log (io_regs io) log (io_mem io)"
  shows "used_log (io_regs io') log (io_mem io')"
proof -
  let ?r = "io_regs io"
  have regs: "io_regs io' = ?r" using view by (simp add: same_view_def)
  have rd: "read_bytes (io_mem io') a n = read_bytes (io_mem io) a n"
    if "region_ok a n" "region_disjoint (queue_desc ?r) (16 * unat (queue_size ?r)) a n"
      "region_disjoint (queue_driver ?r) (4 + 2 * unat (queue_size ?r)) a n" for a n
    using view that by (simp add: same_view_def)
  have idx: "read_bytes (io_mem io') (queue_device ?r + 2) 2 = read_bytes (io_mem io) (queue_device ?r + 2) 2"
    using queue_areas_okD(7,8) [OF ok] queue_areas_okD(1) [OF ok]
    by (intro rd) (auto simp: region_disjoint_def queue_addrs [OF ok])
  have slots: "read_bytes (io_mem io') (used_slot ?r j) 8 = read_bytes (io_mem io) (used_slot ?r j) 8"
    if "j < unat (queue_size ?r)" for j
    using queue_areas_okD(7,8) [OF ok] that
    by (intro rd) (auto simp: region_disjoint_def queue_addrs [OF ok])
  show ?thesis
    using log idx slots by (auto simp: used_log_def regs read_u16_def elim: ring_holds_cong)
qed

section \<open>A poll of the driver\<close>

lemma drain_used_delivers:
  assumes "queue_areas_ok (io_regs io)" and "used_log (io_regs io) log (io_mem io)"
    and "consumed v n" and "n \<le> length log" and "length log \<le> n + unat (queue_size (io_regs io))"
    and "avail_log alog io" and "completions_ok io (drop n log)"
    and "res_fold handle_event (map (event_of io) (drop n log)) inp = Inr inp'"
    and "length log < n + fuel"
  shows "\<exists>v' io'. drain_used fuel (v, io, inp) = Some (Inr (v', io', inp')) \<and>
    consumed v' (length log) \<and> avail_log (alog @ map used_desc (drop n log)) io' \<and> same_view io io' \<and>
    queue_select v' = queue_select v \<and> queues_free v' = queues_free v"
  using assms
proof (induction fuel arbitrary: v io inp n alog)
  case 0
  then show ?case by simp
next
  case (Suc fuel)
  note ok = Suc.prems(1)
  show ?case
  proof (cases "n < length log")
    case False
    with Suc.prems(4) have n: "n = length log" by simp
    have "next_used v io = Inr (None, v)"
      using next_used_step [OF ok Suc.prems(2-5)] n by simp
    moreover have "same_view io io" by (simp add: same_view_def)
    ultimately show ?thesis using Suc.prems(3,6,8) n by auto
  next
    case True
    let ?u = "log ! n"
    let ?v = "v\<lparr> last_used_idx := (last_used_idx v)[unat (queue_select v) := of_nat n] \<rparr>"
    have nxt: "next_used v io = Inr (Some ?u, ?v)"
      using next_used_step [OF ok Suc.prems(2-5)] True by simp
    have con: "consumed ?v (Suc n)" by (rule consumed_step) (rule Suc.prems(3))
    have drop: "drop n log = ?u # drop (Suc n) log" using True by (simp add: Cons_nth_drop_Suc)
    have d: "unat (used_desc ?u) < unat (queue_size (io_regs io))"
      using Suc.prems(7) by (simp add: completions_ok_def drop)
    obtain inp1 where inp1: "handle_event (event_of io ?u) inp = Inr inp1"
      and rest: "res_fold handle_event (map (event_of io) (drop (Suc n) log)) inp1 = Inr inp'"
      using Suc.prems(8) by (auto simp: drop res_bind_eq_Inr_iff)
    obtain io1 where io1: "set_writable_available (used_desc ?u) io = Inr io1"
      "avail_log (alog @ [used_desc ?u]) io1" "same_view io io1"
      using set_writable_available_ok [OF ok Suc.prems(6) d] by blast
    have regs: "io_regs io1 = io_regs io" using io1(3) by (simp add: same_view_def)
    have comp: "completions_ok io (drop (Suc n) log)"
      using Suc.prems(7) by (simp add: completions_ok_def drop)
    have evs: "map (event_of io1) (drop (Suc n) log) = map (event_of io) (drop (Suc n) log)"
      using same_view_event_of [OF io1(3) comp] by simp
    have "\<exists>v' io'. drain_used fuel (?v, io1, inp1) = Some (Inr (v', io', inp')) \<and>
        consumed v' (length log) \<and> avail_log ((alog @ [used_desc ?u]) @ map used_desc (drop (Suc n) log)) io' \<and>
        same_view io1 io' \<and> queue_select v' = queue_select ?v \<and> queues_free v' = queues_free ?v"
      using True Suc.prems(5,9) rest
      by (intro Suc.IH [OF _ same_view_used_log [OF io1(3) ok Suc.prems(2)] con _ _ io1(2)
            same_view_completions [OF io1(3) comp]])
        (simp_all add: regs ok evs)
    moreover have "drain_used (Suc fuel) (v, io, inp) = drain_used fuel (?v, io1, inp1)"
      using nxt inp1 io1(1) by (simp add: read_desc_def event_of_def used_desc_def)
    moreover have "same_view io io2" if "same_view io1 io2" for io2
      using io1(3) that by (simp add: same_view_def)
    ultimately show ?thesis by (auto simp: drop)
  qed
qed

lemma handle_event_total:
  assumes "input_ok inp" and "evt_type e = 1 \<Longrightarrow> unat (evt_code e) < 1024"
  shows "\<exists>inp'. handle_event e inp = Inr inp' \<and> input_ok inp'"
proof (cases "evt_type e = 1")
  case True
  have "unat (ucast (evt_code e) :: usize) = unat (evt_code e)" by (rule unat_ucast_up) simp
  with True assms have "\<exists>inp'. handle_event e inp = Inr inp'"
    by (simp add: handle_event_def Input_handle_total)
  with True assms(1) show ?thesis
    by (auto simp: handle_event_def dest: input_ok_handle)
next
  case False
  with assms(1) show ?thesis by (auto simp: handle_event_def input_ok_def Let_def)
qed

lemma handle_events_total:
  assumes "input_ok inp" and "\<And>e. e \<in> set es \<Longrightarrow> evt_type e = 1 \<Longrightarrow> unat (evt_code e) < 1024"
  shows "\<exists>inp'. res_fold handle_event es inp = Inr inp' \<and> input_ok inp'"
  using assms handle_event_total by (intro res_fold_total) auto

section \<open>Offering every descriptor\<close>

lemma get_free_desc_id_eq:
  assumes "unat (queue_select v) < length (queues_free v)"
  shows "get_free_desc_id v = (let (r, q) = get_free (queues_free v ! unat (queue_select v))
    in Inr (r, v\<lparr> queues_free := (queues_free v)[unat (queue_select v) := q] \<rparr>))"
  using assms by (simp add: get_free_desc_id_def with_queue_def array_get_def)

lemma offer_all_ok:
  assumes "queue_areas_ok (io_regs io)" and "avail_log alog io"
    and "unat (queue_select v) < length (queues_free v)"
    and "free (queues_free v ! unat (queue_select v)) = fr"
    and "\<And>d. d \<in> set fr \<Longrightarrow> unat d < unat (queue_size (io_regs io))"
    and "length fr < fuel"
  shows "\<exists>v' io'. offer_all fuel (v, io) = Some (Inr (v', io')) \<and> avail_log (alog @ rev fr) io' \<and>
    same_view io io' \<and> free (queues_free v' ! unat (queue_select v)) = [] \<and>
    queue_select v' = queue_select v \<and> last_used_idx v' = last_used_idx v"
  using assms
proof (induction fuel arbitrary: v io alog fr)
  case 0
  then show ?case by simp
next
  case (Suc fuel)
  let ?sel = "unat (queue_select v)"
  show ?case
  proof (cases fr rule: rev_cases)
    case Nil
    then have "get_free (queues_free v ! ?sel) = (None, queues_free v ! ?sel)"
      using Suc.prems(4) by (simp add: get_free_def vec_pop_def)
    then have "get_free_desc_id v = Inr (None, v)"
      using Suc.prems(3) by (simp add: get_free_desc_id_eq)
    moreover have "same_view io io" by (simp add: same_view_def)
    ultimately show ?thesis using Suc.prems(2,4) Nil by simp
  next
    case (snoc fr' d)
    let ?v = "v\<lparr> queues_free := (queues_free v)[?sel := (queues_free v ! ?sel)\<lparr> free := fr' \<rparr>] \<rparr>"
    have "get_free (queues_free v ! ?sel) = (Some d, (queues_free v ! ?sel)\<lparr> free := fr' \<rparr>)"
      using Suc.prems(4) snoc by (simp add: get_free_Some_iff)
    then have get: "get_free_desc_id v = Inr (Some d, ?v)"
      using Suc.prems(3) by (simp add: get_free_desc_id_eq)
    have "unat d < unat (queue_size (io_regs io))" using Suc.prems(5) snoc by simp
    from set_writable_available_ok [OF Suc.prems(1,2) this] obtain io1 where
      io1: "set_writable_available d io = Inr io1" "avail_log (alog @ [d]) io1" "same_view io io1"
      by blast
    have regs: "io_regs io1 = io_regs io" using io1(3) by (simp add: same_view_def)
    have "\<exists>v' io'. offer_all fuel (?v, io1) = Some (Inr (v', io')) \<and> avail_log ((alog @ [d]) @ rev fr') io' \<and>
        same_view io1 io' \<and> free (queues_free v' ! unat (queue_select ?v)) = [] \<and>
        queue_select v' = queue_select ?v \<and> last_used_idx v' = last_used_idx ?v"
      using Suc.prems snoc by (intro Suc.IH [OF _ io1(2)]) (auto simp: regs)
    moreover have "same_view io io2" if "same_view io1 io2" for io2
      using io1(3) that by (simp add: same_view_def)
    ultimately show ?thesis using get io1(1) snoc by auto
  qed
qed

section \<open>The mouse\<close>

lemma sint_u32_range: "- (2 ^ 31) \<le> sint (x :: u32)" "sint (x :: u32) < 2 ^ 31"
  using sint_ge [of x] sint_lt [of x] by simp_all

lemma uint_nonneg_sint:
  assumes "0 \<le> sint (x :: u32)"
  shows "uint x = sint x"
proof -
  have nb: "\<not> bit (uint x) 31"
    using assms by (simp add: sint_uint)
  then have "sint x = take_bit 31 (uint x)"
    by (simp add: sint_uint signed_take_bit_eq_if_positive)
  also have "\<dots> = uint x"
  proof (rule bit_eqI)
    fix n
    show "bit (take_bit 31 (uint x)) n \<longleftrightarrow> bit (uint x) n"
      using nb by (cases "n = 31") (auto simp: bit_take_bit_iff bit_uint_iff)
  qed
  finally show ?thesis by simp
qed

lemma sint_small:
  fixes x :: u32
  assumes "uint x < 2 ^ 31"
  shows "sint x = uint x"
proof -
  have "- (2 ^ 31) \<le> uint x" by (rule order_trans [of _ 0]) simp_all
  with assms show ?thesis
    by (simp add: sint_uint signed_take_bit_int_eq_self del: neg_numeral_le_numeral)
qed

lemma uint_move_axis:
  "uint (move_axis pos d) = max 0 (sint (ucast pos + d :: u32))"
proof (cases "sint (ucast pos + d :: u32) < 0")
  case False
  then show ?thesis
    using uint_nonneg_sint [of "ucast pos + d"] sint_u32_range(2) [of "ucast pos + d"]
    by (simp add: move_axis_def Let_def unsigned_ucast_eq take_bit_int_eq_self_iff)
qed (simp add: move_axis_def Let_def)

section \<open>Properties\<close>

text \<open>C8: one poll of the driver. With at most a queue's worth of completions pending, the poll ends,
  the input state becomes the result of handling exactly the pending events in the device's order,
  every consumed descriptor is offered again in that order, and nothing is left pending. The events
  must have key codes below 1024 (a larger one is an index out of range).\<close>

theorem poll_delivers_events:
  assumes "queue_areas_ok (io_regs io)" and "used_log (io_regs io) log (io_mem io)"
    and "consumed v n" and "n \<le> length log" and "length log \<le> n + unat (queue_size (io_regs io))"
    and "avail_log alog io" and "completions_ok io (drop n log)" and "input_ok inp"
    and "\<And>u. u \<in> set (drop n log) \<Longrightarrow> evt_type (event_of io u) = 1 \<Longrightarrow> unat (evt_code (event_of io u)) < 1024"
    and "unat (queue_size (io_regs io)) < fuel"
  shows "\<exists>v' io' inp'. drain_used fuel (v, io, inp) = Some (Inr (v', io', inp')) \<and>
    res_fold handle_event (map (event_of io) (drop n log)) inp = Inr inp' \<and> input_ok inp' \<and>
    consumed v' (length log) \<and> avail_log (alog @ map used_desc (drop n log)) io'"
proof -
  obtain inp' where "res_fold handle_event (map (event_of io) (drop n log)) inp = Inr inp'" "input_ok inp'"
    using handle_events_total [OF assms(8), of "map (event_of io) (drop n log)"] assms(9) by auto
  moreover have "length log < n + fuel" using assms(5,10) by simp
  ultimately show ?thesis
    using drain_used_delivers [OF assms(1-7)] by blast
qed

theorem poll_delivers_events_witness:
  "\<exists>v' io' inp'. drain_used 5 (sample_virtio, sample_io\<lparr> io_mem := (io_mem sample_io)(0x3004 := 0) \<rparr>, Input_new) =
      Some (Inr (v', io', inp')) \<and> consumed v' 1 \<and> avail_log [0] io'"
proof -
  let ?io = "sample_io\<lparr> io_mem := (io_mem sample_io)(0x3004 := 0) \<rparr>"
  let ?log = "[\<lparr> used_id = 0, used_len = 8 \<rparr>]"
  have regs: "io_regs ?io = sample_regs" by (simp add: sample_io_def)
  have ok: "queue_areas_ok (io_regs ?io)" using sample_areas_ok by (simp add: sample_io_def)
  have used: "used_log (io_regs ?io) ?log (io_mem ?io)"
    by (simp add: used_log_def ring_holds_def used_slot_def sample_io_def sample_regs_def read_u16_def
        UsedElem_of_bytes_def read_bytes_numeral)
  have con: "consumed sample_virtio 0"
    by (simp add: consumed_def sample_virtio_def MAX_NUM_QUEUE_def)
  have q: "unat (queue_size (io_regs ?io)) = 4" by (simp add: regs sample_regs_def)
  have avail: "avail_log [] ?io"
    by (simp add: avail_log_def sample_io_def sample_regs_def read_u16_def read_bytes_numeral)
  have desc: "load_desc ?io 0 = \<lparr> desc_addr = 0x8000, desc_len = 0, desc_flags = 0, desc_next = 0 \<rparr>"
    by (simp add: load_desc_def desc_ptr_def sample_io_def sample_regs_def Desc_of_bytes_def
        read_bytes_numeral)
  have comp: "completions_ok ?io (drop 0 ?log)"
    by (simp add: completions_ok_def used_desc_def desc)
      (simp add: buffer_ok_def region_ok_def region_disjoint_def sample_io_def sample_regs_def)
  have ev: "evt_type (event_of ?io u) \<noteq> 1" if "u \<in> set (drop 0 ?log)" for u
    using that by (simp add: event_of_def used_desc_def desc read_event_def)
      (simp add: VirtioInputEvent_of_bytes_def sample_io_def read_bytes_numeral)
  show ?thesis
    using poll_delivers_events [OF ok used con _ _ avail comp input_ok_new, of 5] ev q
    by (auto simp: used_desc_def)
qed

text \<open>before its first wait the driver has offered every free descriptor of the selected queue to
  the device, top of the stack first, and the free stack is empty.\<close>

theorem driver_offers_every_descriptor:
  assumes "queue_areas_ok (io_regs io)" and "avail_log [] io"
    and "unat (queue_select v) < length (queues_free v)"
    and "queues_free v ! unat (queue_select v) = QueueFreeDescs_new (queue_size (io_regs io))"
    and "unat (queue_size (io_regs io)) < fuel"
  shows "\<exists>v' io'. offer_all fuel (v, io) = Some (Inr (v', io')) \<and>
    avail_log (rev (map of_nat [0..<unat (queue_size (io_regs io))])) io' \<and>
    free (queues_free v' ! unat (queue_select v)) = []"
proof -
  let ?fr = "map of_nat [0..<unat (queue_size (io_regs io))] :: u16 list"
  have "unat (queue_size (io_regs io)) < 2 ^ LENGTH(16)" by (rule unsigned_less)
  then have "unat d < unat (queue_size (io_regs io))" if "d \<in> set ?fr" for d
    using that by (auto simp: unat_of_nat_small less_trans)
  then show ?thesis
    using offer_all_ok [OF assms(1,2,3), of ?fr fuel] assms(4,5) by (auto simp: free_new)
qed

theorem driver_offers_every_descriptor_witness:
  "\<exists>v' io'. offer_all 5 (sample_virtio, sample_io) = Some (Inr (v', io')) \<and> avail_log [3, 2, 1, 0] io'"
proof -
  have q: "queue_size (io_regs sample_io) = 4" by (simp add: sample_io_def sample_regs_def)
  have "[0..<4] = [0, 1, 2, 3 :: nat]" by (simp add: upt_rec)
  then show ?thesis
    using driver_offers_every_descriptor [OF sample_areas_ok sample_avail_log, of sample_virtio 5]
    by (auto simp: q sample_virtio_def)
qed

text \<open>moving the mouse. A coordinate is always between 0 and 2^31 - 1 afterwards, and as long as
  the sum does not reach 2^31 the new coordinate is the old one plus the signed displacement,
  clipped at 0.\<close>

theorem mouse_stays_in_range:
  assumes "uint pos < 2 ^ 31"
  shows "uint (move_axis pos d) < 2 ^ 31 \<and>
    (uint pos + sint d < 2 ^ 31 \<longrightarrow> uint (move_axis pos d) = max 0 (uint pos + sint d))"
proof -
  have u: "uint (ucast pos :: u32) = uint pos"
    using assms by (simp add: unsigned_ucast_eq take_bit_int_eq_self)
  then have "sint (ucast pos :: u32) = uint pos" using assms by (simp add: sint_small)
  moreover have "- (2 ^ 31) \<le> uint pos + sint d"
    using sint_u32_range(1) [of d] uint_ge_0 [of pos] by linarith
  ultimately have "sint (ucast pos + d :: u32) = uint pos + sint d" if "uint pos + sint d < 2 ^ 31"
    using that signed_take_bit_int_eq_self [of 31 "uint pos + sint d"] by (simp add: sint_word_ariths)
  then show ?thesis
    using sint_u32_range(2) [of "ucast pos + d"] by (simp add: uint_move_axis)
qed

theorem mouse_stays_in_range_witness:
  "uint (move_axis 10 5) = 15 \<and> uint (move_axis 10 (- 20)) = 0"
  using mouse_stays_in_range [of 10 5] mouse_stays_in_range [of 10 "- 20"] by simp

end
