(* ===== verification/App_Loader.thy ===== *)
theory App_Loader
  imports Byte_Memory Input_State Framebuffer
begin

text \<open>
  Loading and running the apps: \<^verbatim>\<open>src/bootloader/kernel/src/app.rs\<close> and the app task at the end of
  \<^verbatim>\<open>src/bootloader/kernel/src/main.rs\<close>.

  The ELF crate and the allocator are parameters: the parsed headers of a file, and the address a new
  image is placed at. So is the code of the apps: what the function at an address does with the context
  and the store it is given. A relocation is written through a raw pointer; outside of the image that is
  undefined behaviour, which the model makes an error of its own.

  The lemmas show what a loaded image contains, byte for byte, and that the frame loop runs every app
  once with its own store, although all of them pass through the same cell.
\<close>

section \<open>Definitions\<close>

subsection \<open>The loader\<close>

datatype ph_type = PT_Load | PT_Other

record ProgramHeader =
  ph_type :: "ph_type option"
  ph_offset :: u64
  virtual_addr :: u64
  file_size :: u64
  mem_size :: u64

record Rela =
  r_offset :: u64
  r_addend :: u64
  r_type :: u32

text \<open>A parsed file: the headers, the section \<^verbatim>\<open>.rela.dyn\<close> if there is one of the right kind, the entry.\<close>

record ElfFile =
  program_iter :: "ProgramHeader list"
  rela_dyn :: "Rela list option"
  entry_point :: u64

record 's App =
  app_code :: "u8 list"
  app_func :: u64
  app_pid :: u64
  app_store :: "'s option"

definition undefined_write :: panic where
  "undefined_write = Panicked ''undefined behaviour: write outside of the allocation''"

definition max_virt :: "ProgramHeader list \<Rightarrow> u64" where
  "max_virt phs = fold (\<lambda>ph m. if 0 < mem_size ph then max m (virtual_addr ph + mem_size ph) else m) phs 0"

definition copy_segment :: "u8 list \<Rightarrow> ProgramHeader \<Rightarrow> u8 list \<Rightarrow> u8 list res" where
  "copy_segment code ph img =
     res_fold (\<lambda>(byte, e) img. res_bind (array_get code e) (array_set img (byte + unat (virtual_addr ph))))
       (enumerate 0 [unat (ph_offset ph)..<unat (ph_offset ph + file_size ph)]) img"

definition write_u64_at :: "nat \<Rightarrow> u64 \<Rightarrow> u8 list \<Rightarrow> u8 list res" where
  "write_u64_at off v img =
     (if off + 8 \<le> length img then Inr (take off img @ le_bytes 8 v @ drop (off + 8) img) else Inl undefined_write)"

definition relocate :: "u64 \<Rightarrow> ProgramHeader \<Rightarrow> Rela \<Rightarrow> u8 list \<Rightarrow> u8 list res" where
  "relocate base ph r img =
     (if r_offset r \<ge> virtual_addr ph \<and> r_offset r < virtual_addr ph + mem_size ph
      then write_u64_at (unat (r_offset r)) (r_addend r + base) img
      else Inr img)"

definition load_header :: "u64 \<Rightarrow> u8 list \<Rightarrow> Rela list option \<Rightarrow> ProgramHeader \<Rightarrow> u8 list \<Rightarrow> u8 list res" where
  "load_header base code rela ph img =
     (if ph_type ph = Some PT_Load then
        res_bind (copy_segment code ph img) (\<lambda>img.
          case rela of None \<Rightarrow> Inr img | Some arr \<Rightarrow> res_fold (relocate base ph) arr img)
      else Inr img)"

text \<open>\<^verbatim>\<open>App::new\<close>; the counter is \<^verbatim>\<open>NEXT_ID\<close>.\<close>

definition App_new :: "(u8 list \<Rightarrow> ElfFile option) \<Rightarrow> u64 \<Rightarrow> u8 list \<Rightarrow> u64 \<Rightarrow> ('s App \<times> u64) res" where
  "App_new parse base code next_id =
     (case parse code of
        None \<Rightarrow> Inl (Panicked ''elf'')
      | Some elf \<Rightarrow>
          res_map (\<lambda>img. (\<lparr> app_code = img, app_func = base + entry_point elf, app_pid = next_id, app_store = None \<rparr>, next_id + 1))
            (res_fold (load_header base code (rela_dyn elf)) (program_iter elf)
               (replicate (unat (max_virt (program_iter elf))) 0)))"

fun load_apps :: "(u8 list \<Rightarrow> ElfFile option) \<Rightarrow> (nat \<Rightarrow> u64) \<Rightarrow> u8 list list \<Rightarrow> 's App list \<times> u64 \<Rightarrow> ('s App list \<times> u64) res" where
  "load_apps parse alloc [] s = Inr s"
| "load_apps parse alloc (code # codes) (apps, next_id) =
     res_bind (App_new parse (alloc (length apps)) code next_id)
       (\<lambda>(app, next_id). load_apps parse alloc codes (apps @ [app], next_id))"

subsection \<open>Calling an app\<close>

record KContext =
  k_version :: u8
  k_start_time :: u64
  k_pid :: u64
  k_fb :: FBShare
  k_input :: Input

definition Context_new :: "u64 \<Rightarrow> FBShare \<Rightarrow> Input \<Rightarrow> KContext" where
  "Context_new now fb inp = \<lparr> k_version = 1, k_start_time = now, k_pid = 0, k_fb = fb, k_input = inp \<rparr>"

text \<open>The code at an address: from the context and the content of the store cell to the return value, the
  new content of the cell and the pixels.\<close>

type_synonym 's app_code_fn = "u64 \<Rightarrow> KContext \<Rightarrow> 's option \<Rightarrow> u32 \<times> 's option \<times> RGBA list"

text \<open>\<^verbatim>\<open>App::call\<close>; the cell is the one static \<^verbatim>\<open>none\<close> that every context points to.\<close>

definition App_call :: "'s app_code_fn \<Rightarrow> KContext \<Rightarrow> 's App \<Rightarrow> 's option \<Rightarrow> u32 \<times> 's App \<times> 's option \<times> RGBA list" where
  "App_call run arg app cell =
     (let cell = (None :: 's option);
          arg = arg\<lparr> k_pid := app_pid app \<rparr>;
          self_store = app_store app; app = app\<lparr> app_store := None \<rparr>;
          cell = self_store;
          (res, cell, px) = run (app_func app) arg cell;
          app = app\<lparr> app_store := cell \<rparr>; cell = None
      in (res, app, cell, px))"

record 's AppTask =
  apps :: "'s App list"
  task_fb :: FB
  task_input :: Input
  store_cell :: "'s option"

text \<open>One turn of the loop: \<open>now i\<close> is the time when the context of app \<open>i\<close> is made.\<close>

definition call_app :: "'s app_code_fn \<Rightarrow> (nat \<Rightarrow> u64) \<Rightarrow> Input \<Rightarrow> nat \<times> 's App \<Rightarrow> 's App list \<times> FB \<times> 's option \<Rightarrow> 's App list \<times> FB \<times> 's option" where
  "call_app run now inp ia s =
     (let (i, app) = ia; (done, fb, cell) = s;
          (_, app, cell, px) = App_call run (Context_new (now i) (FB_share fb) inp) app cell
      in (done @ [app], fb\<lparr> pixels := px \<rparr>, cell))"

definition app_frame :: "'s app_code_fn \<Rightarrow> (nat \<Rightarrow> u64) \<Rightarrow> 's AppTask \<Rightarrow> 's AppTask" where
  "app_frame run now t =
     (let input = GLOBAL_read (task_input t);
          (as, fb, cell) = fold (call_app run now input) (enumerate 0 (apps t)) ([], task_fb t, store_cell t)
      in t\<lparr> apps := as, task_fb := fb, store_cell := cell, task_input := GLOBAL_update Input_step (task_input t) \<rparr>)"

subsection \<open>Specification vocabulary\<close>

text \<open>The bytes of a segment in memory.\<close>

definition seg_range :: "ProgramHeader \<Rightarrow> nat set" where
  "seg_range ph = {unat (virtual_addr ph)..<unat (virtual_addr ph) + unat (mem_size ph)}"

definition rela_range :: "Rela \<Rightarrow> nat set" where
  "rela_range r = {unat (r_offset r)..<unat (r_offset r) + 8}"

definition relocs_of :: "ElfFile \<Rightarrow> Rela list" where
  "relocs_of elf = (case rela_dyn elf of None \<Rightarrow> [] | Some arr \<Rightarrow> arr)"

text \<open>A file the loader supports: its load segments are inside of the file, do not wrap, are not empty, are no longer
  in the file than in memory and do not overlap; each relocation patches eight bytes inside of one
  segment, and no two of them overlap.\<close>

definition elf_ok :: "u8 list \<Rightarrow> ElfFile \<Rightarrow> bool" where
  "elf_ok code elf \<longleftrightarrow>
     (\<forall>ph \<in> set (program_iter elf). unat (virtual_addr ph) + unat (mem_size ph) < 2 ^ 64 \<and>
        (ph_type ph = Some PT_Load \<longrightarrow> unat (ph_offset ph) + unat (file_size ph) \<le> length code \<and>
           unat (ph_offset ph) + unat (file_size ph) < 2 ^ 64 \<and> unat (file_size ph) \<le> unat (mem_size ph) \<and> 0 < mem_size ph)) \<and>
     pairwise (\<lambda>a b. seg_range a \<inter> seg_range b = {}) {ph \<in> set (program_iter elf). ph_type ph = Some PT_Load} \<and>
     distinct (filter (\<lambda>ph. ph_type ph = Some PT_Load) (program_iter elf)) \<and>
     (\<forall>r \<in> set (relocs_of elf). \<exists>ph \<in> set (program_iter elf). ph_type ph = Some PT_Load \<and> rela_range r \<subseteq> seg_range ph) \<and>
     distinct (relocs_of elf) \<and> pairwise (\<lambda>a b. rela_range a \<inter> rela_range b = {}) (set (relocs_of elf))"

text \<open>A turn of the loop without the cell: every app is a machine of its own, on its own store.\<close>

definition own_step :: "'s app_code_fn \<Rightarrow> (nat \<Rightarrow> u64) \<Rightarrow> Input \<Rightarrow> nat \<Rightarrow> 's App \<Rightarrow> FB \<Rightarrow> 's App \<times> FB" where
  "own_step run now inp i app fb =
     (case run (app_func app)
         \<lparr> k_version = 1, k_start_time = now i, k_pid = app_pid app, k_fb = FB_share fb, k_input = inp \<rparr> (app_store app) of
        (_, store, px) \<Rightarrow> (app\<lparr> app_store := store \<rparr>, fb\<lparr> pixels := px \<rparr>))"

fun own_steps :: "'s app_code_fn \<Rightarrow> (nat \<Rightarrow> u64) \<Rightarrow> Input \<Rightarrow> nat \<Rightarrow> 's App list \<Rightarrow> FB \<Rightarrow> 's App list \<times> FB" where
  "own_steps run now inp i [] fb = ([], fb)"
| "own_steps run now inp i (app # rest) fb =
     (let (app, fb) = own_step run now inp i app fb; (rest, fb) = own_steps run now inp (Suc i) rest fb in (app # rest, fb))"

section \<open>Images as functions of the position\<close>

definition remap :: "(nat \<Rightarrow> u8 \<Rightarrow> u8) \<Rightarrow> u8 list \<Rightarrow> u8 list" where
  "remap f img = map (\<lambda>p. f p (img ! p)) [0..<length img]"

lemma remap_simps [simp]: "length (remap f img) = length img" "p < length img \<Longrightarrow> remap f img ! p = f p (img ! p)"
  by (simp_all add: remap_def)

lemma remap_eqI: "length xs = length img \<Longrightarrow> (\<And>p. p < length img \<Longrightarrow> xs ! p = f p (img ! p)) \<Longrightarrow> xs = remap f img"
  by (rule nth_equalityI) auto

lemma copy_loop:
  fixes va :: nat
  assumes "off + n \<le> length code" and "va + n \<le> length img"
  shows "res_fold (\<lambda>(byte, e) img. res_bind (array_get code e) (array_set img (byte + va))) (enumerate 0 [off..<off + n]) img =
    Inr (remap (\<lambda>p b. if va \<le> p \<and> p < va + n then code ! (off + (p - va)) else b) img)"
  using assms
proof (induction n)
  case 0
  have "img = remap (\<lambda>p b. if va \<le> p \<and> p < va + 0 then code ! (off + (p - va)) else b) img" by (rule remap_eqI) auto
  then show ?case by simp
next
  case (Suc n)
  let ?f = "\<lambda>n p b. if va \<le> p \<and> p < va + n then code ! (off + (p - va)) else b"
  have "enumerate 0 [off..<off + Suc n] = enumerate 0 [off..<off + n] @ [(n, off + n)]"
    by (simp add: enumerate_append_eq)
  moreover have "(remap (?f n) img)[va + n := code ! (off + n)] = remap (?f (Suc n)) img"
    by (rule remap_eqI) (use Suc.prems in \<open>auto simp: nth_list_update\<close>)
  ultimately show ?case
    using Suc by (simp add: res_fold_append array_get_def array_set_def add.commute)
qed

lemma write_u64_at_remap:
  assumes "off + 8 \<le> length img"
  shows "write_u64_at off v img = Inr (remap (\<lambda>p b. if p \<in> {off..<off + 8} then le_bytes 8 v ! (p - off) else b) img)"
proof -
  have "take off img @ le_bytes 8 v @ drop (off + 8) img =
      remap (\<lambda>p b. if p \<in> {off..<off + 8} then le_bytes 8 v ! (p - off) else b) img"
    using assms by (intro remap_eqI) (auto simp: nth_append min_def)
  with assms show ?thesis by (simp add: write_u64_at_def)
qed

lemma remap_remap: "remap f (remap g img) = remap (\<lambda>p b. f p (g p b)) img"
  by (rule remap_eqI) auto

lemma remap_id: "remap (\<lambda>_ b. b) img = img"
  by (rule remap_eqI [symmetric]) auto

lemma find_filter: "find P (filter A xs) = find (\<lambda>x. A x \<and> P x) xs"
  by (induction xs) auto

lemma find_None_if: "(\<And>x. x \<in> set xs \<Longrightarrow> \<not> P x) \<Longrightarrow> find P xs = None"
  by (simp add: find_None_iff)

lemma find_SomeD: "find P xs = Some x \<Longrightarrow> x \<in> set xs \<and> P x"
  by (auto simp: find_Some_iff)

section \<open>One segment\<close>

text \<open>The words of a segment that does not wrap.\<close>

lemma seg_range_word:
  assumes "unat (virtual_addr ph) + unat (mem_size ph) < 2 ^ 64"
  shows "a \<ge> virtual_addr ph \<and> a < virtual_addr ph + mem_size ph \<longleftrightarrow> unat a \<in> seg_range ph"
proof -
  have "unat (virtual_addr ph + mem_size ph) = unat (virtual_addr ph) + unat (mem_size ph)"
    using assms by (simp add: unat_word_ariths)
  then show ?thesis by (auto simp: seg_range_def word_le_nat_alt word_less_nat_alt)
qed

definition reloc_byte :: "u64 \<Rightarrow> Rela list \<Rightarrow> (Rela \<Rightarrow> bool) \<Rightarrow> nat \<Rightarrow> u8 \<Rightarrow> u8" where
  "reloc_byte base arr A p b =
     (case find (\<lambda>r. A r \<and> p \<in> rela_range r) arr of
        Some r \<Rightarrow> le_bytes 8 (r_addend r + base) ! (p - unat (r_offset r)) | None \<Rightarrow> b)"

lemma relocate_all:
  assumes "unat (virtual_addr ph) + unat (mem_size ph) < 2 ^ 64"
    and "\<forall>r \<in> set arr. unat (r_offset r) \<in> seg_range ph \<longrightarrow> unat (r_offset r) + 8 \<le> length img"
    and "distinct arr" and "pairwise (\<lambda>a b. rela_range a \<inter> rela_range b = {}) (set arr)"
  shows "res_fold (relocate base ph) arr img = Inr (remap (reloc_byte base arr (\<lambda>r. unat (r_offset r) \<in> seg_range ph)) img)"
  using assms(2-)
proof (induction arr arbitrary: img)
  case Nil
  show ?case by (simp add: reloc_byte_def remap_id)
next
  case (Cons r arr)
  let ?A = "\<lambda>r. unat (r_offset r) \<in> seg_range ph"
  let ?w = "\<lambda>p b. if ?A r \<and> p \<in> rela_range r then le_bytes 8 (r_addend r + base) ! (p - unat (r_offset r)) else b"
  have step: "relocate base ph r img = Inr (remap ?w img)"
    using Cons.prems(1) write_u64_at_remap [of "unat (r_offset r)" img "r_addend r + base"]
    by (simp add: relocate_def seg_range_word [OF assms(1)] rela_range_def remap_id)
  have "find (\<lambda>r. ?A r \<and> p \<in> rela_range r) arr = None" if "p \<in> rela_range r" for p
    using that Cons.prems(2,3) by (intro find_None_if) (auto simp: pairwise_insert)
  then have "reloc_byte base arr ?A p (?w p b) = reloc_byte base (r # arr) ?A p b" for p b
    by (auto simp: reloc_byte_def)
  moreover have "res_fold (relocate base ph) arr (remap ?w img) = Inr (remap (reloc_byte base arr ?A) (remap ?w img))"
    using Cons.prems by (intro Cons.IH) (auto simp: pairwise_insert)
  ultimately show ?case by (simp add: step remap_remap)
qed

definition file_byte :: "u8 list \<Rightarrow> ProgramHeader \<Rightarrow> nat \<Rightarrow> u8 \<Rightarrow> u8" where
  "file_byte code ph p b =
     (if unat (virtual_addr ph) \<le> p \<and> p < unat (virtual_addr ph) + unat (file_size ph)
      then code ! (unat (ph_offset ph) + (p - unat (virtual_addr ph))) else b)"

lemma copy_segment_remap:
  assumes "unat (ph_offset ph) + unat (file_size ph) \<le> length code" and "unat (ph_offset ph) + unat (file_size ph) < 2 ^ 64"
    and "unat (virtual_addr ph) + unat (file_size ph) \<le> length img"
  shows "copy_segment code ph img = Inr (remap (file_byte code ph) img)"
proof -
  have "unat (ph_offset ph + file_size ph) = unat (ph_offset ph) + unat (file_size ph)"
    using assms(2) by (simp add: unat_word_ariths)
  with copy_loop [OF assms(1,3)] show ?thesis by (simp add: copy_segment_def file_byte_def [abs_def])
qed

section \<open>All segments\<close>

lemma max_virt_bound: "ph \<in> set phs \<Longrightarrow> 0 < mem_size ph \<Longrightarrow> virtual_addr ph + mem_size ph \<le> max_virt phs"
proof -
  let ?f = "\<lambda>ph m. if 0 < mem_size ph then max m (virtual_addr ph + mem_size ph) else m"
  have mono: "m \<le> fold ?f phs m" for m :: u64 and phs
  proof (induction phs arbitrary: m)
    case (Cons a phs)
    have "m \<le> ?f a m" by simp
    also have "\<dots> \<le> fold ?f phs (?f a m)" by (rule Cons)
    finally show ?case by simp
  qed simp
  have "ph \<in> set phs \<Longrightarrow> 0 < mem_size ph \<Longrightarrow> virtual_addr ph + mem_size ph \<le> fold ?f phs m" for m
  proof (induction phs arbitrary: m)
    case (Cons a phs)
    show ?case
    proof (cases "ph = a")
      case True
      then have "virtual_addr ph + mem_size ph \<le> ?f a m" using Cons.prems(2) by simp
      also have "\<dots> \<le> fold ?f phs (?f a m)" by (rule mono)
      finally show ?thesis by simp
    qed (use Cons in simp)
  qed simp
  then show "ph \<in> set phs \<Longrightarrow> 0 < mem_size ph \<Longrightarrow> virtual_addr ph + mem_size ph \<le> max_virt phs"
    by (simp add: max_virt_def)
qed

text \<open>What the loop over the headers needs of them, for an image of a given length.\<close>

definition headers_ok :: "nat \<Rightarrow> u8 list \<Rightarrow> ProgramHeader list \<Rightarrow> Rela list \<Rightarrow> bool" where
  "headers_ok L code phs arr \<longleftrightarrow>
     (\<forall>ph \<in> set phs. unat (virtual_addr ph) + unat (mem_size ph) < 2 ^ 64 \<and>
        (ph_type ph = Some PT_Load \<longrightarrow> seg_range ph \<subseteq> {..<L} \<and>
           unat (virtual_addr ph) + unat (file_size ph) \<le> L \<and> unat (file_size ph) \<le> unat (mem_size ph) \<and>
           unat (ph_offset ph) + unat (file_size ph) \<le> length code \<and> unat (ph_offset ph) + unat (file_size ph) < 2 ^ 64 \<and>
           (\<forall>r \<in> set arr. unat (r_offset r) \<in> seg_range ph \<longrightarrow> rela_range r \<subseteq> seg_range ph))) \<and>
     pairwise (\<lambda>a b. seg_range a \<inter> seg_range b = {}) {ph \<in> set phs. ph_type ph = Some PT_Load} \<and>
     distinct (filter (\<lambda>ph. ph_type ph = Some PT_Load) phs) \<and> distinct arr \<and>
     pairwise (\<lambda>a b. rela_range a \<inter> rela_range b = {}) (set arr)"

definition patched :: "ProgramHeader list \<Rightarrow> Rela \<Rightarrow> bool" where
  "patched phs r \<longleftrightarrow> (\<exists>ph \<in> set phs. ph_type ph = Some PT_Load \<and> unat (r_offset r) \<in> seg_range ph)"

definition loaded_byte :: "u64 \<Rightarrow> u8 list \<Rightarrow> ProgramHeader list \<Rightarrow> Rela list \<Rightarrow> nat \<Rightarrow> u8" where
  "loaded_byte base code phs arr p = reloc_byte base arr (patched phs) p
     (case find (\<lambda>ph. p \<in> seg_range ph) (filter (\<lambda>ph. ph_type ph = Some PT_Load) phs) of
        Some ph \<Rightarrow> file_byte code ph p 0 | None \<Rightarrow> 0)"

lemma load_header_remap:
  assumes ok: "headers_ok L code phs arr" and ph: "ph \<in> set phs" "ph_type ph = Some PT_Load" and len: "length img = L"
    and rela: "case rela of None \<Rightarrow> arr = [] | Some a \<Rightarrow> arr = a"
  shows "load_header base code rela ph img =
    Inr (remap (\<lambda>p b. reloc_byte base arr (\<lambda>r. unat (r_offset r) \<in> seg_range ph) p (file_byte code ph p b)) img)"
proof -
  have c: "copy_segment code ph img = Inr (remap (file_byte code ph) img)"
    using ok ph len by (intro copy_segment_remap) (auto simp: headers_ok_def)
  have "unat (r_offset r) + 8 \<le> L" if "r \<in> set arr" "unat (r_offset r) \<in> seg_range ph" for r
  proof -
    have "unat (r_offset r) + 7 \<in> rela_range r" by (simp add: rela_range_def)
    with ok ph that have "unat (r_offset r) + 7 < L" unfolding headers_ok_def by blast
    then show ?thesis by simp
  qed
  then have r: "res_fold (relocate base ph) arr (remap (file_byte code ph) img) =
      Inr (remap (reloc_byte base arr (\<lambda>r. unat (r_offset r) \<in> seg_range ph)) (remap (file_byte code ph) img))"
    using ok ph len by (intro relocate_all) (auto simp: headers_ok_def)
  show ?thesis
  proof (cases rela)
    case None
    with rela have "arr = []" by simp
    with None c ph(2) show ?thesis by (simp add: load_header_def reloc_byte_def)
  next
    case (Some a)
    with rela c r ph(2) show ?thesis by (simp add: load_header_def remap_remap)
  qed
qed

lemma reloc_byte_cong:
  "(\<And>r. r \<in> set arr \<Longrightarrow> p \<in> rela_range r \<Longrightarrow> A r = B r) \<Longrightarrow> reloc_byte base arr A p b = reloc_byte base arr B p b"
  unfolding reloc_byte_def by (subst find_cong [OF refl, of arr _ "\<lambda>r. B r \<and> p \<in> rela_range r"]) auto

lemma reloc_byte_none: "(\<And>r. r \<in> set arr \<Longrightarrow> p \<in> rela_range r \<Longrightarrow> \<not> A r) \<Longrightarrow> reloc_byte base arr A p b = b"
  unfolding reloc_byte_def by (subst find_None_if) auto

lemma find_append: "find P (xs @ ys) = (case find P xs of None \<Rightarrow> find P ys | Some x \<Rightarrow> Some x)"
  by (induction xs) auto

lemma headers_ok_prefix: "headers_ok L code (phs @ [ph]) arr \<Longrightarrow> headers_ok L code phs arr"
  by (auto simp: headers_ok_def intro: pairwise_subset)

lemma patched_append: "patched (phs @ [ph]) r \<longleftrightarrow>
    patched phs r \<or> ph_type ph = Some PT_Load \<and> unat (r_offset r) \<in> seg_range ph"
  by (auto simp: patched_def)

lemma loaded_byte_snoc:
  assumes ok: "headers_ok L code (phs @ [ph]) arr" and load: "ph_type ph = Some PT_Load"
  shows "reloc_byte base arr (\<lambda>r. unat (r_offset r) \<in> seg_range ph) p (file_byte code ph p (loaded_byte base code phs arr p)) =
    loaded_byte base code (phs @ [ph]) arr p"
proof -
  let ?ld = "filter (\<lambda>ph. ph_type ph = Some PT_Load)" and ?A = "\<lambda>r. unat (r_offset r) \<in> seg_range ph"
  have disj: "seg_range ph' \<inter> seg_range ph = {}" if "ph' \<in> set phs" "ph_type ph' = Some PT_Load" for ph'
  proof -
    have "pairwise (\<lambda>a b. seg_range a \<inter> seg_range b = {}) {ph' \<in> set (phs @ [ph]). ph_type ph' = Some PT_Load}"
      using ok by (simp only: headers_ok_def)
    moreover have "ph' \<noteq> ph" using ok that load by (auto simp: headers_ok_def)
    ultimately show ?thesis using that load by (simp add: pairwise_def)
  qed
  have inside: "rela_range r \<subseteq> seg_range ph'"
    if "r \<in> set arr" "ph' \<in> set (phs @ [ph])" "ph_type ph' = Some PT_Load" "unat (r_offset r) \<in> seg_range ph'" for r ph'
    using ok that unfolding headers_ok_def by blast
  show ?thesis
  proof (cases "p \<in> seg_range ph")
    case True
    have other: "\<not> patched phs r" if "r \<in> set arr" "p \<in> rela_range r" for r
      using True disj inside that unfolding patched_def by fastforce
    have none: "find (\<lambda>ph. p \<in> seg_range ph) (?ld phs) = None" using True disj by (intro find_None_if) auto
    have "loaded_byte base code phs arr p = 0" unfolding loaded_byte_def none using other by (simp add: reloc_byte_none)
    moreover have "find (\<lambda>ph. p \<in> seg_range ph) (?ld (phs @ [ph])) = Some ph" using True none load by (simp add: find_append)
    moreover have "reloc_byte base arr ?A p b = reloc_byte base arr (patched (phs @ [ph])) p b" for b
      using other load by (intro reloc_byte_cong) (simp add: patched_append)
    ultimately show ?thesis by (simp only: loaded_byte_def option.case)
  next
    case False
    have notA: "\<not> ?A r" if "r \<in> set arr" "p \<in> rela_range r" for r
      using False inside [of r ph] that load by auto
    have "unat (file_size ph) \<le> unat (mem_size ph)" using ok load by (simp add: headers_ok_def)
    with False have "file_byte code ph p b = b" for b by (auto simp: file_byte_def seg_range_def)
    moreover have "find (\<lambda>ph. p \<in> seg_range ph) (?ld (phs @ [ph])) = find (\<lambda>ph. p \<in> seg_range ph) (?ld phs)"
      using False by (simp add: find_append split: option.splits)
    moreover have "patched phs r = patched (phs @ [ph]) r" if "r \<in> set arr" "p \<in> rela_range r" for r
      using notA [OF that] by (simp add: patched_append)
    then have "reloc_byte base arr (patched phs) p b = reloc_byte base arr (patched (phs @ [ph])) p b" for b
      by (rule reloc_byte_cong)
    ultimately show ?thesis using notA by (simp add: loaded_byte_def reloc_byte_none)
  qed
qed

lemma load_headers:
  assumes "headers_ok L code phs arr" and rela: "case rela of None \<Rightarrow> arr = [] | Some a \<Rightarrow> arr = a"
  shows "res_fold (load_header base code rela) phs (replicate L 0) =
    Inr (remap (\<lambda>p _. loaded_byte base code phs arr p) (replicate L 0))"
  using assms(1)
proof (induction phs rule: rev_induct)
  case Nil
  have "replicate L 0 = remap (\<lambda>p _. loaded_byte base code [] arr p) (replicate L 0)"
    by (rule remap_eqI) (simp_all add: loaded_byte_def reloc_byte_none patched_def)
  then show ?case by simp
next
  case (snoc ph phs)
  note IH = snoc.IH [OF headers_ok_prefix [OF snoc.prems]]
  show ?case
  proof (cases "ph_type ph = Some PT_Load")
    case True
    note load_header_remap [OF snoc.prems _ True _ rela, of "remap (\<lambda>p _. loaded_byte base code phs arr p) (replicate L 0)" base]
    then show ?thesis by (simp add: res_fold_append IH remap_remap loaded_byte_snoc [OF snoc.prems True])
  next
    case False
    then have "patched (phs @ [ph]) = patched phs" by (simp add: fun_eq_iff patched_append)
    with False have "loaded_byte base code (phs @ [ph]) arr p = loaded_byte base code phs arr p" for p
      by (simp add: loaded_byte_def)
    moreover have "load_header base code rela ph img = Inr img" for img using False by (simp add: load_header_def)
    ultimately show ?thesis by (simp add: res_fold_append IH)
  qed
qed

lemma elf_ok_headers:
  assumes "elf_ok code elf"
  shows "headers_ok (unat (max_virt (program_iter elf))) code (program_iter elf) (relocs_of elf)"
proof -
  let ?phs = "program_iter elf" and ?L = "unat (max_virt (program_iter elf))"
  have wrap: "unat (virtual_addr ph) + unat (mem_size ph) < 2 ^ 64" if "ph \<in> set ?phs" for ph
    using assms that by (simp add: elf_ok_def)
  have within: "unat (virtual_addr ph) + unat (mem_size ph) \<le> ?L" if "ph \<in> set ?phs" "0 < mem_size ph" for ph
  proof -
    have "unat (virtual_addr ph + mem_size ph) = unat (virtual_addr ph) + unat (mem_size ph)"
      using wrap [OF that(1)] by (simp add: unat_word_ariths)
    with max_virt_bound [OF that] show ?thesis by (simp add: word_le_nat_alt)
  qed
  have load: "seg_range ph \<subseteq> {..<?L} \<and> unat (virtual_addr ph) + unat (file_size ph) \<le> ?L \<and>
      unat (file_size ph) \<le> unat (mem_size ph) \<and> unat (ph_offset ph) + unat (file_size ph) \<le> length code \<and>
      unat (ph_offset ph) + unat (file_size ph) < 2 ^ 64"
    if "ph \<in> set ?phs" "ph_type ph = Some PT_Load" for ph
  proof -
    have "0 < mem_size ph" "unat (file_size ph) \<le> unat (mem_size ph)"
      "unat (ph_offset ph) + unat (file_size ph) \<le> length code" "unat (ph_offset ph) + unat (file_size ph) < 2 ^ 64"
      using assms that unfolding elf_ok_def by blast+
    with within [OF that(1)] show ?thesis by (auto simp: seg_range_def)
  qed
  have inside: "rela_range r \<subseteq> seg_range ph"
    if "ph \<in> set ?phs" "ph_type ph = Some PT_Load" "r \<in> set (relocs_of elf)" "unat (r_offset r) \<in> seg_range ph" for ph r
  proof -
    from that(3) assms obtain ph' where ph': "ph' \<in> set ?phs" "ph_type ph' = Some PT_Load" "rela_range r \<subseteq> seg_range ph'"
      unfolding elf_ok_def by blast
    have "unat (r_offset r) \<in> seg_range ph'" using ph'(3) by (auto simp: rela_range_def)
    with that ph' assms have "ph = ph'" unfolding elf_ok_def pairwise_def by blast
    with ph'(3) show ?thesis by simp
  qed
  have "distinct (relocs_of elf)" "pairwise (\<lambda>a b. rela_range a \<inter> rela_range b = {}) (set (relocs_of elf))"
    using assms unfolding elf_ok_def by blast+
  with wrap load inside assms show ?thesis unfolding headers_ok_def elf_ok_def by blast
qed

section \<open>The frame loop\<close>

lemma call_app_eq:
  "call_app run now inp (i, app) (done, fb, cell) =
     (done @ [fst (own_step run now inp i app fb)], snd (own_step run now inp i app fb), None)"
  by (simp add: call_app_def own_step_def App_call_def Context_new_def split: prod.splits)

lemma own_steps_app:
  "app_pid (fst (own_step run now inp i app fb)) = app_pid app" "app_func (fst (own_step run now inp i app fb)) = app_func app"
  by (simp_all add: own_step_def split: prod.splits)

lemma fold_call_app:
  "fold (call_app run now inp) (enumerate i xs) (ds, fb, cell) =
     (ds @ fst (own_steps run now inp i xs fb), snd (own_steps run now inp i xs fb), if xs = [] then cell else None)"
proof (induction xs arbitrary: i ds fb cell)
  case (Cons app xs)
  show ?case by (simp add: call_app_eq Cons split_beta)
qed simp

lemma own_steps_same:
  "map app_pid (fst (own_steps run now inp i xs fb)) = map app_pid xs"
  "map app_func (fst (own_steps run now inp i xs fb)) = map app_func xs"
  by (induction xs arbitrary: i fb) (simp_all add: own_steps_app split_beta)

lemma load_apps_pids:
  assumes "load_apps parse alloc codes (xs, n) = Inr (ys, n')"
  shows "map app_pid ys = map app_pid xs @ map (\<lambda>i. n + of_nat i) [0..<length codes] \<and> n' = n + of_nat (length codes)"
  using assms
proof (induction codes arbitrary: xs n)
  case Nil
  then show ?case by simp
next
  case (Cons code codes)
  from Cons.prems obtain app where app: "App_new parse (alloc (length xs)) code n = Inr (app, n + 1)"
    "load_apps parse alloc codes (xs @ [app], n + 1) = Inr (ys, n')" "app_pid app = n"
    by (auto simp: res_bind_eq_Inr_iff App_new_def res_map_def split: option.splits)
  have "map (\<lambda>i. n + of_nat i) [0..<length (code # codes)] = n # map (\<lambda>i. (n + 1) + of_nat i) [0..<length codes]"
    by (simp only: length_Cons upt_conv_Cons map_Suc_upt [symmetric]) (simp add: upt_rec comp_def algebra_simps)
  with Cons.IH [OF app(2)] app(3) show ?case by (simp add: algebra_simps)
qed

section \<open>Properties\<close>

text \<open>C7: What a loaded image contains. For a file the loader supports, loading succeeds, and the image is as
  long as the highest segment ends; each relocated place holds the base address plus the addend, every
  other byte of the file part of a segment is the byte of the file, the rest of a segment is zero, and
  so is what no segment covers. The entry is at the base address, and the app has the next number and no store.\<close>

theorem loaded_image:
  assumes "parse code = Some elf" and "elf_ok code elf"
  shows "\<exists>app :: 's App. App_new parse base code n = Inr (app, n + 1) \<and> app_func app = base + entry_point elf \<and>
    app_pid app = n \<and> app_store app = None \<and> length (app_code app) = unat (max_virt (program_iter elf)) \<and>
    (\<forall>r \<in> set (relocs_of elf). take 8 (drop (unat (r_offset r)) (app_code app)) = le_bytes 8 (r_addend r + base)) \<and>
    (\<forall>p < length (app_code app). (\<forall>r \<in> set (relocs_of elf). p \<notin> rela_range r) \<longrightarrow>
       (\<forall>ph \<in> set (program_iter elf). ph_type ph = Some PT_Load \<longrightarrow> p \<in> seg_range ph \<longrightarrow>
          app_code app ! p = (if p < unat (virtual_addr ph) + unat (file_size ph)
            then code ! (unat (ph_offset ph) + (p - unat (virtual_addr ph))) else 0)) \<and>
       ((\<forall>ph \<in> set (program_iter elf). ph_type ph = Some PT_Load \<longrightarrow> p \<notin> seg_range ph) \<longrightarrow> app_code app ! p = 0))"
proof -
  let ?phs = "program_iter elf" and ?arr = "relocs_of elf" and ?L = "unat (max_virt (program_iter elf))"
  let ?img = "remap (\<lambda>p _. loaded_byte base code ?phs ?arr p) (replicate ?L 0)"
  note ok = elf_ok_headers [OF assms(2)]
  have "res_fold (load_header base code (rela_dyn elf)) ?phs (replicate ?L 0) = Inr ?img"
    by (rule load_headers [OF ok]) (simp add: relocs_of_def split: option.splits)
  then have new: "App_new parse base code n = Inr (\<lparr> app_code = ?img, app_func = base + entry_point elf, app_pid = n, app_store = None :: 's option \<rparr>, n + 1)"
    by (simp add: App_new_def assms(1))
  have plain: "loaded_byte base code ?phs ?arr p =
      (case find (\<lambda>ph. p \<in> seg_range ph) (filter (\<lambda>ph. ph_type ph = Some PT_Load) ?phs) of
        Some ph \<Rightarrow> file_byte code ph p 0 | None \<Rightarrow> 0)" if "\<forall>r \<in> set ?arr. p \<notin> rela_range r" for p
    unfolding loaded_byte_def using that by (intro reloc_byte_none) blast
  have seg: "find (\<lambda>ph. p \<in> seg_range ph) (filter (\<lambda>ph. ph_type ph = Some PT_Load) ?phs) = Some ph"
    if ph: "ph \<in> set ?phs" "ph_type ph = Some PT_Load" "p \<in> seg_range ph" for p ph
  proof -
    obtain ph' where f: "find (\<lambda>ph. p \<in> seg_range ph) (filter (\<lambda>ph. ph_type ph = Some PT_Load) ?phs) = Some ph'"
    proof (cases "find (\<lambda>ph. p \<in> seg_range ph) (filter (\<lambda>ph. ph_type ph = Some PT_Load) ?phs)")
      case None
      then have "ph \<notin> set (filter (\<lambda>ph. ph_type ph = Some PT_Load) ?phs)" using ph(3) unfolding find_None_iff by blast
      with ph show ?thesis by simp
    qed (use that in blast)
    then have "ph' \<in> set ?phs" "ph_type ph' = Some PT_Load" "p \<in> seg_range ph'"
      using find_SomeD [OF f] by auto
    with ph assms(2) have "ph' = ph" unfolding elf_ok_def pairwise_def by blast
    with f show ?thesis by simp
  qed
  have rel: "take 8 (drop (unat (r_offset r)) ?img) = le_bytes 8 (r_addend r + base)" if r: "r \<in> set ?arr" for r
  proof -
    from r assms(2) obtain ph where ph: "ph \<in> set ?phs" "ph_type ph = Some PT_Load" "rela_range r \<subseteq> seg_range ph"
      unfolding elf_ok_def by blast
    have "unat (r_offset r) \<in> seg_range ph" using ph(3) by (auto simp: rela_range_def)
    with ph have patched: "patched ?phs r" by (auto simp: patched_def)
    have "seg_range ph \<subseteq> {..<?L}" using ok ph by (auto simp: headers_ok_def)
    with ph(3) have range: "rela_range r \<subseteq> {..<?L}" by blast
    moreover have "unat (r_offset r) + 7 \<in> rela_range r" by (simp add: rela_range_def)
    ultimately have "unat (r_offset r) + 7 < ?L" by blast
    moreover have "loaded_byte base code ?phs ?arr (unat (r_offset r) + k) = le_bytes 8 (r_addend r + base) ! k" if "k < 8" for k
    proof -
      let ?Q = "\<lambda>r'. patched ?phs r' \<and> unat (r_offset r) + k \<in> rela_range r'"
      have Q: "?Q r" using patched that by (simp add: rela_range_def)
      then obtain r' where f: "find ?Q ?arr = Some r'" using r by (cases "find ?Q ?arr") (auto simp: find_None_iff)
      then have "r' \<in> set ?arr" "?Q r'" using find_SomeD [OF f] by auto
      then have "r' = r" using Q r ok unfolding headers_ok_def pairwise_def by blast
      with f show ?thesis by (simp add: loaded_byte_def reloc_byte_def)
    qed
    ultimately show ?thesis by (intro nth_equalityI) auto
  qed
  have none: "find (\<lambda>ph. p \<in> seg_range ph) (filter (\<lambda>ph. ph_type ph = Some PT_Load) ?phs) = None"
    if "\<forall>ph \<in> set ?phs. ph_type ph = Some PT_Load \<longrightarrow> p \<notin> seg_range ph" for p
    using that by (intro find_None_if) auto
  have from_file: "file_byte code ph p 0 = (if p < unat (virtual_addr ph) + unat (file_size ph)
      then code ! (unat (ph_offset ph) + (p - unat (virtual_addr ph))) else 0)" if "p \<in> seg_range ph" for ph p
    using that by (simp add: file_byte_def seg_range_def)
  show ?thesis
    unfolding new by (intro exI conjI refl) (auto simp: rel plain none seg from_file)
qed

definition demo_elf :: ElfFile where
  "demo_elf = \<lparr> program_iter = [\<lparr> ph_type = Some PT_Load, ph_offset = 1, virtual_addr = 0, file_size = 3, mem_size = 16 \<rparr>],
     rela_dyn = Some [\<lparr> r_offset = 8, r_addend = 2, r_type = 8 \<rparr>], entry_point = 2 \<rparr>"

theorem loaded_image_witness:
  "\<exists>app :: unit App. App_new (\<lambda>_. Some demo_elf) 0x1000 [9, 7, 5, 3] 4 = Inr (app, 5) \<and> app_func app = 0x1002 \<and>
     length (app_code app) = 16 \<and> app_code app ! 1 = 5 \<and> app_code app ! 3 = 0 \<and>
     take 8 (drop 8 (app_code app)) = le_bytes 8 (0x1002 :: u64)"
proof -
  have "elf_ok [9, 7, 5, 3] demo_elf"
    by (simp add: elf_ok_def demo_elf_def relocs_of_def rela_range_def seg_range_def pairwise_def)
  from loaded_image [of "\<lambda>_. Some demo_elf", OF refl this, of "0x1000" 4] obtain app :: "unit App" where
    new: "App_new (\<lambda>_. Some demo_elf) 0x1000 [9, 7, 5, 3] 4 = Inr (app, 4 + 1)" "app_func app = 0x1000 + entry_point demo_elf"
    "length (app_code app) = unat (max_virt (program_iter demo_elf))" and
    rel: "\<forall>r \<in> set (relocs_of demo_elf). take 8 (drop (unat (r_offset r)) (app_code app)) = le_bytes 8 (r_addend r + 0x1000)" and
    byte: "\<forall>p < length (app_code app). (\<forall>r \<in> set (relocs_of demo_elf). p \<notin> rela_range r) \<longrightarrow>
       (\<forall>ph \<in> set (program_iter demo_elf). ph_type ph = Some PT_Load \<longrightarrow> p \<in> seg_range ph \<longrightarrow>
          app_code app ! p = (if p < unat (virtual_addr ph) + unat (file_size ph)
            then [9, 7, 5, 3] ! (unat (ph_offset ph) + (p - unat (virtual_addr ph))) else 0))"
    by blast
  have len: "length (app_code app) = 16" using new(3) by (simp add: demo_elf_def max_virt_def)
  have "app_code app ! 1 = 5" "app_code app ! 3 = 0"
    using byte [rule_format, of 1] byte [rule_format, of 3] len
    by (simp_all add: demo_elf_def relocs_of_def rela_range_def seg_range_def)
  then show ?thesis using new rel len by (intro exI [of _ app]) (simp add: demo_elf_def relocs_of_def)
qed

text \<open>C23: One turn of the app task. Although every app is handed its store through the same static cell, a turn
  runs each app exactly once, in order, on the snapshot of the input taken at the beginning, with its own
  number and the store it left behind in the turn before, whatever the cell holds; the pixels go from
  one app to the next, the cell ends up empty, and only then the key states take their step.\<close>

theorem frame_isolates_apps:
  "app_frame run now t =
     t\<lparr> apps := fst (own_steps run now (task_input t) 0 (apps t) (task_fb t)),
        task_fb := snd (own_steps run now (task_input t) 0 (apps t) (task_fb t)),
        store_cell := (if apps t = [] then store_cell t else None),
        task_input := Input_step (task_input t) \<rparr> \<and>
   map app_pid (apps (app_frame run now t)) = map app_pid (apps t) \<and>
   map app_func (apps (app_frame run now t)) = map app_func (apps t)"
  by (simp add: app_frame_def fold_call_app own_steps_same GLOBAL_read_def GLOBAL_update_def Let_def)

text \<open>The numbers of the apps loaded one after another are consecutive.\<close>

theorem app_numbers:
  assumes "load_apps parse alloc codes ([], 0) = Inr (as, n)"
  shows "map app_pid as = map of_nat [0..<length codes] \<and> n = of_nat (length codes)"
  using load_apps_pids [OF assms] by simp

text \<open>The relocations are not checked. A relocation in the last seven bytes of an image is written past
  the end of the allocation, and every kind of relocation is treated as a relative one.\<close>

theorem relocations_unchecked:
  "(unat (r_offset r) \<in> seg_range ph \<longrightarrow> unat (virtual_addr ph) + unat (mem_size ph) < 2 ^ 64 \<longrightarrow>
      length img < unat (r_offset r) + 8 \<longrightarrow> relocate base ph r img = Inl undefined_write) \<and>
   relocate base ph (r\<lparr> r_type := typ \<rparr>) img = relocate base ph r img"
  by (auto simp: relocate_def seg_range_word write_u64_at_def)

theorem relocations_unchecked_witness:
  "relocate 0x1000 \<lparr> ph_type = Some PT_Load, ph_offset = 0, virtual_addr = 0, file_size = 4, mem_size = 16 \<rparr>
     \<lparr> r_offset = 12, r_addend = 2, r_type = 8 \<rparr> (replicate 16 0) = Inl undefined_write"
  using relocations_unchecked [of "\<lparr> r_offset = 12, r_addend = 2, r_type = 8 \<rparr>"
      "\<lparr> ph_type = Some PT_Load, ph_offset = 0, virtual_addr = 0, file_size = 4, mem_size = 16 \<rparr>" "replicate 16 0" "0x1000" 0]
  by (simp add: seg_range_def)

end
