(* ===== verification/Gpu_Protocol.thy ===== *)
theory Gpu_Protocol
  imports Byte_Memory
begin

text \<open>
  The wire format of \<^verbatim>\<open>src/bootloader/kernel/src/drivers/virtio_gpu.rs\<close>: its enumerations with their
  discriminants, the \<^verbatim>\<open>repr(C)\<close> structures of the requests with the bytes they occupy, the encoders of
  the 3D command stream, and the list of requests the driver issues at start-up.

  The requests are read back by \<open>gpu_decode\<close>, which takes the fields from where the specification of
  the virtio GPU device puts them, and \<open>conforms\<close> checks what that specification asks of a driver: a
  resource is created before it is used, its backing covers it, every rectangle lies inside.

  The lemmas show which requests the device sees as the driver means them and that the 2D part of the
  start-up conforms.
\<close>

section \<open>Definitions\<close>

subsection \<open>Enumerations\<close>

datatype VirtioGpuCtrlType =
    VirtioGpuCmdGetDisplayInfo | VirtioGpuCmdResourceCreate2d | VirtioGpuCmdResourceUnref
    | VirtioGpuCmdSetScanout | VirtioGpuCmdResourceFlush | VirtioGpuCmdTransferToHost2d
    | VirtioGpuCmdResourceAttachBacking | VirtioGpuCmdResourceDetachBacking | VirtioGpuCmdGetCapsetInfo
    | VirtioGpuCmdGetCapset | VirtioGpuCmdGetEdid | VirtioGpuCmdResourceAssignUuid
    | VirtioGpuCmdResourceCreateBlob | VirtioGpuCmdSetScanoutBlob | VirtioGpuCmdCtxCreate
    | VirtioGpuCmdCtxDestroy | VirtioGpuCmdCtxAttachResource | VirtioGpuCmdCtxDetachResource
    | VirtioGpuCmdResourceCreate3d | VirtioGpuCmdTransferToHost3d | VirtioGpuCmdTransferFromHost3d
    | VirtioGpuCmdSubmit3d | VirtioGpuCmdResourceMapBlob | VirtioGpuCmdResourceUnmapBlob
    | VirtioGpuCmdUpdateCursor | VirtioGpuCmdMoveCursor | VirtioGpuRespOkNoData
    | VirtioGpuRespOkDisplayInfo | VirtioGpuRespOkCapsetInfo | VirtioGpuRespOkCapset
    | VirtioGpuRespOkEdid | VirtioGpuRespOkResourceUuid | VirtioGpuRespOkMapInfo
    | VirtioGpuRespErrUnspec | VirtioGpuRespErrOutOfMemory | VirtioGpuRespErrInvalidScanoutId
    | VirtioGpuRespErrInvalidResourceId | VirtioGpuRespErrInvalidContextId
    | VirtioGpuRespErrInvalidParameter

primrec VirtioGpuCtrlType_repr :: "VirtioGpuCtrlType \<Rightarrow> u32" where
  "VirtioGpuCtrlType_repr VirtioGpuCmdGetDisplayInfo = 0x100"
| "VirtioGpuCtrlType_repr VirtioGpuCmdResourceCreate2d = 0x101"
| "VirtioGpuCtrlType_repr VirtioGpuCmdResourceUnref = 0x102"
| "VirtioGpuCtrlType_repr VirtioGpuCmdSetScanout = 0x103"
| "VirtioGpuCtrlType_repr VirtioGpuCmdResourceFlush = 0x104"
| "VirtioGpuCtrlType_repr VirtioGpuCmdTransferToHost2d = 0x105"
| "VirtioGpuCtrlType_repr VirtioGpuCmdResourceAttachBacking = 0x106"
| "VirtioGpuCtrlType_repr VirtioGpuCmdResourceDetachBacking = 0x107"
| "VirtioGpuCtrlType_repr VirtioGpuCmdGetCapsetInfo = 0x108"
| "VirtioGpuCtrlType_repr VirtioGpuCmdGetCapset = 0x109"
| "VirtioGpuCtrlType_repr VirtioGpuCmdGetEdid = 0x10a"
| "VirtioGpuCtrlType_repr VirtioGpuCmdResourceAssignUuid = 0x10b"
| "VirtioGpuCtrlType_repr VirtioGpuCmdResourceCreateBlob = 0x10c"
| "VirtioGpuCtrlType_repr VirtioGpuCmdSetScanoutBlob = 0x10d"
| "VirtioGpuCtrlType_repr VirtioGpuCmdCtxCreate = 0x200"
| "VirtioGpuCtrlType_repr VirtioGpuCmdCtxDestroy = 0x201"
| "VirtioGpuCtrlType_repr VirtioGpuCmdCtxAttachResource = 0x202"
| "VirtioGpuCtrlType_repr VirtioGpuCmdCtxDetachResource = 0x203"
| "VirtioGpuCtrlType_repr VirtioGpuCmdResourceCreate3d = 0x204"
| "VirtioGpuCtrlType_repr VirtioGpuCmdTransferToHost3d = 0x205"
| "VirtioGpuCtrlType_repr VirtioGpuCmdTransferFromHost3d = 0x206"
| "VirtioGpuCtrlType_repr VirtioGpuCmdSubmit3d = 0x207"
| "VirtioGpuCtrlType_repr VirtioGpuCmdResourceMapBlob = 0x208"
| "VirtioGpuCtrlType_repr VirtioGpuCmdResourceUnmapBlob = 0x209"
| "VirtioGpuCtrlType_repr VirtioGpuCmdUpdateCursor = 0x300"
| "VirtioGpuCtrlType_repr VirtioGpuCmdMoveCursor = 0x301"
| "VirtioGpuCtrlType_repr VirtioGpuRespOkNoData = 0x1100"
| "VirtioGpuCtrlType_repr VirtioGpuRespOkDisplayInfo = 0x1101"
| "VirtioGpuCtrlType_repr VirtioGpuRespOkCapsetInfo = 0x1102"
| "VirtioGpuCtrlType_repr VirtioGpuRespOkCapset = 0x1103"
| "VirtioGpuCtrlType_repr VirtioGpuRespOkEdid = 0x1104"
| "VirtioGpuCtrlType_repr VirtioGpuRespOkResourceUuid = 0x1105"
| "VirtioGpuCtrlType_repr VirtioGpuRespOkMapInfo = 0x1106"
| "VirtioGpuCtrlType_repr VirtioGpuRespErrUnspec = 0x1200"
| "VirtioGpuCtrlType_repr VirtioGpuRespErrOutOfMemory = 0x1201"
| "VirtioGpuCtrlType_repr VirtioGpuRespErrInvalidScanoutId = 0x1202"
| "VirtioGpuCtrlType_repr VirtioGpuRespErrInvalidResourceId = 0x1203"
| "VirtioGpuCtrlType_repr VirtioGpuRespErrInvalidContextId = 0x1204"
| "VirtioGpuCtrlType_repr VirtioGpuRespErrInvalidParameter = 0x1205"

datatype VirtioGpuFormats =
    VIRTIO_GPU_FORMAT_B8G8R8A8_UNORM | VIRTIO_GPU_FORMAT_B8G8R8X8_UNORM
    | VIRTIO_GPU_FORMAT_A8R8G8B8_UNORM | VIRTIO_GPU_FORMAT_X8R8G8B8_UNORM
    | VIRTIO_GPU_FORMAT_R8G8B8A8_UNORM | VIRTIO_GPU_FORMAT_X8B8G8R8_UNORM
    | VIRTIO_GPU_FORMAT_A8B8G8R8_UNORM | VIRTIO_GPU_FORMAT_R8G8B8X8_UNORM

primrec VirtioGpuFormats_repr :: "VirtioGpuFormats \<Rightarrow> u32" where
  "VirtioGpuFormats_repr VIRTIO_GPU_FORMAT_B8G8R8A8_UNORM = 1"
| "VirtioGpuFormats_repr VIRTIO_GPU_FORMAT_B8G8R8X8_UNORM = 2"
| "VirtioGpuFormats_repr VIRTIO_GPU_FORMAT_A8R8G8B8_UNORM = 3"
| "VirtioGpuFormats_repr VIRTIO_GPU_FORMAT_X8R8G8B8_UNORM = 4"
| "VirtioGpuFormats_repr VIRTIO_GPU_FORMAT_R8G8B8A8_UNORM = 67"
| "VirtioGpuFormats_repr VIRTIO_GPU_FORMAT_X8B8G8R8_UNORM = 68"
| "VirtioGpuFormats_repr VIRTIO_GPU_FORMAT_A8B8G8R8_UNORM = 121"
| "VirtioGpuFormats_repr VIRTIO_GPU_FORMAT_R8G8B8X8_UNORM = 134"

datatype CapsetId =
    VIRTIO_GPU_CAPSET_VIRGL | VIRTIO_GPU_CAPSET_VIRGL2 | VIRTIO_GPU_CAPSET_GFXSTREAM
    | VIRTIO_GPU_CAPSET_VENUS | VIRTIO_GPU_CAPSET_CROSS_DOMAIN

primrec CapsetId_repr :: "CapsetId \<Rightarrow> u32" where
  "CapsetId_repr VIRTIO_GPU_CAPSET_VIRGL = 1"
| "CapsetId_repr VIRTIO_GPU_CAPSET_VIRGL2 = 2"
| "CapsetId_repr VIRTIO_GPU_CAPSET_GFXSTREAM = 3"
| "CapsetId_repr VIRTIO_GPU_CAPSET_VENUS = 4"
| "CapsetId_repr VIRTIO_GPU_CAPSET_CROSS_DOMAIN = 5"

datatype Cmd3d =
    VIRGL_CCMD_NOP | VIRGL_CCMD_CREATE_OBJECT | VIRGL_CCMD_BIND_OBJECT | VIRGL_CCMD_DESTROY_OBJECT
    | VIRGL_CCMD_SET_VIEWPORT_STATE | VIRGL_CCMD_SET_FRAMEBUFFER_STATE | VIRGL_CCMD_SET_VERTEX_BUFFERS
    | VIRGL_CCMD_CLEAR | VIRGL_CCMD_DRAW_VBO | VIRGL_CCMD_RESOURCE_INLINE_WRITE
    | VIRGL_CCMD_SET_SAMPLER_VIEWS | VIRGL_CCMD_SET_INDEX_BUFFER | VIRGL_CCMD_SET_CONSTANT_BUFFER
    | VIRGL_CCMD_SET_STENCIL_REF | VIRGL_CCMD_SET_BLEND_COLOR | VIRGL_CCMD_SET_SCISSOR_STATE
    | VIRGL_CCMD_BLIT | VIRGL_CCMD_RESOURCE_COPY_REGION | VIRGL_CCMD_BIND_SAMPLER_STATES
    | VIRGL_CCMD_BEGIN_QUERY | VIRGL_CCMD_END_QUERY | VIRGL_CCMD_GET_QUERY_RESULT
    | VIRGL_CCMD_SET_POLYGON_STIPPLE | VIRGL_CCMD_SET_CLIP_STATE | VIRGL_CCMD_SET_SAMPLE_MASK
    | VIRGL_CCMD_SET_STREAMOUT_TARGETS | VIRGL_CCMD_SET_RENDER_CONDITION | VIRGL_CCMD_SET_UNIFORM_BUFFER
    | VIRGL_CCMD_SET_SUB_CTX | VIRGL_CCMD_CREATE_SUB_CTX | VIRGL_CCMD_DESTROY_SUB_CTX
    | VIRGL_CCMD_BIND_SHADER | VIRGL_CCMD_SET_TESS_STATE | VIRGL_CCMD_SET_MIN_SAMPLES
    | VIRGL_CCMD_SET_SHADER_BUFFERS | VIRGL_CCMD_SET_SHADER_IMAGES | VIRGL_CCMD_MEMORY_BARRIER
    | VIRGL_CCMD_LAUNCH_GRID | VIRGL_CCMD_SET_FRAMEBUFFER_STATE_NO_ATTACH | VIRGL_CCMD_TEXTURE_BARRIER
    | VIRGL_CCMD_SET_ATOMIC_BUFFERS | VIRGL_CCMD_SET_DEBUG_FLAGS | VIRGL_CCMD_GET_QUERY_RESULT_QBO
    | VIRGL_CCMD_TRANSFER3D | VIRGL_CCMD_END_TRANSFERS | VIRGL_CCMD_COPY_TRANSFER3D
    | VIRGL_CCMD_SET_TWEAKS | VIRGL_CCMD_CLEAR_TEXTURE | VIRGL_CCMD_PIPE_RESOURCE_CREATE
    | VIRGL_CCMD_PIPE_RESOURCE_SET_TYPE | VIRGL_CCMD_GET_MEMORY_INFO | VIRGL_CCMD_SEND_STRING_MARKER
    | VIRGL_CCMD_LINK_SHADER | VIRGL_CCMD_CREATE_VIDEO_CODEC | VIRGL_CCMD_DESTROY_VIDEO_CODEC
    | VIRGL_CCMD_CREATE_VIDEO_BUFFER | VIRGL_CCMD_DESTROY_VIDEO_BUFFER | VIRGL_CCMD_BEGIN_FRAME
    | VIRGL_CCMD_DECODE_MACROBLOCK | VIRGL_CCMD_DECODE_BITSTREAM | VIRGL_CCMD_ENCODE_BITSTREAM
    | VIRGL_CCMD_END_FRAME | VIRGL_MAX_COMMANDS

primrec Cmd3d_repr :: "Cmd3d \<Rightarrow> u32" where
  "Cmd3d_repr VIRGL_CCMD_NOP = 0"
| "Cmd3d_repr VIRGL_CCMD_CREATE_OBJECT = 1"
| "Cmd3d_repr VIRGL_CCMD_BIND_OBJECT = 2"
| "Cmd3d_repr VIRGL_CCMD_DESTROY_OBJECT = 3"
| "Cmd3d_repr VIRGL_CCMD_SET_VIEWPORT_STATE = 4"
| "Cmd3d_repr VIRGL_CCMD_SET_FRAMEBUFFER_STATE = 5"
| "Cmd3d_repr VIRGL_CCMD_SET_VERTEX_BUFFERS = 6"
| "Cmd3d_repr VIRGL_CCMD_CLEAR = 7"
| "Cmd3d_repr VIRGL_CCMD_DRAW_VBO = 8"
| "Cmd3d_repr VIRGL_CCMD_RESOURCE_INLINE_WRITE = 9"
| "Cmd3d_repr VIRGL_CCMD_SET_SAMPLER_VIEWS = 10"
| "Cmd3d_repr VIRGL_CCMD_SET_INDEX_BUFFER = 11"
| "Cmd3d_repr VIRGL_CCMD_SET_CONSTANT_BUFFER = 12"
| "Cmd3d_repr VIRGL_CCMD_SET_STENCIL_REF = 13"
| "Cmd3d_repr VIRGL_CCMD_SET_BLEND_COLOR = 14"
| "Cmd3d_repr VIRGL_CCMD_SET_SCISSOR_STATE = 15"
| "Cmd3d_repr VIRGL_CCMD_BLIT = 16"
| "Cmd3d_repr VIRGL_CCMD_RESOURCE_COPY_REGION = 17"
| "Cmd3d_repr VIRGL_CCMD_BIND_SAMPLER_STATES = 18"
| "Cmd3d_repr VIRGL_CCMD_BEGIN_QUERY = 19"
| "Cmd3d_repr VIRGL_CCMD_END_QUERY = 20"
| "Cmd3d_repr VIRGL_CCMD_GET_QUERY_RESULT = 21"
| "Cmd3d_repr VIRGL_CCMD_SET_POLYGON_STIPPLE = 22"
| "Cmd3d_repr VIRGL_CCMD_SET_CLIP_STATE = 23"
| "Cmd3d_repr VIRGL_CCMD_SET_SAMPLE_MASK = 24"
| "Cmd3d_repr VIRGL_CCMD_SET_STREAMOUT_TARGETS = 25"
| "Cmd3d_repr VIRGL_CCMD_SET_RENDER_CONDITION = 26"
| "Cmd3d_repr VIRGL_CCMD_SET_UNIFORM_BUFFER = 27"
| "Cmd3d_repr VIRGL_CCMD_SET_SUB_CTX = 28"
| "Cmd3d_repr VIRGL_CCMD_CREATE_SUB_CTX = 29"
| "Cmd3d_repr VIRGL_CCMD_DESTROY_SUB_CTX = 30"
| "Cmd3d_repr VIRGL_CCMD_BIND_SHADER = 31"
| "Cmd3d_repr VIRGL_CCMD_SET_TESS_STATE = 32"
| "Cmd3d_repr VIRGL_CCMD_SET_MIN_SAMPLES = 33"
| "Cmd3d_repr VIRGL_CCMD_SET_SHADER_BUFFERS = 34"
| "Cmd3d_repr VIRGL_CCMD_SET_SHADER_IMAGES = 35"
| "Cmd3d_repr VIRGL_CCMD_MEMORY_BARRIER = 36"
| "Cmd3d_repr VIRGL_CCMD_LAUNCH_GRID = 37"
| "Cmd3d_repr VIRGL_CCMD_SET_FRAMEBUFFER_STATE_NO_ATTACH = 38"
| "Cmd3d_repr VIRGL_CCMD_TEXTURE_BARRIER = 39"
| "Cmd3d_repr VIRGL_CCMD_SET_ATOMIC_BUFFERS = 40"
| "Cmd3d_repr VIRGL_CCMD_SET_DEBUG_FLAGS = 41"
| "Cmd3d_repr VIRGL_CCMD_GET_QUERY_RESULT_QBO = 42"
| "Cmd3d_repr VIRGL_CCMD_TRANSFER3D = 43"
| "Cmd3d_repr VIRGL_CCMD_END_TRANSFERS = 44"
| "Cmd3d_repr VIRGL_CCMD_COPY_TRANSFER3D = 45"
| "Cmd3d_repr VIRGL_CCMD_SET_TWEAKS = 46"
| "Cmd3d_repr VIRGL_CCMD_CLEAR_TEXTURE = 47"
| "Cmd3d_repr VIRGL_CCMD_PIPE_RESOURCE_CREATE = 48"
| "Cmd3d_repr VIRGL_CCMD_PIPE_RESOURCE_SET_TYPE = 49"
| "Cmd3d_repr VIRGL_CCMD_GET_MEMORY_INFO = 50"
| "Cmd3d_repr VIRGL_CCMD_SEND_STRING_MARKER = 51"
| "Cmd3d_repr VIRGL_CCMD_LINK_SHADER = 52"
| "Cmd3d_repr VIRGL_CCMD_CREATE_VIDEO_CODEC = 53"
| "Cmd3d_repr VIRGL_CCMD_DESTROY_VIDEO_CODEC = 54"
| "Cmd3d_repr VIRGL_CCMD_CREATE_VIDEO_BUFFER = 55"
| "Cmd3d_repr VIRGL_CCMD_DESTROY_VIDEO_BUFFER = 56"
| "Cmd3d_repr VIRGL_CCMD_BEGIN_FRAME = 57"
| "Cmd3d_repr VIRGL_CCMD_DECODE_MACROBLOCK = 58"
| "Cmd3d_repr VIRGL_CCMD_DECODE_BITSTREAM = 59"
| "Cmd3d_repr VIRGL_CCMD_ENCODE_BITSTREAM = 60"
| "Cmd3d_repr VIRGL_CCMD_END_FRAME = 61"
| "Cmd3d_repr VIRGL_MAX_COMMANDS = 62"

datatype PipeTextureTarget =
    PIPE_BUFFER | PIPE_TEXTURE_1D | PIPE_TEXTURE_2D | PIPE_TEXTURE_3D | PIPE_TEXTURE_CUBE
    | PIPE_TEXTURE_RECT | PIPE_TEXTURE_1D_ARRAY | PIPE_TEXTURE_2D_ARRAY | PIPE_TEXTURE_CUBE_ARRAY
    | PIPE_MAX_TEXTURE_TYPES

primrec PipeTextureTarget_repr :: "PipeTextureTarget \<Rightarrow> u32" where
  "PipeTextureTarget_repr PIPE_BUFFER = 0"
| "PipeTextureTarget_repr PIPE_TEXTURE_1D = 1"
| "PipeTextureTarget_repr PIPE_TEXTURE_2D = 2"
| "PipeTextureTarget_repr PIPE_TEXTURE_3D = 3"
| "PipeTextureTarget_repr PIPE_TEXTURE_CUBE = 4"
| "PipeTextureTarget_repr PIPE_TEXTURE_RECT = 5"
| "PipeTextureTarget_repr PIPE_TEXTURE_1D_ARRAY = 6"
| "PipeTextureTarget_repr PIPE_TEXTURE_2D_ARRAY = 7"
| "PipeTextureTarget_repr PIPE_TEXTURE_CUBE_ARRAY = 8"
| "PipeTextureTarget_repr PIPE_MAX_TEXTURE_TYPES = 9"

datatype VirglObjectType =
    VIRGL_OBJECT_NULL | VIRGL_OBJECT_BLEND | VIRGL_OBJECT_RASTERIZER | VIRGL_OBJECT_DSA
    | VIRGL_OBJECT_SHADER | VIRGL_OBJECT_VERTEX_ELEMENTS | VIRGL_OBJECT_SAMPLER_VIEW
    | VIRGL_OBJECT_SAMPLER_STATE | VIRGL_OBJECT_SURFACE | VIRGL_OBJECT_QUERY
    | VIRGL_OBJECT_STREAMOUT_TARGET | VIRGL_OBJECT_MSAA_SURFACE | VIRGL_MAX_OBJECTS

primrec VirglObjectType_repr :: "VirglObjectType \<Rightarrow> u32" where
  "VirglObjectType_repr VIRGL_OBJECT_NULL = 0"
| "VirglObjectType_repr VIRGL_OBJECT_BLEND = 1"
| "VirglObjectType_repr VIRGL_OBJECT_RASTERIZER = 2"
| "VirglObjectType_repr VIRGL_OBJECT_DSA = 3"
| "VirglObjectType_repr VIRGL_OBJECT_SHADER = 4"
| "VirglObjectType_repr VIRGL_OBJECT_VERTEX_ELEMENTS = 5"
| "VirglObjectType_repr VIRGL_OBJECT_SAMPLER_VIEW = 6"
| "VirglObjectType_repr VIRGL_OBJECT_SAMPLER_STATE = 7"
| "VirglObjectType_repr VIRGL_OBJECT_SURFACE = 8"
| "VirglObjectType_repr VIRGL_OBJECT_QUERY = 9"
| "VirglObjectType_repr VIRGL_OBJECT_STREAMOUT_TARGET = 10"
| "VirglObjectType_repr VIRGL_OBJECT_MSAA_SURFACE = 11"
| "VirglObjectType_repr VIRGL_MAX_OBJECTS = 12"

text \<open>The texture formats, by name and discriminant.\<close>

definition VirglFormats_1 :: "(string \<times> u32) list" where
  "VirglFormats_1 = [
    (''VIRGL_FORMAT_NONE'', 0), (''VIRGL_FORMAT_B8G8R8A8_UNORM'', 1)
    , (''VIRGL_FORMAT_B8G8R8X8_UNORM'', 2), (''VIRGL_FORMAT_A8R8G8B8_UNORM'', 3)
    , (''VIRGL_FORMAT_X8R8G8B8_UNORM'', 4), (''VIRGL_FORMAT_B5G5R5A1_UNORM'', 5)
    , (''VIRGL_FORMAT_B4G4R4A4_UNORM'', 6), (''VIRGL_FORMAT_B5G6R5_UNORM'', 7)
    , (''VIRGL_FORMAT_R10G10B10A2_UNORM'', 8), (''VIRGL_FORMAT_L8_UNORM'', 9)
    , (''VIRGL_FORMAT_A8_UNORM'', 10), (''VIRGL_FORMAT_I8_UNORM'', 11)
    , (''VIRGL_FORMAT_L8A8_UNORM'', 12), (''VIRGL_FORMAT_L16_UNORM'', 13), (''VIRGL_FORMAT_UYVY'', 14)
    , (''VIRGL_FORMAT_YUYV'', 15), (''VIRGL_FORMAT_Z16_UNORM'', 16), (''VIRGL_FORMAT_Z32_UNORM'', 17)
    , (''VIRGL_FORMAT_Z32_FLOAT'', 18), (''VIRGL_FORMAT_Z24_UNORM_S8_UINT'', 19)
    , (''VIRGL_FORMAT_S8_UINT_Z24_UNORM'', 20), (''VIRGL_FORMAT_Z24X8_UNORM'', 21)
    , (''VIRGL_FORMAT_X8Z24_UNORM'', 22), (''VIRGL_FORMAT_S8_UINT'', 23)
    , (''VIRGL_FORMAT_R64_FLOAT'', 24), (''VIRGL_FORMAT_R64G64_FLOAT'', 25)
    , (''VIRGL_FORMAT_R64G64B64_FLOAT'', 26), (''VIRGL_FORMAT_R64G64B64A64_FLOAT'', 27)
    , (''VIRGL_FORMAT_R32_FLOAT'', 28), (''VIRGL_FORMAT_R32G32_FLOAT'', 29)
    , (''VIRGL_FORMAT_R32G32B32_FLOAT'', 30), (''VIRGL_FORMAT_R32G32B32A32_FLOAT'', 31)
    , (''VIRGL_FORMAT_R32_UNORM'', 32), (''VIRGL_FORMAT_R32G32_UNORM'', 33)
    , (''VIRGL_FORMAT_R32G32B32_UNORM'', 34), (''VIRGL_FORMAT_R32G32B32A32_UNORM'', 35)
    , (''VIRGL_FORMAT_R32_USCALED'', 36), (''VIRGL_FORMAT_R32G32_USCALED'', 37)
    , (''VIRGL_FORMAT_R32G32B32_USCALED'', 38), (''VIRGL_FORMAT_R32G32B32A32_USCALED'', 39)
    , (''VIRGL_FORMAT_R32_SNORM'', 40), (''VIRGL_FORMAT_R32G32_SNORM'', 41)
    , (''VIRGL_FORMAT_R32G32B32_SNORM'', 42), (''VIRGL_FORMAT_R32G32B32A32_SNORM'', 43)
    , (''VIRGL_FORMAT_R32_SSCALED'', 44), (''VIRGL_FORMAT_R32G32_SSCALED'', 45)
    , (''VIRGL_FORMAT_R32G32B32_SSCALED'', 46), (''VIRGL_FORMAT_R32G32B32A32_SSCALED'', 47)
    , (''VIRGL_FORMAT_R16_UNORM'', 48), (''VIRGL_FORMAT_R16G16_UNORM'', 49)
    , (''VIRGL_FORMAT_R16G16B16_UNORM'', 50), (''VIRGL_FORMAT_R16G16B16A16_UNORM'', 51)
    , (''VIRGL_FORMAT_R16_USCALED'', 52), (''VIRGL_FORMAT_R16G16_USCALED'', 53)
    , (''VIRGL_FORMAT_R16G16B16_USCALED'', 54), (''VIRGL_FORMAT_R16G16B16A16_USCALED'', 55)
    , (''VIRGL_FORMAT_R16_SNORM'', 56), (''VIRGL_FORMAT_R16G16_SNORM'', 57)
    , (''VIRGL_FORMAT_R16G16B16_SNORM'', 58), (''VIRGL_FORMAT_R16G16B16A16_SNORM'', 59)
    , (''VIRGL_FORMAT_R16_SSCALED'', 60), (''VIRGL_FORMAT_R16G16_SSCALED'', 61)
    , (''VIRGL_FORMAT_R16G16B16_SSCALED'', 62), (''VIRGL_FORMAT_R16G16B16A16_SSCALED'', 63)
    , (''VIRGL_FORMAT_R8_UNORM'', 64), (''VIRGL_FORMAT_R8G8_UNORM'', 65)
    , (''VIRGL_FORMAT_R8G8B8_UNORM'', 66), (''VIRGL_FORMAT_R8G8B8A8_UNORM'', 67)
    , (''VIRGL_FORMAT_X8B8G8R8_UNORM'', 68), (''VIRGL_FORMAT_R8_USCALED'', 69)
    , (''VIRGL_FORMAT_R8G8_USCALED'', 70), (''VIRGL_FORMAT_R8G8B8_USCALED'', 71)
    , (''VIRGL_FORMAT_R8G8B8A8_USCALED'', 72), (''VIRGL_FORMAT_R8_SNORM'', 74)
    , (''VIRGL_FORMAT_R8G8_SNORM'', 75), (''VIRGL_FORMAT_R8G8B8_SNORM'', 76)
    , (''VIRGL_FORMAT_R8G8B8A8_SNORM'', 77), (''VIRGL_FORMAT_R8_SSCALED'', 82)
    , (''VIRGL_FORMAT_R8G8_SSCALED'', 83), (''VIRGL_FORMAT_R8G8B8_SSCALED'', 84)
    , (''VIRGL_FORMAT_R8G8B8A8_SSCALED'', 85), (''VIRGL_FORMAT_R32_FIXED'', 87)
    , (''VIRGL_FORMAT_R32G32_FIXED'', 88), (''VIRGL_FORMAT_R32G32B32_FIXED'', 89)
    , (''VIRGL_FORMAT_R32G32B32A32_FIXED'', 90), (''VIRGL_FORMAT_R16_FLOAT'', 91)
    , (''VIRGL_FORMAT_R16G16_FLOAT'', 92), (''VIRGL_FORMAT_R16G16B16_FLOAT'', 93)
    , (''VIRGL_FORMAT_R16G16B16A16_FLOAT'', 94), (''VIRGL_FORMAT_L8_SRGB'', 95)
    , (''VIRGL_FORMAT_L8A8_SRGB'', 96), (''VIRGL_FORMAT_R8G8B8_SRGB'', 97)
    , (''VIRGL_FORMAT_A8B8G8R8_SRGB'', 98), (''VIRGL_FORMAT_X8B8G8R8_SRGB'', 99)
    , (''VIRGL_FORMAT_B8G8R8A8_SRGB'', 100), (''VIRGL_FORMAT_B8G8R8X8_SRGB'', 101)
    , (''VIRGL_FORMAT_A8R8G8B8_SRGB'', 102), (''VIRGL_FORMAT_X8R8G8B8_SRGB'', 103)
    , (''VIRGL_FORMAT_R8G8B8A8_SRGB'', 104)]"

definition VirglFormats_2 :: "(string \<times> u32) list" where
  "VirglFormats_2 = [
    (''VIRGL_FORMAT_DXT1_RGB'', 105), (''VIRGL_FORMAT_DXT1_RGBA'', 106)
    , (''VIRGL_FORMAT_DXT3_RGBA'', 107), (''VIRGL_FORMAT_DXT5_RGBA'', 108)
    , (''VIRGL_FORMAT_DXT1_SRGB'', 109), (''VIRGL_FORMAT_DXT1_SRGBA'', 110)
    , (''VIRGL_FORMAT_DXT3_SRGBA'', 111), (''VIRGL_FORMAT_DXT5_SRGBA'', 112)
    , (''VIRGL_FORMAT_RGTC1_UNORM'', 113), (''VIRGL_FORMAT_RGTC1_SNORM'', 114)
    , (''VIRGL_FORMAT_RGTC2_UNORM'', 115), (''VIRGL_FORMAT_RGTC2_SNORM'', 116)
    , (''VIRGL_FORMAT_R8G8_B8G8_UNORM'', 117), (''VIRGL_FORMAT_G8R8_G8B8_UNORM'', 118)
    , (''VIRGL_FORMAT_R8SG8SB8UX8U_NORM'', 119), (''VIRGL_FORMAT_R5SG5SB6U_NORM'', 120)
    , (''VIRGL_FORMAT_A8B8G8R8_UNORM'', 121), (''VIRGL_FORMAT_B5G5R5X1_UNORM'', 122)
    , (''VIRGL_FORMAT_R10G10B10A2_USCALED'', 123), (''VIRGL_FORMAT_R11G11B10_FLOAT'', 124)
    , (''VIRGL_FORMAT_R9G9B9E5_FLOAT'', 125), (''VIRGL_FORMAT_Z32_FLOAT_S8X24_UINT'', 126)
    , (''VIRGL_FORMAT_R1_UNORM'', 127), (''VIRGL_FORMAT_R10G10B10X2_USCALED'', 128)
    , (''VIRGL_FORMAT_R10G10B10X2_SNORM'', 129), (''VIRGL_FORMAT_L4A4_UNORM'', 130)
    , (''VIRGL_FORMAT_B10G10R10A2_UNORM'', 131), (''VIRGL_FORMAT_R10SG10SB10SA2U_NORM'', 132)
    , (''VIRGL_FORMAT_R8G8Bx_SNORM'', 133), (''VIRGL_FORMAT_R8G8B8X8_UNORM'', 134)
    , (''VIRGL_FORMAT_B4G4R4X4_UNORM'', 135), (''VIRGL_FORMAT_X24S8_UINT'', 136)
    , (''VIRGL_FORMAT_S8X24_UINT'', 137), (''VIRGL_FORMAT_X32_S8X24_UINT'', 138)
    , (''VIRGL_FORMAT_B2G3R3_UNORM'', 139), (''VIRGL_FORMAT_L16A16_UNORM'', 140)
    , (''VIRGL_FORMAT_A16_UNORM'', 141), (''VIRGL_FORMAT_I16_UNORM'', 142)
    , (''VIRGL_FORMAT_LATC1_UNORM'', 143), (''VIRGL_FORMAT_LATC1_SNORM'', 144)
    , (''VIRGL_FORMAT_LATC2_UNORM'', 145), (''VIRGL_FORMAT_LATC2_SNORM'', 146)
    , (''VIRGL_FORMAT_A8_SNORM'', 147), (''VIRGL_FORMAT_L8_SNORM'', 148)
    , (''VIRGL_FORMAT_L8A8_SNORM'', 149), (''VIRGL_FORMAT_I8_SNORM'', 150)
    , (''VIRGL_FORMAT_A16_SNORM'', 151), (''VIRGL_FORMAT_L16_SNORM'', 152)
    , (''VIRGL_FORMAT_L16A16_SNORM'', 153), (''VIRGL_FORMAT_I16_SNORM'', 154)
    , (''VIRGL_FORMAT_A16_FLOAT'', 155), (''VIRGL_FORMAT_L16_FLOAT'', 156)
    , (''VIRGL_FORMAT_L16A16_FLOAT'', 157), (''VIRGL_FORMAT_I16_FLOAT'', 158)
    , (''VIRGL_FORMAT_A32_FLOAT'', 159), (''VIRGL_FORMAT_L32_FLOAT'', 160)
    , (''VIRGL_FORMAT_L32A32_FLOAT'', 161), (''VIRGL_FORMAT_I32_FLOAT'', 162)
    , (''VIRGL_FORMAT_YV12'', 163), (''VIRGL_FORMAT_YV16'', 164), (''VIRGL_FORMAT_IYUV'', 165)
    , (''VIRGL_FORMAT_NV12'', 166), (''VIRGL_FORMAT_NV21'', 167), (''VIRGL_FORMAT_A4R4_UNORM'', 168)
    , (''VIRGL_FORMAT_R4A4_UNORM'', 169), (''VIRGL_FORMAT_R8A8_UNORM'', 170)
    , (''VIRGL_FORMAT_A8R8_UNORM'', 171), (''VIRGL_FORMAT_R10G10B10A2_SSCALED'', 172)
    , (''VIRGL_FORMAT_R10G10B10A2_SNORM'', 173), (''VIRGL_FORMAT_B10G10R10A2_USCALED'', 174)
    , (''VIRGL_FORMAT_B10G10R10A2_SSCALED'', 175), (''VIRGL_FORMAT_B10G10R10A2_SNORM'', 176)
    , (''VIRGL_FORMAT_R8_UINT'', 177), (''VIRGL_FORMAT_R8G8_UINT'', 178)
    , (''VIRGL_FORMAT_R8G8B8_UINT'', 179), (''VIRGL_FORMAT_R8G8B8A8_UINT'', 180)
    , (''VIRGL_FORMAT_R8_SINT'', 181), (''VIRGL_FORMAT_R8G8_SINT'', 182)
    , (''VIRGL_FORMAT_R8G8B8_SINT'', 183), (''VIRGL_FORMAT_R8G8B8A8_SINT'', 184)
    , (''VIRGL_FORMAT_R16_UINT'', 185), (''VIRGL_FORMAT_R16G16_UINT'', 186)
    , (''VIRGL_FORMAT_R16G16B16_UINT'', 187), (''VIRGL_FORMAT_R16G16B16A16_UINT'', 188)
    , (''VIRGL_FORMAT_R16_SINT'', 189), (''VIRGL_FORMAT_R16G16_SINT'', 190)
    , (''VIRGL_FORMAT_R16G16B16_SINT'', 191), (''VIRGL_FORMAT_R16G16B16A16_SINT'', 192)
    , (''VIRGL_FORMAT_R32_UINT'', 193), (''VIRGL_FORMAT_R32G32_UINT'', 194)
    , (''VIRGL_FORMAT_R32G32B32_UINT'', 195), (''VIRGL_FORMAT_R32G32B32A32_UINT'', 196)
    , (''VIRGL_FORMAT_R32_SINT'', 197), (''VIRGL_FORMAT_R32G32_SINT'', 198)
    , (''VIRGL_FORMAT_R32G32B32_SINT'', 199), (''VIRGL_FORMAT_R32G32B32A32_SINT'', 200)
    , (''VIRGL_FORMAT_A8_UINT'', 201), (''VIRGL_FORMAT_I8_UINT'', 202), (''VIRGL_FORMAT_L8_UINT'', 203)
    , (''VIRGL_FORMAT_L8A8_UINT'', 204), (''VIRGL_FORMAT_A8_SINT'', 205)
    , (''VIRGL_FORMAT_I8_SINT'', 206)]"

definition VirglFormats_3 :: "(string \<times> u32) list" where
  "VirglFormats_3 = [
    (''VIRGL_FORMAT_L8_SINT'', 207), (''VIRGL_FORMAT_L8A8_SINT'', 208), (''VIRGL_FORMAT_A16_UINT'', 209)
    , (''VIRGL_FORMAT_I16_UINT'', 210), (''VIRGL_FORMAT_L16_UINT'', 211)
    , (''VIRGL_FORMAT_L16A16_UINT'', 212), (''VIRGL_FORMAT_A16_SINT'', 213)
    , (''VIRGL_FORMAT_I16_SINT'', 214), (''VIRGL_FORMAT_L16_SINT'', 215)
    , (''VIRGL_FORMAT_L16A16_SINT'', 216), (''VIRGL_FORMAT_A32_UINT'', 217)
    , (''VIRGL_FORMAT_I32_UINT'', 218), (''VIRGL_FORMAT_L32_UINT'', 219)
    , (''VIRGL_FORMAT_L32A32_UINT'', 220), (''VIRGL_FORMAT_A32_SINT'', 221)
    , (''VIRGL_FORMAT_I32_SINT'', 222), (''VIRGL_FORMAT_L32_SINT'', 223)
    , (''VIRGL_FORMAT_L32A32_SINT'', 224), (''VIRGL_FORMAT_B10G10R10A2_UINT'', 225)
    , (''VIRGL_FORMAT_ETC1_RGB8'', 226), (''VIRGL_FORMAT_R8G8_R8B8_UNORM'', 227)
    , (''VIRGL_FORMAT_G8R8_B8R8_UNORM'', 228), (''VIRGL_FORMAT_R8G8B8X8_SNORM'', 229)
    , (''VIRGL_FORMAT_R8G8B8X8_SRGB'', 230), (''VIRGL_FORMAT_R8G8B8X8_UINT'', 231)
    , (''VIRGL_FORMAT_R8G8B8X8_SINT'', 232), (''VIRGL_FORMAT_B10G10R10X2_UNORM'', 233)
    , (''VIRGL_FORMAT_R16G16B16X16_UNORM'', 234), (''VIRGL_FORMAT_R16G16B16X16_SNORM'', 235)
    , (''VIRGL_FORMAT_R16G16B16X16_FLOAT'', 236), (''VIRGL_FORMAT_R16G16B16X16_UINT'', 237)
    , (''VIRGL_FORMAT_R16G16B16X16_SINT'', 238), (''VIRGL_FORMAT_R32G32B32X32_FLOAT'', 239)
    , (''VIRGL_FORMAT_R32G32B32X32_UINT'', 240), (''VIRGL_FORMAT_R32G32B32X32_SINT'', 241)
    , (''VIRGL_FORMAT_R8A8_SNORM'', 242), (''VIRGL_FORMAT_R16A16_UNORM'', 243)
    , (''VIRGL_FORMAT_R16A16_SNORM'', 244), (''VIRGL_FORMAT_R16A16_FLOAT'', 245)
    , (''VIRGL_FORMAT_R32A32_FLOAT'', 246), (''VIRGL_FORMAT_R8A8_UINT'', 247)
    , (''VIRGL_FORMAT_R8A8_SINT'', 248), (''VIRGL_FORMAT_R16A16_UINT'', 249)
    , (''VIRGL_FORMAT_R16A16_SINT'', 250), (''VIRGL_FORMAT_R32A32_UINT'', 251)
    , (''VIRGL_FORMAT_R32A32_SINT'', 252), (''VIRGL_FORMAT_R10G10B10A2_UINT'', 253)
    , (''VIRGL_FORMAT_B5G6R5_SRGB'', 254), (''VIRGL_FORMAT_BPTC_RGBA_UNORM'', 255)
    , (''VIRGL_FORMAT_BPTC_SRGBA'', 256), (''VIRGL_FORMAT_BPTC_RGB_FLOAT'', 257)
    , (''VIRGL_FORMAT_BPTC_RGB_UFLOAT'', 258), (''VIRGL_FORMAT_A16L16_UNORM'', 262)
    , (''VIRGL_FORMAT_G8R8_UNORM'', 263), (''VIRGL_FORMAT_G8R8_SNORM'', 264)
    , (''VIRGL_FORMAT_G16R16_UNORM'', 265), (''VIRGL_FORMAT_G16R16_SNORM'', 266)
    , (''VIRGL_FORMAT_A8B8G8R8_SNORM'', 267), (''VIRGL_FORMAT_A8L8_UNORM'', 259)
    , (''VIRGL_FORMAT_A8L8_SNORM'', 260), (''VIRGL_FORMAT_A8L8_SRGB'', 261)
    , (''VIRGL_FORMAT_X8B8G8R8_SNORM'', 268), (''VIRGL_FORMAT_ETC2_RGB8'', 269)
    , (''VIRGL_FORMAT_ETC2_SRGB8'', 270), (''VIRGL_FORMAT_ETC2_RGB8A1'', 271)
    , (''VIRGL_FORMAT_ETC2_SRGB8A1'', 272), (''VIRGL_FORMAT_ETC2_RGBA8'', 273)
    , (''VIRGL_FORMAT_ETC2_SRGBA8'', 274), (''VIRGL_FORMAT_ETC2_R11_UNORM'', 275)
    , (''VIRGL_FORMAT_ETC2_R11_SNORM'', 276), (''VIRGL_FORMAT_ETC2_RG11_UNORM'', 277)
    , (''VIRGL_FORMAT_ETC2_RG11_SNORM'', 278), (''VIRGL_FORMAT_ASTC_4x4'', 279)
    , (''VIRGL_FORMAT_ASTC_5x4'', 280), (''VIRGL_FORMAT_ASTC_5x5'', 281)
    , (''VIRGL_FORMAT_ASTC_6x5'', 282), (''VIRGL_FORMAT_ASTC_6x6'', 283)
    , (''VIRGL_FORMAT_ASTC_8x5'', 284), (''VIRGL_FORMAT_ASTC_8x6'', 285)
    , (''VIRGL_FORMAT_ASTC_8x8'', 286), (''VIRGL_FORMAT_ASTC_10x5'', 287)
    , (''VIRGL_FORMAT_ASTC_10x6'', 288), (''VIRGL_FORMAT_ASTC_10x8'', 289)
    , (''VIRGL_FORMAT_ASTC_10x10'', 290), (''VIRGL_FORMAT_ASTC_12x10'', 291)
    , (''VIRGL_FORMAT_ASTC_12x12'', 292), (''VIRGL_FORMAT_ASTC_4x4_SRGB'', 293)
    , (''VIRGL_FORMAT_ASTC_5x4_SRGB'', 294), (''VIRGL_FORMAT_ASTC_5x5_SRGB'', 295)
    , (''VIRGL_FORMAT_ASTC_6x5_SRGB'', 296), (''VIRGL_FORMAT_ASTC_6x6_SRGB'', 297)
    , (''VIRGL_FORMAT_ASTC_8x5_SRGB'', 298), (''VIRGL_FORMAT_ASTC_8x6_SRGB'', 299)
    , (''VIRGL_FORMAT_ASTC_8x8_SRGB'', 300), (''VIRGL_FORMAT_ASTC_10x5_SRGB'', 301)
    , (''VIRGL_FORMAT_ASTC_10x6_SRGB'', 302), (''VIRGL_FORMAT_ASTC_10x8_SRGB'', 303)
    , (''VIRGL_FORMAT_ASTC_10x10_SRGB'', 304), (''VIRGL_FORMAT_ASTC_12x10_SRGB'', 305)
    , (''VIRGL_FORMAT_ASTC_12x12_SRGB'', 306), (''VIRGL_FORMAT_R10G10B10X2_UNORM'', 308)
    , (''VIRGL_FORMAT_A4B4G4R4_UNORM'', 311), (''VIRGL_FORMAT_R8_SRGB'', 312)
    , (''VIRGL_FORMAT_R8G8_SRGB'', 313), (''VIRGL_FORMAT_P010'', 314), (''VIRGL_FORMAT_P012'', 315)
    , (''VIRGL_FORMAT_P016'', 316), (''VIRGL_FORMAT_B8G8R8_UNORM'', 317)
    , (''VIRGL_FORMAT_R3G3B2_UNORM'', 318), (''VIRGL_FORMAT_R4G4B4A4_UNORM'', 319)
    , (''VIRGL_FORMAT_R5G5B5A1_UNORM'', 320), (''VIRGL_FORMAT_R5G6B5_UNORM'', 321)
    , (''VIRGL_FORMAT_MAX'', 322), (''VIRGL_FORMAT_B8G8R8X8_UNORM_EMULATED'', 323)
    , (''VIRGL_FORMAT_B8G8R8A8_UNORM_EMULATED'', 324), (''VIRGL_FORMAT_MAX_EXTENDED'', 325)]"

definition VirglFormats_repr :: "string \<Rightarrow> u32 option" where
  "VirglFormats_repr name = map_of (VirglFormats_1 @ VirglFormats_2 @ VirglFormats_3) name"

definition PIPE_CLEAR_COLOR :: u32 where
  "PIPE_CLEAR_COLOR = push_bit 2 1 OR push_bit 3 1 OR push_bit 4 1 OR push_bit 5 1 OR push_bit 6 1 OR
     push_bit 7 1 OR push_bit 8 1 OR push_bit 9 1"

definition PIPE_BIND_RENDER_TARGET :: u32 where "PIPE_BIND_RENDER_TARGET = push_bit 1 1"

definition PIPE_BIND_SAMPLER_VIEW :: u32 where "PIPE_BIND_SAMPLER_VIEW = push_bit 3 1"

subsection \<open>Structures\<close>

text \<open>Each structure is followed by its bytes. The fields are at their natural offsets; the only padding
  is at the end of \<^verbatim>\<open>VirtioGpuCmdSubmit3d\<close>, four bytes that Rust leaves undefined.\<close>

record VirtioGpuCtrlHdr =
  hdr_type :: VirtioGpuCtrlType
  hdr_flags :: u32
  hdr_fence_id :: u64
  hdr_ctx_id :: u32
  hdr_ring_idx :: u8
  hdr_padding :: "u8 list"

definition VirtioGpuCtrlHdr_default :: VirtioGpuCtrlHdr where
  "VirtioGpuCtrlHdr_default = \<lparr> hdr_type = VirtioGpuCmdGetDisplayInfo, hdr_flags = 0, hdr_fence_id = 0,
     hdr_ctx_id = 0, hdr_ring_idx = 0, hdr_padding = [0, 0, 0] \<rparr>"

definition VirtioGpuCtrlHdr_bytes :: "VirtioGpuCtrlHdr \<Rightarrow> u8 list" where
  "VirtioGpuCtrlHdr_bytes h = le_bytes 4 (VirtioGpuCtrlType_repr (hdr_type h)) @ le_bytes 4 (hdr_flags h) @
     le_bytes 8 (hdr_fence_id h) @ le_bytes 4 (hdr_ctx_id h) @ [hdr_ring_idx h] @ hdr_padding h"

record VirtioGpuRect =
  rect_x :: u32
  rect_y :: u32
  rect_w :: u32
  rect_h :: u32

definition VirtioGpuRect_bytes :: "VirtioGpuRect \<Rightarrow> u8 list" where
  "VirtioGpuRect_bytes r =
     le_bytes 4 (rect_x r) @ le_bytes 4 (rect_y r) @ le_bytes 4 (rect_w r) @ le_bytes 4 (rect_h r)"

record VirtioGpuDisplay =
  disp_rect :: VirtioGpuRect
  disp_enabled :: u32
  disp_flags :: u32

text \<open>The response to \<^verbatim>\<open>GetDisplayInfo\<close>: the driver uses the display after the 24 bytes of the header.\<close>

definition VirtioGpuDisplay_of_bytes :: "u8 list \<Rightarrow> VirtioGpuDisplay" where
  "VirtioGpuDisplay_of_bytes bs =
     \<lparr> disp_rect = \<lparr> rect_x = le_word (take 4 bs), rect_y = le_word (take 4 (drop 4 bs)),
         rect_w = le_word (take 4 (drop 8 bs)), rect_h = le_word (take 4 (drop 12 bs)) \<rparr>,
       disp_enabled = le_word (take 4 (drop 16 bs)), disp_flags = le_word (take 4 (drop 20 bs)) \<rparr>"

definition display_pmodes :: "u8 list \<Rightarrow> VirtioGpuDisplay" where
  "display_pmodes response = VirtioGpuDisplay_of_bytes (drop 24 response)"

record VirtioGpuCmdResourceCreate2d =
  c2d_header :: VirtioGpuCtrlHdr
  c2d_resource_id :: u32
  c2d_format :: VirtioGpuFormats
  c2d_width :: u32
  c2d_height :: u32

definition VirtioGpuCmdResourceCreate2d_bytes :: "VirtioGpuCmdResourceCreate2d \<Rightarrow> u8 list" where
  "VirtioGpuCmdResourceCreate2d_bytes c = VirtioGpuCtrlHdr_bytes (c2d_header c) @
     le_bytes 4 (c2d_resource_id c) @ le_bytes 4 (VirtioGpuFormats_repr (c2d_format c)) @
     le_bytes 4 (c2d_width c) @ le_bytes 4 (c2d_height c)"

record VirtioGpuCmdResourceAttachBacking =
  att_header :: VirtioGpuCtrlHdr
  att_resource_id :: u32
  att_nr_entries :: u32
  att_addr :: u64
  att_length :: u32
  att_padding :: u32

definition VirtioGpuCmdResourceAttachBacking_bytes :: "VirtioGpuCmdResourceAttachBacking \<Rightarrow> u8 list" where
  "VirtioGpuCmdResourceAttachBacking_bytes c = VirtioGpuCtrlHdr_bytes (att_header c) @
     le_bytes 4 (att_resource_id c) @ le_bytes 4 (att_nr_entries c) @ le_bytes 8 (att_addr c) @
     le_bytes 4 (att_length c) @ le_bytes 4 (att_padding c)"

record VirtioGpuCmdSetScanout =
  scan_header :: VirtioGpuCtrlHdr
  scan_r :: VirtioGpuRect
  scan_scanout_id :: u32
  scan_resource_id :: u32

definition VirtioGpuCmdSetScanout_bytes :: "VirtioGpuCmdSetScanout \<Rightarrow> u8 list" where
  "VirtioGpuCmdSetScanout_bytes c = VirtioGpuCtrlHdr_bytes (scan_header c) @ VirtioGpuRect_bytes (scan_r c) @
     le_bytes 4 (scan_scanout_id c) @ le_bytes 4 (scan_resource_id c)"

record VirtioGpuCmdTransferToHost2d =
  xfer_header :: VirtioGpuCtrlHdr
  xfer_r :: VirtioGpuRect
  xfer_offset :: u64
  xfer_resource_id :: u32
  xfer_padding :: u32

definition VirtioGpuCmdTransferToHost2d_bytes :: "VirtioGpuCmdTransferToHost2d \<Rightarrow> u8 list" where
  "VirtioGpuCmdTransferToHost2d_bytes c = VirtioGpuCtrlHdr_bytes (xfer_header c) @ VirtioGpuRect_bytes (xfer_r c) @
     le_bytes 8 (xfer_offset c) @ le_bytes 4 (xfer_resource_id c) @ le_bytes 4 (xfer_padding c)"

record VirtioGpuCmdResourceFlush =
  flush_header :: VirtioGpuCtrlHdr
  flush_r :: VirtioGpuRect
  flush_resource_id :: u32
  flush_padding :: u32

definition VirtioGpuCmdResourceFlush_bytes :: "VirtioGpuCmdResourceFlush \<Rightarrow> u8 list" where
  "VirtioGpuCmdResourceFlush_bytes c = VirtioGpuCtrlHdr_bytes (flush_header c) @ VirtioGpuRect_bytes (flush_r c) @
     le_bytes 4 (flush_resource_id c) @ le_bytes 4 (flush_padding c)"

text \<open>A \<^verbatim>\<open>char\<close> is four bytes.\<close>

record VirtioGpuCmdCtxCreate =
  ctx_header :: VirtioGpuCtrlHdr
  ctx_nlen :: u32
  ctx_context_init :: u32
  ctx_debug_name :: "u32 list"

definition VirtioGpuCmdCtxCreate_bytes :: "VirtioGpuCmdCtxCreate \<Rightarrow> u8 list" where
  "VirtioGpuCmdCtxCreate_bytes c = VirtioGpuCtrlHdr_bytes (ctx_header c) @ le_bytes 4 (ctx_nlen c) @
     le_bytes 4 (ctx_context_init c) @ concat (map (le_bytes 4) (ctx_debug_name c))"

record VirtioGpuCmdGetCapsetInfo =
  caps_header :: VirtioGpuCtrlHdr
  caps_capset_index :: u32
  caps_padding :: u32

definition VirtioGpuCmdGetCapsetInfo_bytes :: "VirtioGpuCmdGetCapsetInfo \<Rightarrow> u8 list" where
  "VirtioGpuCmdGetCapsetInfo_bytes c = VirtioGpuCtrlHdr_bytes (caps_header c) @
     le_bytes 4 (caps_capset_index c) @ le_bytes 4 (caps_padding c)"

record VirtioGpuCmdSubmit3d =
  sub_header :: VirtioGpuCtrlHdr
  sub_len :: u32
  sub_buffer :: "u32 list"

definition VirtioGpuCmdSubmit3d_bytes :: "u32 \<Rightarrow> VirtioGpuCmdSubmit3d \<Rightarrow> u8 list" where
  "VirtioGpuCmdSubmit3d_bytes undef c = VirtioGpuCtrlHdr_bytes (sub_header c) @ le_bytes 4 (sub_len c) @
     concat (map (le_bytes 4) (sub_buffer c)) @ le_bytes 4 undef"

record VirglRendererResourceCreateArgs =
  args_handle :: u32
  args_target :: PipeTextureTarget
  args_format :: string
  args_bind :: u32
  args_width :: u32
  args_height :: u32
  args_depth :: u32
  args_array_size :: u32
  args_last_level :: u32
  args_nr_samples :: u32
  args_flags :: u32

definition VirglRendererResourceCreateArgs_default :: VirglRendererResourceCreateArgs where
  "VirglRendererResourceCreateArgs_default = \<lparr> args_handle = 0, args_target = PIPE_TEXTURE_2D,
     args_format = ''VIRGL_FORMAT_R8G8B8A8_UNORM'', args_bind = PIPE_BIND_RENDER_TARGET, args_width = 128,
     args_height = 128, args_depth = 1, args_array_size = 1, args_last_level = 0, args_nr_samples = 0,
     args_flags = 0 \<rparr>"

text \<open>Only names of the table occur.\<close>

definition format_repr :: "string \<Rightarrow> u32" where
  "format_repr name = (case VirglFormats_repr name of None \<Rightarrow> 0 | Some v \<Rightarrow> v)"

definition VirglRendererResourceCreateArgs_bytes :: "VirglRendererResourceCreateArgs \<Rightarrow> u8 list" where
  "VirglRendererResourceCreateArgs_bytes a =
     le_bytes 4 (args_handle a) @ le_bytes 4 (PipeTextureTarget_repr (args_target a)) @
     le_bytes 4 (format_repr (args_format a)) @ le_bytes 4 (args_bind a) @ le_bytes 4 (args_width a) @
     le_bytes 4 (args_height a) @ le_bytes 4 (args_depth a) @ le_bytes 4 (args_array_size a) @
     le_bytes 4 (args_last_level a) @ le_bytes 4 (args_nr_samples a) @ le_bytes 4 (args_flags a)"

record VirtioGpuCmdCtxAttachResource =
  car_header :: VirtioGpuCtrlHdr
  car_handle :: u32
  car_padding :: u32

definition VirtioGpuCmdCtxAttachResource_bytes :: "VirtioGpuCmdCtxAttachResource \<Rightarrow> u8 list" where
  "VirtioGpuCmdCtxAttachResource_bytes c = VirtioGpuCtrlHdr_bytes (car_header c) @
     le_bytes 4 (car_handle c) @ le_bytes 4 (car_padding c)"

record VirtioGpuCmdResourceCreate3d =
  c3d_header :: VirtioGpuCtrlHdr
  c3d_args :: VirglRendererResourceCreateArgs
  c3d_padding :: u32

definition VirtioGpuCmdResourceCreate3d_bytes :: "VirtioGpuCmdResourceCreate3d \<Rightarrow> u8 list" where
  "VirtioGpuCmdResourceCreate3d_bytes c = VirtioGpuCtrlHdr_bytes (c3d_header c) @
     VirglRendererResourceCreateArgs_bytes (c3d_args c) @ le_bytes 4 (c3d_padding c)"

subsection \<open>The 3D command stream\<close>

definition cmd_clear :: "u32 list \<Rightarrow> u32 \<Rightarrow> u8 \<times> u8 \<times> u8 \<times> u8 \<Rightarrow> u32 list" where
  "cmd_clear buffer buffers rgba =
     (let (r, g, b, a) = rgba; len = 8
      in buffer @ [push_bit 16 len + push_bit 8 0 + Cmd3d_repr VIRGL_CCMD_CLEAR, buffers,
           ucast r, ucast g, ucast b, ucast a, 0, 0, 0])"

definition cmd_set_framebuffer_state :: "u32 list \<Rightarrow> u32 list \<Rightarrow> u32 list" where
  "cmd_set_framebuffer_state buffer handles =
     (let len = of_nat (length handles) + 2
      in buffer @ [push_bit 16 len + push_bit 8 0 + Cmd3d_repr VIRGL_CCMD_SET_FRAMEBUFFER_STATE,
           of_nat (length handles), 0] @ handles)"

definition cmd_create_surface :: "u32 list \<Rightarrow> u32 \<Rightarrow> string \<Rightarrow> u32 list" where
  "cmd_create_surface buffer handle format =
     (let len = 5
      in buffer @ [push_bit 16 len OR push_bit 8 (VirglObjectType_repr VIRGL_OBJECT_SURFACE) OR
             Cmd3d_repr VIRGL_CCMD_CREATE_OBJECT, handle, handle, format_repr format, 0, 0])"

subsection \<open>The requests of the driver\<close>

abbreviation hdr_of :: "VirtioGpuCtrlType \<Rightarrow> VirtioGpuCtrlHdr" where
  "hdr_of t \<equiv> VirtioGpuCtrlHdr_default\<lparr> hdr_type := t \<rparr>"

abbreviation hdr_ctx1 :: "VirtioGpuCtrlType \<Rightarrow> VirtioGpuCtrlHdr" where
  "hdr_ctx1 t \<equiv> VirtioGpuCtrlHdr_default\<lparr> hdr_type := t, hdr_ctx_id := 1 \<rparr>"

definition transfer_request :: "VirtioGpuRect \<Rightarrow> u8 list" where
  "transfer_request r = VirtioGpuCmdTransferToHost2d_bytes
     \<lparr> xfer_header = hdr_of VirtioGpuCmdTransferToHost2d, xfer_r = r, xfer_offset = 0,
       xfer_resource_id = 1, xfer_padding = 0 \<rparr>"

definition flush_request :: "VirtioGpuRect \<Rightarrow> u8 list" where
  "flush_request r = VirtioGpuCmdResourceFlush_bytes
     \<lparr> flush_header = hdr_of VirtioGpuCmdResourceFlush, flush_r = r, flush_resource_id = 1, flush_padding = 0 \<rparr>"

definition attach_request :: "VirtioGpuCtrlHdr \<Rightarrow> u32 \<Rightarrow> u64 \<Rightarrow> nat \<Rightarrow> u8 list" where
  "attach_request h resource addr pixels = VirtioGpuCmdResourceAttachBacking_bytes
     \<lparr> att_header = h, att_resource_id = resource, att_nr_entries = 1, att_addr = addr,
       att_length = of_nat (4 * pixels), att_padding = 0 \<rparr>"

definition debug_name :: "u32 list" where
  "debug_name = fold (\<lambda>(i, c) d. d[i := c]) (enumerate 0 (map (\<lambda>c. of_nat (of_char c)) ''Debug'' @ [0]))
     (replicate 64 (of_nat (of_char (CHR ''1''))))"

text \<open>The size the driver forces on the display, and the pages it needs for a buffer of pixels.\<close>

definition driver_rect :: "VirtioGpuDisplay \<Rightarrow> VirtioGpuRect" where
  "driver_rect d = (disp_rect d)\<lparr> rect_w := 1600, rect_h := 900 \<rparr>"

definition capacity_of :: "VirtioGpuRect \<Rightarrow> nat" where
  "capacity_of r = unat (rect_w r * rect_h r)"

definition pages_needed :: "nat \<Rightarrow> nat" where
  "pages_needed capacity = (let framebuffer_bytes = capacity * 4 in 1 + framebuffer_bytes div 4096)"

text \<open>Before the display is known: the display and the capability sets.\<close>

definition display_requests :: "u32 \<Rightarrow> u8 list list" where
  "display_requests num_capsets =
     VirtioGpuCtrlHdr_bytes (hdr_of VirtioGpuCmdGetDisplayInfo) #
     map (\<lambda>i. VirtioGpuCmdGetCapsetInfo_bytes \<lparr> caps_header = hdr_of VirtioGpuCmdGetCapsetInfo,
            caps_capset_index = of_nat i, caps_padding = 0 \<rparr>) [0..<unat num_capsets] @
     [VirtioGpuCtrlHdr_bytes (hdr_of VirtioGpuCmdGetEdid)]"

text \<open>The 2D part: \<open>addr\<close> is the start of the pages of the frame buffer.\<close>

definition setup_2d_requests :: "VirtioGpuRect \<Rightarrow> u64 \<Rightarrow> u8 list list" where
  "setup_2d_requests r addr =
     [VirtioGpuCmdResourceCreate2d_bytes \<lparr> c2d_header = hdr_of VirtioGpuCmdResourceCreate2d,
        c2d_resource_id = 1, c2d_format = VIRTIO_GPU_FORMAT_R8G8B8A8_UNORM,
        c2d_width = rect_w r, c2d_height = rect_h r \<rparr>,
      attach_request (hdr_of VirtioGpuCmdResourceAttachBacking) 1 addr (capacity_of r),
      VirtioGpuCmdSetScanout_bytes \<lparr> scan_header = hdr_of VirtioGpuCmdSetScanout, scan_r = r,
        scan_scanout_id = 0, scan_resource_id = 1 \<rparr>,
      transfer_request r,
      flush_request r]"

text \<open>The 3D part: the command stream is padded to 512 words, \<open>addr\<close> is the start of the pages of the
  texture and \<open>undef\<close> the undefined padding.\<close>

definition res_handle :: u32 where "res_handle = 2"

definition texture_args :: VirglRendererResourceCreateArgs where
  "texture_args = VirglRendererResourceCreateArgs_default\<lparr> args_width := 256, args_height := 256,
     args_handle := res_handle, args_bind := PIPE_BIND_SAMPLER_VIEW \<rparr>"

definition command_stream :: "u32 list" where
  "command_stream =
     (let buffer = [];
          buffer = cmd_create_surface buffer res_handle (args_format texture_args);
          buffer = cmd_set_framebuffer_state buffer [res_handle]
      in cmd_clear buffer PIPE_CLEAR_COLOR (255, 0, 0, 255))"

definition submit_request :: "u32 \<Rightarrow> u8 list" where
  "submit_request undef =
     (let len = of_nat (length command_stream);
          buffer = command_stream @ replicate (512 - length command_stream) 0
      in VirtioGpuCmdSubmit3d_bytes undef
           \<lparr> sub_header = hdr_ctx1 VirtioGpuCmdSubmit3d, sub_len = len, sub_buffer = buffer \<rparr>)"

definition ctx_create_request :: "u8 list" where
  "ctx_create_request = VirtioGpuCmdCtxCreate_bytes \<lparr> ctx_header = hdr_ctx1 VirtioGpuCmdCtxCreate,
     ctx_nlen = 6, ctx_context_init = 0, ctx_debug_name = debug_name \<rparr>"

definition setup_3d_requests :: "u64 \<Rightarrow> u32 \<Rightarrow> u8 list list" where
  "setup_3d_requests addr undef =
     [ctx_create_request,
      VirtioGpuCmdResourceCreate3d_bytes \<lparr> c3d_header = hdr_ctx1 VirtioGpuCmdResourceCreate3d,
        c3d_args = texture_args, c3d_padding = 0 \<rparr>,
      VirtioGpuCmdCtxAttachResource_bytes \<lparr> car_header = hdr_ctx1 VirtioGpuCmdCtxAttachResource,
        car_handle = res_handle, car_padding = 0 \<rparr>,
      attach_request (hdr_ctx1 VirtioGpuCmdResourceAttachBacking) res_handle addr (256 * 256),
      submit_request undef]"

subsection \<open>The device's view\<close>

text \<open>The requests as the specification of the device lays them out, by the numbers and offsets it gives:
  a message that is shorter than its layout is no request.\<close>

definition field32 :: "nat \<Rightarrow> u8 list \<Rightarrow> u32" where
  "field32 k bs = le_word (take 4 (drop k bs))"

definition field64 :: "nat \<Rightarrow> u8 list \<Rightarrow> u64" where
  "field64 k bs = le_word (take 8 (drop k bs))"

definition field_rect :: "nat \<Rightarrow> u8 list \<Rightarrow> VirtioGpuRect" where
  "field_rect k bs = \<lparr> rect_x = field32 k bs, rect_y = field32 (k + 4) bs, rect_w = field32 (k + 8) bs,
     rect_h = field32 (k + 12) bs \<rparr>"

datatype gpu_request =
    GetDisplayInfo
  | GetCapsetInfo u32
  | GetEdid u32
  | Create2d u32 u32 u32 u32
  | AttachBacking u32 "(u64 \<times> u32) list"
  | SetScanout VirtioGpuRect u32 u32
  | Transfer2d VirtioGpuRect u64 u32
  | Flush VirtioGpuRect u32
  | CtxCreate u32 u32 "u8 list"
  | Create3d u32 "u32 list"
  | CtxAttach u32 u32
  | Submit3d u32 "u8 list"

definition gpu_layout :: "u32 \<Rightarrow> (nat \<times> (u8 list \<Rightarrow> gpu_request)) option" where
  "gpu_layout t =
     (if t = 0x100 then Some (24, \<lambda>bs. GetDisplayInfo)
      else if t = 0x101 then Some (40, \<lambda>bs. Create2d (field32 24 bs) (field32 28 bs) (field32 32 bs) (field32 36 bs))
      else if t = 0x103 then Some (48, \<lambda>bs. SetScanout (field_rect 24 bs) (field32 40 bs) (field32 44 bs))
      else if t = 0x104 then Some (48, \<lambda>bs. Flush (field_rect 24 bs) (field32 40 bs))
      else if t = 0x105 then Some (56, \<lambda>bs. Transfer2d (field_rect 24 bs) (field64 40 bs) (field32 48 bs))
      else if t = 0x106 then Some (32, \<lambda>bs. AttachBacking (field32 24 bs)
        (map (\<lambda>i. (field64 (32 + 16 * i) bs, field32 (40 + 16 * i) bs)) [0..<unat (field32 28 bs)]))
      else if t = 0x108 then Some (32, \<lambda>bs. GetCapsetInfo (field32 24 bs))
      else if t = 0x10a then Some (32, \<lambda>bs. GetEdid (field32 24 bs))
      else if t = 0x200 then Some (96, \<lambda>bs. CtxCreate (field32 16 bs) (field32 24 bs) (take 64 (drop 32 bs)))
      else if t = 0x202 then Some (32, \<lambda>bs. CtxAttach (field32 16 bs) (field32 24 bs))
      else if t = 0x204 then Some (72, \<lambda>bs. Create3d (field32 16 bs) (map (\<lambda>i. field32 (24 + 4 * i) bs) [0..<11]))
      else if t = 0x207 then Some (32, \<lambda>bs. Submit3d (field32 16 bs) (take (unat (field32 24 bs)) (drop 32 bs)))
      else None)"

definition gpu_decode :: "u8 list \<Rightarrow> gpu_request option" where
  "gpu_decode bs =
     (case gpu_layout (field32 0 bs) of
        None \<Rightarrow> None
      | Some (n, f) \<Rightarrow> if n \<le> length bs then Some (f bs) else None)"

text \<open>What the specification asks of a driver about 2D resources.\<close>

record gpu_resource =
  gres_w :: nat
  gres_h :: nat
  gres_backing :: nat

definition rect_inside :: "VirtioGpuRect \<Rightarrow> gpu_resource \<Rightarrow> bool" where
  "rect_inside r g \<longleftrightarrow> unat (rect_x r) + unat (rect_w r) \<le> gres_w g \<and> unat (rect_y r) + unat (rect_h r) \<le> gres_h g"

fun conform_step :: "gpu_request \<Rightarrow> (u32 \<Rightarrow> gpu_resource option) \<Rightarrow> (u32 \<Rightarrow> gpu_resource option) option" where
  "conform_step (Create2d i f w h) m =
     (if i \<noteq> 0 \<and> m i = None \<and> f \<in> {1, 2, 3, 4, 67, 68, 121, 134}
      then Some (m(i \<mapsto> \<lparr> gres_w = unat w, gres_h = unat h, gres_backing = 0 \<rparr>)) else None)"
| "conform_step (AttachBacking i es) m =
     (case m i of None \<Rightarrow> None
      | Some g \<Rightarrow> Some (m(i \<mapsto> g\<lparr> gres_backing := sum_list (map (\<lambda>e. unat (snd e)) es) \<rparr>)))"
| "conform_step (SetScanout r s i) m =
     (case m i of None \<Rightarrow> None | Some g \<Rightarrow> if rect_inside r g then Some m else None)"
| "conform_step (Transfer2d r off i) m =
     (case m i of None \<Rightarrow> None
      | Some g \<Rightarrow> if rect_inside r g \<and> unat off + 4 * gres_w g * gres_h g \<le> gres_backing g then Some m else None)"
| "conform_step (Flush r i) m =
     (case m i of None \<Rightarrow> None | Some g \<Rightarrow> if rect_inside r g then Some m else None)"
| "conform_step _ m = Some m"

fun conforms :: "gpu_request list \<Rightarrow> (u32 \<Rightarrow> gpu_resource option) \<Rightarrow> bool" where
  "conforms [] m = True"
| "conforms (q # qs) m = (case conform_step q m of None \<Rightarrow> False | Some m \<Rightarrow> conforms qs m)"

text \<open>A command stream: each command is a word with the length, an object type and the command, then
  as many words as the length says.\<close>

function virgl_parse :: "u32 list \<Rightarrow> (u32 \<times> u32 \<times> u32 list) list option" where
  "virgl_parse [] = Some []"
| "virgl_parse (w # ws) =
     (let n = unat (drop_bit 16 w) in
      if length ws < n then None
      else map_option ((#) (w AND 0xFF, drop_bit 8 w AND 0xFF, take n ws)) (virgl_parse (drop n ws)))"
  by pat_completeness auto
termination by (relation "measure length") auto

section \<open>Reading fields back\<close>

lemma le_word_le_bytes_self [simp]:
  "le_word (le_bytes 4 (w :: u32)) = w" "le_word (le_bytes 8 (v :: u64)) = v"
  by (simp_all add: le_word_le_bytes take_bit_word_eq_self)

lemma length_hdr [simp]: "length (VirtioGpuCtrlHdr_bytes h) = 21 + length (hdr_padding h)"
  by (simp add: VirtioGpuCtrlHdr_bytes_def)

lemma length_rect [simp]: "length (VirtioGpuRect_bytes r) = 16"
  by (simp add: VirtioGpuRect_bytes_def)

lemma hdr_default_padding [simp]: "hdr_padding VirtioGpuCtrlHdr_default = [0, 0, 0]"
  by (simp add: VirtioGpuCtrlHdr_default_def)

lemma field32_hdr [simp]: "field32 0 (VirtioGpuCtrlHdr_bytes h @ bs) = VirtioGpuCtrlType_repr (hdr_type h)"
  by (simp add: field32_def VirtioGpuCtrlHdr_bytes_def)

lemma field_ctx [simp]: "field32 16 (VirtioGpuCtrlHdr_bytes h @ bs) = hdr_ctx_id h"
  by (simp add: field32_def VirtioGpuCtrlHdr_bytes_def)

lemma field32_skip:
  "length xs \<le> k \<Longrightarrow> field32 k (xs @ ys) = field32 (k - length xs) ys"
  "field32 0 (le_bytes 4 w @ ys) = w" "field32 0 (le_bytes 4 w) = w"
  by (simp_all add: field32_def)

lemma field64_skip:
  "length xs \<le> k \<Longrightarrow> field64 k (xs @ ys) = field64 (k - length xs) ys"
  "field64 0 (le_bytes 8 v @ ys) = v" "field64 0 (le_bytes 8 v) = v"
  by (simp_all add: field64_def)

lemma field_rect_skip:
  "length xs \<le> k \<Longrightarrow> field_rect k (xs @ ys) = field_rect (k - length xs) ys"
  "field_rect 0 (VirtioGpuRect_bytes r @ ys) = r"
  by (simp_all add: field_rect_def field32_skip VirtioGpuRect_bytes_def)

lemmas field_skips = field32_skip field64_skip field_rect_skip

lemma le_bytes_4: "le_bytes 4 w = [ucast w, ucast (drop_bit 8 w), ucast (drop_bit 16 w), ucast (drop_bit 24 w)]"
  by (simp add: numeral_eq_Suc drop_bit_drop_bit)

section \<open>The command stream\<close>

lemma virgl_parse_append:
  "virgl_parse xs = Some cs \<Longrightarrow> virgl_parse (xs @ ys) = map_option ((@) cs) (virgl_parse ys)"
proof (induction xs arbitrary: cs rule: virgl_parse.induct)
  case 1
  then show ?case by (cases "virgl_parse ys") auto
next
  case (2 w ws)
  define n where "n = unat (drop_bit 16 w)"
  from 2 have n: "n \<le> length ws" by (simp add: n_def [symmetric] Let_def split: if_splits)
  with 2 obtain ds where ds: "virgl_parse (drop n ws) = Some ds" "cs = (w AND 0xFF, drop_bit 8 w AND 0xFF, take n ws) # ds"
    by (auto simp: n_def [symmetric] Let_def)
  from 2(1) [OF n_def] n ds have "virgl_parse (drop n ws @ ys) = map_option ((@) ds) (virgl_parse ys)" by simp
  with n ds show ?case by (cases "virgl_parse ys") (simp_all add: n_def [symmetric] Let_def)
qed

lemma virgl_parse_one:
  assumes "unat (drop_bit 16 w) = length ws"
  shows "virgl_parse (w # ws) = Some [(w AND 0xFF, drop_bit 8 w AND 0xFF, ws)]"
  using assms by simp

lemma stream_header:
  assumes "unat len < 2 ^ 16" and "unat t < 2 ^ 8" and "unat c < 2 ^ 8"
  shows "drop_bit 16 (push_bit 16 len OR push_bit 8 t OR c :: u32) = len"
    and "drop_bit 8 (push_bit 16 len OR push_bit 8 t OR c :: u32) AND 0xFF = t"
    and "(push_bit 16 len OR push_bit 8 t OR c :: u32) AND 0xFF = c"
proof -
  have b: "bit len n \<Longrightarrow> n < 16" "bit t n \<Longrightarrow> n < 8" "bit c n \<Longrightarrow> n < 8" for n
    using assms not_bit_of_less not_le_imp_less by blast+
  have m: "(0xFF :: u32) = mask 8" by (simp add: mask_eq_exp_minus_1)
  show "drop_bit 16 (push_bit 16 len OR push_bit 8 t OR c) = len"
    by (rule bit_word_eqI) (auto simp: bit_simps dest: b)
  show "drop_bit 8 (push_bit 16 len OR push_bit 8 t OR c) AND 0xFF = t"
    unfolding m by (rule bit_word_eqI) (auto simp: bit_simps dest: b)
  show "(push_bit 16 len OR push_bit 8 t OR c) AND 0xFF = c"
    unfolding m by (rule bit_word_eqI) (auto simp: bit_simps dest: b)
qed


lemma stream_header_add:
  assumes "unat len < 2 ^ 16" and "unat c < 2 ^ 8"
  shows "push_bit 16 len + push_bit 8 0 + c = push_bit 16 len OR push_bit 8 0 OR (c :: u32)"
proof -
  have "bit len n \<Longrightarrow> n < 16" "bit c n \<Longrightarrow> n < 8" for n
    using assms not_bit_of_less not_le_imp_less by blast+
  then have "push_bit 16 len AND c = 0" by (intro bit_word_eqI) (fastforce simp: bit_simps)
  then show ?thesis by (simp add: disjunctive_add_eq_or)
qed

section \<open>Properties\<close>

text \<open>C28: The 3D command stream. On a buffer that already holds a well-formed stream each of the three
  encoders appends exactly one well-formed command, whose length field counts the words that follow,
  with the object type, command and arguments meant; so the stream of the driver is the creation of the
  surface, the selection of the frame buffer and the clearing, 19 words in all.\<close>

theorem stream_well_formed:
  assumes "virgl_parse buffer = Some cs" and "length handles < 65534"
  shows "virgl_parse (cmd_create_surface buffer handle format) =
      Some (cs @ [(1, 8, [handle, handle, format_repr format, 0, 0])]) \<and>
    virgl_parse (cmd_set_framebuffer_state buffer handles) =
      Some (cs @ [(5, 0, [of_nat (length handles), 0] @ handles)]) \<and>
    virgl_parse (cmd_clear buffer buffers (r, g, b, a)) =
      Some (cs @ [(7, 0, [buffers, ucast r, ucast g, ucast b, ucast a, 0, 0, 0])]) \<and>
    map (\<lambda>(c, t, p). (c, t, length p)) (the (virgl_parse command_stream)) = [(1, 8, 5), (5, 0, 3), (7, 0, 8)] \<and>
    length command_stream = 19"
proof -
  have surface: "virgl_parse (cmd_create_surface buf h f) = Some (ds @ [(1, 8, [h, h, format_repr f, 0, 0])])"
    if "virgl_parse buf = Some ds" for buf ds h f
    using virgl_parse_append [OF that] stream_header [of 5 8 1]
    unfolding cmd_create_surface_def Let_def by (subst virgl_parse_append [OF that], subst virgl_parse_one) simp_all
  have fb: "virgl_parse (cmd_set_framebuffer_state buf hs) = Some (ds @ [(5, 0, [of_nat (length hs), 0] @ hs)])"
    if "virgl_parse buf = Some ds" and "length hs < 65534" for buf ds hs
  proof -
    have u: "unat (of_nat (length hs) + 2 :: u32) = length hs + 2"
      using that(2) by (simp add: unat_word_ariths unat_of_nat)
    then show ?thesis
      using that(2) stream_header [of "of_nat (length hs) + 2" 0 5] stream_header_add [of "of_nat (length hs) + 2" 5]
      unfolding cmd_set_framebuffer_state_def Let_def
      by (subst virgl_parse_append [OF that(1)], subst append_Cons, subst virgl_parse_one) simp_all
  qed
  have clear: "virgl_parse (cmd_clear buf bs (r, g, b, a)) =
      Some (ds @ [(7, 0, [bs, ucast r, ucast g, ucast b, ucast a, 0, 0, 0])])"
    if "virgl_parse buf = Some ds" for buf ds bs r g b a
    using stream_header [of 8 0 7] stream_header_add [of 8 7]
    unfolding cmd_clear_def Let_def prod.case
    by (subst virgl_parse_append [OF that], subst virgl_parse_one) simp_all
  have "virgl_parse command_stream = Some ([] @ [(1, 8, [res_handle, res_handle, format_repr (args_format texture_args), 0, 0])] @
      [(5, 0, [1, 0, res_handle])] @ [(7, 0, [PIPE_CLEAR_COLOR, 255, 0, 0, 255, 0, 0, 0])])"
    unfolding command_stream_def Let_def
    by (subst clear, rule fb, rule surface) simp_all
  moreover have "length command_stream = 19"
    by (simp add: command_stream_def cmd_clear_def cmd_set_framebuffer_state_def cmd_create_surface_def Let_def)
  ultimately show ?thesis using surface fb clear assms by simp
qed

theorem stream_well_formed_witness:
  "virgl_parse (cmd_set_framebuffer_state (cmd_create_surface [] 2 ''VIRGL_FORMAT_NONE'') [2, 3]) \<noteq> None \<and>
   virgl_parse (cmd_create_surface [] 2 ''VIRGL_FORMAT_NONE'') =
     Some [(1, 8, [2, 2, format_repr ''VIRGL_FORMAT_NONE'', 0, 0])]"
proof -
  have first: "virgl_parse (cmd_create_surface [] 2 ''VIRGL_FORMAT_NONE'') =
      Some [(1, 8, [2, 2, format_repr ''VIRGL_FORMAT_NONE'', 0, 0])]"
    using stream_well_formed [of "[]" "[]" "[]" 2 "''VIRGL_FORMAT_NONE''"] by simp
  with stream_well_formed [OF first, of "[2, 3]"] show ?thesis by simp
qed

text \<open>C29: The 2D start-up. The device reads each of the five requests as the driver means it, whatever
  the display and wherever the frame buffer is; the frame buffer fits in the pages the driver asks for
  and every request, of at most 56 bytes, in the page of its descriptor; and the sequence does what the specification asks of
  a driver exactly when the display is at the origin (the driver replaces the size of the display but
  keeps its position).\<close>

theorem setup_2d_conforms:
  "map gpu_decode (setup_2d_requests (driver_rect d) addr) =
     map Some [Create2d 1 67 1600 900, AttachBacking 1 [(addr, 5760000)],
       SetScanout (driver_rect d) 0 1, Transfer2d (driver_rect d) 0 1, Flush (driver_rect d) 1] \<and>
   4 * capacity_of (driver_rect d) \<le> 4096 * pages_needed (capacity_of (driver_rect d)) \<and>
   map length (setup_2d_requests (driver_rect d) addr) = [40, 48, 48, 56, 48] \<and>
   (conforms (map (the \<circ> gpu_decode) (setup_2d_requests (driver_rect d) addr)) Map.empty \<longleftrightarrow>
      rect_x (disp_rect d) = 0 \<and> rect_y (disp_rect d) = 0)"
proof -
  let ?r = "driver_rect d"
  have wh: "rect_w ?r = 1600" "rect_h ?r = 900" "capacity_of ?r = 1440000"
    "rect_x ?r = rect_x (disp_rect d)" "rect_y ?r = rect_y (disp_rect d)"
    by (simp_all add: driver_rect_def capacity_of_def)
  have d: "map gpu_decode (setup_2d_requests ?r addr) =
     map Some [Create2d 1 67 1600 900, AttachBacking 1 [(addr, 5760000)], SetScanout ?r 0 1, Transfer2d ?r 0 1, Flush ?r 1]"
    by (simp add: setup_2d_requests_def transfer_request_def flush_request_def attach_request_def gpu_decode_def
        gpu_layout_def VirtioGpuCmdResourceCreate2d_bytes_def VirtioGpuCmdResourceAttachBacking_bytes_def
        VirtioGpuCmdSetScanout_bytes_def VirtioGpuCmdTransferToHost2d_bytes_def VirtioGpuCmdResourceFlush_bytes_def
        field_skips wh)
  have "map (the \<circ> gpu_decode) (setup_2d_requests ?r addr) = map the (map gpu_decode (setup_2d_requests ?r addr))"
    by simp
  also have "\<dots> = [Create2d 1 67 1600 900, AttachBacking 1 [(addr, 5760000)], SetScanout ?r 0 1, Transfer2d ?r 0 1, Flush ?r 1]"
    unfolding d by simp
  finally have "conforms (map (the \<circ> gpu_decode) (setup_2d_requests ?r addr)) Map.empty \<longleftrightarrow>
      rect_x (disp_rect d) = 0 \<and> rect_y (disp_rect d) = 0"
    by (simp add: rect_inside_def wh unat_eq_0)
  moreover have "map length (setup_2d_requests ?r addr) = [40, 48, 48, 56, 48]"
    by (simp add: setup_2d_requests_def transfer_request_def flush_request_def attach_request_def
        VirtioGpuCmdResourceCreate2d_bytes_def VirtioGpuCmdResourceAttachBacking_bytes_def
        VirtioGpuCmdSetScanout_bytes_def VirtioGpuCmdTransferToHost2d_bytes_def VirtioGpuCmdResourceFlush_bytes_def)
  ultimately show ?thesis using d by (simp add: wh pages_needed_def)
qed

text \<open>C40: Requests the device does not read as the driver means them. The request for the EDID is a bare
  header, shorter than its layout. The name of the 3D context is stored as 64 characters of four bytes,
  so the device finds \<^verbatim>\<open>D\<close> and zeros where the name should be. The submission of the command stream has no
  padding after its length, which counts words instead of bytes: of the 19 words the device takes 19
  bytes, and it starts at the second word.\<close>

theorem requests_misread:
  "gpu_decode (last (display_requests n)) = None \<and>
   (\<exists>name. gpu_decode ctx_create_request = Some (CtxCreate 1 6 name) \<and> take 6 name = [68, 0, 0, 0, 101, 0]) \<and>
   gpu_decode (submit_request undef) =
     Some (Submit3d 1 (take 19 (concat (map (le_bytes 4) (tl command_stream)))))"
proof -
  have edid: "gpu_decode (last (display_requests n)) = None"
    using field32_hdr [of "hdr_of VirtioGpuCmdGetEdid" "[]"] by (simp add: display_requests_def gpu_decode_def gpu_layout_def)
  have name: "debug_name = [68, 101, 98, 117, 103, 0] @ replicate 58 49"
    by (simp add: debug_name_def numeral_eq_Suc)
  have ctx: "gpu_decode ctx_create_request =
      Some (CtxCreate 1 6 (take 64 (concat (map (le_bytes 4) debug_name))))"
    by (simp add: ctx_create_request_def VirtioGpuCmdCtxCreate_bytes_def gpu_decode_def gpu_layout_def field_skips
        length_concat comp_def) (simp add: name sum_list_replicate)
  have "take 6 (take 64 (concat (map (le_bytes 4) debug_name))) = [68, 0, 0, 0, 101, 0]"
    by (simp add: name le_bytes_4)
  with ctx have "\<exists>name. gpu_decode ctx_create_request = Some (CtxCreate 1 6 name) \<and> take 6 name = [68, 0, 0, 0, 101, 0]"
    by blast
  moreover have "gpu_decode (submit_request undef) =
     Some (Submit3d 1 (take 19 (concat (map (le_bytes 4) (tl command_stream)))))"
  proof -
    have len: "length command_stream = 19"
      by (simp add: command_stream_def cmd_clear_def cmd_set_framebuffer_state_def cmd_create_surface_def Let_def)
    obtain w ws where ws: "command_stream = w # ws" using len by (cases command_stream) auto
    have "length (w # ws) = 19" using len ws by metis
    then have n: "length ws = 18" by simp
    have bytes: "length (concat (map (le_bytes 4) xs)) = 4 * length xs" for xs :: "u32 list"
      by (induction xs) auto
    show ?thesis
      by (simp add: submit_request_def VirtioGpuCmdSubmit3d_bytes_def gpu_decode_def gpu_layout_def field_skips
          ws n bytes)
  qed
  ultimately show ?thesis using edid by blast
qed

end
