(* ===== verification/Executor.thy ===== *)
theory Executor
  imports Fomos_Prelude
begin

text \<open>
  The cooperative executor, \<^verbatim>\<open>src/bootloader/kernel/src/task/mod.rs\<close> and \<^verbatim>\<open>task/executor.rs\<close>: task ids, the
  bounded queues of tasks to run, to spawn and to wake after a yield, and the main loop.

  A future is opaque to the executor, so polling one is the parameter \<open>poll\<close>: given the task's id, its
  future and the rest of the world it returns the new world, the effects on the executor's queues in
  order (spawning through a \<^verbatim>\<open>Spawner\<close>, yielding, waking a task) and whether the future is done. The
  queues are those of the \<^verbatim>\<open>crossbeam\<close> crate; the locale \<open>bounded_queue\<close> states the contract the executor
  relies on, and the list model of the queues interprets it. The loop over the ready tasks runs on
  fuel, since a task may wake itself forever.

  The lemmas show that task ids are unique, that tasks which yield are polled round robin, each once
  per turn and in order, and what is lost when a queue is full.
\<close>

section \<open>Definitions\<close>

subsection \<open>Queues\<close>

text \<open>\<^verbatim>\<open>ArrayQueue\<close>: \<^verbatim>\<open>push\<close> fails on a full queue, \<^verbatim>\<open>pop\<close> on an empty one.\<close>

definition aq_push :: "nat \<Rightarrow> 'a \<Rightarrow> 'a list \<Rightarrow> 'a list option" where
  "aq_push cap x q = (if length q < cap then Some (q @ [x]) else None)"

definition aq_pop :: "'a list \<Rightarrow> ('a \<times> 'a list) option" where
  "aq_pop q = (case q of [] \<Rightarrow> None | x # q' \<Rightarrow> Some (x, q'))"

definition QUEUE_SIZE :: nat where
  "QUEUE_SIZE = 100"

subsection \<open>Tasks\<close>

record 'f Task =
  task_id :: u64
  task_future :: 'f

text \<open>The executor, with the two statics its tasks use: the queue \<^verbatim>\<open>YIELDERS\<close> (each waker is the id of
  the task it wakes) and the counter \<^verbatim>\<open>NEXT_ID\<close>.\<close>

record 'f Executor =
  tasks :: "u64 \<Rightarrow> 'f option"
  task_queue :: "u64 list"
  spawn_queue :: "'f Task list"
  waker_cache :: "u64 set"
  yielders :: "u64 list"
  next_id :: u64

definition Executor_new :: "u64 \<Rightarrow> u64 list \<Rightarrow> 'f Executor" where
  "Executor_new nid ys = \<lparr> tasks = Map.empty, task_queue = [], spawn_queue = [], waker_cache = {},
     yielders = ys, next_id = nid \<rparr>"

definition TaskId_new :: "'f Executor \<Rightarrow> u64 \<times> 'f Executor" where
  "TaskId_new e = (next_id e, e\<lparr> next_id := next_id e + 1 \<rparr>)"

definition Task_new :: "'f \<Rightarrow> 'f Executor \<Rightarrow> 'f Task \<times> 'f Executor" where
  "Task_new f e = (let (i, e) = TaskId_new e in (\<lparr> task_id = i, task_future = f \<rparr>, e))"

text \<open>\<^verbatim>\<open>Spawner::run\<close> and \<^verbatim>\<open>qpush\<close> ignore the result of the push.\<close>

definition Spawner_run :: "'f \<Rightarrow> 'f Executor \<Rightarrow> 'f Executor" where
  "Spawner_run f e =
     (let (t, e) = Task_new f e
      in case aq_push QUEUE_SIZE t (spawn_queue e) of
           None \<Rightarrow> e
         | Some q \<Rightarrow> e\<lparr> spawn_queue := q \<rparr>)"

definition Executor_spawn :: "'f Task \<Rightarrow> 'f Executor \<Rightarrow> 'f Executor res" where
  "Executor_spawn t e =
     (let old = tasks e (task_id t); e = e\<lparr> tasks := (tasks e)(task_id t \<mapsto> task_future t) \<rparr>
      in if old \<noteq> None then Inl (Panicked ''task with same ID already in tasks'')
         else case aq_push QUEUE_SIZE (task_id t) (task_queue e) of
                None \<Rightarrow> Inl QueueFull
              | Some q \<Rightarrow> Inr (e\<lparr> task_queue := q \<rparr>))"

definition wake_task :: "u64 \<Rightarrow> 'f Executor \<Rightarrow> 'f Executor res" where
  "wake_task i e =
     (case aq_push QUEUE_SIZE i (task_queue e) of
        None \<Rightarrow> Inl QueueFull
      | Some q \<Rightarrow> Inr (e\<lparr> task_queue := q \<rparr>))"

subsection \<open>Yielding\<close>

datatype 'f poll = Ready | Pending 'f

definition yielders_push :: "u64 \<Rightarrow> u64 list \<Rightarrow> u64 list" where
  "yielders_push waker ys = (case aq_push QUEUE_SIZE waker ys of None \<Rightarrow> ys | Some q \<Rightarrow> q)"

definition YieldOnce_poll :: "bool \<Rightarrow> u64 \<Rightarrow> u64 list \<Rightarrow> bool poll \<times> u64 list" where
  "YieldOnce_poll yielded waker ys =
     (if \<not> yielded then (Pending True, yielders_push waker ys) else (Ready, ys))"

subsection \<open>Running\<close>

datatype 'f effect = ESpawn 'f | EYield | EWake u64

type_synonym ('f, 'w) poller = "u64 \<Rightarrow> 'f \<Rightarrow> 'w \<Rightarrow> 'w \<times> 'f effect list \<times> 'f poll"

fun apply_effect :: "u64 \<Rightarrow> 'f effect \<Rightarrow> 'f Executor \<Rightarrow> 'f Executor res" where
  "apply_effect i (ESpawn f) e = Inr (Spawner_run f e)"
| "apply_effect i EYield e = Inr (e\<lparr> yielders := snd (YieldOnce_poll False i (yielders e)) \<rparr>)"
| "apply_effect i (EWake j) e = wake_task j e"

text \<open>The body of the loop of \<^verbatim>\<open>run_ready_tasks\<close> for a popped id.\<close>

definition poll_task :: "('f, 'w) poller \<Rightarrow> u64 \<Rightarrow> 'f Executor \<times> 'w \<Rightarrow> ('f Executor \<times> 'w) res" where
  "poll_task poll i s =
     (let (e, w) = s
      in case tasks e i of
           None \<Rightarrow> Inr (e, w)
         | Some f \<Rightarrow>
             (let e = e\<lparr> waker_cache := insert i (waker_cache e) \<rparr>;
                  (w, effs, r) = poll i f w
              in res_bind (res_fold (apply_effect i) effs e)
                   (\<lambda>e. case r of
                      Ready \<Rightarrow> Inr (e\<lparr> tasks := (tasks e)(i := None),
                                    waker_cache := waker_cache e - {i} \<rparr>, w)
                    | Pending f \<Rightarrow> Inr (e\<lparr> tasks := (tasks e)(i \<mapsto> f) \<rparr>, w))))"

fun run_ready_tasks :: "('f, 'w) poller \<Rightarrow> nat \<Rightarrow> 'f Executor \<times> 'w \<Rightarrow> ('f Executor \<times> 'w) res option" where
  "run_ready_tasks poll 0 s = None"
| "run_ready_tasks poll (Suc n) (e, w) =
     (case aq_pop (task_queue e) of
        None \<Rightarrow> Some (Inr (e, w))
      | Some (i, q) \<Rightarrow>
          (case poll_task poll i (e\<lparr> task_queue := q \<rparr>, w) of
             Inl p \<Rightarrow> Some (Inl p)
           | Inr s \<Rightarrow> run_ready_tasks poll n s))"

definition spawn_pending :: "'f Executor \<Rightarrow> 'f Executor res" where
  "spawn_pending e = res_fold Executor_spawn (spawn_queue e) (e\<lparr> spawn_queue := [] \<rparr>)"

definition wake_yielders :: "'f Executor \<Rightarrow> 'f Executor res" where
  "wake_yielders e = res_fold wake_task (yielders e) (e\<lparr> yielders := [] \<rparr>)"

text \<open>One turn of the loop of \<^verbatim>\<open>Executor::run\<close>; the flag says that the processor halts until the next
  interrupt.\<close>

definition run_turn :: "('f, 'w) poller \<Rightarrow> nat \<Rightarrow> 'f Executor \<times> 'w \<Rightarrow> (bool \<times> 'f Executor \<times> 'w) res option" where
  "run_turn poll fuel s =
     (case spawn_pending (fst s) of
        Inl p \<Rightarrow> Some (Inl p)
      | Inr e \<Rightarrow>
          (case run_ready_tasks poll fuel (e, snd s) of
             None \<Rightarrow> None
           | Some (Inl p) \<Rightarrow> Some (Inl p)
           | Some (Inr (e, w)) \<Rightarrow>
               (let halt = (task_queue e = [] \<and> spawn_queue e = [])
                in Some (res_map (\<lambda>e. (halt, e, w)) (wake_yielders e)))))"

subsection \<open>The simple executor\<close>

record 'f SimpleExecutor =
  simple_queue :: "'f list"

definition SimpleExecutor_new :: "'f SimpleExecutor" where
  "SimpleExecutor_new = \<lparr> simple_queue = [] \<rparr>"

definition SimpleExecutor_spawn :: "'f \<Rightarrow> 'f SimpleExecutor \<Rightarrow> 'f SimpleExecutor" where
  "SimpleExecutor_spawn t e = e\<lparr> simple_queue := simple_queue e @ [t] \<rparr>"

fun SimpleExecutor_run :: "('f \<Rightarrow> 'w \<Rightarrow> 'w \<times> 'f poll) \<Rightarrow> nat \<Rightarrow> 'f SimpleExecutor \<times> 'w \<Rightarrow>
    ('f SimpleExecutor \<times> 'w) option" where
  "SimpleExecutor_run poll 0 s = None"
| "SimpleExecutor_run poll (Suc n) (e, w) =
     (case simple_queue e of
        [] \<Rightarrow> Some (e, w)
      | t # q \<Rightarrow>
          (let (w, r) = poll t w
           in case r of
                Ready \<Rightarrow> SimpleExecutor_run poll n (e\<lparr> simple_queue := q \<rparr>, w)
              | Pending t \<Rightarrow> SimpleExecutor_run poll n (e\<lparr> simple_queue := q @ [t] \<rparr>, w)))"

subsection \<open>Specification vocabulary\<close>

definition task_ids :: "'f Executor \<Rightarrow> u64 list" where
  "task_ids e = map task_id (spawn_queue e)"

text \<open>Ids are handed out in order: every task, running or waiting to be spawned, has an id below the
  counter, and no two have the same.\<close>

definition executor_ok :: "'f Executor \<Rightarrow> bool" where
  "executor_ok e \<longleftrightarrow> distinct (task_ids e) \<and> set (task_ids e) \<inter> dom (tasks e) = {} \<and>
     (\<forall>i \<in> set (task_ids e) \<union> dom (tasks e). i < next_id e) \<and>
     length (task_queue e) \<le> QUEUE_SIZE \<and> length (spawn_queue e) \<le> QUEUE_SIZE \<and>
     length (yielders e) \<le> QUEUE_SIZE \<and> waker_cache e \<subseteq> dom (tasks e)"

text \<open>The number of tasks a list of effects spawns.\<close>

definition spawns :: "'f effect list \<Rightarrow> nat" where
  "spawns effs = length (filter (\<lambda>x. case x of ESpawn f \<Rightarrow> True | _ \<Rightarrow> False) effs)"

text \<open>The events that change the executor from outside of a poll, and polls.\<close>

inductive exec_step :: "('f, 'w) poller \<Rightarrow> 'f Executor \<times> 'w \<Rightarrow> 'f Executor \<times> 'w \<Rightarrow> bool" for poll where
  run_task: "task_queue e = i # q \<Longrightarrow> poll_task poll i (e\<lparr> task_queue := q \<rparr>, w) = Inr s \<Longrightarrow>
    exec_step poll (e, w) s"
| spawn_task: "spawn_queue e = t # q \<Longrightarrow> Executor_spawn t (e\<lparr> spawn_queue := q \<rparr>) = Inr e' \<Longrightarrow>
    exec_step poll (e, w) (e', w)"
| wake: "wake_task i e = Inr e' \<Longrightarrow> exec_step poll (e, w) (e', w)"
| wake_yielder: "yielders e = i # ys \<Longrightarrow> wake_task i (e\<lparr> yielders := ys \<rparr>) = Inr e' \<Longrightarrow>
    exec_step poll (e, w) (e', w)"
| spawner: "exec_step poll (e, w) (Spawner_run f e, w)"

text \<open>A poller under which every task yields each time it is polled and never ends; \<open>step\<close> is what a
  poll does to the future and the world.\<close>

definition always_yields :: "('f, 'w) poller \<Rightarrow> (u64 \<Rightarrow> 'f \<Rightarrow> 'w \<Rightarrow> 'w \<times> 'f) \<Rightarrow> bool" where
  "always_yields poll step \<longleftrightarrow> (\<forall>i f w. poll i f w = (let (w', f') = step i f w in (w', [EYield], Pending f')))"

definition poll_once :: "(u64 \<Rightarrow> 'f \<Rightarrow> 'w \<Rightarrow> 'w \<times> 'f) \<Rightarrow> u64 \<Rightarrow> (u64 \<Rightarrow> 'f option) \<times> 'w \<Rightarrow> (u64 \<Rightarrow> 'f option) \<times> 'w" where
  "poll_once step i s =
     (case fst s i of None \<Rightarrow> s | Some f \<Rightarrow> (let (w, f') = step i f (snd s) in ((fst s)(i \<mapsto> f'), w)))"

section \<open>Bounded queues\<close>

locale bounded_queue =
  fixes push :: "'a \<Rightarrow> 'q \<Rightarrow> 'q option"
    and pop :: "'q \<Rightarrow> ('a \<times> 'q) option"
    and items :: "'q \<Rightarrow> 'a list"
    and cap :: nat
  assumes push_room: "length (items q) < cap \<Longrightarrow> \<exists>q'. push x q = Some q' \<and> items q' = items q @ [x]"
    and push_full: "cap \<le> length (items q) \<Longrightarrow> push x q = None"
    and pop_empty: "items q = [] \<Longrightarrow> pop q = None"
    and pop_front: "items q = x # xs \<Longrightarrow> \<exists>q'. pop q = Some (x, q') \<and> items q' = xs"
begin

lemma push_Some_iff: "push x q = Some q' \<Longrightarrow> items q' = items q @ [x] \<and> length (items q) < cap"
  using push_room [of q x] push_full [of q x] by (cases "length (items q) < cap") auto

lemma push_None_iff: "push x q = None \<longleftrightarrow> cap \<le> length (items q)"
  using push_room [of q x] push_full [of q x] by (cases "length (items q) < cap") auto

lemma pop_push_fifo:
  assumes "push x q = Some q'" and "pop q' = Some (y, q'')"
  shows "y # items q'' = items q @ [x]"
proof -
  have i: "items q' = items q @ [x]" using push_Some_iff [OF assms(1)] by simp
  obtain z zs where z: "items q' = z # zs" by (cases "items q'") (simp_all add: i)
  from pop_front [OF z] assms(2) z i show ?thesis by auto
qed

lemma bounded: "push x q = Some q' \<Longrightarrow> length (items q') \<le> cap"
  using push_Some_iff [of x q q'] by auto

end

interpretation array_queue: bounded_queue "aq_push cap" aq_pop "\<lambda>q. q" cap
  for cap
  by unfold_locales (auto simp: aq_push_def aq_pop_def split: list.splits)

section \<open>Task ids\<close>

lemma executor_ok_spawner:
  assumes "executor_ok e" and "unat (next_id e) < 2 ^ 64 - 1"
  shows "executor_ok (Spawner_run f e)"
proof -
  have n: "next_id e < next_id e + 1"
    using assms(2) by (simp add: word_less_nat_alt unat_word_plus_one)
  then have lt: "i < next_id e \<Longrightarrow> i < next_id e + 1" for i using less_trans by blast
  have "next_id e \<notin> set (task_ids e)" "next_id e \<notin> dom (tasks e)"
    using assms(1) by (force simp: executor_ok_def)+
  with assms(1) n lt show ?thesis
    by (auto simp: executor_ok_def Spawner_run_def Task_new_def TaskId_new_def aq_push_def task_ids_def
        domIff)
qed

lemma executor_ok_wake: "executor_ok e \<Longrightarrow> wake_task i e = Inr e' \<Longrightarrow> executor_ok e'"
proof -
  assume ok: "executor_ok e" and "wake_task i e = Inr e'"
  then have "e' = e\<lparr> task_queue := task_queue e @ [i] \<rparr>" "length (task_queue e) < QUEUE_SIZE"
    by (auto simp: wake_task_def aq_push_def split: if_splits)
  with ok show "executor_ok e'" by (simp add: executor_ok_def task_ids_def)
qed

lemma executor_ok_spawn:
  assumes "executor_ok e" and "spawn_queue e = t # q"
  shows "Executor_spawn t (e\<lparr> spawn_queue := q \<rparr>) =
      (if length (task_queue e) < QUEUE_SIZE
       then Inr (e\<lparr> spawn_queue := q, tasks := (tasks e)(task_id t \<mapsto> task_future t),
              task_queue := task_queue e @ [task_id t] \<rparr>)
       else Inl QueueFull)"
    and "Executor_spawn t (e\<lparr> spawn_queue := q \<rparr>) = Inr e' \<Longrightarrow> executor_ok e'"
proof -
  have "task_id t \<notin> dom (tasks e)" using assms by (auto simp: executor_ok_def task_ids_def)
  then have new: "tasks e (task_id t) = None" by (simp add: domIff)
  then show eq: "Executor_spawn t (e\<lparr> spawn_queue := q \<rparr>) =
      (if length (task_queue e) < QUEUE_SIZE
       then Inr (e\<lparr> spawn_queue := q, tasks := (tasks e)(task_id t \<mapsto> task_future t),
              task_queue := task_queue e @ [task_id t] \<rparr>)
       else Inl QueueFull)"
    by (simp add: Executor_spawn_def Let_def aq_push_def)
  assume "Executor_spawn t (e\<lparr> spawn_queue := q \<rparr>) = Inr e'"
  with eq assms show "executor_ok e'"
    by (auto simp: executor_ok_def task_ids_def split: if_splits)
qed

lemma next_id_mono_effect:
  assumes "apply_effect i eff e = Inr e'"
  shows "next_id e' = next_id e + (case eff of ESpawn f \<Rightarrow> 1 | _ \<Rightarrow> 0)"
  using assms by (cases eff) (auto simp: Spawner_run_def Task_new_def TaskId_new_def wake_task_def aq_push_def
      split: if_splits)

lemma executor_ok_effect:
  assumes "executor_ok e" and "apply_effect i eff e = Inr e'"
    and "unat (next_id e) + spawns [eff] < 2 ^ 64"
  shows "executor_ok e'" and "unat (next_id e') = unat (next_id e) + spawns [eff]"
    and "dom (tasks e') = dom (tasks e)"
proof -
  show "executor_ok e'"
  proof (cases eff)
    case (ESpawn f)
    with assms show ?thesis by (auto simp: spawns_def intro!: executor_ok_spawner)
  next
    case EYield
    with assms(2) have "e' = e\<lparr> yielders := yielders_push i (yielders e) \<rparr>"
      by (auto simp: YieldOnce_poll_def)
    with assms(1) show ?thesis
      by (simp add: executor_ok_def yielders_push_def aq_push_def task_ids_def)
  next
    case (EWake j)
    with assms(1,2) show ?thesis by (auto intro: executor_ok_wake)
  qed
  show "unat (next_id e') = unat (next_id e) + spawns [eff]"
    using next_id_mono_effect [OF assms(2)] assms(3)
    by (cases eff) (auto simp: spawns_def unat_word_plus_one)
  show "dom (tasks e') = dom (tasks e)"
    using assms(2) by (cases eff) (auto simp: Spawner_run_def Task_new_def TaskId_new_def wake_task_def aq_push_def
      split: if_splits)
qed

lemma executor_ok_effects:
  assumes "executor_ok e" and "res_fold (apply_effect i) effs e = Inr e'"
    and "unat (next_id e) + spawns effs < 2 ^ 64"
  shows "executor_ok e' \<and> unat (next_id e') = unat (next_id e) + spawns effs \<and> dom (tasks e') = dom (tasks e)"
  using assms
proof (induction effs arbitrary: e)
  case Nil
  then show ?case by (simp add: spawns_def)
next
  case (Cons eff effs)
  then obtain e1 where e1: "apply_effect i eff e = Inr e1" "res_fold (apply_effect i) effs e1 = Inr e'"
    by (auto simp: res_bind_eq_Inr_iff)
  have sp: "spawns (eff # effs) = spawns [eff] + spawns effs" by (simp add: spawns_def)
  then have "unat (next_id e) + spawns [eff] < 2 ^ 64" using Cons.prems(3) by simp
  note step = executor_ok_effect [OF Cons.prems(1) e1(1) this]
  have "executor_ok e' \<and> unat (next_id e') = unat (next_id e1) + spawns effs \<and> dom (tasks e') = dom (tasks e1)"
    using step(2) sp Cons.prems(3) by (intro Cons.IH [OF step(1) e1(2)]) simp
  with step sp show ?case by simp
qed

lemma executor_ok_poll:
  assumes "executor_ok e" and "poll_task poll i (e, w) = Inr (e', w')"
    and "\<And>f. unat (next_id e) + spawns (fst (snd (poll i f w))) < 2 ^ 64"
  shows "executor_ok e'"
proof (cases "tasks e i")
  case None
  with assms(1,2) show ?thesis by (simp add: poll_task_def)
next
  case (Some f)
  obtain w1 effs r where p: "poll i f w = (w1, effs, r)" by (cases "poll i f w") auto
  let ?e = "e\<lparr> waker_cache := insert i (waker_cache e) \<rparr>"
  have ok: "executor_ok ?e"
    using assms(1) Some by (auto simp: executor_ok_def task_ids_def)
  obtain e1 where e1: "res_fold (apply_effect i) effs ?e = Inr e1"
    and e': "e' = (case r of Ready \<Rightarrow> e1\<lparr> tasks := (tasks e1)(i := None), waker_cache := waker_cache e1 - {i} \<rparr>
       | Pending f \<Rightarrow> e1\<lparr> tasks := (tasks e1)(i \<mapsto> f) \<rparr>)"
    using assms(2) Some p by (cases r) (auto simp: poll_task_def res_bind_eq_Inr_iff)
  have "unat (next_id ?e) + spawns effs < 2 ^ 64" using assms(3) [of f] p by simp
  from executor_ok_effects [OF ok e1 this] have e1': "executor_ok e1" "dom (tasks e1) = dom (tasks e)" by simp_all
  have "i \<in> dom (tasks e1)" using e1'(2) Some by auto
  with e1'(1) show ?thesis
    unfolding e' by (cases r) (auto simp: executor_ok_def task_ids_def insert_absorb)
qed

inductive_cases exec_stepE: "exec_step poll (e, w) s"

lemma executor_ok_tail:
  "executor_ok e \<Longrightarrow> task_queue e = i # q \<Longrightarrow> executor_ok (e\<lparr> task_queue := q \<rparr>)"
  "executor_ok e \<Longrightarrow> yielders e = i # ys \<Longrightarrow> executor_ok (e\<lparr> yielders := ys \<rparr>)"
  by (simp_all add: executor_ok_def task_ids_def)

lemma exec_step_ok:
  assumes "exec_step poll (e, w) (e', w')" and "executor_ok e"
    and "unat (next_id e) < 2 ^ 64 - 1"
    and "\<And>i f. unat (next_id e) + spawns (fst (snd (poll i f w))) < 2 ^ 64"
  shows "executor_ok e'"
  using assms(1)
proof (cases rule: exec_step.cases)
  case (run_task i q)
  with assms(2,4) show ?thesis by (auto intro: executor_ok_poll executor_ok_tail)
next
  case (spawn_task t q)
  with assms(2) show ?thesis by (auto dest: executor_ok_spawn(2))
next
  case (wake i)
  with assms(2) show ?thesis by (auto intro: executor_ok_wake)
next
  case (wake_yielder i ys)
  with assms(2) show ?thesis by (auto intro: executor_ok_wake executor_ok_tail)
next
  case (spawner f)
  with assms(2,3) show ?thesis by (auto intro: executor_ok_spawner)
qed

section \<open>Round robin\<close>

lemma poll_task_yields:
  assumes "always_yields poll step" and "tasks e i \<noteq> None" and "length (yielders e) < QUEUE_SIZE"
  shows "poll_task poll i (e, w) =
    Inr (e\<lparr> tasks := fst (poll_once step i (tasks e, w)), waker_cache := insert i (waker_cache e),
           yielders := yielders e @ [i] \<rparr>, snd (poll_once step i (tasks e, w)))"
proof -
  obtain f where f: "tasks e i = Some f" using assms(2) by blast
  obtain w' f' where st: "step i f w = (w', f')" by (cases "step i f w")
  with assms(1) have "poll i f w = (w', [EYield], Pending f')"
    by (simp add: always_yields_def)
  then show ?thesis
    using f st assms(3)
    by (simp add: poll_task_def poll_once_def YieldOnce_poll_def yielders_push_def aq_push_def)
qed

lemma dom_poll_once: "dom (fst (poll_once step i s)) = dom (fst s)"
  by (auto simp: poll_once_def split: option.splits prod.splits)

lemma run_ready_round:
  assumes "always_yields poll step" and "task_queue e = ids" and "set ids \<subseteq> dom (tasks e)"
    and "length (yielders e) + length ids \<le> QUEUE_SIZE" and "length ids < fuel"
  shows "\<exists>wc. run_ready_tasks poll fuel (e, w) =
    Some (Inr (e\<lparr> task_queue := [], yielders := yielders e @ ids, waker_cache := wc,
       tasks := fst (fold (poll_once step) ids (tasks e, w)) \<rparr>,
       snd (fold (poll_once step) ids (tasks e, w))))"
  using assms(2-)
proof (induction ids arbitrary: e w fuel)
  case Nil
  then obtain k where "fuel = Suc k" by (cases fuel) auto
  with Nil show ?case by (auto simp: aq_pop_def intro!: exI [of _ "waker_cache e"])
next
  case (Cons i ids)
  then obtain k where k: "fuel = Suc k" by (cases fuel) auto
  let ?s = "poll_once step i (tasks e, w)"
  let ?e = "e\<lparr> task_queue := ids, tasks := fst ?s, waker_cache := insert i (waker_cache e),
      yielders := yielders e @ [i] \<rparr>"
  have "poll_task poll i (e\<lparr> task_queue := ids \<rparr>, w) = Inr (?e, snd ?s)"
    using poll_task_yields [OF assms(1), of "e\<lparr> task_queue := ids \<rparr>" i w] Cons.prems by auto
  then have run: "run_ready_tasks poll fuel (e, w) = run_ready_tasks poll k (?e, snd ?s)"
    using Cons.prems(1) k by (simp add: aq_pop_def)
  have "\<exists>wc. run_ready_tasks poll k (?e, snd ?s) =
    Some (Inr (?e\<lparr> task_queue := [], yielders := yielders ?e @ ids, waker_cache := wc,
       tasks := fst (fold (poll_once step) ids (tasks ?e, snd ?s)) \<rparr>,
       snd (fold (poll_once step) ids (tasks ?e, snd ?s))))"
    using Cons.prems k dom_poll_once [of step i "(tasks e, w)"] by (intro Cons.IH) auto
  then show ?case by (simp add: run)
qed

lemma wake_all:
  "length (task_queue e) + length ys \<le> QUEUE_SIZE \<Longrightarrow>
     res_fold wake_task ys e = Inr (e\<lparr> task_queue := task_queue e @ ys \<rparr>)"
proof (induction ys arbitrary: e)
  case Nil
  then show ?case by simp
next
  case (Cons i ys)
  then have "wake_task i e = Inr (e\<lparr> task_queue := task_queue e @ [i] \<rparr>)"
    by (simp add: wake_task_def aq_push_def)
  with Cons show ?case by simp
qed

section \<open>Order within a turn\<close>

lemma spawn_all:
  assumes "executor_ok e" and "length (task_queue e) + length (spawn_queue e) \<le> QUEUE_SIZE"
  shows "\<exists>e'. res_fold Executor_spawn (spawn_queue e) (e\<lparr> spawn_queue := [] \<rparr>) = Inr e' \<and>
    task_queue e' = task_queue e @ map task_id (spawn_queue e) \<and> spawn_queue e' = [] \<and> yielders e' = yielders e"
  using assms
proof (induction "spawn_queue e" arbitrary: e)
  case Nil
  from Nil(1) [symmetric] show ?case by simp
next
  case (Cons t q)
  note q = Cons.hyps(2) [symmetric]
  have "length (task_queue e) < QUEUE_SIZE" using Cons.prems(2) q by simp
  define e1 where "e1 = e\<lparr> spawn_queue := q, tasks := (tasks e)(task_id t \<mapsto> task_future t),
              task_queue := task_queue e @ [task_id t] \<rparr>"
  have sp: "Executor_spawn t (e\<lparr> spawn_queue := q \<rparr>) = Inr e1" and ok: "executor_ok e1"
    using executor_ok_spawn [OF Cons.prems(1) q] \<open>length (task_queue e) < QUEUE_SIZE\<close> by (simp_all add: e1_def)
  have sp0: "Executor_spawn t (e\<lparr> spawn_queue := [] \<rparr>) = Inr (e1\<lparr> spawn_queue := [] \<rparr>)"
    using sp by (auto simp: Executor_spawn_def aq_push_def e1_def Let_def split: if_splits)
  have "\<exists>e'. res_fold Executor_spawn (spawn_queue e1) (e1\<lparr> spawn_queue := [] \<rparr>) = Inr e' \<and>
      task_queue e' = task_queue e1 @ map task_id (spawn_queue e1) \<and> spawn_queue e' = [] \<and> yielders e' = yielders e1"
    using Cons.hyps(1) [of e1] ok Cons.prems(2) q by (simp add: e1_def)
  then show ?case using sp0 q by (simp add: e1_def)
qed

lemma yielders_before_spawned:
  assumes "executor_ok e" and "task_queue e = []" and "length (yielders e) + length (spawn_queue e) \<le> QUEUE_SIZE"
  shows "\<exists>e1 e2. wake_yielders e = Inr e1 \<and> spawn_pending e1 = Inr e2 \<and>
    task_queue e2 = yielders e @ map task_id (spawn_queue e)"
proof -
  let ?e1 = "e\<lparr> yielders := [], task_queue := yielders e \<rparr>"
  have w: "wake_yielders e = Inr ?e1"
    using wake_all [of "e\<lparr> yielders := [] \<rparr>" "yielders e"] assms by (simp add: wake_yielders_def)
  have "executor_ok ?e1" using assms by (simp add: executor_ok_def task_ids_def)
  with spawn_all [of ?e1] assms(3) w show ?thesis by (auto simp: spawn_pending_def)
qed

text \<open>Within a turn tasks are only added to the queues of yielders and of tasks to spawn.\<close>

lemma effect_appends:
  "apply_effect i eff e = Inr e' \<Longrightarrow> \<exists>ys ss. yielders e' = yielders e @ ys \<and> spawn_queue e' = spawn_queue e @ ss"
  by (cases eff) (auto simp: Spawner_run_def Task_new_def TaskId_new_def wake_task_def aq_push_def YieldOnce_poll_def
      yielders_push_def split: if_splits)

lemma effects_append:
  "res_fold (apply_effect i) effs e = Inr e' \<Longrightarrow>
     \<exists>ys ss. yielders e' = yielders e @ ys \<and> spawn_queue e' = spawn_queue e @ ss"
proof (induction effs arbitrary: e)
  case (Cons eff effs)
  then obtain e1 where "apply_effect i eff e = Inr e1" "res_fold (apply_effect i) effs e1 = Inr e'"
    by (auto simp: res_bind_eq_Inr_iff)
  with Cons.IH effect_appends show ?case by (metis append_assoc)
qed simp

lemma poll_task_appends:
  assumes "poll_task poll i (e, w) = Inr (e', w')"
  shows "\<exists>ys ss. yielders e' = yielders e @ ys \<and> spawn_queue e' = spawn_queue e @ ss"
proof (cases "tasks e i")
  case (Some f)
  obtain w1 effs r where p: "poll i f w = (w1, effs, r)" by (cases "poll i f w")
  with Some assms obtain e1 where "res_fold (apply_effect i) effs (e\<lparr> waker_cache := insert i (waker_cache e) \<rparr>) = Inr e1"
    "yielders e' = yielders e1" "spawn_queue e' = spawn_queue e1"
    by (cases r) (auto simp: poll_task_def Let_def res_bind_eq_Inr_iff)
  with effects_append [of i effs "e\<lparr> waker_cache := insert i (waker_cache e) \<rparr>" e1] show ?thesis by simp
qed (use assms in \<open>simp add: poll_task_def\<close>)

lemma run_ready_appends:
  "run_ready_tasks poll n (e, w) = Some (Inr (e', w')) \<Longrightarrow>
     task_queue e' = [] \<and> (\<exists>ys ss. yielders e' = yielders e @ ys \<and> spawn_queue e' = spawn_queue e @ ss)"
proof (induction n arbitrary: e w)
  case (Suc n)
  show ?case
  proof (cases "task_queue e")
    case Nil
    with Suc.prems show ?thesis by (simp add: aq_pop_def)
  next
    case (Cons i q)
    with Suc.prems obtain e1 w1 where "poll_task poll i (e\<lparr> task_queue := q \<rparr>, w) = Inr (e1, w1)"
      "run_ready_tasks poll n (e1, w1) = Some (Inr (e', w'))"
      by (auto simp: aq_pop_def split: sum.splits)
    with Suc.IH poll_task_appends [of poll i "e\<lparr> task_queue := q \<rparr>" w e1 w1] show ?thesis by fastforce
  qed
qed simp

section \<open>Properties\<close>

text \<open>C2: task ids are unique. Every event that changes the executor (polling a task with
  whatever it spawns and wakes, spawning, waking) keeps the invariant that all tasks have different
  ids below the counter, so spawning a task never hits the panic for a duplicate id: it succeeds
  unless the queue of 100 is full. (The 64-bit counter must not have been used up.)\<close>

theorem task_ids_unique:
  assumes "executor_ok e" and "unat (next_id e) < 2 ^ 64 - 1"
    and "\<And>i f. unat (next_id e) + spawns (fst (snd (poll i f w))) < 2 ^ 64"
  shows "(\<forall>e' w'. exec_step poll (e, w) (e', w') \<longrightarrow> executor_ok e') \<and>
    (\<forall>t q. spawn_queue e = t # q \<longrightarrow> length (task_queue e) < 100 \<longrightarrow>
       (\<exists>e'. Executor_spawn t (e\<lparr> spawn_queue := q \<rparr>) = Inr e'))"
proof (intro conjI allI impI)
  fix e' w' assume "exec_step poll (e, w) (e', w')"
  then show "executor_ok e'" by (rule exec_step_ok) (rule assms)+
next
  fix t q assume "spawn_queue e = t # q" "length (task_queue e) < 100"
  with executor_ok_spawn(1) [OF assms(1)] show "\<exists>e'. Executor_spawn t (e\<lparr> spawn_queue := q \<rparr>) = Inr e'"
    by (auto simp: QUEUE_SIZE_def)
qed

theorem task_ids_unique_witness:
  "executor_ok (Spawner_run (7 :: nat) (Executor_new 0 [])) \<and>
   (\<exists>e'. Executor_spawn \<lparr> task_id = 0, task_future = 7 :: nat \<rparr>
      ((Spawner_run 7 (Executor_new 0 []))\<lparr> spawn_queue := [] \<rparr>) = Inr e')"
proof -
  let ?e = "Spawner_run (7 :: nat) (Executor_new 0 [])"
  have e: "?e = \<lparr> tasks = Map.empty, task_queue = [], spawn_queue = [\<lparr> task_id = 0, task_future = 7 \<rparr>],
      waker_cache = {}, yielders = [], next_id = 1 \<rparr>"
    by (simp add: Spawner_run_def Executor_new_def Task_new_def TaskId_new_def aq_push_def QUEUE_SIZE_def)
  have ok: "executor_ok ?e" unfolding e by (simp add: executor_ok_def task_ids_def QUEUE_SIZE_def)
  show ?thesis
    using ok task_ids_unique [of ?e "\<lambda>i f w. (w :: unit, [], Pending f)" "()"]
    by (auto simp: e spawns_def)
qed

text \<open>C16: fairness of the main loop. When every queued task yields each time it is polled, and
  there are at most 100 of them, one turn of the loop ends, polls every task exactly once in the
  order of the queue, and leaves the same queue for the next turn.\<close>

theorem yielding_tasks_round_robin:
  assumes "always_yields poll step" and "spawn_queue e = []" and "yielders e = []"
    and "set (task_queue e) \<subseteq> dom (tasks e)" and "length (task_queue e) \<le> 100"
    and "length (task_queue e) < fuel"
  shows "\<exists>e'. run_turn poll fuel (e, w) =
      Some (Inr (True, e', snd (fold (poll_once step) (task_queue e) (tasks e, w)))) \<and>
    task_queue e' = task_queue e \<and> spawn_queue e' = [] \<and> yielders e' = [] \<and>
    tasks e' = fst (fold (poll_once step) (task_queue e) (tasks e, w)) \<and>
    dom (tasks e') = dom (tasks e)"
proof -
  let ?s = "fold (poll_once step) (task_queue e) (tasks e, w)"
  have "length (yielders e) + length (task_queue e) \<le> QUEUE_SIZE"
    using assms(3,5) by (simp add: QUEUE_SIZE_def)
  from run_ready_round [OF assms(1) refl assms(4) this assms(6)] obtain wc where
    run: "run_ready_tasks poll fuel (e, w) = Some (Inr (e\<lparr> task_queue := [], yielders := task_queue e,
       waker_cache := wc, tasks := fst ?s \<rparr>, snd ?s))"
    using assms(3) by auto
  let ?e1 = "e\<lparr> task_queue := [], yielders := task_queue e, waker_cache := wc, tasks := fst ?s \<rparr>"
  have "wake_yielders ?e1 = Inr (?e1\<lparr> yielders := [], task_queue := task_queue e \<rparr>)"
    using wake_all [of "?e1\<lparr> yielders := [] \<rparr>" "task_queue e"] assms(5)
    by (simp add: wake_yielders_def QUEUE_SIZE_def)
  moreover have "spawn_pending e = Inr e" using assms(2) by (simp add: spawn_pending_def)
  moreover have "dom (fst (fold (poll_once step) ids s)) = dom (fst s)" for ids s
    by (induction ids arbitrary: s) (simp_all add: dom_poll_once)
  ultimately show ?thesis
    using run assms(2) by (simp add: run_turn_def)
qed

theorem yielding_tasks_round_robin_witness:
  "\<exists>e'. run_turn (\<lambda>i f w. (w @ [i], [EYield], Pending (f + 1 :: nat))) 3
      (\<lparr> tasks = [5 \<mapsto> 0, 9 \<mapsto> 7], task_queue = [9, 5], spawn_queue = [], waker_cache = {},
         yielders = [], next_id = 10 \<rparr>, []) = Some (Inr (True, e', [9, 5])) \<and> task_queue e' = [9, 5]"
proof -
  have "always_yields (\<lambda>i f w. (w @ [i], [EYield], Pending (f + 1 :: nat))) (\<lambda>i f w. (w @ [i], f + 1))"
    by (simp add: always_yields_def)
  from yielding_tasks_round_robin [OF this, of "\<lparr> tasks = [5 \<mapsto> 0, 9 \<mapsto> 7], task_queue = [9, 5],
      spawn_queue = [], waker_cache = {}, yielders = [], next_id = 10 \<rparr>" 3 "[]"]
  show ?thesis by (auto simp: poll_once_def)
qed

text \<open>C37: what a full queue loses. When 100 tasks wait to be spawned, one more is dropped
  without a trace (only the id is used up); when 100 tasks have yielded since the last turn, the next
  one to yield stays in the task table but is in no queue, so nothing wakes it again.\<close>

theorem full_queues_drop_tasks:
  "(length (spawn_queue e) = 100 \<longrightarrow>
      Spawner_run f e = e\<lparr> next_id := next_id e + 1 \<rparr>) \<and>
   (length (yielders e) = 100 \<longrightarrow> tasks e i = Some g \<longrightarrow> poll i g w = (w', [EYield], Pending g') \<longrightarrow>
      i \<notin> set (task_queue e) \<longrightarrow> i \<notin> set (yielders e) \<longrightarrow>
      (\<exists>e'. poll_task poll i (e, w) = Inr (e', w') \<and> tasks e' i = Some g' \<and>
         i \<notin> set (task_queue e') \<and> i \<notin> set (yielders e')))"
  by (simp add: Spawner_run_def Task_new_def TaskId_new_def aq_push_def QUEUE_SIZE_def poll_task_def
      YieldOnce_poll_def yielders_push_def)

theorem full_queues_drop_tasks_witness:
  "Spawner_run (7 :: nat) \<lparr> tasks = Map.empty, task_queue = [],
      spawn_queue = replicate 100 \<lparr> task_id = 0, task_future = 7 \<rparr>,
      waker_cache = {}, yielders = [], next_id = 200 \<rparr> =
    \<lparr> tasks = Map.empty, task_queue = [], spawn_queue = replicate 100 \<lparr> task_id = 0, task_future = 7 \<rparr>,
      waker_cache = {}, yielders = [], next_id = 201 \<rparr>"
  using full_queues_drop_tasks [of "\<lparr> tasks = Map.empty, task_queue = [],
      spawn_queue = replicate 100 \<lparr> task_id = 0, task_future = 7 :: nat \<rparr>,
      waker_cache = {}, yielders = [], next_id = 200 \<rparr>" 7] by simp

end
