(* ===== verification/Gpu_Driver.thy ===== *)
theory Gpu_Driver
  imports Gpu_Protocol Virtio_Queue Executor Frame_Alloc
begin

text \<open>
  The GPU driver, \<^verbatim>\<open>src/bootloader/kernel/src/drivers/virtio_gpu.rs\<close>: the table of wakers by descriptor, the
  future \<^verbatim>\<open>IdWait\<close>, the asynchronous function \<^verbatim>\<open>request\<close>, the task that polls the used ring, and the start
  of \<^verbatim>\<open>drive\<close>.

  An asynchronous function is the state machine of its polls: \<open>request_poll\<close> runs one poll and gives
  the new state of the future. A waker is the id of the task it wakes. Several requests may be in
  flight; \<open>gpu_step\<close> is the transition relation of all of them with the polling task and the device.

  The lemmas show that no wake-up is lost, that requests in flight never share a descriptor, and that a
  request ends with the device's answer and gives both descriptors back.
\<close>

section \<open>Definitions\<close>

subsection \<open>Waiting for a descriptor\<close>

datatype IdWaker = IdWaker_None | IdWaker_Done | IdWaker_Waker u64

text \<open>The second component is the task that is woken; without one the driver logs an error.\<close>

definition IdWaker_wake :: "IdWaker \<Rightarrow> IdWaker \<times> u64 option" where
  "IdWaker_wake self = (IdWaker_Done, case self of IdWaker_Waker e \<Rightarrow> Some e | _ \<Rightarrow> None)"

definition GPU_WAKERS :: "IdWaker list" where
  "GPU_WAKERS = replicate 256 IdWaker_None"

text \<open>The table is locked twice; \<open>env\<close> is what happens to it in between. The result is whether the future
  is ready.\<close>

definition IdWait_poll :: "(IdWaker list \<Rightarrow> IdWaker list) \<Rightarrow> nat \<Rightarrow> u64 \<Rightarrow> IdWaker list \<Rightarrow> (bool \<times> IdWaker list) res" where
  "IdWait_poll env i waker ws =
     res_bind (array_get ws i)
       (\<lambda>val. case val of
          IdWaker_None \<Rightarrow> Inr (False, ws[i := IdWaker_Waker waker])
        | IdWaker_Done \<Rightarrow> Inr (True, ws[i := IdWaker_None])
        | IdWaker_Waker e \<Rightarrow>
            (let ws = env (ws[i := IdWaker_Waker waker])
             in res_bind (array_get ws i)
                  (\<lambda>val. case val of
                     IdWaker_Done \<Rightarrow> Inr (True, ws[i := IdWaker_None])
                   | _ \<Rightarrow> Inr (False, ws))))"

subsection \<open>Requests\<close>

record 'd gpu =
  gpu_virtio :: Virtio
  gpu_io :: "'d virtio_io"
  gpu_wakers :: "IdWaker list"

datatype request_future = Req_Start "u8 list" | Req_Wait u16 u16 | Req_Done Desc

text \<open>From the \<^verbatim>\<open>await\<close> on.\<close>

definition request_wait :: "u64 \<Rightarrow> u16 \<Rightarrow> u16 \<Rightarrow> 'd gpu \<Rightarrow> (request_future \<times> 'd gpu) res" where
  "request_wait waker desc_id desc_next_id g =
     res_bind (IdWait_poll (\<lambda>ws. ws) (unat desc_id) waker (gpu_wakers g))
       (\<lambda>(ready, ws). let g = g\<lparr> gpu_wakers := ws \<rparr> in
          if \<not> ready then Inr (Req_Wait desc_id desc_next_id, g)
          else res_bind (set_free_desc_id desc_id (gpu_virtio g))
                 (\<lambda>v. res_bind (set_free_desc_id desc_next_id v)
                   (\<lambda>v. Inr (Req_Done (read_desc desc_next_id (gpu_io g)), g\<lparr> gpu_virtio := v \<rparr>))))"

definition request_start :: "addr_crate \<Rightarrow> u64 \<Rightarrow> u8 list \<Rightarrow> 'd gpu \<Rightarrow> ((u16 \<times> u16) \<times> 'd gpu) res" where
  "request_start X voff data g =
     res_bind (get_free_twice_desc_id (gpu_virtio g))
       (\<lambda>(twice, v). case twice of
          None \<Rightarrow> Inl (Panicked ''No more desc available'')
        | Some (desc_id, desc_next_id) \<Rightarrow>
            res_bind (add_request desc_id desc_next_id data (gpu_io g))
              (\<lambda>io. res_bind (kick X voff 0 v io)
                (\<lambda>io. Inr ((desc_id, desc_next_id), g\<lparr> gpu_virtio := v, gpu_io := io \<rparr>))))"

definition request_poll :: "addr_crate \<Rightarrow> u64 \<Rightarrow> u64 \<Rightarrow> request_future \<Rightarrow> 'd gpu \<Rightarrow> (request_future \<times> 'd gpu) res" where
  "request_poll X voff waker f g =
     (case f of
        Req_Start data \<Rightarrow>
          res_bind (request_start X voff data g) (\<lambda>((desc_id, desc_next_id), g). request_wait waker desc_id desc_next_id g)
      | Req_Wait desc_id desc_next_id \<Rightarrow> request_wait waker desc_id desc_next_id g
      | Req_Done d \<Rightarrow> Inr (Req_Done d, g))"

subsection \<open>The polling task\<close>

definition wake_slot :: "nat \<Rightarrow> 'd gpu \<Rightarrow> (u64 option \<times> 'd gpu) res" where
  "wake_slot i g =
     res_bind (array_get (gpu_wakers g) i)
       (\<lambda>w. let (w, t) = IdWaker_wake w in Inr (t, g\<lparr> gpu_wakers := (gpu_wakers g)[i := w] \<rparr>))"

text \<open>One run of \<^verbatim>\<open>'checkall\<close>; the result has the tasks it wakes, in order.\<close>

fun checkall :: "nat \<Rightarrow> 'd gpu \<Rightarrow> (u64 list \<times> 'd gpu) res option" where
  "checkall 0 g = None"
| "checkall (Suc n) g =
     (case next_used (gpu_virtio g) (gpu_io g) of
        Inl p \<Rightarrow> Some (Inl p)
      | Inr (None, v) \<Rightarrow> Some (Inr ([], g\<lparr> gpu_virtio := v \<rparr>))
      | Inr (Some used, v) \<Rightarrow>
          (case wake_slot (unat (used_id used)) (g\<lparr> gpu_virtio := v \<rparr>) of
             Inl p \<Rightarrow> Some (Inl p)
           | Inr (t, g) \<Rightarrow> map_option (res_map (\<lambda>(ts, g). ((case t of None \<Rightarrow> [] | Some t \<Rightarrow> [t]) @ ts, g))) (checkall n g)))"

subsection \<open>The start of the driver\<close>

fun offer_some :: "nat \<Rightarrow> Virtio \<times> 'd virtio_io \<Rightarrow> (Virtio \<times> 'd virtio_io) res" where
  "offer_some 0 s = Inr s"
| "offer_some (Suc n) (v, io) =
     res_bind (get_free_desc_id v)
       (\<lambda>(d, v). case d of
          None \<Rightarrow> offer_some n (v, io)
        | Some desc_id \<Rightarrow> res_bind (set_writable_available desc_id io) (\<lambda>io. offer_some n (v, io)))"

definition gpu_start :: "'d virtio_dev \<Rightarrow> 'd gpu \<Rightarrow> 'd gpu res" where
  "gpu_start dev g =
     (let (v, io) = Virtio_queue_select dev 0 (gpu_virtio g) (gpu_io g)
      in res_map (\<lambda>(v, io). g\<lparr> gpu_virtio := v, gpu_io := io \<rparr>) (offer_some 10 (v, io)))"

text \<open>The first poll of \<^verbatim>\<open>drive\<close>, as the executor sees it: the polling task is spawned and the driver yields,
  with the lock of the device held over the \<^verbatim>\<open>await\<close>.\<close>

definition drive_effects :: "'f \<Rightarrow> 'f effect list" where
  "drive_effects checkall_task = [ESpawn checkall_task, EYield]"

subsection \<open>Specification vocabulary\<close>

abbreviation gpu_free :: "'d gpu \<Rightarrow> u16 list" where
  "gpu_free g \<equiv> free (queues_free (gpu_virtio g) ! unat (queue_select (gpu_virtio g)))"

fun held_by :: "request_future \<Rightarrow> u16 list" where
  "held_by (Req_Wait a b) = [a, b]"
| "held_by _ = []"

text \<open>The selected queue with another stack of free descriptors.\<close>

definition put_free :: "u16 list \<Rightarrow> Virtio \<Rightarrow> Virtio" where
  "put_free fr v = v\<lparr> queues_free := (queues_free v)[unat (queue_select v) :=
     (queues_free v ! unat (queue_select v))\<lparr> free := fr \<rparr>] \<rparr>"

text \<open>The tasks with a request, the requests, the driver's state, and the descriptors the device keeps for
  itself (those offered at the start).\<close>

type_synonym 'd gpu_system = "(u64 \<times> request_future) list \<times> 'd gpu"

definition held :: "(u64 \<times> request_future) list \<Rightarrow> u16 list" where
  "held fs = concat (map (\<lambda>(t, f). held_by f) fs)"

text \<open>The device may change memory at any time, but not the configuration of the queue. It reports the
  first descriptor of a chain that is in flight, or one of those it was offered (\<open>extra\<close>).\<close>

inductive gpu_step :: "addr_crate \<Rightarrow> u64 \<Rightarrow> u16 set \<Rightarrow> 'd gpu_system \<Rightarrow> 'd gpu_system \<Rightarrow> bool"
  for X voff extra where
  spawn: "gpu_step X voff extra (fs, g) (fs @ [(t, Req_Start data)], g)"
| poll: "i < length fs \<Longrightarrow> fs ! i = (t, f) \<Longrightarrow> request_poll X voff t f g = Inr (f', g') \<Longrightarrow>
    gpu_step X voff extra (fs, g) (fs[i := (t, f')], g')"
| device: "gpu_step X voff extra (fs, g) (fs, g\<lparr> gpu_io := io \<rparr>)"
| report: "(t, Req_Wait a b) \<in> set fs \<or> a \<in> extra \<Longrightarrow> wake_slot (unat a) g = Inr (w, g') \<Longrightarrow>
    gpu_step X voff extra (fs, g) (fs, g')"

text \<open>The invariant: every descriptor is free, in flight or with the device, and only one of them; the slot
  of a request in flight has the waker of its task or says that the device is done; the slots of the
  other descriptors of requests are empty.\<close>

definition gpu_ok :: "u16 list \<Rightarrow> u16 set \<Rightarrow> 'd gpu_system \<Rightarrow> bool" where
  "gpu_ok ids extra s \<longleftrightarrow>
     (let (fs, g) = s; v = gpu_virtio g in
      unat (queue_select v) < length (queues_free v) \<and> length (gpu_wakers g) = 256 \<and>
      distinct ids \<and> (\<forall>d \<in> set ids. unat d < 256) \<and> set ids \<inter> extra = {} \<and>
      mset (gpu_free g) + mset (held fs) = mset ids \<and>
      (\<forall>t a b. (t, Req_Wait a b) \<in> set fs \<longrightarrow>
         gpu_wakers g ! unat a \<in> {IdWaker_Waker t, IdWaker_Done} \<and> gpu_wakers g ! unat b = IdWaker_None) \<and>
      (\<forall>d \<in> set (gpu_free g). gpu_wakers g ! unat d = IdWaker_None))"

text \<open>A driver on a queue of \<open>n\<close> descriptors, for concrete inputs.\<close>

definition sample_gpu :: "u16 \<Rightarrow> unit gpu" where
  "sample_gpu n = \<lparr> gpu_virtio = sample_virtio\<lparr> queues_free := [QueueFreeDescs_new n] \<rparr>,
     gpu_io = sample_io\<lparr> io_regs := sample_regs\<lparr> queue_size := n \<rparr> \<rparr>, gpu_wakers = GPU_WAKERS \<rparr>"

section \<open>The free descriptors of the driver\<close>

lemma with_queue_eq:
  "unat (queue_select v) < length (queues_free v) \<Longrightarrow>
   with_queue f v = (let (r, q) = f (queues_free v ! unat (queue_select v))
     in Inr (r, v\<lparr> queues_free := (queues_free v)[unat (queue_select v) := q] \<rparr>))"
  by (simp add: with_queue_def array_get_def)

lemma put_free_simps [simp]:
  "queue_select (put_free fr v) = queue_select v" "length (queues_free (put_free fr v)) = length (queues_free v)"
  "last_used_idx (put_free fr v) = last_used_idx v" "notify (put_free fr v) = notify v"
  "put_free fr (put_free fr' v) = put_free fr v"
  "unat (queue_select v) < length (queues_free v) \<Longrightarrow> free (queues_free (put_free fr v) ! unat (queue_select v)) = fr"
  by (cases "unat (queue_select v) < length (queues_free v)"; simp add: put_free_def list_update_beyond)+

lemma set_free_desc_id_eq:
  assumes "unat (queue_select v) < length (queues_free v)"
  shows "set_free_desc_id d v = Inr (put_free (free (queues_free v ! unat (queue_select v)) @ [d]) v)"
  using assms by (simp add: set_free_desc_id_def with_queue_eq set_free_def put_free_def res_map_def)

lemma get_free_twice_None: "get_free_twice q = (None, q') \<Longrightarrow> q' = q"
  by (auto simp: get_free_twice_def split: if_splits prod.splits)

lemma get_free_twice_desc_id_eq:
  assumes "unat (queue_select v) < length (queues_free v)"
  shows "get_free_twice_desc_id v = (case get_free_twice (queues_free v ! unat (queue_select v)) of
      (Some p, q) \<Rightarrow> Inr (Some p, put_free (free q) v) | (None, q) \<Rightarrow> Inr (None, v))"
proof (cases "get_free_twice (queues_free v ! unat (queue_select v))")
  case (Pair r q)
  show ?thesis
  proof (cases r)
    case None
    with Pair have "q = queues_free v ! unat (queue_select v)" using get_free_twice_None by blast
    with None Pair assms show ?thesis by (simp add: get_free_twice_desc_id_def with_queue_eq)
  next
    case (Some p)
    then obtain fr where "q = (queues_free v ! unat (queue_select v))\<lparr> free := fr \<rparr>"
      using Pair by (cases p) (auto simp: get_free_twice_Some_iff)
    with Some Pair assms show ?thesis
      by (simp add: get_free_twice_desc_id_def with_queue_eq put_free_def)
  qed
qed

section \<open>One poll of a request\<close>

lemma request_wait_empty:
  assumes "unat a < length (gpu_wakers g)" and "gpu_wakers g ! unat a = IdWaker_None"
  shows "request_wait t a b g = Inr (Req_Wait a b, g\<lparr> gpu_wakers := (gpu_wakers g)[unat a := IdWaker_Waker t] \<rparr>)"
  using assms by (simp add: request_wait_def IdWait_poll_def array_get_def)

lemma request_wait_registered:
  assumes "unat a < length (gpu_wakers g)" and "gpu_wakers g ! unat a = IdWaker_Waker u"
  shows "request_wait t a b g = Inr (Req_Wait a b, g\<lparr> gpu_wakers := (gpu_wakers g)[unat a := IdWaker_Waker t] \<rparr>)"
  using assms by (simp add: request_wait_def IdWait_poll_def array_get_def)

lemma request_wait_done:
  assumes "unat a < length (gpu_wakers g)" and "gpu_wakers g ! unat a = IdWaker_Done"
    and "unat (queue_select (gpu_virtio g)) < length (queues_free (gpu_virtio g))"
  shows "request_wait t a b g = Inr (Req_Done (load_desc (gpu_io g) b),
    g\<lparr> gpu_wakers := (gpu_wakers g)[unat a := IdWaker_None],
       gpu_virtio := put_free (gpu_free g @ [a, b]) (gpu_virtio g) \<rparr>)"
  using assms by (simp add: request_wait_def IdWait_poll_def array_get_def set_free_desc_id_eq read_desc_def)

lemma request_start_Inr:
  assumes "request_start X voff data g = Inr ((a, b), g')"
    and "unat (queue_select (gpu_virtio g)) < length (queues_free (gpu_virtio g))"
  shows "\<exists>fr io. gpu_free g = fr @ [b, a] \<and> g' = g\<lparr> gpu_virtio := put_free fr (gpu_virtio g), gpu_io := io \<rparr>"
  using assms
  by (auto simp: request_start_def get_free_twice_desc_id_eq res_bind_eq_Inr_iff get_free_twice_Some_iff
      split: prod.splits option.splits)

section \<open>The invariant\<close>

lemma held_append [simp]: "held (us @ vs) = held us @ held vs"
  by (simp add: held_def)

lemma held_Cons [simp]: "held ((t, f) # fs) = held_by f @ held fs"
  by (simp add: held_def)

lemma held_Nil [simp]: "held [] = []"
  by (simp add: held_def)

lemma held_mem: "(t, Req_Wait a b) \<in> set fs \<Longrightarrow> a \<in> set (held fs) \<and> b \<in> set (held fs)"
  by (force simp: held_def)

lemma gpu_ok_distinct:
  assumes "gpu_ok ids extra (fs, g)"
  shows "distinct (gpu_free g @ held fs)" and "set (gpu_free g @ held fs) = set ids"
proof -
  from assms have m: "mset (gpu_free g @ held fs) = mset ids" and "distinct ids"
    by (simp_all add: gpu_ok_def Let_def)
  then show "distinct (gpu_free g @ held fs)" by (metis mset_eq_imp_distinct_iff)
  show "set (gpu_free g @ held fs) = set ids" using m by (rule mset_eq_setD)
qed


lemma gpu_okI:
  assumes "unat (queue_select (gpu_virtio g)) < length (queues_free (gpu_virtio g))" and "length (gpu_wakers g) = 256"
    and "distinct ids" and "\<And>d. d \<in> set ids \<Longrightarrow> unat d < 256" and "set ids \<inter> extra = {}"
    and "mset (gpu_free g) + mset (held fs) = mset ids"
    and "\<And>t a b. (t, Req_Wait a b) \<in> set fs \<Longrightarrow>
      gpu_wakers g ! unat a \<in> {IdWaker_Waker t, IdWaker_Done} \<and> gpu_wakers g ! unat b = IdWaker_None"
    and "\<And>d. d \<in> set (gpu_free g) \<Longrightarrow> gpu_wakers g ! unat d = IdWaker_None"
  shows "gpu_ok ids extra (fs, g)"
  using assms unfolding gpu_ok_def Let_def prod.case by blast

lemma gpu_okD:
  assumes "gpu_ok ids extra (fs, g)"
  shows "unat (queue_select (gpu_virtio g)) < length (queues_free (gpu_virtio g))" and "length (gpu_wakers g) = 256"
    and "distinct ids" and "d \<in> set ids \<Longrightarrow> unat d < 256" and "set ids \<inter> extra = {}"
    and "mset (gpu_free g) + mset (held fs) = mset ids"
    and "e \<in> set (gpu_free g) \<Longrightarrow> gpu_wakers g ! unat e = IdWaker_None"
  using assms unfolding gpu_ok_def Let_def prod.case by blast+

lemma gpu_ok_slot:
  assumes "gpu_ok ids extra (fs, g)" and "(t, Req_Wait a b) \<in> set fs"
  shows "gpu_wakers g ! unat a \<in> {IdWaker_Waker t, IdWaker_Done}" and "gpu_wakers g ! unat b = IdWaker_None"
  using assms unfolding gpu_ok_def Let_def prod.case by blast+

lemma gpu_ok_start:
  assumes ok: "gpu_ok ids extra (us @ (t, Req_Start data) # vs, g)" and free: "gpu_free g = fr @ [b, a]"
  shows "gpu_ok ids extra (us @ (t, Req_Wait a b) # vs,
    g\<lparr> gpu_virtio := put_free fr (gpu_virtio g), gpu_io := io, gpu_wakers := (gpu_wakers g)[unat a := IdWaker_Waker t] \<rparr>)"
proof -
  note d = gpu_ok_distinct [OF ok]
  have a: "unat a < 256" and b: "unat b < 256" and ab: "unat b \<noteq> unat a"
    using ok d free by (auto simp: gpu_ok_def Let_def word_unat_eq_iff [symmetric])
  have sep: "unat x \<noteq> unat a" if "x \<in> set fr \<union> set (held us) \<union> set (held vs)" for x
    using that d(1) free by (auto simp: word_unat_eq_iff [symmetric])
  have others: "(gpu_wakers g)[unat a := IdWaker_Waker t] ! unat c \<in> {IdWaker_Waker s, IdWaker_Done} \<and>
      (gpu_wakers g)[unat a := IdWaker_Waker t] ! unat e = IdWaker_None"
    if m: "(s, Req_Wait c e) \<in> set us \<union> set vs" for s c e
  proof -
    have "c \<in> set (held us) \<union> set (held vs)" "e \<in> set (held us) \<union> set (held vs)" using m held_mem by auto
    then have "unat a \<noteq> unat c" "unat a \<noteq> unat e" using sep [of c] sep [of e] by auto
    then show ?thesis using gpu_ok_slot [OF ok, of s c e] m by simp
  qed
  have b0: "gpu_wakers g ! unat b = IdWaker_None" "\<And>x. x \<in> set fr \<Longrightarrow> gpu_wakers g ! unat x = IdWaker_None"
    using ok free by (auto simp: gpu_ok_def Let_def)
  have keep: "x \<in> set fr \<Longrightarrow> (gpu_wakers g)[unat a := IdWaker_Waker t] ! unat x = IdWaker_None" for x
    using sep [of x] b0(2) [of x] by simp
  note D = gpu_okD [OF ok]
  show ?thesis
  proof (rule gpu_okI)
    fix s c e assume "(s, Req_Wait c e) \<in> set (us @ (t, Req_Wait a b) # vs)"
    then show "gpu_wakers (g\<lparr> gpu_virtio := put_free fr (gpu_virtio g), gpu_io := io,
        gpu_wakers := (gpu_wakers g)[unat a := IdWaker_Waker t] \<rparr>) ! unat c \<in> {IdWaker_Waker s, IdWaker_Done} \<and>
      gpu_wakers (g\<lparr> gpu_virtio := put_free fr (gpu_virtio g), gpu_io := io,
        gpu_wakers := (gpu_wakers g)[unat a := IdWaker_Waker t] \<rparr>) ! unat e = IdWaker_None"
      using others [of s c e] a ab b0 D(2) by auto
  qed (use D free keep in \<open>auto simp: add_mset_commute\<close>)
qed

lemma gpu_ok_wait:
  assumes ok: "gpu_ok ids extra (us @ (t, Req_Wait a b) # vs, g)"
  shows "unat a < 256" and "gpu_wakers g ! unat a \<in> {IdWaker_Waker t, IdWaker_Done}"
    and "x \<in> set (gpu_free g) \<union> {b} \<union> set (held us) \<union> set (held vs) \<Longrightarrow> unat x \<noteq> unat a"
  using ok gpu_ok_distinct [OF ok] by (auto simp: gpu_ok_def Let_def word_unat_eq_iff [symmetric])

lemma gpu_ok_done:
  assumes ok: "gpu_ok ids extra (us @ (t, Req_Wait a b) # vs, g)"
  shows "gpu_ok ids extra (us @ (t, Req_Done d) # vs, g\<lparr> gpu_wakers := (gpu_wakers g)[unat a := IdWaker_None],
       gpu_virtio := put_free (gpu_free g @ [a, b]) (gpu_virtio g) \<rparr>)"
proof -
  note sep = gpu_ok_wait(3) [OF ok]
  have others: "(gpu_wakers g)[unat a := IdWaker_None] ! unat c \<in> {IdWaker_Waker s, IdWaker_Done} \<and>
      (gpu_wakers g)[unat a := IdWaker_None] ! unat e = IdWaker_None"
    if m: "(s, Req_Wait c e) \<in> set us \<union> set vs" for s c e
  proof -
    have "c \<in> set (held us) \<union> set (held vs)" "e \<in> set (held us) \<union> set (held vs)" using m held_mem by auto
    then have "unat a \<noteq> unat c" "unat a \<noteq> unat e" using sep [of c] sep [of e] by auto
    then show ?thesis using gpu_ok_slot [OF ok, of s c e] m by simp
  qed
  have b0: "gpu_wakers g ! unat b = IdWaker_None" "unat b \<noteq> unat a"
    "\<And>x. x \<in> set (gpu_free g) \<Longrightarrow> gpu_wakers g ! unat x = IdWaker_None"
    "\<And>x. x \<in> set (gpu_free g) \<Longrightarrow> unat x \<noteq> unat a"
    using ok sep by (auto simp: gpu_ok_def Let_def)
  note D = gpu_okD [OF ok]
  show ?thesis
  proof (rule gpu_okI)
    fix s c e assume "(s, Req_Wait c e) \<in> set (us @ (t, Req_Done d) # vs)"
    then show "gpu_wakers (g\<lparr> gpu_wakers := (gpu_wakers g)[unat a := IdWaker_None],
        gpu_virtio := put_free (gpu_free g @ [a, b]) (gpu_virtio g) \<rparr>) ! unat c \<in> {IdWaker_Waker s, IdWaker_Done} \<and>
      gpu_wakers (g\<lparr> gpu_wakers := (gpu_wakers g)[unat a := IdWaker_None],
        gpu_virtio := put_free (gpu_free g @ [a, b]) (gpu_virtio g) \<rparr>) ! unat e = IdWaker_None"
      using others [of s c e] by auto
  qed (use D b0 gpu_ok_wait(1) [OF ok] in \<open>auto simp: nth_list_update\<close>)
qed

lemma gpu_ok_registered:
  assumes ok: "gpu_ok ids extra (us @ (t, Req_Wait a b) # vs, g)" and w: "gpu_wakers g ! unat a = IdWaker_Waker t"
  shows "gpu_ok ids extra (us @ (t, Req_Wait a b) # vs, g\<lparr> gpu_wakers := (gpu_wakers g)[unat a := IdWaker_Waker t] \<rparr>)"
proof -
  have "(gpu_wakers g)[unat a := IdWaker_Waker t] = gpu_wakers g" using w by (metis list_update_id)
  with ok show ?thesis by simp
qed

lemma gpu_ok_report:
  assumes ok: "gpu_ok ids extra (fs, g)" and a: "(t, Req_Wait a b) \<in> set fs \<or> a \<in> extra"
    and w: "wake_slot (unat a) g = Inr (w, g')"
  shows "gpu_ok ids extra (fs, g')"
proof -
  note d = gpu_ok_distinct [OF ok]
  have g': "g' = g\<lparr> gpu_wakers := (gpu_wakers g)[unat a := IdWaker_Done] \<rparr>" and len: "unat a < length (gpu_wakers g)"
    using w by (auto simp: wake_slot_def array_get_def IdWaker_wake_def split: if_splits)
  have ex: "x \<in> extra \<Longrightarrow> x \<notin> set (gpu_free g) \<union> set (held fs)" for x
    using ok d(2) by (auto simp: gpu_ok_def Let_def)
  have free: "unat x \<noteq> unat a" if "x \<in> set (gpu_free g)" for x
    using that a d(1) ex held_mem [of t a b fs] by (auto simp: word_unat_eq_iff [symmetric])
  have nxt: "unat e \<noteq> unat a" if m: "(s, Req_Wait c e) \<in> set fs" for s c e
  proof
    assume "unat e = unat a"
    then have e: "e = a" by (simp add: word_unat_eq_iff)
    then have "(t, Req_Wait a b) \<in> set fs" using a ex held_mem [OF m] by auto
    then have "gpu_wakers g ! unat a \<in> {IdWaker_Waker t, IdWaker_Done}" using ok by (auto simp: gpu_ok_def Let_def)
    moreover have "gpu_wakers g ! unat e = IdWaker_None" using ok m by (auto simp: gpu_ok_def Let_def)
    ultimately show False using e by simp
  qed
  have head: "(gpu_wakers g)[unat a := IdWaker_Done] ! unat c \<in> {IdWaker_Waker s, IdWaker_Done}"
    if "(s, Req_Wait c e) \<in> set fs" for s c e
    using gpu_ok_slot(1) [OF ok that] len by (cases "unat c = unat a") simp_all
  have keep: "x \<in> set (gpu_free g) \<Longrightarrow> (gpu_wakers g)[unat a := IdWaker_Done] ! unat x = IdWaker_None" for x
    using free [of x] gpu_okD(7) [OF ok, of x] by simp
  have tail: "(s, Req_Wait c e) \<in> set fs \<Longrightarrow> (gpu_wakers g)[unat a := IdWaker_Done] ! unat e = IdWaker_None" for s c e
    using nxt [of s c e] gpu_ok_slot(2) [OF ok, of s c e] by simp
  show ?thesis
    unfolding g' by (rule gpu_okI) (use gpu_okD [OF ok] head tail keep in auto)
qed

lemma gpu_ok_step:
  assumes "gpu_step X voff extra s s'" and "gpu_ok ids extra s"
  shows "gpu_ok ids extra s'"
  using assms
proof (cases rule: gpu_step.cases)
  case (spawn fs g t data)
  with assms(2) show ?thesis by (auto simp: gpu_ok_def Let_def)
next
  case (poll i fs t f g f' g')
  define us vs where "us = take i fs" and "vs = drop (Suc i) fs"
  have fs: "fs = us @ (t, f) # vs" and upd: "fs[i := (t, f')] = us @ (t, f') # vs"
    using poll by (simp_all add: us_def vs_def id_take_nth_drop [symmetric] upd_conv_take_nth_drop) (metis id_take_nth_drop)
  have ok: "gpu_ok ids extra (us @ (t, f) # vs, g)" using assms(2) poll fs by simp
  then have sel: "unat (queue_select (gpu_virtio g)) < length (queues_free (gpu_virtio g))" and len: "length (gpu_wakers g) = 256"
    by (simp_all add: gpu_ok_def Let_def)
  show ?thesis
  proof (cases f)
    case (Req_Start data)
    then obtain a b g1 where st: "request_start X voff data g = Inr ((a, b), g1)"
      and wt: "request_wait t a b g1 = Inr (f', g')"
      using poll by (auto simp: request_poll_def res_bind_eq_Inr_iff)
    obtain fr io where fr: "gpu_free g = fr @ [b, a]"
      and g1: "g1 = g\<lparr> gpu_virtio := put_free fr (gpu_virtio g), gpu_io := io \<rparr>"
      using request_start_Inr [OF st sel] by blast
    have "a \<in> set ids" using gpu_ok_distinct(2) [OF ok] fr by auto
    then have a: "unat a < 256" "gpu_wakers g ! unat a = IdWaker_None" using ok fr by (auto simp: gpu_ok_def Let_def)
    have "f' = Req_Wait a b \<and> g' = g\<lparr> gpu_virtio := put_free fr (gpu_virtio g), gpu_io := io,
        gpu_wakers := (gpu_wakers g)[unat a := IdWaker_Waker t] \<rparr>"
      using wt request_wait_empty [of a g1 t b] a len by (simp add: g1)
    with gpu_ok_start [of ids extra us t data vs g fr b a io] ok Req_Start fr poll upd show ?thesis by simp
  next
    case (Req_Wait a b)
    note w = gpu_ok_wait(1,2) [OF ok [unfolded Req_Wait]]
    have "request_wait t a b g = Inr (f', g')" using poll Req_Wait by (simp add: request_poll_def)
    with w len sel ok Req_Wait poll upd show ?thesis
      using request_wait_registered [of a g t t b] request_wait_done [of a g t b]
        gpu_ok_done [of ids extra us t a b vs g] gpu_ok_registered [of ids extra us t a b vs g]
      by auto
  next
    case (Req_Done d)
    with poll assms(2) show ?thesis by (simp add: request_poll_def) (metis list_update_id)
  qed
next
  case (device fs g io)
  with assms(2) show ?thesis by (simp add: gpu_ok_def Let_def)
next
  case (report t a b fs g w g')
  with assms(2) gpu_ok_report show ?thesis by metis
qed

section \<open>The start of the driver\<close>

lemma get_free_desc_id_put:
  assumes "unat (queue_select v) < length (queues_free v)"
  shows "get_free_desc_id v =
    (let fr = free (queues_free v ! unat (queue_select v))
     in Inr (if fr = [] then None else Some (last fr), put_free (butlast fr) v))"
  using assms by (simp add: get_free_desc_id_def with_queue_eq get_free_def vec_pop_def put_free_def Let_def)

lemma put_free_same: "put_free (free (queues_free v ! unat (queue_select v))) v = v"
  by (simp add: put_free_def)

lemma offer_some_free:
  assumes "offer_some n (v, io) = Inr (v', io')" and "unat (queue_select v) < length (queues_free v)"
    and "free (queues_free v ! unat (queue_select v)) = fr"
  shows "v' = put_free (take (length fr - n) fr) v"
  using assms
proof (induction n arbitrary: v io fr)
  case 0
  then show ?case by (auto simp: put_free_same)
next
  case (Suc n)
  define v1 where "v1 = put_free (butlast fr) v"
  have v1: "unat (queue_select v1) < length (queues_free v1)" "free (queues_free v1 ! unat (queue_select v1)) = butlast fr"
    using Suc.prems by (simp_all add: v1_def)
  have get: "get_free_desc_id v = Inr (if fr = [] then None else Some (last fr), v1)"
    using Suc.prems by (simp add: get_free_desc_id_put v1_def Let_def)
  obtain io1 where "offer_some n (v1, io1) = Inr (v', io')"
  proof (cases "fr = []")
    case True
    with get Suc.prems(1) that show ?thesis by simp
  next
    case False
    with get Suc.prems(1) that show ?thesis by (auto simp: res_bind_eq_Inr_iff)
  qed
  from Suc.IH [OF this v1] show ?case
    by (simp add: v1_def butlast_conv_take)
qed

lemma gpu_start_ok:
  assumes "gpu_start dev g = Inr g0" and "queues_free (gpu_virtio g) \<noteq> []"
    and "hd (queues_free (gpu_virtio g)) = QueueFreeDescs_new qsize" and "unat qsize \<le> 256"
    and "gpu_wakers g = GPU_WAKERS"
  shows "gpu_ok (map of_nat [0..<unat qsize - 10]) (set (map of_nat [unat qsize - 10..<unat qsize])) ([], g0)"
proof -
  let ?n = "unat qsize" and ?ids = "map of_nat [0..<unat qsize] :: u16 list"
  define v where "v = (gpu_virtio g)\<lparr> queue_select := 0 \<rparr>"
  obtain v' io io' where run: "offer_some 10 (v, io) = Inr (v', io')"
    and g0: "g0 = g\<lparr> gpu_virtio := v', gpu_io := io' \<rparr>"
    using assms(1) by (auto simp: gpu_start_def Virtio_queue_select_def v_def res_map_def res_bind_eq_Inr_iff Let_def)
  have sel: "unat (queue_select v) < length (queues_free v)" and fr: "free (queues_free v ! unat (queue_select v)) = ?ids"
    using assms(2,3) by (simp_all add: v_def hd_conv_nth free_new)
  have v': "v' = put_free (take (?n - 10) ?ids) v" using offer_some_free [OF run sel fr] by simp
  have take: "take (?n - 10) ?ids = map of_nat [0..<?n - 10]" by (simp add: take_map)
  have split: "?ids = map of_nat [0..<?n - 10] @ map of_nat [?n - 10..<?n]"
    using upt_add_eq_append [of 0 "?n - 10" "?n - (?n - 10)"] by (simp flip: map_append)
  have dist: "distinct (map of_nat [0..<?n - 10] @ map of_nat [?n - 10..<?n] :: u16 list)"
    using distinct_ids [of qsize] split by simp
  have small: "unat d < 256" if "d \<in> set ?ids" for d
    using that assms(4) by (auto simp: unat_of_nat_small)
  have free0: "gpu_free g0 = map of_nat [0..<?n - 10]" using sel by (simp add: g0 v' take)
  have none: "gpu_wakers g0 ! unat d = IdWaker_None" if "d \<in> set ?ids" for d
    using small [OF that] by (simp add: g0 assms(5) GPU_WAKERS_def)
  have sub: "set (map of_nat [0..<?n - 10] :: u16 list) \<subseteq> set ?ids" using split by (metis Un_upper1 set_append)
  show ?thesis
  proof (rule gpu_okI)
    show "unat d < 256" if "d \<in> set (map of_nat [0..<?n - 10])" for d :: u16
      using small [of d] sub that by blast
    show "gpu_wakers g0 ! unat d = IdWaker_None" if "d \<in> set (gpu_free g0)" for d
      using none [of d] sub that unfolding free0 by blast
    show "mset (gpu_free g0) + mset (held []) = mset (map of_nat [0..<?n - 10])" unfolding free0 by simp
    show "unat (queue_select (gpu_virtio g0)) < length (queues_free (gpu_virtio g0))"
      using sel by (simp add: g0 v')
    show "length (gpu_wakers g0) = 256" by (simp add: g0 assms(5) GPU_WAKERS_def)
  qed (use dist in auto)
qed

section \<open>Completion\<close>

lemma report_and_poll:
  assumes ok: "gpu_ok ids extra (fs, g)" and m: "(t, Req_Wait a b) \<in> set fs"
  shows "\<exists>g' g''. wake_slot (unat a) g = Inr (if gpu_wakers g ! unat a = IdWaker_Done then None else Some t, g') \<and>
    request_poll X voff t (Req_Wait a b) g' = Inr (Req_Done (load_desc (gpu_io g) b), g'') \<and>
    gpu_free g'' = gpu_free g @ [a, b]"
proof -
  note D = gpu_okD [OF ok]
  have "a \<in> set ids" using gpu_ok_distinct(2) [OF ok] held_mem [OF m] by auto
  then have a: "unat a < length (gpu_wakers g)" using D(2,4) by simp
  define g' where "g' = g\<lparr> gpu_wakers := (gpu_wakers g)[unat a := IdWaker_Done] \<rparr>"
  have "wake_slot (unat a) g = Inr (if gpu_wakers g ! unat a = IdWaker_Done then None else Some t, g')"
    using a gpu_ok_slot(1) [OF ok m] by (auto simp: wake_slot_def array_get_def IdWaker_wake_def g'_def)
  moreover have "request_poll X voff t (Req_Wait a b) g' = Inr (Req_Done (load_desc (gpu_io g) b),
      g'\<lparr> gpu_wakers := (gpu_wakers g')[unat a := IdWaker_None], gpu_virtio := put_free (gpu_free g @ [a, b]) (gpu_virtio g) \<rparr>)"
    using request_wait_done [of a g' t b] a D(1) by (simp add: request_poll_def g'_def)
  ultimately show ?thesis using D(1) by (auto simp: g'_def)
qed

lemma gpu_ok_reachable:
  "(gpu_step X voff extra)\<^sup>*\<^sup>* s s' \<Longrightarrow> gpu_ok ids extra s \<Longrightarrow> gpu_ok ids extra s'"
  by (induction rule: rtranclp_induct) (auto intro: gpu_ok_step)

lemma kick_Inr:
  "kick X voff q v io = Inr io' \<Longrightarrow> io_mem io' = io_mem io \<and> io_regs io' = io_regs io"
  by (auto simp: kick_def Let_def res_bind_eq_Inr_iff split: Bar.splits)

lemma kick_notify: "kick X voff q (put_free fr v) io = kick X voff q v io"
  by (simp add: kick_def split: Bar.splits)

lemma add_request_regs: "add_request d e data io = Inr io' \<Longrightarrow> io_regs io' = io_regs io"
  by (auto simp: add_request_def set_available_def Let_def split: if_splits)

lemma load_desc_cong:
  "io_mem io' = io_mem io \<Longrightarrow> io_regs io' = io_regs io \<Longrightarrow> load_desc io' e = load_desc io e"
  by (simp add: load_desc_def)

lemma avail_log_io:
  "io_mem io' = io_mem io \<Longrightarrow> io_regs io' = io_regs io \<Longrightarrow> avail_log log io' = avail_log log io"
  by (simp add: avail_log_def)

lemma request_first_poll:
  assumes "unat (queue_select (gpu_virtio g)) < length (queues_free (gpu_virtio g))" and "gpu_free g = fr @ [b, a]"
    and "unat a < length (gpu_wakers g)" and "gpu_wakers g ! unat a = IdWaker_None"
    and "add_request a b data (gpu_io g) = Inr io1" and "kick X voff 0 (gpu_virtio g) io1 = Inr io2"
  shows "request_poll X voff t (Req_Start data) g = Inr (Req_Wait a b, g\<lparr> gpu_virtio := put_free fr (gpu_virtio g),
    gpu_io := io2, gpu_wakers := (gpu_wakers g)[unat a := IdWaker_Waker t] \<rparr>)"
proof -
  have "get_free_twice (queues_free (gpu_virtio g) ! unat (queue_select (gpu_virtio g))) =
      (Some (a, b), (queues_free (gpu_virtio g) ! unat (queue_select (gpu_virtio g)))\<lparr> free := fr \<rparr>)"
    using assms(2) by (simp add: get_free_twice_Some_iff)
  then have "request_start X voff data g = Inr ((a, b), g\<lparr> gpu_virtio := put_free fr (gpu_virtio g), gpu_io := io2 \<rparr>)"
    using assms(1,5,6) by (simp add: request_start_def get_free_twice_desc_id_eq kick_notify)
  then show ?thesis
    using request_wait_empty [of a "g\<lparr> gpu_virtio := put_free fr (gpu_virtio g), gpu_io := io2 \<rparr>" t b] assms(3,4)
    by (simp add: request_poll_def)
qed

text \<open>The polling task with one completion to consume.\<close>

lemma checkall_one:
  assumes "queue_areas_ok (io_regs (gpu_io g))"
    and "used_log (io_regs (gpu_io g)) (ulog @ [u]) (io_mem (gpu_io g))"
    and "consumed (gpu_virtio g) (length ulog)"
    and "wake_slot (unat (used_id u)) g = Inr (Some t, g')"
  shows "\<exists>v'. checkall 2 g = Some (Inr ([t], g'\<lparr> gpu_virtio := v' \<rparr>)) \<and> queues_free v' = queues_free (gpu_virtio g) \<and>
    queue_select v' = queue_select (gpu_virtio g)"
proof -
  let ?io = "gpu_io g" and ?v = "gpu_virtio g"
  let ?v1 = "?v\<lparr> last_used_idx := (last_used_idx ?v)[unat (queue_select ?v) := of_nat (length ulog)] \<rparr>"
  have q: "0 < unat (queue_size (io_regs ?io))" by (rule queue_areas_okD(1)) (rule assms(1))
  have one: "next_used ?v ?io = Inr (Some u, ?v1)"
    using next_used_step [OF assms(1-3)] q by simp
  have none: "next_used ?v1 ?io = Inr (None, ?v1)"
    using next_used_step [OF assms(1,2) consumed_step [OF assms(3)]] q by simp
  obtain ws where g': "g' = g\<lparr> gpu_wakers := ws \<rparr>" and "wake_slot (unat (used_id u)) (g\<lparr> gpu_virtio := ?v1 \<rparr>) =
      Inr (Some t, g'\<lparr> gpu_virtio := ?v1 \<rparr>)"
    using assms(4) by (auto simp: wake_slot_def array_get_def split: if_splits prod.splits)
  with one none show ?thesis by (auto simp: numeral_2_eq_2 g' res_map_def)
qed

lemma offer_some_total:
  assumes "unat (queue_select v) < length (queues_free v)" and "queue_size (io_regs io) \<noteq> 0"
  shows "\<exists>v' io'. offer_some n (v, io) = Inr (v', io') \<and> io_regs io' = io_regs io"
  using assms
proof (induction n arbitrary: v io)
  case 0
  then show ?case by simp
next
  case (Suc n)
  let ?fr = "free (queues_free v ! unat (queue_select v))"
  let ?v = "put_free (butlast ?fr) v"
  have ok: "unat (queue_select ?v) < length (queues_free ?v)" using Suc.prems by simp
  show ?case
  proof (cases "?fr = []")
    case True
    then show ?thesis using Suc.IH [OF ok Suc.prems(2)] Suc.prems(1) by (simp add: get_free_desc_id_put Let_def)
  next
    case False
    obtain io1 where io1: "set_writable_available (last ?fr) io = Inr io1" "io_regs io1 = io_regs io"
      using Suc.prems(2) by (auto simp: set_writable_available_def set_available_def Let_def)
    then show ?thesis
      using Suc.IH [OF ok, of io1] Suc.prems False by (auto simp: get_free_desc_id_put Let_def)
  qed
qed

lemma sample_kick:
  "notify v = notify sample_virtio \<Longrightarrow> queue_notify_off (io_regs io) = 0 \<Longrightarrow> \<exists>io'. kick x86_crate 0 0 v io = Inr io'"
  by (simp add: kick_def sample_virtio_def VirtioCap_new_def x86_crate_def phys_to_virt_def res_bind_def)

section \<open>Properties\<close>

text \<open>C3: Requests in flight. The driver starts with the empty waker table on a fresh queue of at most 256
  descriptors. In every state that any interleaving of tasks issuing and polling requests, the device
  and its reports then reaches, each descriptor is free or held by one request only, so no two requests
  share a buffer; and no wake-up is lost: when the device reports the head of a request in flight the
  request's own task is woken (unless it was already), and its next poll ends the request with the
  second descriptor and gives both descriptors back.\<close>

theorem requests_never_share:
  assumes "gpu_start dev g = Inr g0" and "queues_free (gpu_virtio g) \<noteq> []"
    and "hd (queues_free (gpu_virtio g)) = QueueFreeDescs_new qsize" and "unat qsize \<le> 256"
    and "gpu_wakers g = GPU_WAKERS"
    and "(gpu_step X voff (set (map of_nat [unat qsize - 10..<unat qsize])))\<^sup>*\<^sup>* ([], g0) (fs, g1)"
  shows "distinct (gpu_free g1 @ held fs) \<and> mset (gpu_free g1 @ held fs) = mset (map of_nat [0..<unat qsize - 10]) \<and>
    (\<forall>t a b. (t, Req_Wait a b) \<in> set fs \<longrightarrow>
      (\<exists>g' g''. wake_slot (unat a) g1 = Inr (if gpu_wakers g1 ! unat a = IdWaker_Done then None else Some t, g') \<and>
         request_poll X voff t (Req_Wait a b) g' = Inr (Req_Done (load_desc (gpu_io g1) b), g'') \<and>
         gpu_free g'' = gpu_free g1 @ [a, b]))"
proof -
  have ok: "gpu_ok (map of_nat [0..<unat qsize - 10]) (set (map of_nat [unat qsize - 10..<unat qsize])) (fs, g1)"
    using gpu_ok_reachable [OF assms(6) gpu_start_ok [OF assms(1-5)]] .
  show ?thesis
    using gpu_ok_distinct(1) [OF ok] gpu_okD(6) [OF ok] report_and_poll [OF ok] by (metis mset_append)
qed

text \<open>Sixteen descriptors, ten of them offered: the first request takes descriptors 5 and 4.\<close>

theorem requests_never_share_witness:
  "\<exists>g0 g1. gpu_start id (sample_gpu 16) = Inr g0 \<and>
    (gpu_step x86_crate 0 (set (map of_nat [6..<16])))\<^sup>*\<^sup>* ([], g0) ([(7, Req_Wait 5 4)], g1) \<and>
    distinct (gpu_free g1 @ [5, 4])"
proof -
  let ?g = "sample_gpu 16"
  let ?v = "(gpu_virtio ?g)\<lparr> queue_select := 0 \<rparr>"
    and ?io = "(gpu_io ?g)\<lparr> io_dev := (), io_regs := (io_regs (gpu_io ?g))\<lparr> cfg_queue_select := 0 \<rparr> \<rparr>"
  have sel: "unat (queue_select ?v) < length (queues_free ?v)" and q: "queue_size (io_regs ?io) \<noteq> 0"
    by (simp_all add: sample_gpu_def)
  obtain v' io' where run: "offer_some 10 (?v, ?io) = Inr (v', io')" and regs: "io_regs io' = io_regs ?io"
    using offer_some_total [OF sel q, of 10] by blast
  define g0 where "g0 = ?g\<lparr> gpu_virtio := v', gpu_io := io' \<rparr>"
  have start: "gpu_start id ?g = Inr g0"
    using run by (simp add: gpu_start_def Virtio_queue_select_def store_reg_def g0_def res_map_def)
  have ids: "free (QueueFreeDescs_new 16) = [0, 1, 2, 3, 4, 5, 6, 7, 8, 9, 10, 11, 12, 13, 14, 15]"
    by (simp add: free_new upt_rec)
  have v': "v' = put_free [0, 1, 2, 3, 4, 5] ?v"
    using offer_some_free [OF run sel refl] by (simp add: sample_gpu_def ids)
  have sel0: "unat (queue_select (gpu_virtio g0)) < length (queues_free (gpu_virtio g0))"
    and free0: "gpu_free g0 = [0, 1, 2, 3] @ [4, 5]"
    by (simp_all add: g0_def v' put_free_def sample_gpu_def)
  have slot: "unat (5 :: u16) < length (gpu_wakers g0)" "gpu_wakers g0 ! unat (5 :: u16) = IdWaker_None"
    by (simp_all add: g0_def sample_gpu_def GPU_WAKERS_def)
  have "queue_size (io_regs io') \<noteq> 0" "queue_notify_off (io_regs io') = 0"
    by (simp_all add: regs sample_gpu_def sample_regs_def)
  then obtain io1 where io1: "add_request 5 4 [1] (gpu_io g0) = Inr io1" and "queue_notify_off (io_regs io1) = 0"
    using add_request_total [of io' 5 4 "[1]"] add_request_regs [of 5 4 "[1]" io'] by (auto simp: g0_def)
  moreover have "notify (gpu_virtio g0) = notify sample_virtio" by (simp add: g0_def v' sample_gpu_def)
  ultimately obtain io2 where io2: "kick x86_crate 0 0 (gpu_virtio g0) io1 = Inr io2" using sample_kick by blast
  obtain g1 where poll: "request_poll x86_crate 0 7 (Req_Start [1]) g0 = Inr (Req_Wait 5 4, g1)"
    using request_first_poll [OF sel0 free0 slot io1 io2] by blast
  have "(gpu_step x86_crate 0 (set (map of_nat [6..<16])))\<^sup>*\<^sup>* ([], g0) ([(7, Req_Start [1])], g0)"
    using gpu_step.spawn [of x86_crate 0 _ "[]" g0 7 "[1]"] by auto
  moreover have "gpu_step x86_crate 0 (set (map of_nat [6..<16])) ([(7, Req_Start [1])], g0) ([(7, Req_Wait 5 4)], g1)"
    using gpu_step.poll [of 0 "[(7, Req_Start [1])]" 7 "Req_Start [1]" x86_crate 0 g0 "Req_Wait 5 4" g1] poll by simp
  ultimately have reach: "(gpu_step x86_crate 0 (set (map of_nat [6..<16])))\<^sup>*\<^sup>* ([], g0) ([(7, Req_Wait 5 4)], g1)"
    by (rule rtranclp.rtrancl_into_rtrancl)
  have "distinct (gpu_free g1 @ held [(7, Req_Wait 5 4)])"
    using requests_never_share [OF start, of 16 x86_crate 0 "[(7, Req_Wait 5 4)]" g1] reach
    by (simp add: sample_gpu_def del: upt_rec_numeral)
  with start reach show ?thesis by (intro exI [of _ g0] exI [of _ g1]) simp
qed

text \<open>C18: One request from start to end. On a queue in order, with two free descriptors and an empty slot,
  the first poll of a request leaves the chain for the device (the request in the first buffer, linked
  to the writable second descriptor), appends it to the available ring and waits. When the device then
  reports the chain, whatever it has written, the polling task wakes exactly this request's task, and
  the next poll returns the second descriptor, with the device's answer in its buffer, and puts both
  descriptors back on the free stack.\<close>

theorem request_cycle:
  fixes g :: "'d gpu"
  assumes "queue_areas_ok (io_regs (gpu_io g))" and "avail_log log (gpu_io g)"
    and "unat (queue_select (gpu_virtio g)) < length (queues_free (gpu_virtio g))"
    and "gpu_free g = fr @ [b, a]" and "a \<noteq> b"
    and "unat a < unat (queue_size (io_regs (gpu_io g)))" and "unat b < unat (queue_size (io_regs (gpu_io g)))"
    and "unat a < length (gpu_wakers g)" and "gpu_wakers g ! unat a = IdWaker_None"
    and "buffer_ok (io_regs (gpu_io g)) (desc_addr (load_desc (gpu_io g) a)) (length data)"
    and "\<And>io :: 'd virtio_io. io_regs io = io_regs (gpu_io g) \<Longrightarrow> \<exists>io'. kick X voff 0 (gpu_virtio g) io = Inr io'"
  shows "\<exists>g1. request_poll X voff t (Req_Start data) g = Inr (Req_Wait a b, g1) \<and>
    avail_log (log @ [a]) (gpu_io g1) \<and>
    read_bytes (io_mem (gpu_io g1)) (desc_addr (load_desc (gpu_io g) a)) (length data) = data \<and>
    load_desc (gpu_io g1) a = \<lparr> desc_addr = desc_addr (load_desc (gpu_io g) a), desc_len = of_nat (length data),
      desc_flags = VIRTQ_DESC_F_NEXT, desc_next = b \<rparr> \<and>
    load_desc (gpu_io g1) b = (load_desc (gpu_io g) b)\<lparr> desc_flags := VIRTQ_DESC_F_WRITE, desc_len := 4096 \<rparr> \<and>
    (\<forall>(io :: 'd virtio_io) ulog k. queue_areas_ok (io_regs io) \<longrightarrow> consumed (gpu_virtio g) (length ulog) \<longrightarrow>
      used_log (io_regs io) (ulog @ [\<lparr> used_id = ucast a, used_len = k \<rparr>]) (io_mem io) \<longrightarrow>
      (\<exists>g2 g3. checkall 2 (g1\<lparr> gpu_io := io \<rparr>) = Some (Inr ([t], g2)) \<and>
         request_poll X voff t (Req_Wait a b) g2 = Inr (Req_Done (load_desc io b), g3) \<and>
         gpu_free g3 = fr @ [a, b]))"
proof -
  obtain io1 where io1: "add_request a b data (gpu_io g) = Inr io1"
    using add_request_total queue_areas_okD(1) [OF assms(1)] by (metis unat_0 less_irrefl)
  note chain = add_request_chain [OF assms(1,2,6,7,5,10) io1]
  obtain io2 where io2: "kick X voff 0 (gpu_virtio g) io1 = Inr io2"
    using assms(11) add_request_regs [OF io1] by blast
  note k = kick_Inr [OF io2]
  define g1 where "g1 = g\<lparr> gpu_virtio := put_free fr (gpu_virtio g), gpu_io := io2,
    gpu_wakers := (gpu_wakers g)[unat a := IdWaker_Waker t] \<rparr>"
  have first: "request_poll X voff t (Req_Start data) g = Inr (Req_Wait a b, g1)"
    unfolding g1_def by (rule request_first_poll [OF assms(3,4,8,9) io1 io2])
  have later: "\<exists>g2 g3. checkall 2 (g1\<lparr> gpu_io := io \<rparr>) = Some (Inr ([t], g2)) \<and>
         request_poll X voff t (Req_Wait a b) g2 = Inr (Req_Done (load_desc io b), g3) \<and> gpu_free g3 = fr @ [a, b]"
    if io: "queue_areas_ok (io_regs io)" "consumed (gpu_virtio g) (length ulog)"
      "used_log (io_regs io) (ulog @ [\<lparr> used_id = ucast a, used_len = len \<rparr>]) (io_mem io)" for io ulog len
  proof -
    let ?u = "\<lparr> used_id = ucast a, used_len = len \<rparr>"
    define g' where "g' = g1\<lparr> gpu_io := io, gpu_wakers := (gpu_wakers g)[unat a := IdWaker_Done] \<rparr>"
    have "unat (ucast a :: u32) = unat a" by (rule unat_ucast_up) simp
    then have "wake_slot (unat (used_id ?u)) (g1\<lparr> gpu_io := io \<rparr>) = Inr (Some t, g')"
      using assms(8) by (simp add: wake_slot_def array_get_def IdWaker_wake_def g1_def g'_def)
    moreover have "consumed (gpu_virtio (g1\<lparr> gpu_io := io \<rparr>)) (length ulog)"
      using io(2) by (simp add: g1_def consumed_def)
    ultimately obtain v' where v': "checkall 2 (g1\<lparr> gpu_io := io \<rparr>) = Some (Inr ([t], g'\<lparr> gpu_virtio := v' \<rparr>))"
      "queues_free v' = queues_free (gpu_virtio g1)" "queue_select v' = queue_select (gpu_virtio g1)"
      using checkall_one [of "g1\<lparr> gpu_io := io \<rparr>" ulog ?u t g'] io by auto
    have sel: "unat (queue_select v') < length (queues_free v')" using v' assms(3) by (simp add: g1_def)
    have "free (queues_free v' ! unat (queue_select v')) = fr" using v' assms(3) by (simp add: g1_def)
    then have "request_poll X voff t (Req_Wait a b) (g'\<lparr> gpu_virtio := v' \<rparr>) = Inr (Req_Done (load_desc io b),
        (g'\<lparr> gpu_virtio := v' \<rparr>)\<lparr> gpu_wakers := (gpu_wakers g')[unat a := IdWaker_None], gpu_virtio := put_free (fr @ [a, b]) v' \<rparr>)"
      using request_wait_done [of a "g'\<lparr> gpu_virtio := v' \<rparr>" t b] sel assms(8) by (simp add: request_poll_def g'_def g1_def)
    with v'(1) sel show ?thesis
      by (intro exI [of _ "g'\<lparr> gpu_virtio := v' \<rparr>"] exI [of _ "(g'\<lparr> gpu_virtio := v' \<rparr>)\<lparr> gpu_wakers :=
        (gpu_wakers g')[unat a := IdWaker_None], gpu_virtio := put_free (fr @ [a, b]) v' \<rparr>"]) simp
  qed
  have io: "gpu_io g1 = io2" by (simp add: g1_def)
  have ring: "avail_log (log @ [a]) io2" using chain(1) avail_log_io [of io2 io1] k by blast
  have descs: "load_desc io2 a = load_desc io1 a" "load_desc io2 b = load_desc io1 b"
    using load_desc_cong [of io2 io1] k by blast+
  show ?thesis
    by (rule exI [of _ g1], unfold io descs) (intro conjI first ring chain allI impI later, use k chain(5) in simp)
qed

theorem request_cycle_witness:
  "\<exists>g1. request_poll x86_crate 0 7 (Req_Start [1, 2, 3]) (sample_gpu 4) = Inr (Req_Wait 3 2, g1) \<and>
    avail_log [3] (gpu_io g1) \<and> desc_next (load_desc (gpu_io g1) 3) = 2"
proof -
  let ?g = "sample_gpu 4"
  have io: "gpu_io ?g = sample_io"
    by (simp add: sample_gpu_def sample_io_def sample_regs_def)
  have free: "gpu_free ?g = [0, 1] @ [2, 3]"
    by (simp add: sample_gpu_def sample_virtio_def free_new upt_rec)
  have d: "load_desc sample_io 3 = \<lparr> desc_addr = 0, desc_len = 0, desc_flags = 0, desc_next = 0 \<rparr>"
    by (simp add: load_desc_def desc_ptr_def sample_io_def sample_regs_def Desc_of_bytes_def read_bytes_numeral)
  have buf: "buffer_ok (io_regs (gpu_io ?g)) (desc_addr (load_desc (gpu_io ?g) 3)) (length [1 :: u8, 2, 3])"
    unfolding io d by (simp add: buffer_ok_def region_ok_def region_disjoint_def sample_io_def sample_regs_def)
  have kick: "\<exists>io'. kick x86_crate 0 0 (gpu_virtio ?g) (io :: unit virtio_io) = Inr io'"
    if "io_regs io = io_regs (gpu_io ?g)" for io
    using that by (intro sample_kick) (simp_all add: sample_gpu_def sample_regs_def)
  have "\<exists>g1. request_poll x86_crate 0 7 (Req_Start [1, 2, 3]) ?g = Inr (Req_Wait 3 2, g1) \<and>
      avail_log ([] @ [3]) (gpu_io g1) \<and> desc_next (load_desc (gpu_io g1) 3) = 2"
    using request_cycle [of ?g "[]" "[0, 1]" 2 3 "[1, 2, 3]" x86_crate 0 7, OF _ _ _ free _ _ _ _ _ buf kick]
      sample_areas_ok sample_avail_log unfolding io
    by (auto simp: sample_gpu_def sample_io_def sample_regs_def sample_virtio_def GPU_WAKERS_def)
  then show ?thesis by simp
qed

text \<open>C27: The lock held over an \<^verbatim>\<open>await\<close>. The driver yields while it holds the lock of the device, and the
  polling task it has just spawned spins on that lock. They do not deadlock: whatever else runs in the
  turn, in the queue of the next turn the driver (task \<open>i\<close>) is before the polling task, so it is resumed
  and drops the lock before the polling task is polled for the first time.\<close>

theorem driver_resumes_before_poller:
  assumes "tasks e i = Some f" and "poll i f w = (w', drive_effects checkall_task, Pending f')"
    and "length (yielders e) < QUEUE_SIZE" and "length (spawn_queue e) < QUEUE_SIZE"
    and "poll_task poll i (e, w) = Inr (e1, w1)" and "run_ready_tasks poll n (e1, w1) = Some (Inr (e2, w2))"
    and "executor_ok e2" and "length (yielders e2) + length (spawn_queue e2) \<le> QUEUE_SIZE"
  shows "\<exists>e3 e4 xs ys zs. wake_yielders e2 = Inr e3 \<and> spawn_pending e3 = Inr e4 \<and>
    task_queue e4 = xs @ i # ys @ next_id e # zs"
proof -
  have e1: "yielders e1 = yielders e @ [i]"
    "spawn_queue e1 = spawn_queue e @ [\<lparr> task_id = next_id e, task_future = checkall_task \<rparr>]"
    using assms(1-5) by (auto simp: poll_task_def drive_effects_def Spawner_run_def Task_new_def TaskId_new_def
        aq_push_def YieldOnce_poll_def yielders_push_def Let_def split: if_splits)
  obtain ys ss where "task_queue e2 = []" "yielders e2 = yielders e1 @ ys" "spawn_queue e2 = spawn_queue e1 @ ss"
    using run_ready_appends [OF assms(6)] by blast
  with yielders_before_spawned [OF assms(7) _ assms(8)] obtain e3 e4 where "wake_yielders e2 = Inr e3"
    "spawn_pending e3 = Inr e4"
    "task_queue e4 = yielders e @ i # (ys @ map task_id (spawn_queue e)) @ next_id e # map task_id ss"
    by (auto simp: e1)
  then show ?thesis by blast
qed

text \<open>The driver is task 0, another task yields after it.\<close>

theorem driver_resumes_before_poller_witness:
  "\<exists>e3 e4 xs ys zs. wake_yielders \<lparr> tasks = [0 \<mapsto> 1, 4 \<mapsto> 0], task_queue = [],
       spawn_queue = [\<lparr> task_id = 5, task_future = 2 :: nat \<rparr>], waker_cache = {0, 4}, yielders = [0, 4], next_id = 6 \<rparr> = Inr e3 \<and>
     spawn_pending e3 = Inr e4 \<and> task_queue e4 = xs @ 0 # ys @ 5 # zs"
proof -
  define pl :: "(nat, unit) poller" where
    "pl = (\<lambda>i f w. (w, if f = 1 then drive_effects 2 else [EYield], Pending f))"
  define e :: "nat Executor" where "e = \<lparr> tasks = [0 \<mapsto> 1, 4 \<mapsto> 0], task_queue = [4], spawn_queue = [],
    waker_cache = {}, yielders = [], next_id = 5 \<rparr>"
  define e1 :: "nat Executor" where "e1 = \<lparr> tasks = [0 \<mapsto> 1, 4 \<mapsto> 0], task_queue = [4],
    spawn_queue = [\<lparr> task_id = 5, task_future = 2 \<rparr>], waker_cache = {0}, yielders = [0], next_id = 6 \<rparr>"
  define e2 :: "nat Executor" where "e2 = \<lparr> tasks = [0 \<mapsto> 1, 4 \<mapsto> 0], task_queue = [],
    spawn_queue = [\<lparr> task_id = 5, task_future = 2 \<rparr>], waker_cache = {0, 4}, yielders = [0, 4], next_id = 6 \<rparr>"
  note defs = pl_def e_def e1_def e2_def drive_effects_def poll_task_def Spawner_run_def Task_new_def TaskId_new_def
    aq_push_def aq_pop_def YieldOnce_poll_def yielders_push_def QUEUE_SIZE_def
  have "poll_task pl 0 (e, ()) = Inr (e1, ())" by (simp add: defs) (auto simp: fun_eq_iff)
  moreover have "run_ready_tasks pl 2 (e1, ()) = Some (Inr (e2, ()))"
    by (simp add: numeral_2_eq_2 defs) (auto simp: fun_eq_iff)
  moreover have "executor_ok e2" by (auto simp: executor_ok_def e2_def task_ids_def QUEUE_SIZE_def split: if_splits)
  ultimately have "\<exists>e3 e4 xs ys zs. wake_yielders e2 = Inr e3 \<and> spawn_pending e3 = Inr e4 \<and>
      task_queue e4 = xs @ 0 # ys @ next_id e # zs"
    by (intro driver_resumes_before_poller [of e 0 1 pl "()" "()" 2 1 e1 "()" 2 e2 "()"])
      (simp_all add: pl_def e_def e2_def QUEUE_SIZE_def)
  then show ?thesis unfolding e2_def e_def by simp
qed

end
