(* ===== verification/Gpu_Drive.thy ===== *)
theory Gpu_Drive
  imports Gpu_Driver Framebuffer
begin

text \<open>
  The tasks of the GPU driver, \<^verbatim>\<open>drive\<close> of \<^verbatim>\<open>src/bootloader/kernel/src/drivers/virtio_gpu.rs\<close>, from the first
  poll to the two loops that refresh the screen.

  \<^verbatim>\<open>drive\<close> is a sequence of requests, each awaited before the next. The state of its future names the
  request it waits for (\<open>drive_at\<close>); \<open>drive_next\<close> is the code from the end of that request to the next one.
  The loop that uploads the screen is a task of its own, spawned before the loop that flushes it.
  \<open>drive_sys\<close> is the transition relation of these tasks with the device.

  The lemmas show which requests are sent and in which order, what the screen is when the first upload
  starts, and how many descriptors the tasks need: with ten offered to the device at the start, fourteen
  are enough for ever and fewer are not.
\<close>

section \<open>Definitions\<close>

subsection \<open>The screen in memory\<close>

text \<open>\<^verbatim>\<open>RGBA\<close> is four bytes. A vector made from raw memory is read from there.\<close>

definition RGBA_bytes :: "RGBA \<Rightarrow> u8 list" where
  "RGBA_bytes p = [px_r p, px_g p, px_b p, px_a p]"

definition RGBA_of_bytes :: "u8 list \<Rightarrow> RGBA" where
  "RGBA_of_bytes bs = \<lparr> px_r = bs ! 0, px_g = bs ! 1, px_b = bs ! 2, px_a = bs ! 3 \<rparr>"

definition pixels_at :: "mem \<Rightarrow> u64 \<Rightarrow> nat \<Rightarrow> RGBA list" where
  "pixels_at m addr n = map (\<lambda>i. RGBA_of_bytes (read_bytes m (addr + of_nat (4 * i)) 4)) [0..<n]"

definition fill_pixels :: "u64 \<Rightarrow> nat \<Rightarrow> mem \<Rightarrow> mem" where
  "fill_pixels addr capacity m =
     fold (\<lambda>i m. write_bytes m (addr + of_nat (4 * i))
        (RGBA_bytes \<lparr> px_r = 100, px_g = 120, px_b = 140, px_a = 125 \<rparr>)) [0..<capacity] m"

subsection \<open>The states of the driver\<close>

datatype drive_at =
    At_display | At_capset nat nat | At_edid | At_create2d | At_attach | At_scanout | At_transfer | At_flush
  | At_ctx | At_create3d | At_attach_resource | At_texture | At_submit | At_refresh

datatype gpu_task =
    Drive_begin
  | Drive_yielded drive_at
  | Drive_request drive_at request_future
  | Checkall_task
  | Upload_task VirtioGpuRect request_future

text \<open>The driver's locals and what it changes: the pages it maps, the screen it shares with the apps, the
  time of the last flush, and the blocks it gives to the global allocator when it drops a vector.\<close>

record ('d, 'p, 'a) driver =
  drv_gpu :: "'d gpu"
  drv_pages :: "'p \<times> 'a"
  drv_fb :: FB
  drv_display :: VirtioGpuDisplay
  drv_rect :: VirtioGpuRect
  drv_addr :: u64
  drv_texture :: u64
  drv_last_flush :: u64
  drv_dropped :: "(u64 \<times> nat) list"

text \<open>What the driver runs in: the address types and the mapping offset, the device, the mapper with its
  allocator, the undefined padding of a message, and the clock (the time when a loop has \<open>n\<close> rounds of
  fuel left).\<close>

record ('d, 'p, 'a) drive_env =
  env_crate :: addr_crate
  env_voff :: u64
  env_dev :: "'d virtio_dev"
  env_containing :: "u64 \<Rightarrow> u64"
  env_alloc :: "'a allocator"
  env_map_to :: "('p, 'a) mapper"
  env_undef :: u32
  env_now :: "nat \<Rightarrow> u64"

abbreviation drv_mem :: "('d, 'p, 'a) driver \<Rightarrow> mem" where
  "drv_mem w \<equiv> io_mem (gpu_io (drv_gpu w))"

definition set_drv_mem :: "mem \<Rightarrow> ('d, 'p, 'a) driver \<Rightarrow> ('d, 'p, 'a) driver" where
  "set_drv_mem m w = w\<lparr> drv_gpu := (drv_gpu w)\<lparr> gpu_io := (gpu_io (drv_gpu w))\<lparr> io_mem := m \<rparr> \<rparr> \<rparr>"

subsection \<open>The steps of \<^verbatim>\<open>drive\<close>\<close>

definition drive_request :: "('d, 'p, 'a) drive_env \<Rightarrow> drive_at \<Rightarrow> ('d, 'p, 'a) driver \<Rightarrow> u8 list" where
  "drive_request E at w =
     (let requests2d = setup_2d_requests (drv_rect w) (drv_addr w);
          requests3d = setup_3d_requests (drv_texture w) (env_undef E)
      in case at of
        At_display \<Rightarrow> VirtioGpuCtrlHdr_bytes (hdr_of VirtioGpuCmdGetDisplayInfo)
      | At_capset i n \<Rightarrow> VirtioGpuCmdGetCapsetInfo_bytes \<lparr> caps_header = hdr_of VirtioGpuCmdGetCapsetInfo,
            caps_capset_index = of_nat i, caps_padding = 0 \<rparr>
      | At_edid \<Rightarrow> VirtioGpuCtrlHdr_bytes (hdr_of VirtioGpuCmdGetEdid)
      | At_create2d \<Rightarrow> requests2d ! 0 | At_attach \<Rightarrow> requests2d ! 1 | At_scanout \<Rightarrow> requests2d ! 2
      | At_transfer \<Rightarrow> requests2d ! 3 | At_flush \<Rightarrow> requests2d ! 4
      | At_ctx \<Rightarrow> requests3d ! 0 | At_create3d \<Rightarrow> requests3d ! 1 | At_attach_resource \<Rightarrow> requests3d ! 2
      | At_texture \<Rightarrow> requests3d ! 3 | At_submit \<Rightarrow> requests3d ! 4
      | At_refresh \<Rightarrow> flush_request (drv_rect w))"

text \<open>The number of capability sets, read from the device's configuration.\<close>

definition conf_num_capsets :: "('d, 'p, 'a) driver \<Rightarrow> u32" where
  "conf_num_capsets w = le_word (take 4 (drop 12 (read_bytes (drv_mem w) (cap (device (gpu_virtio (drv_gpu w)))) 16)))"

text \<open>Pages for a number of pixels, unwrapped.\<close>

definition pages_for :: "('d, 'p, 'a) drive_env \<Rightarrow> nat \<Rightarrow> ('d, 'p, 'a) driver \<Rightarrow> (u64 \<times> ('d, 'p, 'a) driver) res" where
  "pages_for E capacity w =
     res_bind (create_identity_virt_from_phys_n (env_crate E) (env_containing E) (env_alloc E) (env_map_to E)
         (pages_needed capacity) (drv_pages w))
       (\<lambda>r. case r of Inl e \<Rightarrow> Inl (Panicked ''called Result::unwrap() on an Err value'')
          | Inr (addr, s) \<Rightarrow> Inr (addr, w\<lparr> drv_pages := s \<rparr>))"

text \<open>The screen is the memory at its address: \<^verbatim>\<open>update\<close> makes it so, and the driver's own vector is the same
  memory.\<close>

definition screen_update :: "('d, 'p, 'a) driver \<Rightarrow> ('d, 'p, 'a) driver" where
  "screen_update w = w\<lparr> drv_fb := FB_update (pixels_at (drv_mem w) (drv_addr w))
     (unat (rect_w (drv_rect w))) (unat (rect_h (drv_rect w))) (drv_fb w) \<rparr>"

definition drive_next :: "('d, 'p, 'a) drive_env \<Rightarrow> u64 \<Rightarrow> Desc \<Rightarrow> drive_at \<Rightarrow> ('d, 'p, 'a) driver \<Rightarrow>
    ((gpu_task effect list \<times> drive_at) \<times> ('d, 'p, 'a) driver) res" where
  "drive_next E now response_desc at w =
     (case at of
        At_display \<Rightarrow>
          (let w = w\<lparr> drv_display := display_pmodes (read_bytes (drv_mem w) (desc_addr response_desc) 48) \<rparr>;
               n = unat (conf_num_capsets w)
           in Inr (if 0 < n then ([], At_capset 0 n) else ([EYield], At_edid), w))
      | At_capset i n \<Rightarrow> Inr (if Suc i < n then ([], At_capset (Suc i) n) else ([EYield], At_edid), w)
      | At_edid \<Rightarrow> Inr (([], At_create2d), w)
      | At_create2d \<Rightarrow>
          res_map (\<lambda>(addr, w). (([], At_attach), screen_update (w\<lparr> drv_addr := addr \<rparr>)))
            (pages_for E (capacity_of (drv_rect w)) w)
      | At_attach \<Rightarrow> Inr (([], At_scanout), w)
      | At_scanout \<Rightarrow>
          Inr (([], At_transfer),
            screen_update (set_drv_mem (fill_pixels (drv_addr w) (capacity_of (drv_rect w)) (drv_mem w)) w))
      | At_transfer \<Rightarrow> Inr (([], At_flush), w)
      | At_flush \<Rightarrow> Inr (([], At_ctx), w)
      | At_ctx \<Rightarrow> Inr (([], At_create3d), w)
      | At_create3d \<Rightarrow> Inr (([], At_attach_resource), w)
      | At_attach_resource \<Rightarrow>
          res_map (\<lambda>(addr, w). (([], At_texture), w\<lparr> drv_texture := addr \<rparr>)) (pages_for E (256 * 256) w)
      | At_texture \<Rightarrow> Inr (([], At_submit), w)
      | At_submit \<Rightarrow>
          Inr (([ESpawn (Upload_task (drv_rect w) (Req_Start (transfer_request (drv_rect w))))], At_refresh),
            w\<lparr> drv_dropped := drv_dropped w @ [(drv_texture w, 4 * (256 * 256))] \<rparr>)
      | At_refresh \<Rightarrow> Inr (([], At_refresh), w\<lparr> drv_last_flush := now \<rparr>))"

text \<open>After a yield: the size of the display is replaced after the second one.\<close>

definition drive_resume :: "drive_at \<Rightarrow> ('d, 'p, 'a) driver \<Rightarrow> ('d, 'p, 'a) driver" where
  "drive_resume at w = (if at = At_edid then w\<lparr> drv_rect := driver_rect (drv_display w) \<rparr> else w)"

text \<open>A poll runs until a request is pending or the driver yields.\<close>

fun drive_run :: "('d, 'p, 'a) drive_env \<Rightarrow> u64 \<Rightarrow> nat \<Rightarrow> drive_at \<Rightarrow> request_future \<Rightarrow> ('d, 'p, 'a) driver \<Rightarrow>
    ((gpu_task effect list \<times> gpu_task) \<times> ('d, 'p, 'a) driver) res option" where
  "drive_run E t 0 at f w = None"
| "drive_run E t (Suc n) at f w =
     (case request_poll (env_crate E) (env_voff E) t f (drv_gpu w) of
        Inl p \<Rightarrow> Some (Inl p)
      | Inr (Req_Done d, g) \<Rightarrow>
          (case drive_next E (env_now E n) d at (w\<lparr> drv_gpu := g \<rparr>) of
             Inl p \<Rightarrow> Some (Inl p)
           | Inr ((es, at), w) \<Rightarrow>
               if EYield \<in> set es then Some (Inr ((es, Drive_yielded at), w))
               else map_option (res_map (\<lambda>((es', s), w). ((es @ es', s), w)))
                      (drive_run E t n at (Req_Start (drive_request E at w)) w))
      | Inr (f, g) \<Rightarrow> Some (Inr (([], Drive_request at f), w\<lparr> drv_gpu := g \<rparr>)))"

text \<open>The task that uploads the screen again and again.\<close>

fun upload_run :: "('d, 'p, 'a) drive_env \<Rightarrow> u64 \<Rightarrow> nat \<Rightarrow> VirtioGpuRect \<Rightarrow> request_future \<Rightarrow> ('d, 'p, 'a) driver \<Rightarrow>
    ((gpu_task effect list \<times> gpu_task) \<times> ('d, 'p, 'a) driver) res option" where
  "upload_run E t 0 r f w = None"
| "upload_run E t (Suc n) r f w =
     (case request_poll (env_crate E) (env_voff E) t f (drv_gpu w) of
        Inl p \<Rightarrow> Some (Inl p)
      | Inr (Req_Done d, g) \<Rightarrow> upload_run E t n r (Req_Start (transfer_request r)) (w\<lparr> drv_gpu := g \<rparr>)
      | Inr (f, g) \<Rightarrow> Some (Inr (([], Upload_task r f), w\<lparr> drv_gpu := g \<rparr>)))"

text \<open>One poll of any of the driver's tasks.\<close>

fun gpu_poll :: "('d, 'p, 'a) drive_env \<Rightarrow> u64 \<Rightarrow> nat \<Rightarrow> gpu_task \<Rightarrow> ('d, 'p, 'a) driver \<Rightarrow>
    ((gpu_task effect list \<times> gpu_task) \<times> ('d, 'p, 'a) driver) res option" where
  "gpu_poll E t n Drive_begin w =
     Some (res_map (\<lambda>g. ((drive_effects Checkall_task, Drive_yielded At_display), w\<lparr> drv_gpu := g \<rparr>))
       (gpu_start (env_dev E) (drv_gpu w)))"
| "gpu_poll E t n (Drive_yielded at) w =
     (let w = drive_resume at w in drive_run E t n at (Req_Start (drive_request E at w)) w)"
| "gpu_poll E t n (Drive_request at f) w = drive_run E t n at f w"
| "gpu_poll E t n Checkall_task w =
     map_option (res_map (\<lambda>(ts, g). ((map EWake ts @ [EYield], Checkall_task), w\<lparr> drv_gpu := g \<rparr>)))
       (checkall n (drv_gpu w))"
| "gpu_poll E t n (Upload_task r f) w = upload_run E t n r f w"


subsection \<open>Specification vocabulary\<close>

text \<open>The requests the tasks have running, and how many hold descriptors.\<close>

fun task_request :: "u64 \<times> gpu_task \<Rightarrow> (u64 \<times> request_future) list" where
  "task_request (t, Drive_request at f) = [(t, f)]"
| "task_request (t, Upload_task r f) = [(t, f)]"
| "task_request _ = []"

definition running :: "(u64 \<times> gpu_task) list \<Rightarrow> (u64 \<times> request_future) list" where
  "running ts = concat (map task_request ts)"

fun waiting :: "u64 \<times> request_future \<Rightarrow> bool" where
  "waiting (t, Req_Wait a b) = True"
| "waiting _ = False"

definition in_flight :: "(u64 \<times> gpu_task) list \<Rightarrow> nat" where
  "in_flight ts = length (filter waiting (running ts))"

fun spawned :: "'f effect list \<Rightarrow> 'f list" where
  "spawned [] = []"
| "spawned (ESpawn f # es) = f # spawned es"
| "spawned (_ # es) = spawned es"

text \<open>The tasks with the device. A round of the polling task takes one element of the used ring; the device
  puts there the first descriptor of a request in flight, or one of those it was offered.\<close>

inductive drive_step :: "('d, 'p, 'a) drive_env \<Rightarrow> u16 set \<Rightarrow> (u64 \<times> gpu_task) list \<times> ('d, 'p, 'a) driver \<Rightarrow>
    (u64 \<times> gpu_task) list \<times> ('d, 'p, 'a) driver \<Rightarrow> bool" for E extra where
  poll: "i < length ts \<Longrightarrow> ts ! i = (t, s) \<Longrightarrow> s \<noteq> Checkall_task \<Longrightarrow> s \<noteq> Drive_begin \<Longrightarrow>
    gpu_poll E t n s w = Some (Inr ((es, s'), w')) \<Longrightarrow> length new = length (spawned es) \<Longrightarrow>
    drive_step E extra (ts, w) (ts[i := (t, s')] @ zip new (spawned es), w')"
| device: "io_regs io = io_regs (gpu_io (drv_gpu w)) \<Longrightarrow>
    drive_step E extra (ts, w) (ts, w\<lparr> drv_gpu := (drv_gpu w)\<lparr> gpu_io := io \<rparr> \<rparr>)"
| report: "next_used (gpu_virtio (drv_gpu w)) (gpu_io (drv_gpu w)) = Inr (Some u, v) \<Longrightarrow>
    used_id u = ucast a \<Longrightarrow> (t, Req_Wait a b) \<in> set (running ts) \<or> a \<in> extra \<Longrightarrow>
    wake_slot (unat (used_id u)) ((drv_gpu w)\<lparr> gpu_virtio := v \<rparr>) = Inr (wk, g') \<Longrightarrow>
    drive_step E extra (ts, w) (ts, w\<lparr> drv_gpu := g' \<rparr>)"

text \<open>The descriptors of a queue that the driver keeps, and those it offers to the device.\<close>

abbreviation kept_ids :: "u16 \<Rightarrow> u16 list" where
  "kept_ids qsize \<equiv> map of_nat [0..<unat qsize - 10]"

abbreviation offered_ids :: "u16 \<Rightarrow> u16 set" where
  "offered_ids qsize \<equiv> set (map of_nat [unat qsize - 10..<unat qsize])"

text \<open>The task that runs \<^verbatim>\<open>drive\<close> comes first; the upload task exists exactly when it refreshes the screen.\<close>

fun is_drive :: "gpu_task \<Rightarrow> bool" where
  "is_drive (Drive_yielded at) \<longleftrightarrow> at \<noteq> At_refresh"
| "is_drive (Drive_request at f) \<longleftrightarrow> True"
| "is_drive _ \<longleftrightarrow> False"

fun is_upload :: "gpu_task \<Rightarrow> bool" where
  "is_upload (Upload_task r f) \<longleftrightarrow> True"
| "is_upload _ \<longleftrightarrow> False"

fun refreshing :: "gpu_task \<Rightarrow> bool" where
  "refreshing (Drive_request At_refresh f) \<longleftrightarrow> True"
| "refreshing _ \<longleftrightarrow> False"

definition tasks_ok :: "(u64 \<times> gpu_task) list \<Rightarrow> bool" where
  "tasks_ok ts \<longleftrightarrow> (\<exists>t s rest. ts = (t, s) # rest \<and> is_drive s \<and>
     (\<forall>(u, r) \<in> set rest. r = Checkall_task \<or> is_upload r) \<and>
     length (filter (is_upload \<circ> snd) rest) = (if refreshing s then 1 else 0))"

text \<open>The answers to the requests of \<^verbatim>\<open>drive\<close>, each with the memory the device leaves; what is sent until they
  are used up.\<close>

fun drive_path :: "('d, 'p, 'a) drive_env \<Rightarrow> (mem \<times> Desc) list \<Rightarrow> drive_at \<Rightarrow> ('d, 'p, 'a) driver \<Rightarrow>
    (u8 list list \<times> drive_at \<times> ('d, 'p, 'a) driver) res" where
  "drive_path E [] at w = Inr ([drive_request E at w], at, w)"
| "drive_path E ((m, d) # ds) at w =
     res_bind (drive_next E 0 d at (set_drv_mem m w))
       (\<lambda>((es, at'), w'). res_map (\<lambda>(rs, r). (drive_request E at w # rs, r))
          (drive_path E ds at' (if EYield \<in> set es then drive_resume at' w' else w')))"

section \<open>The invariant of the requests\<close>

lemma held_waiting: "held fs = held (filter waiting fs)"
proof (induction fs)
  case (Cons x fs)
  obtain t f where "x = (t, f)" by fastforce
  with Cons show ?case by (cases f) auto
qed simp

lemma length_held: "length (held fs) = 2 * length (filter waiting fs)"
proof (induction fs)
  case (Cons x fs)
  obtain t f where "x = (t, f)" by fastforce
  with Cons show ?case by (cases f) auto
qed simp

lemma waiting_mem: "(t, Req_Wait a b) \<in> set fs \<longleftrightarrow> (t, Req_Wait a b) \<in> set (filter waiting fs)"
  by simp

text \<open>Only the requests that wait matter, and nothing of the memory.\<close>

lemma gpu_ok_waiting:
  assumes "filter waiting fs = filter waiting fs'"
  shows "gpu_ok ids extra (fs, g) \<longleftrightarrow> gpu_ok ids extra (fs', g)"
proof -
  have "held fs = held fs'" using held_waiting assms by metis
  moreover have "(t, Req_Wait a b) \<in> set fs \<longleftrightarrow> (t, Req_Wait a b) \<in> set fs'" for t a b
    using waiting_mem assms by metis
  ultimately show ?thesis by (simp add: gpu_ok_def)
qed

lemma gpu_ok_io [simp]: "gpu_ok ids extra (fs, g\<lparr> gpu_io := io \<rparr>) \<longleftrightarrow> gpu_ok ids extra (fs, g)"
  by (simp add: gpu_ok_def Let_def)

lemma gpu_ok_virtio:
  "queues_free v = queues_free (gpu_virtio g) \<Longrightarrow> queue_select v = queue_select (gpu_virtio g) \<Longrightarrow>
   gpu_ok ids extra (fs, g) \<Longrightarrow> gpu_ok ids extra (fs, g\<lparr> gpu_virtio := v \<rparr>)"
  by (simp add: gpu_ok_def Let_def)

lemma gpu_ok_poll:
  assumes "gpu_ok ids extra (us @ (t, f) # vs, g)" and "request_poll X voff t f g = Inr (f', g')"
  shows "gpu_ok ids extra (us @ (t, f') # vs, g')"
proof -
  have "gpu_step X voff extra (us @ (t, f) # vs, g) ((us @ (t, f) # vs)[length us := (t, f')], g')"
    using assms(2) by (intro gpu_step.poll) simp_all
  from gpu_ok_step [OF this assms(1)] show ?thesis by simp
qed

lemma gpu_ok_replace:
  assumes "gpu_ok ids extra (us @ xs @ vs, g)" and "filter waiting xs = filter waiting ys"
  shows "gpu_ok ids extra (us @ ys @ vs, g)"
  using assms gpu_ok_waiting [of "us @ xs @ vs" "us @ ys @ vs" ids extra g] by simp

lemma next_used_keeps:
  "next_used v io = Inr (u, v') \<Longrightarrow> queues_free v' = queues_free v \<and> queue_select v' = queue_select v \<and> notify v' = notify v"
  by (auto simp: next_used_def Let_def res_bind_eq_Inr_iff split: if_splits)

section \<open>One poll of a task\<close>

text \<open>What a poll leaves alone: the registers and the notification area.\<close>

definition same_device :: "'d gpu \<Rightarrow> 'd gpu \<Rightarrow> bool" where
  "same_device g g' \<longleftrightarrow> io_regs (gpu_io g') = io_regs (gpu_io g) \<and> notify (gpu_virtio g') = notify (gpu_virtio g)"

lemma same_device_trans: "same_device g h \<Longrightarrow> same_device h k \<Longrightarrow> same_device g k"
  by (simp add: same_device_def)

lemma request_poll_device:
  assumes "request_poll X voff t f g = Inr (f', g')"
    and "unat (queue_select (gpu_virtio g)) < length (queues_free (gpu_virtio g))"
  shows "same_device g g'"
proof -
  have wait: "same_device g g'" if "request_wait t a b g = Inr (f', g')"
    and "unat (queue_select (gpu_virtio g)) < length (queues_free (gpu_virtio g))" for a b g
    using that by (auto simp: request_wait_def res_bind_eq_Inr_iff same_device_def set_free_desc_id_eq Let_def split: if_splits)
  have start: "same_device g g1 \<and> unat (queue_select (gpu_virtio g1)) < length (queues_free (gpu_virtio g1))"
    if "request_start X voff data g = Inr (p, g1)" for data p g1
  proof -
    obtain v io1 io2 where "get_free_twice_desc_id (gpu_virtio g) = Inr (Some p, v)"
      and io: "add_request (fst p) (snd p) data (gpu_io g) = Inr io1" "kick X voff 0 v io1 = Inr io2"
      and "g1 = g\<lparr> gpu_virtio := v, gpu_io := io2 \<rparr>"
    proof -
      obtain r v where r: "get_free_twice_desc_id (gpu_virtio g) = Inr (r, v)"
        using \<open>request_start X voff data g = Inr (p, g1)\<close> by (auto simp: request_start_def res_bind_eq_Inr_iff)
      with \<open>request_start X voff data g = Inr (p, g1)\<close> have "r = Some p"
        by (cases r) (auto simp: request_start_def res_bind_eq_Inr_iff)
      with r \<open>request_start X voff data g = Inr (p, g1)\<close> that show ?thesis
        by (cases p) (auto simp: request_start_def res_bind_eq_Inr_iff)
    qed
    with assms(2) add_request_regs [OF io(1)] kick_Inr [OF io(2)] show ?thesis
      by (auto simp: same_device_def get_free_twice_desc_id_eq split: prod.splits option.splits)
  qed
  show ?thesis
    using assms wait start
    by (cases f) (auto simp: request_poll_def res_bind_eq_Inr_iff same_device_def)
qed


text \<open>A step of \<^verbatim>\<open>drive\<close> between two requests leaves the requests alone.\<close>

definition no_request :: "('d, 'p, 'a) driver \<Rightarrow> ('d, 'p, 'a) driver \<Rightarrow> bool" where
  "no_request w w' \<longleftrightarrow> (\<exists>m. drv_gpu w' = (drv_gpu w)\<lparr> gpu_io := (gpu_io (drv_gpu w))\<lparr> io_mem := m \<rparr> \<rparr>)"

lemma no_request_refl [simp]: "drv_gpu w' = drv_gpu w \<Longrightarrow> no_request w w'"
  unfolding no_request_def by (rule exI [of _ "drv_mem w"]) simp

lemma pages_for_gpu: "pages_for E n w = Inr (addr, w') \<Longrightarrow> drv_gpu w' = drv_gpu w"
  unfolding pages_for_def res_bind_eq_Inr_iff by (elim exE conjE, case_tac a) auto

lemma drive_next_gpu:
  assumes "drive_next E now d at w = Inr ((es, at'), w')"
  shows "no_request w w'"
proof (cases "at = At_scanout")
  case True
  with assms show ?thesis
    unfolding no_request_def
    by (intro exI [of _ "fill_pixels (drv_addr w) (capacity_of (drv_rect w)) (drv_mem w)"])
      (auto simp: drive_next_def screen_update_def set_drv_mem_def)
next
  case False
  with assms have "drv_gpu w' = drv_gpu w"
    by (auto simp: drive_next_def Let_def screen_update_def res_map_def res_bind_eq_Inr_iff
        dest: pages_for_gpu split: drive_at.splits if_splits sum.splits)
  then show ?thesis by simp
qed

text \<open>Where it leads: it yields only before the EDID is asked for, and spawns only before the refresh.\<close>

lemma drive_next_at:
  assumes "drive_next E now d at w = Inr ((es, at'), w')"
  shows "EYield \<in> set es \<Longrightarrow> at' = At_edid \<and> spawned es = [] \<and> at \<noteq> At_refresh"
    and "at = At_submit \<Longrightarrow> at' = At_refresh \<and> EYield \<notin> set es \<and>
      spawned es = [Upload_task (drv_rect w) (Req_Start (transfer_request (drv_rect w)))]"
    and "at \<noteq> At_submit \<Longrightarrow> spawned es = [] \<and> (at' = At_refresh \<longleftrightarrow> at = At_refresh)"
  using assms
  by (auto simp: drive_next_def Let_def res_map_def res_bind_eq_Inr_iff split: drive_at.splits if_splits sum.splits)

lemma spawned_append [simp]: "spawned (es @ fs) = spawned es @ spawned fs"
  by (induction es rule: spawned.induct) auto

lemma no_request_ok:
  "no_request w w' \<Longrightarrow> gpu_ok ids extra (fs, drv_gpu w) \<Longrightarrow> gpu_ok ids extra (fs, drv_gpu w')"
  by (auto simp: no_request_def)

lemma no_request_device: "no_request w w' \<Longrightarrow> same_device (drv_gpu w) (drv_gpu w')"
  by (auto simp: no_request_def same_device_def)

lemma refreshing_request [simp]: "refreshing (Drive_request at f) \<longleftrightarrow> at = At_refresh"
  by (cases at) auto

abbreviation drive_spawns :: "drive_at \<Rightarrow> gpu_task \<Rightarrow> gpu_task list \<Rightarrow> bool" where
  "drive_spawns at s new \<equiv> (if refreshing s \<and> at \<noteq> At_refresh then \<exists>r data. new = [Upload_task r (Req_Start data)] else new = []) \<and>
     is_drive s \<and> (at = At_refresh \<longrightarrow> refreshing s)"

lemma drive_run_ok:
  assumes "drive_run E t n at f w = Some (Inr ((es, s), w'))" and "gpu_ok ids extra (us @ (t, f) # vs, drv_gpu w)"
  shows "gpu_ok ids extra (us @ task_request (t, s) @ vs, drv_gpu w') \<and> same_device (drv_gpu w) (drv_gpu w') \<and>
    drive_spawns at s (spawned es)"
  using assms
proof (induction n arbitrary: at f w es s)
  case 0
  then show ?case by simp
next
  case (Suc n)
  obtain f' g where p: "request_poll (env_crate E) (env_voff E) t f (drv_gpu w) = Inr (f', g)"
    using Suc.prems(1) by (auto split: sum.splits prod.splits)
  note ok = gpu_ok_poll [OF Suc.prems(2) p] and dev = request_poll_device [OF p gpu_okD(1) [OF Suc.prems(2)]]
  show ?case
  proof (cases f')
    case (Req_Done d)
    obtain es1 at1 w1 where nx: "drive_next E (env_now E n) d at (w\<lparr> drv_gpu := g \<rparr>) = Inr ((es1, at1), w1)"
      using Suc.prems(1) p Req_Done by (auto split: sum.splits prod.splits)
    note at = drive_next_at [OF nx] and gpu = drive_next_gpu [OF nx]
    have ok1: "gpu_ok ids extra (us @ (t, Req_Done d) # vs, drv_gpu w1)"
      using no_request_ok [OF gpu] ok Req_Done by simp
    have dev1: "same_device (drv_gpu w) (drv_gpu w1)"
      using same_device_trans [OF dev] no_request_device [OF gpu] by simp
    show ?thesis
    proof (cases "EYield \<in> set es1")
      case True
      then have "es = es1" "s = Drive_yielded at1" "w' = w1" using Suc.prems(1) p Req_Done nx by auto
      moreover have "gpu_ok ids extra (us @ vs, drv_gpu w1)"
        using gpu_ok_replace [of ids extra us "[(t, Req_Done d)]" vs "drv_gpu w1" "[]"] ok1 by simp
      ultimately show ?thesis using at(1) [OF True] dev1 by simp
    next
      case False
      then obtain es2 where rec: "drive_run E t n at1 (Req_Start (drive_request E at1 w1)) w1 = Some (Inr ((es2, s), w'))"
        and es: "es = es1 @ es2"
        using Suc.prems(1) p Req_Done nx by (auto simp: res_map_def res_bind_eq_Inr_iff)
      have "gpu_ok ids extra (us @ (t, Req_Start (drive_request E at1 w1)) # vs, drv_gpu w1)"
        using gpu_ok_replace [of ids extra us "[(t, Req_Done d)]" vs "drv_gpu w1" "[(t, Req_Start (drive_request E at1 w1))]"] ok1
        by simp
      note IH = Suc.IH [OF rec this]
      have "drive_spawns at s (spawned es)"
        using IH at(2,3) by (cases "at = At_submit"; cases "at = At_refresh") (auto simp: es split: if_splits)
      with IH dev1 same_device_trans show ?thesis by blast
    qed
  qed (use Suc.prems(1) p ok dev in auto)
qed


lemma upload_run_ok:
  assumes "upload_run E t n r f w = Some (Inr ((es, s), w'))" and "gpu_ok ids extra (us @ (t, f) # vs, drv_gpu w)"
  shows "gpu_ok ids extra (us @ task_request (t, s) @ vs, drv_gpu w') \<and> same_device (drv_gpu w) (drv_gpu w') \<and>
    es = [] \<and> is_upload s"
  using assms
proof (induction n arbitrary: f w)
  case 0
  then show ?case by simp
next
  case (Suc n)
  obtain f' g where p: "request_poll (env_crate E) (env_voff E) t f (drv_gpu w) = Inr (f', g)"
    using Suc.prems(1) by (auto split: sum.splits prod.splits)
  note ok = gpu_ok_poll [OF Suc.prems(2) p] and dev = request_poll_device [OF p gpu_okD(1) [OF Suc.prems(2)]]
  show ?case
  proof (cases f')
    case (Req_Done d)
    then have rec: "upload_run E t n r (Req_Start (transfer_request r)) (w\<lparr> drv_gpu := g \<rparr>) = Some (Inr ((es, s), w'))"
      using Suc.prems(1) p by simp
    have "gpu_ok ids extra (us @ (t, Req_Start (transfer_request r)) # vs, drv_gpu (w\<lparr> drv_gpu := g \<rparr>))"
      using gpu_ok_replace [of ids extra us "[(t, Req_Done d)]" vs g "[(t, Req_Start (transfer_request r))]"] ok Req_Done
      by simp
    from Suc.IH [OF rec this] dev show ?thesis using same_device_trans [of "drv_gpu w" g "drv_gpu w'"] by simp
  qed (use Suc.prems(1) p ok dev in auto)
qed

section \<open>The invariant of the tasks\<close>

definition drive_ok :: "u16 list \<Rightarrow> u16 set \<Rightarrow> (u64 \<times> gpu_task) list \<times> ('d, 'p, 'a) driver \<Rightarrow> bool" where
  "drive_ok ids extra s \<longleftrightarrow> gpu_ok ids extra (running (fst s), drv_gpu (snd s)) \<and> tasks_ok (fst s)"

lemma running_simps [simp]:
  "running (xs @ ys) = running xs @ running ys" "running (x # xs) = task_request x @ running xs" "running [] = []"
  by (simp_all add: running_def)

lemma filter_task: "filter waiting (task_request (t, s)) = [] \<or> (\<exists>a b. task_request (t, s) = [(t, Req_Wait a b)])"
proof (cases s)
  case (Drive_request at f)
  then show ?thesis by (cases f) auto
next
  case (Upload_task r f)
  then show ?thesis by (cases f) auto
qed auto

lemma drive_not_upload: "is_drive s \<Longrightarrow> \<not> is_upload s" "is_drive s \<Longrightarrow> s \<noteq> Checkall_task"
  by (cases s; simp)+

text \<open>At most two requests are in flight: that of \<^verbatim>\<open>drive\<close> and that of the upload task.\<close>

lemma tasks_ok_requests:
  assumes "tasks_ok ts"
  shows "length (running ts) \<le> 2"
proof -
  obtain t s rest where ts: "ts = (t, s) # rest" and rest: "\<forall>(u, r) \<in> set rest. r = Checkall_task \<or> is_upload r"
    and n: "length (filter (is_upload \<circ> snd) rest) \<le> 1"
    using assms by (auto simp: tasks_ok_def split: if_splits)
  have "length (running rest) = length (filter (is_upload \<circ> snd) rest)" using rest
  proof (induction rest)
    case (Cons x rest)
    obtain u r where "x = (u, r)" by fastforce
    with Cons show ?case by (cases r) auto
  qed simp
  moreover have "length (task_request (t, s)) \<le> 1" by (cases s) auto
  ultimately show ?thesis using n by (simp add: ts)
qed

lemma in_flight_le: "tasks_ok ts \<Longrightarrow> in_flight ts \<le> 2"
  unfolding in_flight_def by (rule le_trans [OF length_filter_le tasks_ok_requests])

lemma drive_ok_poll:
  assumes "drive_ok ids extra (us @ (t, s) # vs, w)" and "gpu_poll E t n s w = Some (Inr ((es, s'), w'))"
    and "s \<noteq> Checkall_task" and "s \<noteq> Drive_begin" and "length new = length (spawned es)"
  shows "drive_ok ids extra (us @ (t, s') # vs @ zip new (spawned es), w') \<and> same_device (drv_gpu w) (drv_gpu w')"
proof -
  have ok: "gpu_ok ids extra (running us @ task_request (t, s) @ running vs, drv_gpu w)" and ts: "tasks_ok (us @ (t, s) # vs)"
    using assms(1) by (simp_all add: drive_ok_def)
  consider (drive) at f w0 where "drive_run E t n at f w0 = Some (Inr ((es, s'), w'))" "drv_gpu w0 = drv_gpu w" "is_drive s"
      "gpu_ok ids extra (running us @ (t, f) # running vs, drv_gpu w)" "at = At_refresh \<longleftrightarrow> refreshing s"
    | (upload) r f where "s = Upload_task r f"
  proof (cases s)
    case (Drive_yielded at)
    let ?w = "drive_resume at w"
    have g: "drv_gpu ?w = drv_gpu w" by (simp add: drive_resume_def)
    have "is_drive s"
    proof -
      have "\<exists>x \<in> set (us @ (t, s) # vs). x = (t, s)" by simp
      with ts Drive_yielded show ?thesis by (cases us) (auto simp: tasks_ok_def)
    qed
    moreover have "gpu_ok ids extra (running us @ (t, Req_Start (drive_request E at ?w)) # running vs, drv_gpu w)"
      using gpu_ok_replace [of ids extra "running us" "[]" "running vs" "drv_gpu w" "[(t, Req_Start (drive_request E at ?w))]"]
        ok Drive_yielded by simp
    ultimately show ?thesis
      using that(1) [of at "Req_Start (drive_request E at ?w)" ?w] assms(2) Drive_yielded g by (simp add: Let_def)
  next
    case (Drive_request at f)
    then show ?thesis using that(1) [of at f w] assms(2) ok by simp
  next
    case (Upload_task r f)
    then show ?thesis by (rule that(2))
  qed (use assms in simp_all)
  then show ?thesis
  proof cases
    case drive
    have first: "us = []" using ts drive(3) drive_not_upload [of s] by (cases us) (auto simp: tasks_ok_def)
    note r = drive_run_ok [OF drive(1), unfolded drive(2), OF drive(4)]
    have new: "spawned es = [] \<or> (\<exists>u r data. spawned es = [Upload_task r (Req_Start data)] \<and> new = [u])"
      using r assms(5) by (auto split: if_splits simp: length_Suc_conv)
    then have idle: "filter waiting (running (zip new (spawned es))) = []" by auto
    have "gpu_ok ids extra (running us @ (task_request (t, s') @ running vs) @ running (zip new (spawned es)), drv_gpu w')"
      using gpu_ok_replace [of ids extra "running us @ task_request (t, s') @ running vs" "[]" "[]" "drv_gpu w'"
          "running (zip new (spawned es))"] r idle by simp
    moreover have "tasks_ok ((t, s') # vs @ zip new (spawned es))"
      using ts r drive(3,5) new unfolding tasks_ok_def first by (auto split: if_splits)
    ultimately show ?thesis using r first by (simp add: drive_ok_def drive(2))
  next
    case upload
    have "upload_run E t n r f w = Some (Inr ((es, s'), w'))" using assms(2) upload by simp
    note r = upload_run_ok [OF this, of ids extra "running us" "running vs"]
    have "gpu_ok ids extra (running us @ task_request (t, s') @ running vs, drv_gpu w') \<and>
        same_device (drv_gpu w) (drv_gpu w') \<and> es = [] \<and> is_upload s'"
      using r ok upload by simp
    moreover have "tasks_ok (us @ (t, s') # vs)" if "is_upload s'"
      using ts upload that by (cases us) (auto simp: tasks_ok_def)
    ultimately show ?thesis by (simp add: drive_ok_def)
  qed
qed

lemma drive_ok_step:
  assumes "drive_step E extra s s'" and "drive_ok ids extra s"
  shows "drive_ok ids extra s' \<and> same_device (drv_gpu (snd s)) (drv_gpu (snd s'))"
  using assms(1)
proof (cases rule: drive_step.cases)
  case (poll i ts t f n w es f' w' new)
  define us vs where "us = take i ts" and "vs = drop (Suc i) ts"
  have ts: "ts = us @ (t, f) # vs" and upd: "ts[i := (t, f')] = us @ (t, f') # vs"
    using poll by (simp_all add: us_def vs_def id_take_nth_drop [symmetric] upd_conv_take_nth_drop) (metis id_take_nth_drop)
  show ?thesis
    using drive_ok_poll [of ids extra us t f vs w E n es f' w' new] poll assms(2) ts upd by simp
next
  case (device io w ts)
  with assms(2) show ?thesis by (simp add: drive_ok_def same_device_def)
next
  case (report w u v a t b ts wk g')
  let ?g = "(drv_gpu w)\<lparr> gpu_virtio := v \<rparr>"
  note v = next_used_keeps [OF report(3)]
  have ok: "gpu_ok ids extra (running ts, ?g)"
    using gpu_ok_virtio [of v "drv_gpu w"] v assms(2) report by (simp add: drive_ok_def)
  have "unat (used_id u) = unat a" unfolding report(4) by (rule unat_ucast_up) simp
  then have w: "wake_slot (unat a) ?g = Inr (wk, g')" using report by simp
  then have "gpu_virtio g' = v" "gpu_io g' = gpu_io (drv_gpu w)"
    by (auto simp: wake_slot_def res_bind_eq_Inr_iff Let_def IdWaker_wake_def)
  with gpu_ok_report [OF ok report(5) w] assms(2) report v show ?thesis
    by (simp add: drive_ok_def same_device_def)
qed

lemma drive_ok_reachable:
  "(drive_step E extra)\<^sup>*\<^sup>* s s' \<Longrightarrow> drive_ok ids extra s \<Longrightarrow>
   drive_ok ids extra s' \<and> same_device (drv_gpu (snd s)) (drv_gpu (snd s'))"
proof (induction rule: rtranclp_induct)
  case base
  then show ?case by (simp add: same_device_def)
next
  case (step y z)
  then show ?case using drive_ok_step [OF step.hyps(2)] same_device_trans by blast
qed


section \<open>Enough descriptors\<close>

lemma gpu_ok_count: "gpu_ok ids extra (fs, g) \<Longrightarrow> length (gpu_free g) + 2 * length (filter waiting fs) = length ids"
  by (drule gpu_okD(6)) (metis length_held size_mset size_union)

definition queue_works :: "('d, 'p, 'a) drive_env \<Rightarrow> 'd gpu \<Rightarrow> bool" where
  "queue_works E g \<longleftrightarrow> queue_size (io_regs (gpu_io g)) \<noteq> 0 \<and>
     (\<forall>io :: 'd virtio_io. io_regs io = io_regs (gpu_io g) \<longrightarrow>
        (\<exists>io'. kick (env_crate E) (env_voff E) 0 (gpu_virtio g) io = Inr io'))"

lemma kick_cong: "notify v' = notify v \<Longrightarrow> kick X voff q v' io = kick X voff q v io"
  by (simp add: kick_def split: Bar.splits)

lemma queue_works_same: "same_device g g' \<Longrightarrow> queue_works E g \<Longrightarrow> queue_works E g'"
  by (simp add: queue_works_def same_device_def kick_cong [of "gpu_virtio g'" "gpu_virtio g"])

text \<open>A request that starts with two descriptors free is pending after its first poll.\<close>

lemma start_pends:
  assumes ok: "gpu_ok ids extra (fs, g)" and works: "queue_works E g" and "2 \<le> length (gpu_free g)"
  shows "\<exists>a b g'. request_poll (env_crate E) (env_voff E) t (Req_Start data) g = Inr (Req_Wait a b, g')"
proof -
  obtain fr b a where fr: "gpu_free g = fr @ [b, a]"
  proof -
    obtain c cs d ds where "rev (gpu_free g) = c # d # ds" using assms(3)
      by (cases "rev (gpu_free g)"; cases "tl (rev (gpu_free g))") auto
    then have "gpu_free g = rev ds @ [d, c]" by (metis rev_rev_ident rev.simps(2) append_assoc append_Cons append_Nil)
    then show ?thesis by (rule that)
  qed
  have a: "unat a < length (gpu_wakers g)" "gpu_wakers g ! unat a = IdWaker_None"
    using gpu_okD(2,4,7) [OF ok] gpu_ok_distinct(2) [OF ok] fr by auto
  obtain io1 where io1: "add_request a b data (gpu_io g) = Inr io1"
    using works add_request_total [of "gpu_io g" a b data] by (auto simp: queue_works_def)
  obtain io2 where "kick (env_crate E) (env_voff E) 0 (gpu_virtio g) io1 = Inr io2"
    using works add_request_regs [OF io1] by (auto simp: queue_works_def)
  from request_first_poll [OF gpu_okD(1) [OF ok] fr a io1 this] show ?thesis by blast
qed

lemma poll_total:
  assumes ok: "gpu_ok ids extra (us @ (t, f) # vs, g)" and works: "queue_works E g"
    and "4 \<le> length ids" and "length (filter waiting (us @ vs)) \<le> 1"
  shows "\<exists>f' g'. request_poll (env_crate E) (env_voff E) t f g = Inr (f', g')"
proof (cases f)
  case (Req_Start data)
  have "2 \<le> length (gpu_free g)" using gpu_ok_count [OF ok] assms(3,4) Req_Start by simp
  with start_pends [OF ok works] Req_Start show ?thesis by blast
next
  case (Req_Wait a b)
  note w = gpu_ok_wait(1,2) [OF ok [unfolded Req_Wait]]
  then show ?thesis
    using request_wait_registered [of a g t t b] request_wait_done [of a g t b] gpu_okD(1,2) [OF ok] Req_Wait
    by (auto simp: request_poll_def)
qed (simp add: request_poll_def)

text \<open>When a poll ends the request, the next request is started in the same poll and pends.\<close>

lemma poll_restart:
  assumes ok: "gpu_ok ids extra (us @ (t, f) # vs, g)" and works: "queue_works E g"
    and "4 \<le> length ids" and "length (filter waiting (us @ vs)) \<le> 1"
  shows "(\<exists>f' g'. request_poll (env_crate E) (env_voff E) t f g = Inr (f', g') \<and> (\<forall>d. f' \<noteq> Req_Done d)) \<or>
    (\<exists>d g'. request_poll (env_crate E) (env_voff E) t f g = Inr (Req_Done d, g') \<and>
      (\<forall>data. \<exists>a b g''. request_poll (env_crate E) (env_voff E) t (Req_Start data) g' = Inr (Req_Wait a b, g'')))"
proof -
  obtain f' g' where p: "request_poll (env_crate E) (env_voff E) t f g = Inr (f', g')"
    using poll_total [OF assms] by blast
  show ?thesis
  proof (cases f')
    case (Req_Done d)
    have ok': "gpu_ok ids extra (us @ (t, Req_Done d) # vs, g')" using gpu_ok_poll [OF ok p] Req_Done by simp
    have "queue_works E g'"
      using queue_works_same [OF request_poll_device [OF p gpu_okD(1) [OF ok]] works] .
    moreover have "2 \<le> length (gpu_free g')" using gpu_ok_count [OF ok'] assms(3,4) by simp
    ultimately show ?thesis using start_pends [OF ok'] p Req_Done by blast
  qed (use p in auto)
qed

lemma refresh_total:
  assumes "gpu_ok ids extra (us @ (t, f) # vs, drv_gpu w)" and "queue_works E (drv_gpu w)"
    and "4 \<le> length ids" and "length (filter waiting (us @ vs)) \<le> 1"
  shows "\<exists>r. drive_run E t 2 At_refresh f w = Some (Inr r)" and "\<exists>r. upload_run E t 2 rect f w = Some (Inr r)"
proof -
  from poll_restart [OF assms] show "\<exists>r. drive_run E t 2 At_refresh f w = Some (Inr r)"
  proof (elim disjE exE conjE)
    fix f' g' assume "request_poll (env_crate E) (env_voff E) t f (drv_gpu w) = Inr (f', g')" "\<forall>d. f' \<noteq> Req_Done d"
    then show ?thesis by (cases f') (auto simp: numeral_2_eq_2)
  next
    fix d g' assume p: "request_poll (env_crate E) (env_voff E) t f (drv_gpu w) = Inr (Req_Done d, g')"
      and again: "\<forall>data. \<exists>a b g''. request_poll (env_crate E) (env_voff E) t (Req_Start data) g' = Inr (Req_Wait a b, g'')"
    define w1 where "w1 = w\<lparr> drv_gpu := g', drv_last_flush := env_now E 1 \<rparr>"
    obtain a b g'' where "request_poll (env_crate E) (env_voff E) t (Req_Start (drive_request E At_refresh w1)) g' = Inr (Req_Wait a b, g'')"
      using again by blast
    with p show ?thesis by (simp add: numeral_2_eq_2 drive_next_def w1_def res_map_def)
  qed
  from poll_restart [OF assms] show "\<exists>r. upload_run E t 2 rect f w = Some (Inr r)"
  proof (elim disjE exE conjE)
    fix f' g' assume "request_poll (env_crate E) (env_voff E) t f (drv_gpu w) = Inr (f', g')" "\<forall>d. f' \<noteq> Req_Done d"
    then show ?thesis by (cases f') (auto simp: numeral_2_eq_2)
  next
    fix d g' assume p: "request_poll (env_crate E) (env_voff E) t f (drv_gpu w) = Inr (Req_Done d, g')"
      and again: "\<forall>data. \<exists>a b g''. request_poll (env_crate E) (env_voff E) t (Req_Start data) g' = Inr (Req_Wait a b, g'')"
    obtain a b g'' where "request_poll (env_crate E) (env_voff E) t (Req_Start (transfer_request rect)) g' = Inr (Req_Wait a b, g'')"
      using again by blast
    with p show ?thesis by (simp add: numeral_2_eq_2)
  qed
qed

lemma start_panics:
  assumes ok: "gpu_ok ids extra (fs, g)" and "length (gpu_free g) < 2"
  shows "request_poll X voff t (Req_Start data) g = Inl (Panicked ''No more desc available'')"
proof -
  have "get_free_twice (queues_free (gpu_virtio g) ! unat (queue_select (gpu_virtio g))) =
      (None, queues_free (gpu_virtio g) ! unat (queue_select (gpu_virtio g)))"
    using assms(2) by (simp add: get_free_twice_def)
  then show ?thesis
    using gpu_okD(1) [OF ok] by (simp add: request_poll_def request_start_def get_free_twice_desc_id_eq)
qed

section \<open>The sequence of requests\<close>

fun next_at :: "drive_at \<Rightarrow> drive_at" where
  "next_at At_edid = At_create2d" | "next_at At_create2d = At_attach" | "next_at At_attach = At_scanout"
| "next_at At_scanout = At_transfer" | "next_at At_transfer = At_flush" | "next_at At_flush = At_ctx"
| "next_at At_ctx = At_create3d" | "next_at At_create3d = At_attach_resource"
| "next_at At_attach_resource = At_texture" | "next_at At_texture = At_submit" | "next_at _ = At_refresh"

text \<open>What the requests depend on, and how a step changes it.\<close>

definition locals_step :: "drive_at \<Rightarrow> ('d, 'p, 'a) driver \<Rightarrow> ('d, 'p, 'a) driver \<Rightarrow> bool" where
  "locals_step at w w' \<longleftrightarrow> drv_rect w' = drv_rect w \<and> (at \<noteq> At_create2d \<longrightarrow> drv_addr w' = drv_addr w) \<and>
     (at \<noteq> At_attach_resource \<longrightarrow> drv_texture w' = drv_texture w) \<and>
     drv_dropped w' = drv_dropped w @ (if at = At_submit then [(drv_texture w, 262144)] else [])"

lemma pages_for_locals: "pages_for E n w = Inr (addr, w') \<Longrightarrow> drv_rect w' = drv_rect w \<and> drv_addr w' = drv_addr w \<and>
    drv_texture w' = drv_texture w \<and> drv_dropped w' = drv_dropped w"
  unfolding pages_for_def res_bind_eq_Inr_iff by (elim exE conjE, case_tac a) auto

lemma next_locals:
  assumes "drive_next E now d at (set_drv_mem m w) = Inr ((es, at'), w')" and "at \<noteq> At_display" and "\<And>i n. at \<noteq> At_capset i n"
  shows "at' = next_at at \<and> EYield \<notin> set es \<and> locals_step at w w'"
proof (cases at)
  case At_create2d
  with assms(1) obtain addr w1 where "pages_for E (capacity_of (drv_rect w)) (set_drv_mem m w) = Inr (addr, w1)"
    "w' = screen_update (w1\<lparr> drv_addr := addr \<rparr>)" "at' = At_attach" "es = []"
    by (auto simp: drive_next_def res_map_def res_bind_eq_Inr_iff set_drv_mem_def)
  with pages_for_locals [OF this(1)] At_create2d show ?thesis
    by (simp add: locals_step_def screen_update_def set_drv_mem_def)
next
  case At_attach_resource
  with assms(1) obtain addr w1 where "pages_for E (256 * 256) (set_drv_mem m w) = Inr (addr, w1)"
    "w' = w1\<lparr> drv_texture := addr \<rparr>" "at' = At_texture" "es = []"
    by (auto simp: drive_next_def res_map_def res_bind_eq_Inr_iff set_drv_mem_def)
  with pages_for_locals [OF this(1)] At_attach_resource show ?thesis by (simp add: locals_step_def set_drv_mem_def)
qed (use assms in \<open>auto simp: drive_next_def locals_step_def screen_update_def set_drv_mem_def\<close>)

lemma path_step:
  assumes "drive_path E ds at w = Inr (sent, r)" and "length ds = Suc k" and "at \<noteq> At_display" and "\<And>i n. at \<noteq> At_capset i n"
  shows "\<exists>ds' w' rest. length ds' = k \<and> locals_step at w w' \<and> sent = drive_request E at w # rest \<and>
    drive_path E ds' (next_at at) w' = Inr (rest, r)"
proof -
  obtain m d ds' where ds: "ds = (m, d) # ds'" and "length ds' = k" using assms(2) by (cases ds) auto
  moreover obtain es at' w' where "drive_next E 0 d at (set_drv_mem m w) = Inr ((es, at'), w')"
    using assms(1) unfolding ds by (auto simp: res_bind_eq_Inr_iff)
  moreover from next_locals [OF this assms(3,4)] have "at' = next_at at \<and> EYield \<notin> set es \<and> locals_step at w w'" .
  ultimately show ?thesis using assms(1) by (auto simp: res_bind_eq_Inr_iff res_map_def)
qed

lemma next_at_late: "next_at at \<noteq> At_display" "next_at at \<noteq> At_capset i n"
  by (cases at; simp)+

text \<open>The states in which the requests are sent.\<close>

lemma path_steps:
  assumes "drive_path E ds at w = Inr (sent, at', w')" and "length ds = k" and "at \<noteq> At_display" and "\<And>i n. at \<noteq> At_capset i n"
  shows "\<exists>v. v 0 = w \<and> (\<forall>i < k. locals_step ((next_at ^^ i) at) (v i) (v (Suc i))) \<and>
    sent = map (\<lambda>i. drive_request E ((next_at ^^ i) at) (v i)) [0..<Suc k] \<and> at' = (next_at ^^ k) at \<and> w' = v k"
  using assms
proof (induction k arbitrary: ds at w sent)
  case 0
  then show ?case by (intro exI [of _ "\<lambda>_. w"]) auto
next
  case (Suc k)
  from path_step [OF Suc.prems] obtain ds' w1 rest where 1: "length ds' = k" "locals_step at w w1"
    "sent = drive_request E at w # rest" "drive_path E ds' (next_at at) w1 = Inr (rest, at', w')" by blast
  from Suc.IH [OF 1(4,1) next_at_late] obtain v where v: "v 0 = w1"
    "\<forall>i < k. locals_step ((next_at ^^ i) (next_at at)) (v i) (v (Suc i))"
    "rest = map (\<lambda>i. drive_request E ((next_at ^^ i) (next_at at)) (v i)) [0..<Suc k]"
    "at' = (next_at ^^ k) (next_at at)" "w' = v k" by blast
  have up: "[0..<Suc (Suc k)] = 0 # map Suc [0..<Suc k]" by (simp only: map_Suc_upt upt_conv_Cons [of 0 "Suc (Suc k)"] zero_less_Suc)
  have "locals_step ((next_at ^^ i) at) (case_nat w v i) (case_nat w v (Suc i))" if "i < Suc k" for i
    using that 1(2) v(1,2) by (cases i) (simp_all add: funpow_swap1)
  moreover have "sent = map (\<lambda>i. drive_request E ((next_at ^^ i) at) (case_nat w v i)) [0..<Suc (Suc k)]"
    unfolding up 1(3) v(3) by (simp add: funpow_swap1 comp_def)
  ultimately show ?case
    using v(4,5) by (intro exI [of _ "case_nat w v"]) (simp add: funpow_swap1)
qed

abbreviation capset_request :: "nat \<Rightarrow> u8 list" where
  "capset_request i \<equiv> VirtioGpuCmdGetCapsetInfo_bytes \<lparr> caps_header = hdr_of VirtioGpuCmdGetCapsetInfo,
     caps_capset_index = of_nat i, caps_padding = 0 \<rparr>"

lemma capset_path:
  assumes "drive_path E ds (At_capset i n) w = Inr (sent, r)" and "i < n" and "n - i \<le> length ds"
  shows "\<exists>m rest. sent = map capset_request [i..<n] @ rest \<and>
    drive_path E (drop (n - i) ds) At_edid (drive_resume At_edid (set_drv_mem m w)) = Inr (rest, r)"
  using assms
proof (induction "n - i" arbitrary: i ds w sent)
  case 0
  then show ?case by simp
next
  case (Suc k)
  obtain m d ds' where ds: "ds = (m, d) # ds'" using Suc.hyps(2) Suc.prems(3) by (cases ds) auto
  have ui: "[i..<n] = i # [Suc i..<n]" using Suc.prems(2) by (rule upt_conv_Cons)
  have req: "drive_request E (At_capset i n) w = capset_request i" by (simp add: drive_request_def)
  show ?case
  proof (cases "Suc i < n")
    case True
    then obtain sent' where path: "drive_path E ds' (At_capset (Suc i) n) (set_drv_mem m w) = Inr (sent', r)"
      and sent: "sent = capset_request i # sent'"
      using Suc.prems(1) unfolding ds by (auto simp: drive_next_def res_map_def res_bind_eq_Inr_iff req)
    have k: "k = n - Suc i" and "n - Suc i \<le> length ds'" using Suc.hyps(2) Suc.prems(3) ds by simp_all
    from Suc.hyps(1) [OF k path True this(2)] obtain m' rest where
      "sent' = map capset_request [Suc i..<n] @ rest"
      "drive_path E (drop (n - Suc i) ds') At_edid (drive_resume At_edid (set_drv_mem m' (set_drv_mem m w))) = Inr (rest, r)"
      by blast
    moreover have "drop (n - i) ds = drop (n - Suc i) ds'" using True ds by (metis Suc_diff_Suc Suc.prems(2) drop_Suc_Cons)
    moreover have "set_drv_mem m' (set_drv_mem m w) = set_drv_mem m' w" by (simp add: set_drv_mem_def)
    ultimately show ?thesis using sent ui by (intro exI [of _ m'] exI [of _ rest]) simp
  next
    case False
    then have n: "n = Suc i" using Suc.prems(2) by simp
    with Suc.prems(1) obtain sent' where "drive_path E ds' At_edid (drive_resume At_edid (set_drv_mem m w)) = Inr (sent', r)"
      and "sent = capset_request i # sent'"
      unfolding ds using req by (auto simp: drive_next_def res_map_def res_bind_eq_Inr_iff)
    with n ds show ?thesis by (intro exI [of _ m] exI [of _ sent']) simp
  qed
qed

text \<open>From the EDID on.\<close>

lemma setup_path:
  assumes "drive_path E ds At_edid v0 = Inr (sent', at, w')" and "length ds = 11"
  shows "\<exists>addr texture. sent' = VirtioGpuCtrlHdr_bytes (hdr_of VirtioGpuCmdGetEdid) # setup_2d_requests (drv_rect v0) addr @
      setup_3d_requests texture (env_undef E) @ [flush_request (drv_rect v0)] \<and> at = At_refresh \<and>
    drv_addr w' = addr \<and> drv_dropped w' = drv_dropped v0 @ [(texture, 262144)]"
proof -
  obtain v where v: "v 0 = v0" "\<And>i. i < 11 \<Longrightarrow> locals_step ((next_at ^^ i) At_edid) (v i) (v (Suc i))"
      "sent' = map (\<lambda>i. drive_request E ((next_at ^^ i) At_edid) (v i)) [0..<Suc 11]" "at = (next_at ^^ 11) At_edid" "w' = v 11"
    using path_steps [OF assms] by auto
  have sent_all: "sent' = map (\<lambda>(p, i). drive_request E p (v i)) [(At_edid, 0), (At_create2d, 1), (At_attach, 2), (At_scanout, 3),
      (At_transfer, 4), (At_flush, 5), (At_ctx, 6), (At_create3d, 7), (At_attach_resource, 8), (At_texture, 9), (At_submit, 10),
      (At_refresh, 11)]"
    unfolding v(3) by (simp add: upt_rec numeral_eq_Suc)
  have steps: "locals_step At_edid v0 (v 1)" "locals_step At_create2d (v 1) (v 2)" "locals_step At_attach (v 2) (v 3)"
    "locals_step At_scanout (v 3) (v 4)" "locals_step At_transfer (v 4) (v 5)" "locals_step At_flush (v 5) (v 6)"
    "locals_step At_ctx (v 6) (v 7)" "locals_step At_create3d (v 7) (v 8)" "locals_step At_attach_resource (v 8) (v 9)"
    "locals_step At_texture (v 9) (v 10)" "locals_step At_submit (v 10) (v 11)"
    using v(1) v(2) [of 0] v(2) [of 1] v(2) [of 2] v(2) [of 3] v(2) [of 4] v(2) [of 5] v(2) [of 6] v(2) [of 7] v(2) [of 8]
      v(2) [of 9] v(2) [of 10] by (simp_all add: numeral_eq_Suc)
  have rect: "drv_rect (v i) = drv_rect v0" if "i \<in> {1, 2, 3, 4, 5, 11}" for i
    using that steps by (auto simp: locals_step_def)
  have addr: "drv_addr (v i) = drv_addr (v 2)" if "i \<in> {3, 4, 5, 11}" for i
    using that steps by (auto simp: locals_step_def)
  have tex: "drv_texture (v 10) = drv_texture (v 9)" "drv_dropped (v 11) = drv_dropped v0 @ [(drv_texture (v 9), 262144)]"
    using steps by (simp_all add: locals_step_def)
  have "sent' = VirtioGpuCtrlHdr_bytes (hdr_of VirtioGpuCmdGetEdid) # setup_2d_requests (drv_rect v0) (drv_addr (v 2)) @
      setup_3d_requests (drv_texture (v 9)) (env_undef E) @ [flush_request (drv_rect v0)]"
    unfolding sent_all by (simp add: drive_request_def setup_2d_requests_def setup_3d_requests_def rect addr tex)
  moreover have "at = At_refresh" using v(4) by (simp add: numeral_eq_Suc)
  ultimately show ?thesis
    using addr [of 11] tex(2) v(5) by (intro exI [of _ "drv_addr (v 2)"] exI [of _ "drv_texture (v 9)"]) simp
qed

section \<open>Properties\<close>

lemma drive_begins:
  assumes "gpu_poll E t n Drive_begin w0 = Some (Inr ((es, s), w1))" and "queues_free (gpu_virtio (drv_gpu w0)) \<noteq> []"
    and "hd (queues_free (gpu_virtio (drv_gpu w0))) = QueueFreeDescs_new qsize" and "unat qsize \<le> 256"
    and "gpu_wakers (drv_gpu w0) = GPU_WAKERS"
  shows "drive_ok (kept_ids qsize) (offered_ids qsize) ([(t, s), (tc, Checkall_task)], w1)"
proof -
  have g: "gpu_start (env_dev E) (drv_gpu w0) = Inr (drv_gpu w1)" and s: "s = Drive_yielded At_display"
    using assms(1) by (auto simp: res_map_def res_bind_eq_Inr_iff)
  from gpu_start_ok [OF g assms(2-5)] s show ?thesis by (auto simp: drive_ok_def tasks_ok_def)
qed

text \<open>C12: How many descriptors the driver needs. The first poll of \<^verbatim>\<open>drive\<close> on a fresh queue offers ten
  descriptors to the device. In every state its tasks and the device then reach, the free descriptors
  and two for each request in flight are all the others, and at most two requests are in flight (one of
  \<^verbatim>\<open>drive\<close>, one of the upload task). So a request started while \<open>k\<close> are in flight panics with \<^verbatim>\<open>No more desc
  available\<close> when the queue has less than \<open>12 + 2 * k\<close> descriptors; and on a working queue with at least
  fourteen, every poll of the two loops that refresh the screen returns, without a panic, in at most two
  rounds.\<close>

theorem refresh_never_starves:
  fixes w :: "('d, 'p, 'a) driver"
  assumes "gpu_poll E t n Drive_begin w0 = Some (Inr ((es, s), w1))" and "queues_free (gpu_virtio (drv_gpu w0)) \<noteq> []"
    and "hd (queues_free (gpu_virtio (drv_gpu w0))) = QueueFreeDescs_new qsize" and "unat qsize \<le> 256"
    and "gpu_wakers (drv_gpu w0) = GPU_WAKERS"
    and "(drive_step E (offered_ids qsize))\<^sup>*\<^sup>* ([(t, s), (tc, Checkall_task)], w1) (ts, w)"
  shows "length (gpu_free (drv_gpu w)) + 2 * in_flight ts = unat qsize - 10 \<and> in_flight ts \<le> 2 \<and>
    (unat qsize < 12 + 2 * in_flight ts \<longrightarrow> (\<forall>u data. request_poll (env_crate E) (env_voff E) u (Req_Start data) (drv_gpu w) =
       Inl (Panicked ''No more desc available''))) \<and>
    (14 \<le> unat qsize \<longrightarrow> queue_works E (drv_gpu w1) \<longrightarrow>
       (\<forall>u f. (u, Drive_request At_refresh f) \<in> set ts \<longrightarrow> (\<exists>r. gpu_poll E u 2 (Drive_request At_refresh f) w = Some (Inr r))) \<and>
       (\<forall>u rect f. (u, Upload_task rect f) \<in> set ts \<longrightarrow> (\<exists>r. gpu_poll E u 2 (Upload_task rect f) w = Some (Inr r))))"
proof -
  let ?ids = "kept_ids qsize" and ?extra = "offered_ids qsize"
  have "drive_ok ?ids ?extra (ts, w) \<and> same_device (drv_gpu w1) (drv_gpu w)"
    using drive_ok_reachable [OF assms(6) drive_begins [OF assms(1-5)]] by simp
  then have ok: "gpu_ok ?ids ?extra (running ts, drv_gpu w)" and ts: "tasks_ok ts" and dev: "same_device (drv_gpu w1) (drv_gpu w)"
    by (simp_all add: drive_ok_def)
  have count: "length (gpu_free (drv_gpu w)) + 2 * in_flight ts = unat qsize - 10"
    using gpu_ok_count [OF ok] by (simp add: in_flight_def)
  have total: "(\<exists>r. drive_run E u 2 At_refresh f w = Some (Inr r)) \<and> (\<exists>r. upload_run E u 2 rect f w = Some (Inr r))"
    if big: "14 \<le> unat qsize" "queue_works E (drv_gpu w1)" and q: "(u, q) \<in> set ts" "task_request (u, q) = [(u, f)]" for u f q rect
  proof -
    obtain us vs where split: "running ts = us @ (u, f) # vs"
      using q by (metis split_list running_simps(1,2) append_Cons append_Nil)
    have "length (filter waiting (us @ vs)) \<le> 1"
      using le_trans [OF length_filter_le, of "us @ vs" 1 waiting] tasks_ok_requests [OF ts] split by simp
    then show ?thesis
      using refresh_total [OF ok [unfolded split] queue_works_same [OF dev big(2)]] big(1) by simp
  qed
  have "length (gpu_free (drv_gpu w)) < 2" if "unat qsize < 12 + 2 * in_flight ts" using count that by linarith
  then show ?thesis
    using count in_flight_le [OF ts] start_panics [OF ok] total by (auto simp del: upt_rec_numeral)
qed



text \<open>The driver's tasks on a queue of \<open>n\<close> descriptors, for concrete inputs.\<close>

definition sample_env :: "(unit, u64 \<Rightarrow> u64 option, BootInfoFrameAllocator) drive_env" where
  "sample_env = \<lparr> env_crate = x86_crate, env_voff = 0, env_dev = id, env_containing = x86_page,
     env_alloc = allocate_frame x86_crate x86_page, env_map_to = array_mapper, env_undef = 0, env_now = (\<lambda>n. 0) \<rparr>"

definition sample_driver :: "u16 \<Rightarrow> 'p \<times> 'a \<Rightarrow> (unit, 'p, 'a) driver" where
  "sample_driver n pages = \<lparr> drv_gpu = sample_gpu n, drv_pages = pages,
     drv_fb = \<lparr> pixels = [], backbuffer = [], fb_w = 0, fb_h = 0 \<rparr>,
     drv_display = display_pmodes [], drv_rect = disp_rect (display_pmodes []), drv_addr = 0, drv_texture = 0,
     drv_last_flush = 0, drv_dropped = [] \<rparr>"

definition sample_pages :: "(u64 \<Rightarrow> u64 option) \<times> BootInfoFrameAllocator" where
  "sample_pages = (Map.empty, BootInfoFrameAllocator_init sample_map)"

text \<open>Eleven descriptors: none is left for the first request.\<close>

theorem refresh_never_starves_witness:
  "\<exists>w1. gpu_poll sample_env 3 1 Drive_begin (sample_driver 11 sample_pages) = Some (Inr ((drive_effects Checkall_task, Drive_yielded At_display), w1)) \<and>
     request_poll x86_crate 0 3 (Req_Start []) (drv_gpu w1) = Inl (Panicked ''No more desc available'')"
proof -
  let ?g = "sample_gpu 11"
  let ?v = "(gpu_virtio ?g)\<lparr> queue_select := 0 \<rparr>"
    and ?io = "(gpu_io ?g)\<lparr> io_dev := (), io_regs := (io_regs (gpu_io ?g))\<lparr> cfg_queue_select := 0 \<rparr> \<rparr>"
  have "unat (queue_select ?v) < length (queues_free ?v)" and "queue_size (io_regs ?io) \<noteq> 0"
    by (simp_all add: sample_gpu_def)
  from offer_some_total [OF this, of 10] obtain g1 where "gpu_start id ?g = Inr g1"
    by (auto simp: gpu_start_def Virtio_queue_select_def store_reg_def res_map_def)
  then obtain w1 where start: "gpu_poll sample_env 3 1 Drive_begin (sample_driver 11 sample_pages) =
      Some (Inr ((drive_effects Checkall_task, Drive_yielded At_display), w1))"
    by (auto simp: sample_env_def sample_driver_def res_map_def)
  have "in_flight [(3, Drive_yielded At_display), (4, Checkall_task)] = 0" by (simp add: in_flight_def)
  with refresh_never_starves [OF start, of 11 4 "[(3, Drive_yielded At_display), (4, Checkall_task)]" w1] start
  show ?thesis by (auto simp: sample_driver_def sample_gpu_def sample_env_def simp del: upt_rec_numeral)
qed

text \<open>C15: What \<^verbatim>\<open>drive\<close> sends. Whatever the device answers and leaves in memory, a run of \<^verbatim>\<open>drive\<close> that is not stopped
  by a failed allocation sends, in this order: the request for the display, one request for each
  capability set the device's configuration announces, the request for the EDID, the five requests of
  the 2D start-up for the display the device gave with the size the driver forces on it, the five
  requests of the 3D start-up, and then flushes. The buffer of the texture, pages that the heap never
  handed out, is dropped once, as a heap block of 256 KiB.\<close>

theorem drive_sends_setup:
  fixes w :: "('d, 'p, 'a) driver"
  assumes "drive_path E ((m, d) # ds) At_display w = Inr (sent, at, w')"
    and "length ds = unat (conf_num_capsets (set_drv_mem m w)) + 11"
  shows "\<exists>addr texture. at = At_refresh \<and>
    sent = display_requests (conf_num_capsets (set_drv_mem m w)) @
      setup_2d_requests (driver_rect (display_pmodes (read_bytes m (desc_addr d) 48))) addr @
      setup_3d_requests texture (env_undef E) @
      [flush_request (driver_rect (display_pmodes (read_bytes m (desc_addr d) 48)))] \<and>
    drv_addr w' = addr \<and> drv_dropped w' = drv_dropped w @ [(texture, 262144)]"
proof -
  let ?n = "conf_num_capsets (set_drv_mem m w)" and ?disp = "display_pmodes (read_bytes m (desc_addr d) 48)"
  define w0 where "w0 = (set_drv_mem m w)\<lparr> drv_display := ?disp \<rparr>"
  have num: "conf_num_capsets w0 = ?n" by (simp add: w0_def conf_num_capsets_def)
  have mem: "drv_mem (set_drv_mem m w) = m" by (simp add: set_drv_mem_def)
  have nx: "drive_next E 0 d At_display (set_drv_mem m w) =
      Inr (if 0 < unat ?n then ([], At_capset 0 (unat ?n)) else ([EYield], At_edid), w0)"
    by (simp add: drive_next_def Let_def mem num [unfolded w0_def] w0_def)
  have "\<exists>m' sent' ds'. sent = VirtioGpuCtrlHdr_bytes (hdr_of VirtioGpuCmdGetDisplayInfo) # map capset_request [0..<unat ?n] @ sent' \<and>
      length ds' = 11 \<and> drive_path E ds' At_edid (drive_resume At_edid (set_drv_mem m' w0)) = Inr (sent', at, w')"
  proof (cases "0 < unat ?n")
    case True
    then obtain sent1 where "drive_path E ds (At_capset 0 (unat ?n)) w0 = Inr (sent1, at, w')"
      and "sent = VirtioGpuCtrlHdr_bytes (hdr_of VirtioGpuCmdGetDisplayInfo) # sent1"
      using assms(1) by (auto simp: nx res_map_def res_bind_eq_Inr_iff drive_request_def Let_def)
    with capset_path [OF this(1) True] assms(2) obtain m' rest where
      "sent = VirtioGpuCtrlHdr_bytes (hdr_of VirtioGpuCmdGetDisplayInfo) # map capset_request [0..<unat ?n] @ rest"
      "drive_path E (drop (unat ?n) ds) At_edid (drive_resume At_edid (set_drv_mem m' w0)) = Inr (rest, at, w')" by auto
    with assms(2) show ?thesis by (intro exI [of _ m'] exI [of _ rest] exI [of _ "drop (unat ?n) ds"]) simp
  next
    case False
    then obtain sent1 where "drive_path E ds At_edid (drive_resume At_edid w0) = Inr (sent1, at, w')"
      and "sent = VirtioGpuCtrlHdr_bytes (hdr_of VirtioGpuCmdGetDisplayInfo) # sent1"
      using assms(1) by (auto simp: nx res_map_def res_bind_eq_Inr_iff drive_request_def Let_def)
    moreover have "w0 = set_drv_mem m w0" by (simp add: w0_def set_drv_mem_def)
    ultimately show ?thesis using False assms(2) by (intro exI [of _ m] exI [of _ sent1] exI [of _ ds]) simp
  qed
  then obtain m' sent' ds' where sent: "sent = VirtioGpuCtrlHdr_bytes (hdr_of VirtioGpuCmdGetDisplayInfo) # map capset_request [0..<unat ?n] @ sent'"
    and len: "length ds' = 11" and run: "drive_path E ds' At_edid (drive_resume At_edid (set_drv_mem m' w0)) = Inr (sent', at, w')"
    by blast
  let ?v0 = "drive_resume At_edid (set_drv_mem m' w0)"
  have "drv_rect ?v0 = driver_rect ?disp" "drv_dropped ?v0 = drv_dropped w"
    by (simp_all add: drive_resume_def w0_def set_drv_mem_def)
  with setup_path [OF run len] sent show ?thesis by (auto simp: display_requests_def)
qed


text \<open>An allocator that never ends and a mapper that always maps.\<close>

definition bump_env :: "(unit, unit, u64) drive_env" where
  "bump_env = \<lparr> env_crate = \<lparr> phys_new = Inr, virt_new = Inr, virt_add = (\<lambda>a b. Inr (a + b)) \<rparr>, env_voff = 0, env_dev = id,
     env_containing = id, env_alloc = (\<lambda>a. Inr (Some a, a + 4096)), env_map_to = (\<lambda>page frame s. Inr (Inr s)),
     env_undef = 0, env_now = (\<lambda>n. 0) \<rparr>"

lemma bump_contiguous:
  "i \<le> n \<Longrightarrow> pull_contiguous (env_alloc bump_env) first [i..<n] (first + of_nat i * 4096) = Inr (first + of_nat n * 4096)"
proof (induction "n - i" arbitrary: i)
  case (Suc k)
  then have "i < n" by simp
  then have "[i..<n] = i # [Suc i..<n]" by (rule upt_conv_Cons)
  moreover have "first + of_nat i * 4096 + 4096 = first + of_nat (Suc i) * (4096 :: u64)" by (simp add: algebra_simps)
  moreover have "pull_contiguous (env_alloc bump_env) first [Suc i..<n] (first + of_nat (Suc i) * 4096) = Inr (first + of_nat n * 4096)"
    using Suc \<open>i < n\<close> by (intro Suc.hyps(1)) simp_all
  ultimately show ?case by (simp add: bump_env_def res_unwrap_def algebra_simps)
qed simp

lemma bump_map: "map_pages (env_crate bump_env) (env_containing bump_env) (env_map_to bump_env) as s = Inr (Inr s)"
  by (induction as) (simp_all add: bump_env_def)

lemma bump_pages: "\<exists>addr w'. pages_for bump_env n w = Inr (addr, w')"
proof -
  obtain fa where fa: "drv_pages w = ((), fa)" by (metis old.unit.exhaust surj_pair)
  define k where "k = pages_needed n"
  have "1 \<le> k" by (simp add: k_def pages_needed_def Let_def)
  then have "create_identity_virt_from_phys_n (env_crate bump_env) (env_containing bump_env) (env_alloc bump_env)
      (env_map_to bump_env) k ((), fa) = Inr (Inr (fa, (), fa + of_nat k * 4096))"
    using bump_contiguous [of 1 k fa] bump_map
    by (simp add: create_identity_virt_from_phys_n_def res_unwrap_def) (simp add: bump_env_def)
  then show ?thesis by (simp add: pages_for_def fa k_def)
qed

lemma bump_path: "\<exists>r. drive_path bump_env ds at w = Inr r"
proof (induction ds arbitrary: at w)
  case Nil
  then show ?case by simp
next
  case (Cons x ds)
  obtain m d where x: "x = (m, d)" by fastforce
  have "\<exists>r. drive_next bump_env 0 d at (set_drv_mem m w) = Inr r"
    using bump_pages [of "capacity_of (drv_rect (set_drv_mem m w))" "set_drv_mem m w"] bump_pages [of "256 * 256" "set_drv_mem m w"]
    by (cases at) (auto simp: drive_next_def Let_def res_map_def)
  then obtain es at' w' where "drive_next bump_env 0 d at (set_drv_mem m w) = Inr ((es, at'), w')" by auto
  with Cons.IH [of at' "if EYield \<in> set es then drive_resume at' w' else w'"] show ?case by (auto simp: x res_map_def)
qed

text \<open>A device without capability sets.\<close>

theorem drive_sends_setup_witness:
  "\<exists>sent w'. drive_path bump_env (replicate 12 (\<lambda>a. 0, \<lparr> desc_addr = 0, desc_len = 0, desc_flags = 0, desc_next = 0 \<rparr>)) At_display
      (sample_driver 16 ((), 0)) = Inr (sent, At_refresh, w') \<and> length sent = 13"
proof -
  let ?d = "\<lparr> desc_addr = 0, desc_len = 0, desc_flags = 0, desc_next = 0 \<rparr>" and ?w = "sample_driver 16 ((), 0 :: u64)"
  have n: "conf_num_capsets (set_drv_mem (\<lambda>a. 0) ?w) = 0"
    by (simp add: conf_num_capsets_def set_drv_mem_def read_bytes_numeral)
  have split: "replicate 12 (\<lambda>a :: u64. 0 :: u8, ?d) = (\<lambda>a. 0, ?d) # replicate 11 (\<lambda>a. 0, ?d)" by (simp add: numeral_eq_Suc)
  obtain sent at w' where run: "drive_path bump_env ((\<lambda>a. 0, ?d) # replicate 11 (\<lambda>a. 0, ?d)) At_display ?w = Inr (sent, at, w')"
    using bump_path [of "(\<lambda>a. 0, ?d) # replicate 11 (\<lambda>a. 0, ?d)" At_display ?w] by (metis surj_pair)
  have "at = At_refresh \<and> length sent = 13"
    using drive_sends_setup [OF run] by (auto simp: n display_requests_def setup_2d_requests_def setup_3d_requests_def)
  with run show ?thesis unfolding split by blast
qed

section \<open>The screen\<close>

lemma pixel_bytes: "length (RGBA_bytes p) = 4" "RGBA_of_bytes (RGBA_bytes p) = p"
  by (simp_all add: RGBA_bytes_def RGBA_of_bytes_def)

lemma fill_pixels_read:
  assumes "region_ok addr (4 * n)" and "i < n"
  shows "read_bytes (fill_pixels addr n m) (addr + of_nat (4 * i)) 4 =
    RGBA_bytes \<lparr> px_r = 100, px_g = 120, px_b = 140, px_a = 125 \<rparr>"
  using assms
proof (induction n)
  case 0
  then show ?case by simp
next
  case (Suc n)
  let ?p = "RGBA_bytes \<lparr> px_r = 100, px_g = 120, px_b = 140, px_a = 125 \<rparr>"
  have fill: "fill_pixels addr (Suc n) m = write_bytes (fill_pixels addr n m) (addr + of_nat (4 * n)) ?p"
    by (simp add: fill_pixels_def)
  have ok: "region_ok (addr + of_nat (4 * j)) 4" if "j \<le> n" for j
    using region_ok_offset [OF Suc.prems(1), of "4 * j" 4] that by simp
  have at: "unat (addr + of_nat (4 * j)) = unat addr + 4 * j" if "j \<le> n" for j
    using that by (intro unat_add_offset [OF Suc.prems(1)]) simp
  show ?case
  proof (cases "i = n")
    case True
    then show ?thesis using read_write_bytes [of "addr + of_nat (4 * n)" ?p] ok [of n] unfolding fill by (simp add: pixel_bytes)
  next
    case False
    then have "i < n" using Suc.prems(2) by simp
    moreover have "region_ok addr (4 * n)" using Suc.prems(1) by (simp add: region_ok_def)
    moreover have "region_disjoint (addr + of_nat (4 * n)) (length ?p) (addr + of_nat (4 * i)) 4"
      unfolding region_disjoint_def pixel_bytes using at [of n] at [of i] \<open>i < n\<close> by simp
    ultimately show ?thesis
      using Suc.IH read_write_bytes_disjoint [of "addr + of_nat (4 * n)" ?p "addr + of_nat (4 * i)" 4] ok [of n] ok [of i]
      unfolding fill by (simp add: pixel_bytes)
  qed
qed

lemma pixels_at_filled:
  "region_ok addr (4 * n) \<Longrightarrow>
   pixels_at (fill_pixels addr n m) addr n = replicate n \<lparr> px_r = 100, px_g = 120, px_b = 140, px_a = 125 \<rparr>"
  by (rule nth_equalityI) (simp_all add: pixels_at_def fill_pixels_read [simplified] pixel_bytes)

text \<open>Consecutive usable frames do not wrap.\<close>

lemma usable_address_room:
  assumes "memory_map_ok lim mm" and "x \<in> set (usable_addresses mm)"
  shows "unat x + 4096 \<le> unat lim"
proof -
  obtain r where r: "r \<in> set (usable_regions mm)" "x \<in> set (range_step_4096 (region_start r) (region_end r))"
    using usable_address_region [OF assms(2)] by blast
  then have ends: "4096 dvd unat (region_end r)" "unat (region_end r) \<le> unat lim" using assms(1) by (auto simp: memory_map_ok_def)
  have "4096 dvd unat x" "unat x < unat (region_end r)"
    using usable_address_ok [OF assms] range_step_bounds [OF r(2)] by simp_all
  then obtain a b where "unat x = 4096 * a" "unat (region_end r) = 4096 * b" using ends(1) by (auto elim!: dvdE)
  with \<open>unat x < unat (region_end r)\<close> have "unat x + 4096 \<le> unat (region_end r)" by simp
  with ends(2) show ?thesis by simp
qed

lemma contiguous_frames_region:
  assumes "frames_left lim mm fs fa" and "0 < n" and "n \<le> length fs"
    and "\<And>i. i < n \<Longrightarrow> fs ! i = hd fs + of_nat i * 4096"
  shows "region_ok (hd fs) (4096 * n)"
proof -
  have room: "unat (fs ! i) + 4096 \<le> unat lim" if "i < n" for i
  proof -
    have "fs ! i \<in> set (usable_addresses mm)" using frames_left_usable(2) [OF assms(1), of "fs ! i"] that assms(3) by simp
    moreover have "memory_map_ok lim mm" using assms(1) by (simp add: frames_left_def)
    ultimately show ?thesis using usable_address_room by blast
  qed
  have lim: "unat lim < 2 ^ 64" using unsigned_less [of lim, where 'a = nat] by simp
  have "unat (fs ! i) = unat (hd fs) + 4096 * i" if "i < n" for i
    using that
  proof (induction i)
    case 0
    then show ?case using assms(4) [of 0] by simp
  next
    case (Suc i)
    have "fs ! Suc i = fs ! i + 4096" using assms(4) [of i] assms(4) [of "Suc i"] Suc.prems by (simp add: algebra_simps)
    moreover have "unat (fs ! i + 4096) = unat (fs ! i) + 4096"
      using room [of i] lim Suc.prems by (simp add: unat_word_ariths unat_of_nat)
    ultimately show ?case using Suc by simp
  qed
  from this [of "n - 1"] room [of "n - 1"] lim assms(2) show ?thesis by (simp add: region_ok_def)
qed


text \<open>C22: The screen. When the frame allocator has enough frames left and the next 1407 of them are consecutive
  (none is mapped yet), the step of \<^verbatim>\<open>drive\<close> after the creation of the resource maps them identically and
  makes them the screen: the device is told that the backing of the resource is the 5760000 bytes that
  start there. The step before the first upload then fills them, whatever the device did to memory in
  between: what the apps are given is 1600 by 900 pixels of one colour, and these are the bytes the
  device reads.\<close>

theorem screen_backed_by_device:
  fixes w :: "('d, 'p, BootInfoFrameAllocator) driver"
  assumes "crate_ok (env_crate E) (env_containing E) lim" and "frames_left lim mm fs fa"
    and "mapper_ok (frames_of (env_crate E) (env_containing E) lim mm) lookup (env_map_to E)"
    and "env_alloc E = allocate_frame (env_crate E) (env_containing E)" and "4 * 1407 \<le> length fs"
    and "\<And>i. i < 1407 \<Longrightarrow> fs ! i = hd fs + of_nat i * 4096 \<and> lookup pt (fs ! i) = None"
    and "drv_pages w = (pt, fa)" and "drv_rect w = driver_rect disp"
  shows "\<exists>w1 pt' fa'. drive_next E now resp At_create2d w = Inr (([], At_attach), w1) \<and> drv_pages w1 = (pt', fa') \<and>
    (\<forall>i < 1407. lookup pt' (hd fs + of_nat i * 4096) = Some (hd fs + of_nat i * 4096)) \<and>
    gpu_decode (drive_request E At_attach w1) = Some (AttachBacking 1 [(hd fs, 5760000)]) \<and>
    (\<forall>m. \<exists>w2. drive_next E now resp' At_scanout (set_drv_mem m w1) = Inr (([], At_transfer), w2) \<and>
       fb_w (drv_fb w2) = 1600 \<and> fb_h (drv_fb w2) = 900 \<and>
       pixels (drv_fb w2) = replicate 1440000 \<lparr> px_r = 100, px_g = 120, px_b = 140, px_a = 125 \<rparr> \<and>
       (\<forall>i < 1440000. read_bytes (drv_mem w2) (hd fs + of_nat (4 * i)) 4 = RGBA_bytes (pixels (drv_fb w2) ! i)))"
proof -
  have rect: "capacity_of (driver_rect disp) = 1440000" "pages_needed 1440000 = 1407"
    "unat (rect_w (driver_rect disp)) = 1600" "unat (rect_h (driver_rect disp)) = 900"
    by (simp_all add: capacity_of_def driver_rect_def pages_needed_def)
  obtain pt' fa' where pages: "create_identity_virt_from_phys_n (env_crate E) (env_containing E)
      (allocate_frame (env_crate E) (env_containing E)) (env_map_to E) 1407 (pt, fa) = Inr (Inr (hd fs, pt', fa'))"
    and ident: "\<forall>i < 1407. lookup pt' (fs ! i) = Some (fs ! i)"
    using identity_pages_contiguous [OF assms(1-3) _ assms(5,6)] by auto
  define w1 where "w1 = screen_update (w\<lparr> drv_pages := (pt', fa'), drv_addr := hd fs \<rparr>)"
  have w1: "drv_rect w1 = driver_rect disp" "drv_addr w1 = hd fs" "drv_pages w1 = (pt', fa')"
    by (simp_all add: w1_def screen_update_def assms(8))
  have "drive_next E now resp At_create2d w = Inr (([], At_attach), w1)"
    using pages by (simp add: drive_next_def pages_for_def assms(4,7,8) rect w1_def)
  moreover have "lookup pt' (hd fs + of_nat i * 4096) = Some (hd fs + of_nat i * 4096)" if "i < 1407" for i
    using ident assms(6) [OF that] that by metis
  moreover have "gpu_decode (drive_request E At_attach w1) = Some (AttachBacking 1 [(hd fs, 5760000)])"
    by (simp add: drive_request_def setup_2d_requests_def w1 rect attach_request_def gpu_decode_def gpu_layout_def
        VirtioGpuCmdResourceAttachBacking_bytes_def field_skips)
  moreover have "\<exists>w2. drive_next E now resp' At_scanout (set_drv_mem m w1) = Inr (([], At_transfer), w2) \<and>
       fb_w (drv_fb w2) = 1600 \<and> fb_h (drv_fb w2) = 900 \<and>
       pixels (drv_fb w2) = replicate 1440000 \<lparr> px_r = 100, px_g = 120, px_b = 140, px_a = 125 \<rparr> \<and>
       (\<forall>i < 1440000. read_bytes (drv_mem w2) (hd fs + of_nat (4 * i)) 4 = RGBA_bytes (pixels (drv_fb w2) ! i))" for m
  proof -
    have "region_ok (hd fs) (4096 * 1407)"
      using contiguous_frames_region [OF assms(2), of 1407] assms(5,6) by simp
    then have reg: "region_ok (hd fs) (4 * 1440000)" by (simp add: region_ok_def)
    define w2 where "w2 = screen_update (set_drv_mem (fill_pixels (hd fs) 1440000 m) (set_drv_mem m w1))"
    have mem: "drv_mem w2 = fill_pixels (hd fs) 1440000 m" by (simp add: w2_def screen_update_def set_drv_mem_def)
    have fb: "drv_fb w2 = FB_update (pixels_at (fill_pixels (hd fs) 1440000 m) (hd fs)) 1600 900 (drv_fb w1)"
      by (simp add: w2_def screen_update_def set_drv_mem_def w1 rect)
    have "drive_next E now resp' At_scanout (set_drv_mem m w1) = Inr (([], At_transfer), w2)"
      by (simp add: drive_next_def w2_def set_drv_mem_def w1 rect)
    then show ?thesis
      using pixels_at_filled [OF reg, of m] fill_pixels_read [OF reg]
      by (intro exI [of _ w2]) (simp add: fb mem FB_update_def)
  qed
  ultimately show ?thesis using w1(3) by blast
qed


text \<open>Two gigabytes of memory, and a display the device gives no size.\<close>

theorem screen_backed_by_device_witness:
  "\<exists>w1. drive_next sample_env 0 \<lparr> desc_addr = 0, desc_len = 0, desc_flags = 0, desc_next = 0 \<rparr> At_create2d
      ((sample_driver 16 sample_pages)\<lparr> drv_rect := driver_rect (display_pmodes []) \<rparr>) = Inr (([], At_attach), w1) \<and>
    gpu_decode (drive_request sample_env At_attach w1) = Some (AttachBacking 1 [(0x1000, 5760000)])"
proof -
  let ?fs = "usable_addresses sample_map"
  have hd: "hd ?fs = 0x1000"
    using sample_frame_nth [of 0] length_sample_map hd_conv_nth [of ?fs] by (cases ?fs) simp_all
  have step: "?fs ! i = hd ?fs + of_nat i * 4096 \<and> (Map.empty :: u64 \<Rightarrow> u64 option) (?fs ! i) = None" if "i < 1407" for i
    using that sample_frame_nth [of i] by (simp add: hd)
  let ?w = "(sample_driver 16 sample_pages)\<lparr> drv_rect := driver_rect (display_pmodes []) \<rparr>"
  have env: "env_crate sample_env = x86_crate" "env_containing sample_env = x86_page"
    "env_alloc sample_env = allocate_frame x86_crate x86_page" "env_map_to sample_env = array_mapper"
    by (simp_all add: sample_env_def)
  have w: "drv_pages ?w = (Map.empty, BootInfoFrameAllocator_init sample_map)" "drv_rect ?w = driver_rect (display_pmodes [])"
    by (simp_all add: sample_driver_def sample_pages_def)
  have big: "4 * 1407 \<le> length ?fs" by (simp add: length_sample_map)
  let ?d = "\<lparr> desc_addr = 0, desc_len = 0, desc_flags = 0, desc_next = 0 \<rparr>"
  show ?thesis
    using screen_backed_by_device [of sample_env "2 ^ 47 - 1" sample_map ?fs _ "\<lambda>pt. pt" Map.empty ?w, unfolded env,
        OF x86_crate_ok sample_frames_left array_mapper_ok refl big step w, of 0 ?d ?d]
    unfolding hd by blast
qed

end
