(* ===== verification/Kernel_Tasks.thy ===== *)
theory Kernel_Tasks
  imports Virtio_Input App_Loader Gpu_Drive
begin

text \<open>
  The tasks that \<^verbatim>\<open>kernel_main\<close> spawns (\<^verbatim>\<open>src/bootloader/kernel/src/main.rs\<close>), run together by the executor: one per
  virtio device, then the one that runs the apps.

  A \<open>ktask\<close> is the future of any task of the kernel and \<open>kernel_poll\<close> one poll of it. The tasks share the
  global input (which the drivers update and the apps' task reads and steps) and the screen. A panic
  stops the machine: the world is then the panic.

  The lemmas show that within every turn of the executor the input devices' tasks come before the apps'
  task, whatever the tasks of the GPU do, and so that every event a device has completed before a turn
  is in the input that the apps are called with in that turn.
\<close>

section \<open>Definitions\<close>

datatype 'd ktask =
    K_input_begin Virtio "'d virtio_io"
  | K_input Virtio "'d virtio_io"
  | K_gpu gpu_task
  | K_apps_begin
  | K_apps

text \<open>What the kernel runs in: the parameters of the GPU's tasks, the ELF crate, the addresses of the apps'
  code, the code of the apps on disk and in memory, and the clock.\<close>

record ('d, 'p, 'a, 's) kernel_env =
  ke_drive :: "('d, 'p, 'a) drive_env"
  ke_fuel :: nat
  ke_parse :: "u8 list \<Rightarrow> ElfFile option"
  ke_base :: "nat \<Rightarrow> u64"
  ke_apps_raw :: "u8 list list"
  ke_run :: "'s app_code_fn"
  ke_now :: "nat \<Rightarrow> u64"

type_synonym ('d, 'p, 'a, 's) kworld = "('s AppTask \<times> ('d, 'p, 'a) driver) res option"

definition poll_input :: "'d ktask \<Rightarrow> (Virtio \<times> 'd virtio_io \<times> Input) res option \<Rightarrow> 's AppTask \<times> ('d, 'p, 'a) driver \<Rightarrow>
    ('d, 'p, 'a, 's) kworld \<times> 'd ktask effect list \<times> 'd ktask poll" where
  "poll_input f r s =
     (case r of
        None \<Rightarrow> (None, [], Pending f)
      | Some (Inl p) \<Rightarrow> (Some (Inl p), [], Pending f)
      | Some (Inr (v, io, inp)) \<Rightarrow> (Some (Inr ((fst s)\<lparr> task_input := inp \<rparr>, snd s)), [EYield], Pending (K_input v io)))"

fun kernel_effect :: "gpu_task effect \<Rightarrow> 'd ktask effect" where
  "kernel_effect (ESpawn g) = ESpawn (K_gpu g)"
| "kernel_effect EYield = EYield"
| "kernel_effect (EWake i) = EWake i"

text \<open>The GPU's driver and the apps' task have the same screen.\<close>

definition poll_gpu :: "('d, 'p, 'a, 's) kernel_env \<Rightarrow> u64 \<Rightarrow> gpu_task \<Rightarrow> 's AppTask \<times> ('d, 'p, 'a) driver \<Rightarrow>
    ('d, 'p, 'a, 's) kworld \<times> 'd ktask effect list \<times> 'd ktask poll" where
  "poll_gpu K i g s =
     (case gpu_poll (ke_drive K) i (ke_fuel K) g ((snd s)\<lparr> drv_fb := task_fb (fst s) \<rparr>) of
        None \<Rightarrow> (None, [], Pending (K_gpu g))
      | Some (Inl p) \<Rightarrow> (Some (Inl p), [], Pending (K_gpu g))
      | Some (Inr ((es, g), w)) \<Rightarrow>
          (Some (Inr ((fst s)\<lparr> task_fb := drv_fb w \<rparr>, w)), map kernel_effect es, Pending (K_gpu g)))"

text \<open>The apps' task loads the apps in its first poll and then runs one frame in every poll.\<close>

definition poll_apps :: "('d, 'p, 'a, 's) kernel_env \<Rightarrow> 's AppTask \<times> ('d, 'p, 'a) driver \<Rightarrow>
    ('d, 'p, 'a, 's) kworld \<times> 'd ktask effect list \<times> 'd ktask poll" where
  "poll_apps K s = (Some (Inr (app_frame (ke_run K) (ke_now K) (fst s), snd s)), [EYield], Pending K_apps)"

fun kernel_poll :: "('d, 'p, 'a, 's) kernel_env \<Rightarrow> u64 \<Rightarrow> 'd ktask \<Rightarrow> ('d, 'p, 'a, 's) kworld \<Rightarrow>
    ('d, 'p, 'a, 's) kworld \<times> 'd ktask effect list \<times> 'd ktask poll" where
  "kernel_poll K i (K_input_begin v io) (Some (Inr s)) =
     poll_input (K_input_begin v io) (drive_start (env_dev (ke_drive K)) (ke_fuel K) (v, io, task_input (fst s))) s"
| "kernel_poll K i (K_input v io) (Some (Inr s)) =
     poll_input (K_input v io) (drain_used (ke_fuel K) (v, io, task_input (fst s))) s"
| "kernel_poll K i (K_gpu g) (Some (Inr s)) = poll_gpu K i g s"
| "kernel_poll K i K_apps_begin (Some (Inr s)) =
     (case load_apps (ke_parse K) (ke_base K) (ke_apps_raw K) ([], 0) of
        Inl p \<Rightarrow> (Some (Inl p), [], Pending K_apps_begin)
      | Inr (as, _) \<Rightarrow> poll_apps K ((fst s)\<lparr> apps := as \<rparr>, snd s))"
| "kernel_poll K i K_apps (Some (Inr s)) = poll_apps K s"
| "kernel_poll K i f w = (w, [], Pending f)"

text \<open>The end of \<^verbatim>\<open>kernel_main\<close>: a task for each device, in the order in which the bus lists them, then the
  apps' task.\<close>

definition device_task :: "Virtio \<times> 'd virtio_io \<Rightarrow> 'd ktask" where
  "device_task d =
     (case device_type (fst d) of
        DeviceType_Input \<Rightarrow> K_input_begin (fst d) (snd d)
      | DeviceType_Gpu \<Rightarrow> K_gpu Drive_begin)"

definition spawn_tasks :: "(Virtio \<times> 'd virtio_io) list \<Rightarrow> 'd ktask Executor \<Rightarrow> 'd ktask Executor" where
  "spawn_tasks devices e = Spawner_run K_apps_begin (fold (\<lambda>d. Spawner_run (device_task d)) devices e)"

subsection \<open>Specification vocabulary\<close>

fun is_gpu :: "'d ktask \<Rightarrow> bool" where
  "is_gpu (K_gpu g) \<longleftrightarrow> True"
| "is_gpu _ \<longleftrightarrow> False"

text \<open>The tasks of the input devices and of the apps: no other task touches the input.\<close>

definition core_tasks :: "u64 set \<Rightarrow> 'd ktask Executor \<Rightarrow> bool" where
  "core_tasks C e \<longleftrightarrow> (\<forall>i \<in> C. \<exists>f. tasks e i = Some f \<and> \<not> is_gpu f) \<and>
     (\<forall>i. i \<notin> C \<longrightarrow> (\<forall>f. tasks e i = Some f \<longrightarrow> is_gpu f))"

text \<open>The table of the GPU's wakers names no other task.\<close>

definition wakers_apart :: "u64 set \<Rightarrow> ('d, 'p, 'a) driver \<Rightarrow> bool" where
  "wakers_apart C w \<longleftrightarrow> (\<forall>i \<in> C. IdWaker_Waker i \<notin> set (gpu_wakers (drv_gpu w)))"

text \<open>A driver with the events \<open>evs\<close> pending, which fit the queue and its tables.\<close>

definition events_pending :: "nat \<Rightarrow> Virtio \<Rightarrow> 'd virtio_io \<Rightarrow> VirtioInputEvent list \<Rightarrow> bool" where
  "events_pending fuel v io evs \<longleftrightarrow> (\<exists>n log alog. queue_areas_ok (io_regs io) \<and> used_log (io_regs io) log (io_mem io) \<and>
     consumed v n \<and> n \<le> length log \<and> length log \<le> n + unat (queue_size (io_regs io)) \<and> avail_log alog io \<and>
     completions_ok io (drop n log) \<and> unat (queue_size (io_regs io)) < fuel \<and> evs = map (event_of io) (drop n log) \<and>
     (\<forall>e \<in> set evs. evt_type e = 1 \<longrightarrow> unat (evt_code e) < 1024))"

section \<open>The wakers of the GPU\<close>

lemma IdWait_poll_wakers:
  assumes "IdWait_poll (\<lambda>ws. ws) i t ws = Inr (r, ws')"
  shows "set ws' \<subseteq> set ws \<union> {IdWaker_Waker t, IdWaker_None}"
proof -
  have upd: "set (ws[i := x]) \<subseteq> set ws \<union> {x}" for x by (metis set_update_subset_insert insert_is_Un sup_commute)
  have "ws' = ws \<or> (\<exists>x \<in> {IdWaker_Waker t, IdWaker_None}. ws' = ws[i := x])"
    using assms by (cases "i < length ws"; cases "ws ! i") (auto simp: IdWait_poll_def array_get_def)
  with upd show ?thesis by blast
qed

lemma request_poll_wakers:
  assumes "request_poll X voff t f g = Inr (f', g')"
  shows "set (gpu_wakers g') \<subseteq> set (gpu_wakers g) \<union> {IdWaker_Waker t, IdWaker_None}"
proof -
  have wait: "set (gpu_wakers g') \<subseteq> set (gpu_wakers g) \<union> {IdWaker_Waker t, IdWaker_None}"
    if w: "request_wait t a b g = Inr (f', g')" for a b g
  proof -
    obtain r ws where "IdWait_poll (\<lambda>ws. ws) (unat a) t (gpu_wakers g) = Inr (r, ws)" and "gpu_wakers g' = ws"
      using w by (auto simp: request_wait_def res_bind_eq_Inr_iff Let_def split: if_splits)
    with IdWait_poll_wakers [of "unat a" t "gpu_wakers g" r ws] show ?thesis by simp
  qed
  show ?thesis
  proof (cases f)
    case (Req_Start data)
    then obtain p g1 where g1: "request_start X voff data g = Inr (p, g1)" and w: "request_wait t (fst p) (snd p) g1 = Inr (f', g')"
      using assms by (auto simp: request_poll_def res_bind_eq_Inr_iff)
    obtain r v where "get_free_twice_desc_id (gpu_virtio g) = Inr (r, v)"
      using g1 by (auto simp: request_start_def res_bind_eq_Inr_iff)
    with g1 have "gpu_wakers g1 = gpu_wakers g" by (cases r) (auto simp: request_start_def res_bind_eq_Inr_iff)
    with wait [OF w] show ?thesis by simp
  qed (use assms wait in \<open>auto simp: request_poll_def\<close>)
qed

lemma wakers_apart_mono:
  "set (gpu_wakers (drv_gpu w')) \<subseteq> set (gpu_wakers (drv_gpu w)) \<union> {IdWaker_Waker t, IdWaker_None} \<Longrightarrow> t \<notin> C \<Longrightarrow>
   wakers_apart C w \<Longrightarrow> wakers_apart C w'"
  by (auto simp: wakers_apart_def)

lemma no_request_wakers: "no_request w w' \<Longrightarrow> gpu_wakers (drv_gpu w') = gpu_wakers (drv_gpu w)"
  by (auto simp: no_request_def)

text \<open>A step of the driver wakes nobody.\<close>

lemma drive_next_wakes: "drive_next E now d at w = Inr ((es, at'), w') \<Longrightarrow> EWake j \<notin> set es"
  by (auto simp: drive_next_def Let_def res_map_def res_bind_eq_Inr_iff split: drive_at.splits if_splits sum.splits)

lemma drive_run_wakers:
  assumes "drive_run E t n at f w = Some (Inr ((es, s), w'))" and "wakers_apart C w" and "t \<notin> C"
  shows "wakers_apart C w' \<and> (\<forall>j. EWake j \<notin> set es)"
  using assms
proof (induction n arbitrary: at f w es s)
  case (Suc n)
  obtain f' g where p: "request_poll (env_crate E) (env_voff E) t f (drv_gpu w) = Inr (f', g)"
    using Suc.prems(1) by (auto split: sum.splits prod.splits)
  have apart: "wakers_apart C (w\<lparr> drv_gpu := g \<rparr>)"
    using wakers_apart_mono [of "w\<lparr> drv_gpu := g \<rparr>" w t C] request_poll_wakers [OF p] Suc.prems(2,3) by simp
  show ?case
  proof (cases f')
    case (Req_Done d)
    obtain es1 at1 w1 where nx: "drive_next E (env_now E n) d at (w\<lparr> drv_gpu := g \<rparr>) = Inr ((es1, at1), w1)"
      using Suc.prems(1) p Req_Done by (auto split: sum.splits prod.splits)
    have apart1: "wakers_apart C w1"
      using no_request_wakers [OF drive_next_gpu [OF nx]] apart by (simp add: wakers_apart_def)
    show ?thesis
    proof (cases "EYield \<in> set es1")
      case True
      then show ?thesis using Suc.prems(1) p Req_Done nx apart1 drive_next_wakes [OF nx] by auto
    next
      case False
      then obtain es2 where rec: "drive_run E t n at1 (Req_Start (drive_request E at1 w1)) w1 = Some (Inr ((es2, s), w'))"
        and es: "es = es1 @ es2"
        using Suc.prems(1) p Req_Done nx by (auto simp: res_map_def res_bind_eq_Inr_iff)
      from Suc.IH [OF rec apart1 Suc.prems(3)] show ?thesis using drive_next_wakes [OF nx] by (simp add: es)
    qed
  qed (use Suc.prems(1) p apart in auto)
qed simp

lemma upload_run_wakers:
  assumes "upload_run E t n r f w = Some (Inr ((es, s), w'))" and "wakers_apart C w" and "t \<notin> C"
  shows "wakers_apart C w' \<and> es = []"
  using assms
proof (induction n arbitrary: f w)
  case (Suc n)
  obtain f' g where p: "request_poll (env_crate E) (env_voff E) t f (drv_gpu w) = Inr (f', g)"
    using Suc.prems(1) by (auto split: sum.splits prod.splits)
  have apart: "wakers_apart C (w\<lparr> drv_gpu := g \<rparr>)"
    using wakers_apart_mono [of "w\<lparr> drv_gpu := g \<rparr>" w t C] request_poll_wakers [OF p] Suc.prems(2,3) by simp
  show ?case
  proof (cases f')
    case (Req_Done d)
    then show ?thesis using Suc.IH [OF _ apart Suc.prems(3)] Suc.prems(1) p by simp
  qed (use Suc.prems(1) p apart in auto)
qed simp

lemma checkall_wakers:
  assumes "checkall n g = Some (Inr (ts, g'))" and "\<forall>i \<in> C. IdWaker_Waker i \<notin> set (gpu_wakers g)"
  shows "(\<forall>i \<in> C. IdWaker_Waker i \<notin> set (gpu_wakers g')) \<and> set ts \<inter> C = {}"
  using assms
proof (induction n arbitrary: g ts)
  case (Suc n)
  obtain u v where u: "next_used (gpu_virtio g) (gpu_io g) = Inr (u, v)"
    using Suc.prems(1) by (auto split: sum.splits)
  show ?case
  proof (cases u)
    case None
    with Suc.prems u show ?thesis by auto
  next
    case (Some used)
    obtain t g1 where w: "wake_slot (unat (used_id used)) (g\<lparr> gpu_virtio := v \<rparr>) = Inr (t, g1)"
      using Suc.prems(1) u Some by (auto split: sum.splits)
    have i: "unat (used_id used) < length (gpu_wakers g)"
      and g1: "gpu_wakers g1 = (gpu_wakers g)[unat (used_id used) := IdWaker_Done]"
      and t: "t = (case gpu_wakers g ! unat (used_id used) of IdWaker_Waker e \<Rightarrow> Some e | _ \<Rightarrow> None)"
      using w by (auto simp: wake_slot_def array_get_def IdWaker_wake_def split: if_splits)
    have apart: "\<forall>i \<in> C. IdWaker_Waker i \<notin> set (gpu_wakers g1)"
      using Suc.prems(2) set_update_subset_insert [of "gpu_wakers g" "unat (used_id used)" IdWaker_Done] by (auto simp: g1)
    have "t \<noteq> Some j" if "j \<in> C" for j
    proof
      assume "t = Some j"
      then have "gpu_wakers g ! unat (used_id used) = IdWaker_Waker j" using t by (auto split: IdWaker.splits)
      with nth_mem [OF i] Suc.prems(2) that show False by metis
    qed
    moreover obtain ts' where "checkall n g1 = Some (Inr (ts', g'))" and "ts = (case t of None \<Rightarrow> [] | Some t \<Rightarrow> [t]) @ ts'"
      using Suc.prems(1) u Some w by (auto simp: res_map_def res_bind_eq_Inr_iff)
    ultimately show ?thesis using Suc.IH [OF _ apart] by (auto split: option.splits)
  qed
qed simp

lemma gpu_poll_wakers:
  assumes "gpu_poll E t n s w = Some (Inr ((es, s'), w'))" and "wakers_apart C w" and "t \<notin> C"
  shows "wakers_apart C w' \<and> (\<forall>j \<in> C. EWake j \<notin> set es)"
proof (cases s)
  case Drive_begin
  then obtain g where g: "gpu_start (env_dev E) (drv_gpu w) = Inr g" and w': "w' = w\<lparr> drv_gpu := g \<rparr>"
    and es: "es = drive_effects Checkall_task"
    using assms(1) by (auto simp: res_map_def res_bind_eq_Inr_iff)
  have "gpu_wakers g = gpu_wakers (drv_gpu w)"
    using g by (auto simp: gpu_start_def res_map_def res_bind_eq_Inr_iff Let_def split: prod.splits)
  then show ?thesis using assms(2) by (simp add: w' es wakers_apart_def drive_effects_def)
next
  case (Drive_yielded at)
  then have "drive_run E t n at (Req_Start (drive_request E at (drive_resume at w))) (drive_resume at w) = Some (Inr ((es, s'), w'))"
    using assms(1) by (simp add: Let_def)
  from drive_run_wakers [OF this _ assms(3)] assms(2) show ?thesis by (simp add: wakers_apart_def drive_resume_def)
next
  case (Drive_request at f)
  with assms drive_run_wakers [of E t n at f w es s' w' C] show ?thesis by simp
next
  case Checkall_task
  then obtain ts g where "checkall n (drv_gpu w) = Some (Inr (ts, g))" "es = map EWake ts @ [EYield]" "w' = w\<lparr> drv_gpu := g \<rparr>"
    using assms(1) by (auto simp: res_map_def res_bind_eq_Inr_iff)
  with checkall_wakers [OF this(1), of C] assms(2) show ?thesis by (auto simp: wakers_apart_def)
next
  case (Upload_task r f)
  with assms upload_run_wakers [of E t n r f w es s' w' C] show ?thesis by simp
qed


section \<open>One poll of a task\<close>

text \<open>A poll of a task of the core, as far as the input is concerned.\<close>

definition core_step :: "('d, 'p, 'a, 's) kernel_env \<Rightarrow> 'd ktask \<Rightarrow> Input \<Rightarrow> ('d ktask \<times> Input) option" where
  "core_step K f inp =
     (case f of
        K_input_begin v io \<Rightarrow>
          (case drive_start (env_dev (ke_drive K)) (ke_fuel K) (v, io, inp) of
             Some (Inr (v, io, inp)) \<Rightarrow> Some (K_input v io, inp) | _ \<Rightarrow> None)
      | K_input v io \<Rightarrow>
          (case drain_used (ke_fuel K) (v, io, inp) of Some (Inr (v, io, inp)) \<Rightarrow> Some (K_input v io, inp) | _ \<Rightarrow> None)
      | K_gpu g \<Rightarrow> None
      | _ \<Rightarrow> Some (K_apps, GLOBAL_update Input_step inp))"

fun is_apps :: "'d ktask \<Rightarrow> bool" where
  "is_apps K_apps_begin \<longleftrightarrow> True"
| "is_apps K_apps \<longleftrightarrow> True"
| "is_apps _ \<longleftrightarrow> False"

text \<open>The apps of a frame: those loaded so far, or those it loads first.\<close>

definition frame_of_task :: "('d, 'p, 'a, 's) kernel_env \<Rightarrow> 'd ktask \<Rightarrow> 's AppTask \<Rightarrow> 's AppTask" where
  "frame_of_task K f t =
     (case f of
        K_apps_begin \<Rightarrow> (case load_apps (ke_parse K) (ke_base K) (ke_apps_raw K) ([], 0) of
          Inr (as, _) \<Rightarrow> app_frame (ke_run K) (ke_now K) (t\<lparr> apps := as \<rparr>) | _ \<Rightarrow> t)
      | _ \<Rightarrow> app_frame (ke_run K) (ke_now K) t)"

lemma app_frame_input: "task_input (app_frame run now t) = GLOBAL_update Input_step (task_input t)"
  by (simp add: app_frame_def Let_def split: prod.splits)

lemma poll_input_Inr:
  assumes "poll_input f r s = (Some (Inr (t', g')), es, p)"
  shows "\<exists>v io inp. r = Some (Inr (v, io, inp)) \<and> t' = (fst s)\<lparr> task_input := inp \<rparr> \<and> g' = snd s \<and> es = [EYield] \<and>
    p = Pending (K_input v io)"
  using assms by (auto simp: poll_input_def split: option.split_asm sum.split_asm)

lemma poll_core:
  assumes "kernel_poll K i f (Some (Inr (t, g))) = (Some (Inr (t', g')), es, p)" and "\<not> is_gpu f"
  shows "\<exists>f'. p = Pending f' \<and> es = [EYield] \<and> g' = g \<and> core_step K f (task_input t) = Some (f', task_input t') \<and> \<not> is_gpu f' \<and>
    (if is_apps f then is_apps f' \<and> t' = frame_of_task K f t else \<not> is_apps f' \<and> apps t' = apps t \<and> task_fb t' = task_fb t)"
  using assms
proof (cases f)
  case (K_input_begin v io)
  with assms(1) poll_input_Inr [of f _ "(t, g)" t' g' es p] show ?thesis by (fastforce simp: core_step_def)
next
  case (K_input v io)
  with assms(1) poll_input_Inr [of f _ "(t, g)" t' g' es p] show ?thesis by (fastforce simp: core_step_def)
next
  case K_apps_begin
  with assms(1) show ?thesis
    by (auto simp: poll_apps_def core_step_def frame_of_task_def app_frame_input split: sum.split_asm)
next
  case K_apps
  with assms(1) show ?thesis by (auto simp: poll_apps_def core_step_def frame_of_task_def app_frame_input)
qed simp

lemma kernel_effect_iff: "EWake j = kernel_effect e \<longleftrightarrow> e = EWake j" "ESpawn f = kernel_effect e \<longleftrightarrow> (\<exists>g. e = ESpawn g \<and> f = K_gpu g)"
  by (cases e; auto)+

lemma poll_gpu_task:
  assumes "kernel_poll K i (K_gpu s) (Some (Inr (t, g))) = (Some (Inr (t', g')), es, p)" and "wakers_apart C g" and "i \<notin> C"
  shows "task_input t' = task_input t \<and> apps t' = apps t \<and> wakers_apart C g' \<and> (\<forall>j \<in> C. EWake j \<notin> set es) \<and>
    (\<exists>s'. p = Pending (K_gpu s')) \<and> (\<forall>f. ESpawn f \<in> set es \<longrightarrow> is_gpu f)"
proof -
  obtain es0 s' where poll: "gpu_poll (ke_drive K) i (ke_fuel K) s (g\<lparr> drv_fb := task_fb t \<rparr>) = Some (Inr ((es0, s'), g'))"
    and "t' = t\<lparr> task_fb := drv_fb g' \<rparr>" "es = map kernel_effect es0" "p = Pending (K_gpu s')"
    using assms(1) by (auto simp: poll_gpu_def split: option.split_asm sum.split_asm prod.split_asm)
  with gpu_poll_wakers [OF poll, of C] assms(2,3) show ?thesis by (auto simp: wakers_apart_def kernel_effect_iff)
qed

text \<open>The machine has stopped.\<close>

lemma poll_stopped: "\<nexists>s. w = Some (Inr s) \<Longrightarrow> kernel_poll K i f w = (w, [], Pending f)"
  by (cases "(K, i, f, w)" rule: kernel_poll.cases) auto

lemma poll_task_stopped:
  assumes "\<nexists>s. w = Some (Inr s)" and "poll_task (kernel_poll K) i (e, w) = Inr (e', w')"
  shows "w' = w"
  using assms poll_stopped [OF assms(1), of K i] by (auto simp: poll_task_def split: option.split_asm)

lemma run_stopped:
  "run_ready_tasks (kernel_poll K) n (e, w) = Some (Inr (e', w')) \<Longrightarrow> \<nexists>s. w = Some (Inr s) \<Longrightarrow> w' = w"
proof (induction n arbitrary: e)
  case (Suc n)
  show ?case
  proof (cases "task_queue e")
    case Nil
    with Suc.prems show ?thesis by (simp add: aq_pop_def)
  next
    case (Cons i q)
    with Suc.prems obtain e1 w1 where p: "poll_task (kernel_poll K) i (e\<lparr> task_queue := q \<rparr>, w) = Inr (e1, w1)"
      "run_ready_tasks (kernel_poll K) n (e1, w1) = Some (Inr (e', w'))"
      by (auto simp: aq_pop_def split: sum.splits)
    with poll_task_stopped [OF Suc.prems(2) p(1)] Suc.IH [of e1] Suc.prems(2) show ?thesis by simp
  qed
qed simp

section \<open>The core within a turn\<close>

abbreviation core :: "u64 set \<Rightarrow> u64 list \<Rightarrow> u64 list" where
  "core C \<equiv> filter (\<lambda>i. i \<in> C)"

text \<open>What the effects of a task of the GPU leave alone.\<close>

lemma gpu_effects:
  assumes "res_fold (apply_effect i) es e = Inr e'" and "i \<notin> C" and "\<forall>j \<in> C. EWake j \<notin> set es"
    and "\<forall>f. ESpawn f \<in> set es \<longrightarrow> is_gpu f" and "\<forall>s \<in> set (spawn_queue e). is_gpu (task_future s)"
  shows "tasks e' = tasks e \<and> core C (task_queue e') = core C (task_queue e) \<and> core C (yielders e') = core C (yielders e) \<and>
    (\<forall>s \<in> set (spawn_queue e'). is_gpu (task_future s))"
  using assms
proof (induction es arbitrary: e)
  case (Cons eff es)
  obtain e1 where e1: "apply_effect i eff e = Inr e1" and rest: "res_fold (apply_effect i) es e1 = Inr e'"
    using Cons.prems(1) by (auto simp: res_bind_eq_Inr_iff)
  have "tasks e1 = tasks e \<and> core C (task_queue e1) = core C (task_queue e) \<and> core C (yielders e1) = core C (yielders e) \<and>
      (\<forall>s \<in> set (spawn_queue e1). is_gpu (task_future s))"
    using e1 Cons.prems(2-5)
    by (cases eff) (auto simp: Spawner_run_def Task_new_def TaskId_new_def wake_task_def aq_push_def YieldOnce_poll_def
        yielders_push_def Let_def split: if_splits)
  with Cons.IH [OF rest Cons.prems(2)] Cons.prems(3,4) show ?case by simp
qed simp

definition turn_ok :: "u64 set \<Rightarrow> 'd ktask Executor \<times> ('d, 'p, 'a) driver \<Rightarrow> bool" where
  "turn_ok C s \<longleftrightarrow> core_tasks C (fst s) \<and> wakers_apart C (snd s) \<and> (\<forall>t \<in> set (spawn_queue (fst s)). is_gpu (task_future t))"

lemma poll_task_world:
  assumes "poll_task poll i (e, w) = Inr (e', w')" and "tasks e i = Some f"
  shows "fst (poll i f w) = w'"
proof -
  obtain w1 es r where p: "poll i f w = (w1, es, r)" by (cases "poll i f w")
  with assms show ?thesis by (cases r) (auto simp: poll_task_def Let_def res_bind_eq_Inr_iff)
qed

lemma poll_task_other:
  assumes "poll_task (kernel_poll K) i (e, Some (Inr (t, g))) = Inr (e', Some (Inr (t', g')))" and "i \<notin> C" and "turn_ok C (e, g)"
  shows "turn_ok C (e', g') \<and> (\<forall>j \<in> C. tasks e' j = tasks e j) \<and> core C (task_queue e') = core C (task_queue e) \<and>
    core C (yielders e') = core C (yielders e) \<and> task_input t' = task_input t \<and> apps t' = apps t"
proof (cases "tasks e i")
  case None
  with assms show ?thesis by (simp add: poll_task_def)
next
  case (Some f)
  then obtain s where f: "f = K_gpu s" using assms(2,3) by (cases f) (auto simp: turn_ok_def core_tasks_def)
  obtain es p where poll: "kernel_poll K i (K_gpu s) (Some (Inr (t, g))) = (Some (Inr (t', g')), es, p)"
    using poll_task_world [OF assms(1)] Some f by (metis prod.collapse)
  have w: "wakers_apart C g" using assms(3) by (simp add: turn_ok_def)
  note gp = poll_gpu_task [OF poll w assms(2)]
  then obtain s' where p: "p = Pending (K_gpu s')" by blast
  let ?e = "e\<lparr> waker_cache := insert i (waker_cache e) \<rparr>"
  obtain e1 where e1: "res_fold (apply_effect i) es ?e = Inr e1" and e': "e' = e1\<lparr> tasks := (tasks e1)(i \<mapsto> K_gpu s') \<rparr>"
    using assms(1) Some f poll p by (auto simp: poll_task_def Let_def res_bind_eq_Inr_iff)
  have "tasks e1 = tasks e \<and> core C (task_queue e1) = core C (task_queue e) \<and> core C (yielders e1) = core C (yielders e) \<and>
      (\<forall>s \<in> set (spawn_queue e1). is_gpu (task_future s))"
    using gpu_effects [OF e1 assms(2)] gp assms(3) by (simp add: turn_ok_def)
  with gp assms(2,3) show ?thesis by (auto simp: e' turn_ok_def core_tasks_def)
qed

lemma poll_task_core:
  assumes "poll_task (kernel_poll K) i (e, Some (Inr (t, g))) = Inr (e', Some (Inr (t', g')))" and "i \<in> C" and "turn_ok C (e, g)"
    and "length (yielders e') < QUEUE_SIZE"
  shows "\<exists>f f'. tasks e i = Some f \<and> tasks e' = (tasks e)(i \<mapsto> f') \<and> task_queue e' = task_queue e \<and>
    yielders e' = yielders e @ [i] \<and> core_step K f (task_input t) = Some (f', task_input t') \<and> turn_ok C (e', g') \<and>
    (if is_apps f then is_apps f' \<and> t' = frame_of_task K f t else \<not> is_apps f' \<and> apps t' = apps t)"
proof -
  obtain f where f: "tasks e i = Some f" "\<not> is_gpu f" using assms(2,3) by (auto simp: turn_ok_def core_tasks_def)
  obtain es p where poll: "kernel_poll K i f (Some (Inr (t, g))) = (Some (Inr (t', g')), es, p)"
    using poll_task_world [OF assms(1) f(1)] by (metis prod.collapse)
  from poll_core [OF this f(2)] obtain f' where f': "p = Pending f'" "es = [EYield]" "g' = g"
    "core_step K f (task_input t) = Some (f', task_input t')" "\<not> is_gpu f'"
    "if is_apps f then is_apps f' \<and> t' = frame_of_task K f t else \<not> is_apps f' \<and> apps t' = apps t"
    by (auto split: if_splits)
  have e': "e' = e\<lparr> waker_cache := insert i (waker_cache e), yielders := yielders_push i (yielders e), tasks := (tasks e)(i \<mapsto> f') \<rparr>"
    using assms(1) f(1) poll f'(1,2) by (simp add: poll_task_def Let_def YieldOnce_poll_def)
  have "yielders e' = yielders e @ [i]"
    using assms(4) by (simp add: e' yielders_push_def aq_push_def split: if_splits)
  moreover have "turn_ok C (e', g')" using assms(2,3) f' by (auto simp: e' turn_ok_def core_tasks_def)
  ultimately show ?thesis using f f' by (simp add: e')
qed


text \<open>The core tasks of a queue, polled one after another.\<close>

fun core_polls :: "('d, 'p, 'a, 's) kernel_env \<Rightarrow> u64 list \<Rightarrow> (u64 \<Rightarrow> 'd ktask option) \<times> Input \<Rightarrow>
    ((u64 \<Rightarrow> 'd ktask option) \<times> Input) option" where
  "core_polls K [] s = Some s"
| "core_polls K (i # is) (T, inp) =
     Option.bind (T i) (\<lambda>f. Option.bind (core_step K f inp) (\<lambda>(f', inp). core_polls K is (T(i \<mapsto> f'), inp)))"

lemma core_polls_cong:
  assumes "core_polls K is (T, inp) = Some (T', inp')" and "\<forall>i \<in> C. U i = T i" and "set is \<subseteq> C"
  shows "\<exists>U'. core_polls K is (U, inp) = Some (U', inp') \<and> (\<forall>i \<in> C. U' i = T' i)"
  using assms
proof (induction "is" arbitrary: T U inp)
  case (Cons i "is")
  then obtain f f' inp1 where f: "T i = Some f" "core_step K f inp = Some (f', inp1)"
    and rest: "core_polls K is (T(i \<mapsto> f'), inp1) = Some (T', inp')"
    by (auto simp: bind_eq_Some_conv)
  have "\<forall>j \<in> C. (U(i \<mapsto> f')) j = (T(i \<mapsto> f')) j" using Cons.prems(2) by simp
  moreover have "U i = Some f" using f(1) Cons.prems(2,3) by simp
  ultimately show ?case using Cons.IH [OF rest, of "U(i \<mapsto> f')"] Cons.prems(3) f by (simp del: fun_upd_apply)
qed auto

text \<open>A poll of a turn that does not panic.\<close>

lemma run_step:
  assumes "run_ready_tasks (kernel_poll K) (Suc n) (e, Some (Inr (t, g))) = Some (Inr (e2, Some (Inr (t2, g2))))"
    and "task_queue e = i # q" and "turn_ok C (e, g)" and "length (yielders e2) < QUEUE_SIZE"
  shows "\<exists>e1 t1 g1. poll_task (kernel_poll K) i (e\<lparr> task_queue := q \<rparr>, Some (Inr (t, g))) = Inr (e1, Some (Inr (t1, g1))) \<and>
    run_ready_tasks (kernel_poll K) n (e1, Some (Inr (t1, g1))) = Some (Inr (e2, Some (Inr (t2, g2)))) \<and>
    turn_ok C (e\<lparr> task_queue := q \<rparr>, g) \<and> length (yielders e1) < QUEUE_SIZE"
proof -
  obtain e1 w1 where p: "poll_task (kernel_poll K) i (e\<lparr> task_queue := q \<rparr>, Some (Inr (t, g))) = Inr (e1, w1)"
    and run: "run_ready_tasks (kernel_poll K) n (e1, w1) = Some (Inr (e2, Some (Inr (t2, g2))))"
    using assms(1,2) by (auto simp: aq_pop_def split: sum.splits)
  moreover obtain t1 g1 where "w1 = Some (Inr (t1, g1))"
    using run_stopped [OF run] by (metis surj_pair)
  moreover have "length (yielders e1) < QUEUE_SIZE" using run_ready_appends [OF run] assms(4) by auto
  ultimately show ?thesis using assms(3) by (auto simp: turn_ok_def core_tasks_def)
qed

lemma run_drivers:
  assumes "run_ready_tasks (kernel_poll K) n (e, Some (Inr (t, g))) = Some (Inr (e2, Some (Inr (t2, g2))))" and "turn_ok C (e, g)"
    and "length (yielders e2) < QUEUE_SIZE" and "core C (task_queue e) = cs"
    and "\<forall>i \<in> set cs. \<exists>f. tasks e i = Some f \<and> \<not> is_apps f"
  shows "turn_ok C (e2, g2) \<and> core C (yielders e2) = core C (yielders e) @ cs \<and> apps t2 = apps t \<and>
    (\<exists>T. core_polls K cs (tasks e, task_input t) = Some (T, task_input t2) \<and> (\<forall>j \<in> C. tasks e2 j = T j))"
  using assms
proof (induction n arbitrary: e t g cs)
  case (Suc n)
  show ?case
  proof (cases "task_queue e")
    case Nil
    with Suc.prems show ?thesis by (auto simp: aq_pop_def)
  next
    case (Cons i q)
    from run_step [OF Suc.prems(1) Cons Suc.prems(2,3)] obtain e1 t1 g1 where
      p1: "poll_task (kernel_poll K) i (e\<lparr> task_queue := q \<rparr>, Some (Inr (t, g))) = Inr (e1, Some (Inr (t1, g1)))"
      and run1: "run_ready_tasks (kernel_poll K) n (e1, Some (Inr (t1, g1))) = Some (Inr (e2, Some (Inr (t2, g2))))"
      and ok: "turn_ok C (e\<lparr> task_queue := q \<rparr>, g)" and y1: "length (yielders e1) < QUEUE_SIZE"
      by blast
    show ?thesis
    proof (cases "i \<in> C")
      case False
      note o = poll_task_other [OF p1 False ok]
      have cs: "core C (task_queue e1) = cs" using o Suc.prems(4) Cons False by simp
      have sub: "set cs \<subseteq> C" using Suc.prems(4) by auto
      then have "\<forall>i \<in> set cs. \<exists>f. tasks e1 i = Some f \<and> \<not> is_apps f" using o Suc.prems(5) by auto
      from Suc.IH [OF run1 _ Suc.prems(3) cs this] o obtain T where
        "core_polls K cs (tasks e1, task_input t) = Some (T, task_input t2)" "\<forall>j \<in> C. tasks e2 j = T j"
        "turn_ok C (e2, g2) \<and> core C (yielders e2) = core C (yielders e) @ cs \<and> apps t2 = apps t" by auto
      with core_polls_cong [OF this(1), of C "tasks e"] o sub show ?thesis by auto
    next
      case True
      from poll_task_core [OF p1 True ok y1] obtain f f' where f: "tasks e i = Some f" "tasks e1 = (tasks e)(i \<mapsto> f')"
        "task_queue e1 = q" "yielders e1 = yielders e @ [i]" "core_step K f (task_input t) = Some (f', task_input t1)"
        "turn_ok C (e1, g1)" "if is_apps f then is_apps f' \<and> t1 = frame_of_task K f t else \<not> is_apps f' \<and> apps t1 = apps t"
        by auto
      obtain cs' where cs: "cs = i # cs'" "core C q = cs'" using Suc.prems(4) Cons True by (metis filter.simps(2))
      have "\<not> is_apps f" using Suc.prems(5) cs f(1) by auto
      moreover from this have "\<forall>j \<in> set cs'. \<exists>h. tasks e1 j = Some h \<and> \<not> is_apps h"
        using Suc.prems(5) cs f(2,7) by auto
      ultimately show ?thesis
        using Suc.IH [OF run1 f(6) Suc.prems(3), of cs'] cs f True by (auto simp del: fun_upd_apply)
    qed
  qed
qed simp

text \<open>With the apps' task after the drivers.\<close>

lemma run_core:
  assumes "run_ready_tasks (kernel_poll K) n (e, Some (Inr (t, g))) = Some (Inr (e2, Some (Inr (t2, g2))))" and "turn_ok C (e, g)"
    and "length (yielders e2) < QUEUE_SIZE" and "core C (task_queue e) = ds @ [a]"
    and "\<forall>i \<in> set ds. \<exists>f. tasks e i = Some f \<and> \<not> is_apps f" and "tasks e a = Some fa" and "is_apps fa"
  shows "turn_ok C (e2, g2) \<and> core C (yielders e2) = core C (yielders e) @ ds @ [a] \<and>
    (\<exists>T t1 fa'. core_polls K ds (tasks e, task_input t) = Some (T, task_input t1) \<and> apps t1 = apps t \<and>
       apps t2 = apps (frame_of_task K fa t1) \<and> task_input t2 = GLOBAL_update Input_step (task_input t1) \<and> is_apps fa' \<and>
       (\<forall>j \<in> C. tasks e2 j = (T(a \<mapsto> fa')) j))"
  using assms
proof (induction n arbitrary: e t g ds)
  case (Suc n)
  show ?case
  proof (cases "task_queue e")
    case Nil
    with Suc.prems show ?thesis by simp
  next
    case (Cons i q)
    from run_step [OF Suc.prems(1) Cons Suc.prems(2,3)] obtain e1 t1 g1 where
      p1: "poll_task (kernel_poll K) i (e\<lparr> task_queue := q \<rparr>, Some (Inr (t, g))) = Inr (e1, Some (Inr (t1, g1)))"
      and run1: "run_ready_tasks (kernel_poll K) n (e1, Some (Inr (t1, g1))) = Some (Inr (e2, Some (Inr (t2, g2))))"
      and ok: "turn_ok C (e\<lparr> task_queue := q \<rparr>, g)" and y1: "length (yielders e1) < QUEUE_SIZE"
      by blast
    have C: "set ds \<subseteq> C" "a \<in> C"
    proof -
      have "set (ds @ [a]) \<subseteq> C" unfolding Suc.prems(4) [symmetric] by auto
      then show "set ds \<subseteq> C" "a \<in> C" by simp_all
    qed
    show ?thesis
    proof (cases "i \<in> C")
      case False
      note o = poll_task_other [OF p1 False ok]
      have cs: "core C (task_queue e1) = ds @ [a]" using o Suc.prems(4) Cons False by simp
      have "\<forall>i \<in> set ds. \<exists>f. tasks e1 i = Some f \<and> \<not> is_apps f" "tasks e1 a = Some fa" using o C Suc.prems(5,6) by auto
      from Suc.IH [OF run1 _ Suc.prems(3) cs this Suc.prems(7)] o obtain T t3 fa' where
        polls: "core_polls K ds (tasks e1, task_input t) = Some (T, task_input t3)" and rest: "apps t3 = apps t"
        "apps t2 = apps (frame_of_task K fa t3)" "task_input t2 = GLOBAL_update Input_step (task_input t3)" "is_apps fa'"
        "\<forall>j \<in> C. tasks e2 j = (T(a \<mapsto> fa')) j"
        "turn_ok C (e2, g2) \<and> core C (yielders e2) = core C (yielders e) @ ds @ [a]" by auto
      obtain U where "core_polls K ds (tasks e, task_input t) = Some (U, task_input t3)" "\<forall>j \<in> C. U j = T j"
        using core_polls_cong [OF polls, of C "tasks e"] o C by auto
      with rest show ?thesis by (intro conjI exI [of _ U] exI [of _ t3] exI [of _ fa']) auto
    next
      case True
      from poll_task_core [OF p1 True ok y1] obtain f f' where f: "tasks e i = Some f" "tasks e1 = (tasks e)(i \<mapsto> f')"
        "task_queue e1 = q" "yielders e1 = yielders e @ [i]" "core_step K f (task_input t) = Some (f', task_input t1)"
        "turn_ok C (e1, g1)" "if is_apps f then is_apps f' \<and> t1 = frame_of_task K f t else \<not> is_apps f' \<and> apps t1 = apps t"
        by auto
      have cs: "i # core C q = ds @ [a]" using Suc.prems(4) Cons True by simp
      show ?thesis
      proof (cases ds)
        case Nil
        then have i: "i = a" "core C q = []" using cs by simp_all
        then have fa: "f = fa" using f(1) Suc.prems(6) by simp
        have in1: "task_input t1 = GLOBAL_update Input_step (task_input t)"
          using f(5) Suc.prems(7) fa by (cases fa) (auto simp: core_step_def)
        from run_drivers [OF run1 f(6) Suc.prems(3), of "[]"] i f(3) have last: "turn_ok C (e2, g2)"
          "core C (yielders e2) = core C (yielders e1)" "apps t2 = apps t1" "task_input t2 = task_input t1"
          "\<forall>j \<in> C. tasks e2 j = tasks e1 j" by auto
        with f i fa Suc.prems(7) in1 True show ?thesis
          unfolding Nil by (intro conjI exI [of _ "tasks e"] exI [of _ t] exI [of _ f']) auto
      next
        case (Cons d ds')
        then have i: "i = d" "core C q = ds' @ [a]" using cs by simp_all
        have "\<not> is_apps f" using Suc.prems(5) Cons i f(1) by auto
        moreover have "a \<noteq> d" using Suc.prems(6,7) f(1) i \<open>\<not> is_apps f\<close> by auto
        moreover have "\<forall>j \<in> set ds'. \<exists>h. tasks e1 j = Some h \<and> \<not> is_apps h" "tasks e1 a = Some fa"
          using Suc.prems(5,6) Cons i f(2,7) \<open>\<not> is_apps f\<close> \<open>a \<noteq> d\<close> by auto
        ultimately obtain T t3 fa' where "core_polls K ds' (tasks e1, task_input t1) = Some (T, task_input t3)" "apps t3 = apps t"
          "apps t2 = apps (frame_of_task K fa t3)" "task_input t2 = GLOBAL_update Input_step (task_input t3)" "is_apps fa'"
          "\<forall>j \<in> C. tasks e2 j = (T(a \<mapsto> fa')) j"
          "turn_ok C (e2, g2) \<and> core C (yielders e2) = core C (yielders e1) @ ds' @ [a]"
          using Suc.IH [OF run1 f(6) Suc.prems(3), of ds'] i f(3,7) Suc.prems(7) by auto
        with f i Cons True show ?thesis by (intro conjI exI [of _ T] exI [of _ t3] exI [of _ fa']) auto
      qed
    qed
  qed
qed simp


lemma core_polls_drivers:
  assumes "core_polls K is (T, inp) = Some (T', inp')" and "\<forall>i \<in> set is. \<exists>f. T i = Some f \<and> \<not> is_apps f" and "j \<in> set js"
    and "\<forall>i \<in> set js. \<exists>f. T i = Some f \<and> \<not> is_apps f"
  shows "\<exists>f. T' j = Some f \<and> \<not> is_apps f"
  using assms
proof (induction "is" arbitrary: T inp)
  case (Cons i "is")
  then obtain f f' inp1 where f: "T i = Some f" "core_step K f inp = Some (f', inp1)"
    and rest: "core_polls K is (T(i \<mapsto> f'), inp1) = Some (T', inp')"
    by (auto simp: bind_eq_Some_conv)
  have "\<not> is_apps f" using Cons.prems(2) f(1) by auto
  then have "\<not> is_apps f'"
    using f(2) by (cases f) (auto simp: core_step_def split: option.splits sum.splits prod.splits)
  then show ?case using Cons.IH [OF rest _ Cons.prems(3)] Cons.prems(2,4) by simp
qed auto

section \<open>The core from turn to turn\<close>

definition order_ok :: "u64 set \<Rightarrow> u64 list \<Rightarrow> u64 \<Rightarrow> 'd ktask Executor \<times> ('d, 'p, 'a) driver \<Rightarrow> bool" where
  "order_ok C ds a s \<longleftrightarrow> turn_ok C s \<and> core C (task_queue (fst s)) = ds @ [a] \<and> yielders (fst s) = [] \<and>
     (\<forall>i \<in> set ds. \<exists>f. tasks (fst s) i = Some f \<and> \<not> is_apps f) \<and> (\<exists>f. tasks (fst s) a = Some f \<and> is_apps f)"

lemma order_ok_mem: "order_ok C ds a s \<Longrightarrow> set ds \<subseteq> C \<and> a \<in> C"
proof -
  assume "order_ok C ds a s"
  then have "core C (task_queue (fst s)) = ds @ [a]" by (simp add: order_ok_def)
  moreover have "set (core C (task_queue (fst s))) \<subseteq> C" by auto
  ultimately have "set (ds @ [a]) \<subseteq> C" by simp
  then show ?thesis by simp
qed

lemma spawn_pending_core:
  assumes "spawn_pending e = Inr e1" and "turn_ok C (e, g)"
  shows "turn_ok C (e1, g) \<and> (\<forall>j \<in> C. tasks e1 j = tasks e j) \<and> core C (task_queue e1) = core C (task_queue e) \<and>
    yielders e1 = yielders e"
proof -
  have step: "turn_ok C (e2, g) \<and> (\<forall>j \<in> C. tasks e2 j = tasks e0 j) \<and> core C (task_queue e2) = core C (task_queue e0) \<and>
      yielders e2 = yielders e0"
    if "res_fold Executor_spawn ts e0 = Inr e2" and "turn_ok C (e0, g)" and "\<forall>t \<in> set ts. is_gpu (task_future t)" for ts e0 e2
    using that
  proof (induction ts arbitrary: e0)
    case (Cons t ts)
    obtain e3 where e3: "Executor_spawn t e0 = Inr e3" and rest: "res_fold Executor_spawn ts e3 = Inr e2"
      using Cons.prems(1) by (auto simp: res_bind_eq_Inr_iff)
    have new: "tasks e0 (task_id t) = None" and e3': "tasks e3 = (tasks e0)(task_id t \<mapsto> task_future t)"
      "task_queue e3 = task_queue e0 @ [task_id t]" "yielders e3 = yielders e0" "spawn_queue e3 = spawn_queue e0"
      using e3 by (auto simp: Executor_spawn_def aq_push_def Let_def split: if_splits)
    have t: "task_id t \<notin> C" using new Cons.prems(2) by (auto simp: turn_ok_def core_tasks_def)
    then have "\<forall>i \<in> C. i \<noteq> task_id t" by blast
    then have ok3: "turn_ok C (e3, g)" and same: "\<forall>j \<in> C. tasks e3 j = tasks e0 j"
      using Cons.prems(2,3) e3' by (simp_all add: turn_ok_def core_tasks_def)
    have queue: "core C (task_queue e3) = core C (task_queue e0)" using t e3' by simp
    have "\<forall>t \<in> set ts. is_gpu (task_future t)" using Cons.prems(3) by simp
    from Cons.IH [OF rest ok3 this] same queue e3'(3) show ?case by simp
  qed simp
  have "res_fold Executor_spawn (spawn_queue e) (e\<lparr> spawn_queue := [] \<rparr>) = Inr e1" using assms(1) by (simp add: spawn_pending_def)
  moreover have "turn_ok C (e\<lparr> spawn_queue := [] \<rparr>, g)" "\<forall>t \<in> set (spawn_queue e). is_gpu (task_future t)"
    using assms(2) by (simp_all add: turn_ok_def core_tasks_def)
  ultimately show ?thesis using step [of "spawn_queue e" "e\<lparr> spawn_queue := [] \<rparr>" e1] by simp
qed

lemma wake_yielders_Inr:
  assumes "wake_yielders e = Inr e'"
  shows "task_queue e' = task_queue e @ yielders e \<and> yielders e' = [] \<and> tasks e' = tasks e \<and> spawn_queue e' = spawn_queue e"
proof -
  have "task_queue e2 = task_queue e0 @ ys \<and> yielders e2 = yielders e0 \<and> tasks e2 = tasks e0 \<and> spawn_queue e2 = spawn_queue e0"
    if "res_fold wake_task ys e0 = Inr e2" for ys e2 and e0 :: "'a Executor"
    using that
  proof (induction ys arbitrary: e0)
    case (Cons y ys)
    then obtain e1 where w: "wake_task y e0 = Inr e1" and rest: "res_fold wake_task ys e1 = Inr e2" by (auto simp: res_bind_eq_Inr_iff)
    have "e1 = e0\<lparr> task_queue := task_queue e0 @ [y] \<rparr>" using w by (auto simp: wake_task_def aq_push_def split: if_splits)
    with Cons.IH [OF rest] show ?case by simp
  qed simp
  from this [of "yielders e" "e\<lparr> yielders := [] \<rparr>" e'] assms show ?thesis by (simp add: wake_yielders_def)
qed

lemma turn_core:
  assumes "order_ok C ds a (e, g)" and "run_turn (kernel_poll K) n (e, Some (Inr (t, g))) = Some (Inr (h, e', Some (Inr (t', g'))))"
    and "length (task_queue e') < QUEUE_SIZE"
  shows "order_ok C ds a (e', g') \<and>
    (\<exists>T t1 fa. core_polls K ds (tasks e, task_input t) = Some (T, task_input t1) \<and> tasks e a = Some fa \<and> apps t1 = apps t \<and>
       apps t' = apps (frame_of_task K fa t1) \<and> task_input t' = GLOBAL_update Input_step (task_input t1) \<and>
       (\<forall>j \<in> set ds. tasks e' j = T j))"
proof -
  note mem = order_ok_mem [OF assms(1)]
  obtain e1 e2 where e1: "spawn_pending e = Inr e1"
    and run: "run_ready_tasks (kernel_poll K) n (e1, Some (Inr (t, g))) = Some (Inr (e2, Some (Inr (t', g'))))"
    and wake: "wake_yielders e2 = Inr e'"
    using assms(2) by (auto simp: run_turn_def res_map_def res_bind_eq_Inr_iff Let_def split: sum.splits option.splits)
  have ok: "turn_ok C (e, g)" using assms(1) by (simp add: order_ok_def)
  note s = spawn_pending_core [OF e1 ok] and w = wake_yielders_Inr [OF wake]
  have q2: "task_queue e2 = []" using run_ready_appends [OF run] by simp
  have y2: "length (yielders e2) < QUEUE_SIZE" using assms(3) w by simp
  obtain fa where fa: "tasks e a = Some fa" "is_apps fa" using assms(1) by (auto simp: order_ok_def)
  have a1: "tasks e1 a = Some fa" and d1: "\<forall>i \<in> set ds. \<exists>f. tasks e1 i = Some f \<and> \<not> is_apps f"
    and c1: "core C (task_queue e1) = ds @ [a]"
    using s fa mem assms(1) by (auto simp: order_ok_def)
  from run_core [OF run _ y2 c1 d1 a1 fa(2)] s obtain T t1 fa' where
    polls: "core_polls K ds (tasks e1, task_input t) = Some (T, task_input t1)" and r: "apps t1 = apps t"
      "apps t' = apps (frame_of_task K fa t1)" "task_input t' = GLOBAL_update Input_step (task_input t1)" "is_apps fa'"
      "\<forall>j \<in> C. tasks e2 j = (T(a \<mapsto> fa')) j" "turn_ok C (e2, g')" "core C (yielders e2) = core C (yielders e1) @ ds @ [a]"
    by blast
  obtain U where U: "core_polls K ds (tasks e, task_input t) = Some (U, task_input t1)" "\<forall>j \<in> C. U j = T j"
    using core_polls_cong [OF polls, of C "tasks e"] s mem by auto
  have a_ds: "a \<notin> set ds" using fa assms(1) by (auto simp: order_ok_def)
  have dT: "\<exists>f. T j = Some f \<and> \<not> is_apps f" if "j \<in> set ds" for j
    using core_polls_drivers [OF polls d1 that d1] .
  have "turn_ok C (e', g')" using r(6) w by (simp add: turn_ok_def core_tasks_def)
  moreover have "core C (task_queue e') = ds @ [a]" using w q2 r(7) s assms(1) by (simp add: order_ok_def)
  moreover have "\<exists>f. tasks e' j = Some f \<and> \<not> is_apps f" if "j \<in> set ds" for j
    using that mem w r(5) a_ds dT by (metis fun_upd_other subsetD)
  moreover have "tasks e' a = Some fa'" using mem w r(5) by simp
  moreover have "tasks e' j = U j" if "j \<in> set ds" for j
    using that mem w r(5) a_ds U(2) by (metis fun_upd_other subsetD)
  ultimately show ?thesis using U(1) r fa w by (auto simp: order_ok_def)
qed


section \<open>The start\<close>

lemma spawner_many:
  "length (spawn_queue e) + length fs \<le> QUEUE_SIZE \<Longrightarrow>
   fold Spawner_run fs e = e\<lparr> next_id := next_id e + of_nat (length fs),
     spawn_queue := spawn_queue e @ map (\<lambda>k. \<lparr> task_id = next_id e + of_nat k, task_future = fs ! k \<rparr>) [0..<length fs] \<rparr>"
proof (induction fs arbitrary: e)
  case (Cons f fs)
  let ?e = "e\<lparr> next_id := next_id e + 1, spawn_queue := spawn_queue e @ [\<lparr> task_id = next_id e, task_future = f \<rparr>] \<rparr>"
  have "Spawner_run f e = ?e"
    using Cons.prems by (simp add: Spawner_run_def Task_new_def TaskId_new_def aq_push_def Let_def)
  moreover have "[0..<length (f # fs)] = 0 # map Suc [0..<length fs]"
    by (simp add: upt_conv_Cons map_Suc_upt del: upt_Suc)
  ultimately show ?case using Cons.IH [of ?e] Cons.prems by (simp add: comp_def algebra_simps del: upt_Suc)
qed simp

lemma spawn_tasks_eq: "spawn_tasks devices e = fold Spawner_run (map device_task devices @ [K_apps_begin]) e"
  by (simp add: spawn_tasks_def fold_map comp_def)

lemma spawn_many:
  assumes "distinct (map task_id ts)" and "\<forall>t \<in> set ts. tasks e (task_id t) = None"
    and "length (task_queue e) + length ts \<le> QUEUE_SIZE"
  shows "res_fold Executor_spawn ts e = Inr (e\<lparr> tasks := (tasks e)(map task_id ts [\<mapsto>] map task_future ts),
    task_queue := task_queue e @ map task_id ts \<rparr>)"
  using assms
proof (induction ts arbitrary: e)
  case (Cons t ts)
  let ?e = "e\<lparr> tasks := (tasks e)(task_id t \<mapsto> task_future t), task_queue := task_queue e @ [task_id t] \<rparr>"
  have "Executor_spawn t e = Inr ?e" using Cons.prems by (simp add: Executor_spawn_def aq_push_def Let_def)
  moreover have "tasks ?e (task_id s) = None" if "s \<in> set ts" for s
  proof -
    have "task_id s \<noteq> task_id t" using Cons.prems(1) that by (metis distinct.simps(2) image_eqI list.simps(9) list.set_map)
    with Cons.prems(2) that show ?thesis by simp
  qed
  ultimately show ?case using Cons.IH [of ?e] Cons.prems by (simp del: fun_upd_apply)
qed simp

text \<open>The numbers of the tasks: those of the input devices in the order of the bus, then that of the apps.\<close>

definition input_tasks :: "(Virtio \<times> 'd virtio_io) list \<Rightarrow> u64 list" where
  "input_tasks devices = map of_nat (filter (\<lambda>k. device_type (fst (devices ! k)) = DeviceType_Input) [0..<length devices])"

definition apps_task :: "(Virtio \<times> 'd virtio_io) list \<Rightarrow> u64" where
  "apps_task devices = of_nat (length devices)"

abbreviation core_set :: "(Virtio \<times> 'd virtio_io) list \<Rightarrow> u64 set" where
  "core_set devices \<equiv> set (input_tasks devices) \<union> {apps_task devices}"

lemma small_id_inj: "j < QUEUE_SIZE \<Longrightarrow> k < QUEUE_SIZE \<Longrightarrow> (of_nat j :: u64) = of_nat k \<longleftrightarrow> j = k"
proof -
  assume "j < QUEUE_SIZE" and "k < QUEUE_SIZE"
  then have "unat (of_nat j :: u64) = j" "unat (of_nat k :: u64) = k"
    by (simp_all add: QUEUE_SIZE_def unat_of_nat_small)
  then show ?thesis by metis
qed

lemma small_ids: "m \<le> QUEUE_SIZE \<Longrightarrow> distinct (map of_nat [0..<m] :: u64 list)"
  unfolding distinct_map by (intro conjI distinct_upt inj_onI) (simp add: small_id_inj)

lemma boot_order:
  fixes devices :: "(Virtio \<times> 'd virtio_io) list" and g :: "('d, 'p, 'a) driver"
  assumes "length devices < QUEUE_SIZE" and "gpu_wakers (drv_gpu g) = GPU_WAKERS"
  shows "\<exists>e1. spawn_pending (spawn_tasks devices (Executor_new 0 [])) = Inr e1 \<and>
    order_ok (core_set devices) (input_tasks devices) (apps_task devices) (e1, g)"
proof -
  define fs where "fs = map device_task devices @ [K_apps_begin]"
  define ids :: "u64 list" where "ids = map of_nat [0..<length fs]"
  define ts where "ts = map (\<lambda>k. \<lparr> task_id = of_nat k :: u64, task_future = fs ! k \<rparr>) [0..<length fs]"
  have len: "length fs \<le> QUEUE_SIZE" using assms(1) by (simp add: fs_def)
  have tid: "map task_id ts = ids" "map task_future ts = fs"
    by (simp_all add: ts_def ids_def comp_def map_nth)
  have q: "spawn_tasks devices (Executor_new 0 []) = (Executor_new 0 [])\<lparr> next_id := of_nat (length fs), spawn_queue := ts \<rparr>"
    using spawner_many [of "Executor_new 0 []" fs] len
    unfolding spawn_tasks_eq fs_def [symmetric] ts_def by (simp add: Executor_new_def)
  define e0 :: "'d ktask Executor" where "e0 = (Executor_new 0 [])\<lparr> next_id := of_nat (length fs) \<rparr>"
  define e1 where "e1 = e0\<lparr> tasks := [ids [\<mapsto>] fs], task_queue := ids \<rparr>"
  have dist: "distinct ids" "length ts = length fs" using small_ids [OF len] by (simp_all add: ids_def ts_def)
  have e0: "tasks e0 = Map.empty" "task_queue e0 = []" by (simp_all add: e0_def Executor_new_def)
  have "res_fold Executor_spawn ts e0 = Inr e1"
    using spawn_many [of ts e0] dist len by (simp add: tid e0 e1_def)
  moreover have "(Executor_new 0 [])\<lparr> next_id := of_nat (length fs), spawn_queue := [] \<rparr> = e0"
    by (simp add: e0_def Executor_new_def)
  ultimately have boot: "spawn_pending (spawn_tasks devices (Executor_new 0 [])) = Inr e1"
    by (simp add: spawn_pending_def q)
  have task: "tasks e1 (of_nat k) = Some (fs ! k)" if "k < length fs" for k
  proof -
    have "length ids = length fs" "ids ! k = of_nat k" using that by (simp_all add: ids_def)
    then show ?thesis using map_upds_nth [of ids fs k Map.empty] dist(1) that by (simp add: e1_def)
  qed
  have none: "\<exists>k < length fs. i = of_nat k \<and> f = fs ! k" if "tasks e1 i = Some f" for i f
  proof -
    have "i \<in> set ids" using that map_upds_apply_nontin [of i ids Map.empty fs] by (auto simp: e1_def)
    then show ?thesis using that task by (auto simp: ids_def)
  qed
  let ?n = "length devices" and ?C = "core_set devices"
  have gpu: "is_gpu (fs ! k) \<longleftrightarrow> k < ?n \<and> device_type (fst (devices ! k)) \<noteq> DeviceType_Input" if "k < length fs" for k
    using that by (auto simp: fs_def nth_append device_task_def split: DeviceType.splits)
  have apps: "is_apps (fs ! k) \<longleftrightarrow> k = ?n" if "k < length fs" for k
    using that by (auto simp: fs_def nth_append device_task_def split: DeviceType.splits)
  have core: "of_nat k \<in> ?C \<longleftrightarrow> \<not> is_gpu (fs ! k)" if "k < length fs" for k
  proof -
    have inj: "(of_nat k :: u64) = of_nat j \<longleftrightarrow> k = j" if "j \<le> ?n" for j
      using that \<open>k < length fs\<close> assms(1) by (intro small_id_inj) (simp_all add: fs_def)
    have "of_nat k \<in> ?C \<longleftrightarrow>
        (\<exists>j < ?n. device_type (fst (devices ! j)) = DeviceType_Input \<and> (of_nat k :: u64) = of_nat j) \<or> (of_nat k :: u64) = of_nat ?n"
      by (auto simp: input_tasks_def apps_task_def)
    also have "\<dots> \<longleftrightarrow> (k < ?n \<and> device_type (fst (devices ! k)) = DeviceType_Input) \<or> k = ?n"
      using inj [OF order_refl] inj [OF less_imp_le] by metis
    finally show ?thesis using gpu [OF that] that by (auto simp: fs_def)
  qed
  have "core ?C ids = map of_nat (filter (\<lambda>k. of_nat k \<in> ?C) [0..<length fs])"
    by (simp add: ids_def filter_map comp_def)
  also have "\<dots> = map of_nat (filter (\<lambda>k. \<not> is_gpu (fs ! k)) [0..<length fs])"
    using core by (intro arg_cong [where f = "map of_nat"] filter_cong) simp_all
  also have "[0..<length fs] = [0..<?n] @ [?n]" by (simp add: fs_def)
  also have "map of_nat (filter (\<lambda>k. \<not> is_gpu (fs ! k)) ([0..<?n] @ [?n])) = input_tasks devices @ [apps_task devices]"
  proof -
    have "filter (\<lambda>k. \<not> is_gpu (fs ! k)) [0..<?n] = filter (\<lambda>k. device_type (fst (devices ! k)) = DeviceType_Input) [0..<?n]"
      using gpu by (intro filter_cong) (auto simp: fs_def)
    moreover have "\<not> is_gpu (fs ! ?n)" using gpu [of ?n] by (simp add: fs_def)
    ultimately show ?thesis by (simp add: input_tasks_def apps_task_def)
  qed
  finally have order: "core ?C (task_queue e1) = input_tasks devices @ [apps_task devices]" by (simp add: e1_def)
  have "core_tasks ?C e1"
    unfolding core_tasks_def
  proof (intro conjI ballI allI impI)
    fix i assume "i \<in> ?C"
    then have "\<exists>k < length fs. i = of_nat k" by (auto simp: input_tasks_def apps_task_def fs_def intro: less_SucI)
    then obtain k where k: "k < length fs" "i = of_nat k" by blast
    then have "\<not> is_gpu (fs ! k)" using core [of k] \<open>i \<in> ?C\<close> by argo
    with task [OF k(1)] k(2) show "\<exists>f. tasks e1 i = Some f \<and> \<not> is_gpu f" by metis
  next
    fix i f assume "i \<notin> ?C" "tasks e1 i = Some f"
    with none [of i f] obtain k where "k < length fs" "i = of_nat k" "f = fs ! k" by blast
    with core [of k] \<open>i \<notin> ?C\<close> show "is_gpu f" by argo
  qed
  moreover have "wakers_apart ?C g" using assms(2) by (simp add: wakers_apart_def GPU_WAKERS_def)
  moreover have "spawn_queue e1 = []" "yielders e1 = []" by (simp_all add: e1_def e0_def Executor_new_def)
  moreover have "\<exists>f. tasks e1 i = Some f \<and> \<not> is_apps f" if i: "i \<in> set (input_tasks devices)" for i
  proof -
    obtain k where "k < ?n" "i = of_nat k" using i by (auto simp: input_tasks_def)
    with task [of k] apps [of k] show ?thesis by (simp add: fs_def)
  qed
  moreover have "\<exists>f. tasks e1 (apps_task devices) = Some f \<and> is_apps f"
    using task [of ?n] apps [of ?n] by (simp add: apps_task_def fs_def)
  ultimately show ?thesis using boot order by (auto simp: order_ok_def turn_ok_def)
qed


section \<open>Properties\<close>

text \<open>The machine from turn to turn: a turn of the executor that ends without a panic, with room in the queue of
  tasks that yield, or the devices change what they share with their drivers.\<close>

inductive kernel_step :: "('d, 'p, 'a, 's) kernel_env \<Rightarrow> 'd ktask Executor \<times> 's AppTask \<times> ('d, 'p, 'a) driver \<Rightarrow>
    'd ktask Executor \<times> 's AppTask \<times> ('d, 'p, 'a) driver \<Rightarrow> bool" for K where
  turn: "run_turn (kernel_poll K) n (e, Some (Inr (t, g))) = Some (Inr (h, e', Some (Inr (t', g')))) \<Longrightarrow>
    length (task_queue e') < QUEUE_SIZE \<Longrightarrow> kernel_step K (e, t, g) (e', t', g')"
| input_device: "tasks e i = Some (K_input v io) \<Longrightarrow>
    kernel_step K (e, t, g) (e\<lparr> tasks := (tasks e)(i \<mapsto> K_input v io') \<rparr>, t, g)"
| gpu_device: "kernel_step K (e, t, g) (e, t, g\<lparr> drv_gpu := (drv_gpu g)\<lparr> gpu_io := io \<rparr> \<rparr>)"

lemma order_step:
  assumes "kernel_step K (e, t, g) (e', t', g')" and "order_ok C ds a (e, g)"
  shows "order_ok C ds a (e', g')"
  using assms(1)
proof (cases rule: kernel_step.cases)
  case (turn n h)
  with turn_core [OF assms(2)] show ?thesis by blast
next
  case (input_device i v io io')
  have "i \<in> C" using assms(2) input_device by (auto simp: order_ok_def turn_ok_def core_tasks_def)
  then have "turn_ok C (e', g')"
    using assms(2) input_device by (auto simp: order_ok_def turn_ok_def core_tasks_def)
  moreover have "i \<noteq> a" using assms(2) input_device by (auto simp: order_ok_def)
  ultimately show ?thesis using assms(2) input_device by (auto simp: order_ok_def)
next
  case (gpu_device io)
  with assms(2) show ?thesis by (simp add: order_ok_def turn_ok_def wakers_apart_def)
qed

lemma order_reachable:
  "(kernel_step K)\<^sup>*\<^sup>* s s' \<Longrightarrow> order_ok C ds a (fst s, snd (snd s)) \<Longrightarrow> order_ok C ds a (fst s', snd (snd s'))"
proof (induction rule: rtranclp_induct)
  case (step y z)
  obtain e t g where y: "y = (e, t, g)" by (metis prod.collapse)
  obtain e' t' g' where z: "z = (e', t', g')" by (metis prod.collapse)
  from order_step [OF step.hyps(2) [unfolded y z]] step.IH step.prems show ?case by (simp add: y z)
qed

lemma pending_drain:
  assumes "events_pending fuel v io evs" and "input_ok inp"
  shows "\<exists>v' io' inp'. drain_used fuel (v, io, inp) = Some (Inr (v', io', inp')) \<and> res_fold handle_event evs inp = Inr inp' \<and>
    input_ok inp'"
proof -
  from assms(1) obtain n log alog where io: "queue_areas_ok (io_regs io)" "used_log (io_regs io) log (io_mem io)"
    "consumed v n" "n \<le> length log" "length log \<le> n + unat (queue_size (io_regs io))" "avail_log alog io"
    "completions_ok io (drop n log)" "unat (queue_size (io_regs io)) < fuel" "evs = map (event_of io) (drop n log)"
    "\<forall>e \<in> set evs. evt_type e = 1 \<longrightarrow> unat (evt_code e) < 1024" unfolding events_pending_def by blast
  obtain inp' where inp': "res_fold handle_event evs inp = Inr inp'" "input_ok inp'"
    using handle_events_total [OF assms(2)] io(10) by blast
  have "length log < n + fuel" using io(5,8) by simp
  with drain_used_delivers [OF io(1-7) inp'(1) [unfolded io(9)]] inp' show ?thesis by blast
qed

text \<open>The drivers of a turn, each with events pending.\<close>

lemma drivers_deliver:
  assumes "core_polls K ds (T, inp) = Some (T', inp')" and "distinct ds" and "input_ok inp"
    and "\<forall>d \<in> set ds. \<exists>v io. T d = Some (K_input v io) \<and> events_pending (ke_fuel K) v io (evs d)"
  shows "res_fold handle_event (concat (map evs ds)) inp = Inr inp' \<and> input_ok inp'"
  using assms
proof (induction ds arbitrary: T inp)
  case (Cons d ds)
  obtain v io where T: "T d = Some (K_input v io)" and p: "events_pending (ke_fuel K) v io (evs d)" using Cons.prems(4) by auto
  obtain v1 io1 inp1 where "drain_used (ke_fuel K) (v, io, inp) = Some (Inr (v1, io1, inp1))"
    and inp1: "res_fold handle_event (evs d) inp = Inr inp1" "input_ok inp1"
    using pending_drain [OF p Cons.prems(3)] by blast
  then have rest: "core_polls K ds (T(d \<mapsto> K_input v1 io1), inp1) = Some (T', inp')"
    using Cons.prems(1) T by (simp add: core_step_def del: fun_upd_apply)
  have "\<forall>c \<in> set ds. \<exists>v io. (T(d \<mapsto> K_input v1 io1)) c = Some (K_input v io) \<and> events_pending (ke_fuel K) v io (evs c)"
    using Cons.prems(2,4) by auto
  with Cons.IH [OF rest _ inp1(2)] Cons.prems(2) inp1(1) show ?case by (simp add: res_fold_append)
qed simp

text \<open>A machine with one input device and one app, which is empty.\<close>

definition sample_kernel :: "(unit, unit, u64, unit) kernel_env" where
  "sample_kernel = \<lparr> ke_drive = bump_env, ke_fuel = 5, ke_parse = (\<lambda>_. Some (demo_elf\<lparr> program_iter := [] \<rparr>)), ke_base = (\<lambda>_. 0x1000),
     ke_apps_raw = [[]], ke_run = (\<lambda>a c s. (0, s, share_pixels (k_fb c))), ke_now = (\<lambda>_. 0) \<rparr>"

lemma run_drv: "kernel_poll K i (K_input_begin v io) (Some (Inr (t, g))) = (Some (Inr (t\<lparr> task_input := inp' \<rparr>, g)), [EYield], Pending (K_input v' io'))"
  if "drive_start (env_dev (ke_drive K)) (ke_fuel K) (v, io, task_input t) = Some (Inr (v', io', inp'))"
  using that by (simp add: poll_input_def)

text \<open>A device that has completed nothing: the driver offers it every descriptor and waits.\<close>

definition quiet_io :: "unit virtio_io" where
  "quiet_io = sample_io\<lparr> io_mem := (\<lambda>_. 0)(0x1001 := 0x80) \<rparr>"

lemma quiet_ok: "io_regs quiet_io = sample_regs" "avail_log [] quiet_io" "used_log sample_regs [] (io_mem quiet_io)"
  by (simp_all add: quiet_io_def sample_io_def avail_log_def used_log_def sample_regs_def read_u16_def read_bytes_numeral)

lemma start_waits:
  "\<exists>v' io'. drive_start id 5 (sample_virtio, quiet_io, inp) = Some (Inr (v', io', inp)) \<and> consumed v' 0"
proof -
  have q: "unat (queue_size sample_regs) = 4" by (simp add: sample_regs_def)
  have sel: "Virtio_queue_select id 0 sample_virtio quiet_io = (sample_virtio, quiet_io)"
    by (simp add: Virtio_queue_select_def store_reg_def sample_virtio_def quiet_io_def sample_io_def sample_regs_def)
  have fr: "free (queues_free sample_virtio ! unat (queue_select sample_virtio)) = [0, 1, 2, 3]"
    by (simp add: sample_virtio_def free_new upt_rec)
  have areas: "queue_areas_ok (io_regs quiet_io)" using sample_areas_ok by (simp add: quiet_ok sample_io_def)
  have lt: "unat d < unat (queue_size (io_regs quiet_io))" if "d \<in> set [0, 1, 2, 3]" for d :: u16
    using that q by (auto simp: quiet_ok)
  have sel0: "unat (queue_select sample_virtio) < length (queues_free sample_virtio)" by (simp add: sample_virtio_def)
  have len: "length [0 :: u16, 1, 2, 3] < 5" by simp
  obtain v io where off: "offer_all 5 (sample_virtio, quiet_io) = Some (Inr (v, io))" and view: "same_view quiet_io io"
    "queue_select v = queue_select sample_virtio" "last_used_idx v = last_used_idx sample_virtio" and al: "avail_log [3, 2, 1, 0] io"
    using offer_all_ok [OF areas quiet_ok(2) sel0 fr lt len] by auto
  have con: "consumed v 0" using view by (simp add: consumed_def sample_virtio_def MAX_NUM_QUEUE_def)
  have regs: "io_regs io = sample_regs" using view(1) by (simp add: same_view_def quiet_ok)
  have "read_bytes (io_mem io) 0x3002 2 = read_bytes (io_mem quiet_io) 0x3002 2"
    using view(1) by (simp add: same_view_def quiet_ok sample_regs_def region_ok_def region_disjoint_def)
  then have "read_u16 (io_mem io) 0x3002 = read_u16 (io_mem quiet_io) 0x3002" by (simp add: read_u16_def)
  then have used: "used_log (io_regs io) [] (io_mem io)"
    using quiet_ok(3) by (simp add: used_log_def regs sample_regs_def)
  from drain_used_delivers [of io "[]" v 0 "[3, 2, 1, 0]" inp inp 5] al con used regs areas
  obtain v' io' where "drain_used 5 (v, io, inp) = Some (Inr (v', io', inp))" "consumed v' 0"
    by (auto simp: completions_ok_def quiet_ok)
  then show ?thesis by (simp add: drive_start_def sel off)
qed

lemma one_turn:
  assumes "tasks e 0 = Some f" and "tasks e 1 = Some a" and "task_queue e = [0, 1]" and "yielders e = []" and "spawn_queue e = []"
    and "kernel_poll K 0 f w = (w1, [EYield], Pending f1)" and "kernel_poll K 1 a w1 = (w2, [EYield], Pending a1)"
  shows "\<exists>h e'. run_turn (kernel_poll K) 3 (e, w) = Some (Inr (h, e', w2)) \<and> tasks e' 0 = Some f1 \<and> tasks e' 1 = Some a1 \<and>
    task_queue e' = [0, 1] \<and> yielders e' = [] \<and> spawn_queue e' = []"
proof -
  have "spawn_pending e = Inr (e\<lparr> spawn_queue := [] \<rparr>)" using assms(5) by (simp add: spawn_pending_def)
  then show ?thesis
    using assms by (simp add: run_turn_def numeral_3_eq_3 aq_pop_def poll_task_def YieldOnce_poll_def yielders_push_def aq_push_def
        QUEUE_SIZE_def wake_yielders_def wake_task_def res_map_def) blast
qed


text \<open>C11: The input devices before the apps. After boot (at most 99 devices, the GPU's waker table empty), in every
  turn of the executor that the kernel reaches without a panic, the queue has the tasks of the input
  devices in the order of the bus, and after all of them the task of the apps; the tasks of the GPU, which
  wait, wake each other and spawn more, are anywhere in between but never change this order.\<close>

theorem input_before_apps:
  fixes devices :: "(Virtio \<times> 'd virtio_io) list"
  assumes "length devices < QUEUE_SIZE" and "gpu_wakers (drv_gpu g) = GPU_WAKERS"
    and "spawn_pending (spawn_tasks devices (Executor_new 0 [])) = Inr e"
    and "(kernel_step K)\<^sup>*\<^sup>* (e, t, g) (e', t', g')"
  shows "filter (\<lambda>i. i \<in> set (input_tasks devices) \<union> {apps_task devices}) (task_queue e') =
      input_tasks devices @ [apps_task devices] \<and>
    (\<exists>f. tasks e' (apps_task devices) = Some f \<and> is_apps f)"
proof -
  have "order_ok (core_set devices) (input_tasks devices) (apps_task devices) (e, g)"
    using boot_order [OF assms(1,2)] assms(3) by auto
  then have "order_ok (core_set devices) (input_tasks devices) (apps_task devices) (e', g')"
    using order_reachable [OF assms(4)] by simp
  then show ?thesis unfolding order_ok_def fst_conv by blast
qed

theorem input_before_apps_witness:
  fixes g :: "(unit, unit, u64) driver"
  shows "\<exists>e. spawn_pending (spawn_tasks [(sample_virtio\<lparr> device_type := DeviceType_Gpu \<rparr>, sample_io), (sample_virtio, quiet_io)]
      (Executor_new 0 [])) = Inr e \<and> filter (\<lambda>i. i \<in> {1, 2}) (task_queue e) = [1, 2]"
proof -
  let ?ds = "[(sample_virtio\<lparr> device_type := DeviceType_Gpu \<rparr>, sample_io), (sample_virtio, quiet_io)]"
  define g :: "(unit, unit, u64) driver" where "g = undefined\<lparr> drv_gpu := sample_gpu 4 \<rparr>"
  have g: "gpu_wakers (drv_gpu g) = GPU_WAKERS" by (simp add: g_def sample_gpu_def)
  have len: "length ?ds < QUEUE_SIZE" by (simp add: QUEUE_SIZE_def)
  obtain e where e: "spawn_pending (spawn_tasks ?ds (Executor_new 0 [])) = Inr e" using boot_order [OF len g] by blast
  have ids: "input_tasks ?ds = [1]" "apps_task ?ds = 2" by (simp_all add: input_tasks_def apps_task_def upt_rec sample_virtio_def)
  have "(kernel_step sample_kernel)\<^sup>*\<^sup>* (e, undefined, g) (e, undefined, g\<lparr> drv_gpu := (drv_gpu g)\<lparr> gpu_io := quiet_io \<rparr> \<rparr>)"
    by (rule r_into_rtranclp, rule kernel_step.gpu_device)
  from input_before_apps [OF len g e this] e show ?thesis by (auto simp: ids disj_commute)
qed

text \<open>C10: Events reach the apps in the turn they are found. In a kernel that has booted and runs its apps, when
  each input device has completed the events \<open>evs\<close> before a turn, and the turn ends without a panic, then the
  apps are called in that turn with the input that results from all these events, device by device in
  the order of the bus and in each device's own order, and afterwards the input is stepped.\<close>

theorem events_reach_apps_in_turn:
  fixes devices :: "(Virtio \<times> 'd virtio_io) list"
  assumes "length devices < QUEUE_SIZE" and "gpu_wakers (drv_gpu g0) = GPU_WAKERS"
    and "spawn_pending (spawn_tasks devices (Executor_new 0 [])) = Inr e0"
    and "(kernel_step K)\<^sup>*\<^sup>* (e0, t0, g0) (e, t, g)"
    and "\<forall>d \<in> set (input_tasks devices). \<exists>v io. tasks e d = Some (K_input v io) \<and> events_pending (ke_fuel K) v io (evs d)"
    and "tasks e (apps_task devices) = Some K_apps" and "input_ok (task_input t)"
    and "run_turn (kernel_poll K) n (e, Some (Inr (t, g))) = Some (Inr (h, e', Some (Inr (t', g'))))"
    and "length (task_queue e') < QUEUE_SIZE"
  shows "\<exists>inp t1. res_fold handle_event (concat (map evs (input_tasks devices))) (task_input t) = Inr inp \<and>
    task_input t1 = inp \<and> apps t1 = apps t \<and> apps t' = apps (app_frame (ke_run K) (ke_now K) t1) \<and>
    task_input t' = GLOBAL_update Input_step inp"
proof -
  have "order_ok (core_set devices) (input_tasks devices) (apps_task devices) (e0, g0)"
    using boot_order [OF assms(1,2)] assms(3) by auto
  with order_reachable [OF assms(4)] have "order_ok (core_set devices) (input_tasks devices) (apps_task devices) (e, g)" by simp
  from turn_core [OF this assms(8,9)] assms(6) obtain T t1 where
    polls: "core_polls K (input_tasks devices) (tasks e, task_input t) = Some (T, task_input t1)"
    and r: "apps t1 = apps t" "apps t' = apps (app_frame (ke_run K) (ke_now K) t1)"
      "task_input t' = GLOBAL_update Input_step (task_input t1)"
    by (auto simp: frame_of_task_def)
  have "distinct (input_tasks devices)"
    using small_ids [of "length devices"] assms(1) by (auto simp: input_tasks_def distinct_map inj_on_def)
  from drivers_deliver [OF polls this assms(7,5)] r show ?thesis by blast
qed

lemma one_device_boot:
  "\<exists>e. spawn_pending (spawn_tasks [(sample_virtio, quiet_io)] (Executor_new 0 [])) = Inr e \<and>
    tasks e 0 = Some (K_input_begin sample_virtio quiet_io) \<and> tasks e 1 = Some K_apps_begin \<and> task_queue e = [0, 1] \<and>
    yielders e = [] \<and> spawn_queue e = []"
  by (simp add: spawn_tasks_def device_task_def sample_virtio_def spawn_pending_def Executor_new_def Spawner_run_def Task_new_def
      TaskId_new_def aq_push_def QUEUE_SIZE_def Executor_spawn_def)

text \<open>The device has then completed the press of the key 25.\<close>

definition pressed_io :: "unit virtio_io" where
  "pressed_io = sample_io\<lparr> io_mem := (io_mem sample_io)(0x3004 := 0, 0x8000 := 1, 0x8002 := 25, 0x8004 := 1) \<rparr>"

lemma pressed_pending:
  assumes "consumed v 0"
  shows "events_pending 5 v pressed_io [\<lparr> evt_type = 1, evt_code = 25, evt_value = 1 \<rparr>]"
proof -
  let ?log = "[\<lparr> used_id = 0, used_len = 8 \<rparr>]"
  have regs: "io_regs pressed_io = sample_regs" by (simp add: pressed_io_def sample_io_def)
  have ok: "queue_areas_ok (io_regs pressed_io)" using sample_areas_ok by (simp add: pressed_io_def sample_io_def)
  have used: "used_log (io_regs pressed_io) ?log (io_mem pressed_io)"
    by (simp add: used_log_def ring_holds_def used_slot_def pressed_io_def sample_io_def sample_regs_def read_u16_def
        UsedElem_of_bytes_def read_bytes_numeral)
  have q: "unat (queue_size (io_regs pressed_io)) = 4" by (simp add: regs sample_regs_def)
  have avail: "avail_log [] pressed_io"
    by (simp add: avail_log_def pressed_io_def sample_io_def sample_regs_def read_u16_def read_bytes_numeral)
  have desc: "load_desc pressed_io 0 = \<lparr> desc_addr = 0x8000, desc_len = 0, desc_flags = 0, desc_next = 0 \<rparr>"
    by (simp add: load_desc_def desc_ptr_def pressed_io_def sample_io_def sample_regs_def Desc_of_bytes_def read_bytes_numeral)
  have comp: "completions_ok pressed_io (drop 0 ?log)"
    by (simp add: completions_ok_def used_desc_def desc)
      (simp add: buffer_ok_def region_ok_def region_disjoint_def pressed_io_def sample_io_def sample_regs_def)
  have "event_of pressed_io \<lparr> used_id = 0, used_len = 8 \<rparr> = \<lparr> evt_type = 1, evt_code = 25, evt_value = 1 \<rparr>"
    by (simp add: event_of_def used_desc_def desc read_event_def)
      (simp add: VirtioInputEvent_of_bytes_def pressed_io_def sample_io_def read_bytes_numeral)
  with ok used assms q avail comp show ?thesis
    unfolding events_pending_def by (intro exI [of _ 0] exI [of _ ?log] exI [of _ "[]"]) simp
qed

theorem events_reach_apps_in_turn_witness:
  "\<exists>(e :: unit ktask Executor) (t :: unit AppTask) g h e' t' inp. tasks e 1 = Some K_apps \<and>
    run_turn (kernel_poll sample_kernel) 3 (e, Some (Inr (t, g))) = Some (Inr (h, e', Some (Inr (t', g)))) \<and> input_ok (task_input t) \<and>
    res_fold handle_event [\<lparr> evt_type = 1, evt_code = 25, evt_value = 1 \<rparr>] (task_input t) = Inr inp \<and>
    task_input t' = GLOBAL_update Input_step inp"
proof -
  let ?ds = "[(sample_virtio, quiet_io)]"
  define g :: "(unit, unit, u64) driver" where "g = undefined\<lparr> drv_gpu := sample_gpu 4 \<rparr>"
  define t0 :: "unit AppTask" where "t0 = undefined\<lparr> task_input := Input_new \<rparr>"
  have g: "gpu_wakers (drv_gpu g) = GPU_WAKERS" by (simp add: g_def sample_gpu_def)
  have len: "length ?ds < QUEUE_SIZE" by (simp add: QUEUE_SIZE_def)
  have ids: "input_tasks ?ds = [0]" "apps_task ?ds = 1" by (simp_all add: input_tasks_def apps_task_def upt_rec sample_virtio_def)
  obtain e0 where boot: "spawn_pending (spawn_tasks ?ds (Executor_new 0 [])) = Inr e0" and e0: "tasks e0 0 = Some (K_input_begin sample_virtio quiet_io)"
    "tasks e0 1 = Some K_apps_begin" "task_queue e0 = [0, 1]" "yielders e0 = []" "spawn_queue e0 = []" using one_device_boot by blast
  obtain v io where start: "drive_start id 5 (sample_virtio, quiet_io, Input_new) = Some (Inr (v, io, Input_new))" and con: "consumed v 0"
    using start_waits by blast
  have env: "env_dev (ke_drive sample_kernel) = id" "ke_fuel sample_kernel = 5" by (simp_all add: sample_kernel_def bump_env_def)
  have t0: "t0\<lparr> task_input := Input_new \<rparr> = t0" "task_input t0 = Input_new" by (simp_all add: t0_def)
  have p0: "kernel_poll sample_kernel 0 (K_input_begin sample_virtio quiet_io) (Some (Inr (t0, g))) = (Some (Inr (t0, g)), [EYield], Pending (K_input v io))"
    using start by (simp add: poll_input_def env t0)
  obtain t1 where p1: "kernel_poll sample_kernel 1 K_apps_begin (Some (Inr (t0, g))) = (Some (Inr (t1, g)), [EYield], Pending K_apps)"
    and t1: "task_input t1 = GLOBAL_update Input_step Input_new"
    by (auto simp: poll_apps_def sample_kernel_def App_new_def demo_elf_def max_virt_def res_map_def app_frame_input t0)
  obtain h e1 where turn1: "run_turn (kernel_poll sample_kernel) 3 (e0, Some (Inr (t0, g))) = Some (Inr (h, e1, Some (Inr (t1, g))))"
    and e1: "tasks e1 0 = Some (K_input v io)" "tasks e1 1 = Some K_apps" "task_queue e1 = [0, 1]" "yielders e1 = []" "spawn_queue e1 = []"
    using one_turn [OF e0 p0 p1] by blast
  define e2 where "e2 = e1\<lparr> tasks := (tasks e1)(0 \<mapsto> K_input v pressed_io) \<rparr>"
  have e2: "tasks e2 0 = Some (K_input v pressed_io)" "tasks e2 1 = Some K_apps" "task_queue e2 = [0, 1]" "yielders e2 = []" "spawn_queue e2 = []"
    using e1 by (simp_all add: e2_def)
  have "kernel_step sample_kernel (e0, t0, g) (e1, t1, g)" by (rule kernel_step.turn [OF turn1]) (simp add: e1 QUEUE_SIZE_def)
  moreover have "kernel_step sample_kernel (e1, t1, g) (e2, t1, g)" unfolding e2_def by (rule kernel_step.input_device [OF e1(1)])
  ultimately have reach: "(kernel_step sample_kernel)\<^sup>*\<^sup>* (e0, t0, g) (e2, t1, g)" by simp
  have ok: "input_ok (task_input t1)" by (simp add: t1 GLOBAL_update_def input_ok_step input_ok_new)
  have pend: "\<forall>d \<in> set (input_tasks ?ds). \<exists>v io. tasks e2 d = Some (K_input v io) \<and>
      events_pending (ke_fuel sample_kernel) v io [\<lparr> evt_type = 1, evt_code = 25, evt_value = 1 \<rparr>]"
    using pressed_pending [OF con] by (simp add: ids e2 env)
  have a2: "tasks e2 (apps_task ?ds) = Some K_apps" by (simp add: ids e2)
  obtain v2 io2 inp2 where dr: "drain_used 5 (v, pressed_io, task_input t1) = Some (Inr (v2, io2, inp2))"
    using pending_drain [OF pressed_pending [OF con] ok] by blast
  obtain t2 where p2: "kernel_poll sample_kernel 0 (K_input v pressed_io) (Some (Inr (t1, g))) = (Some (Inr (t2, g)), [EYield], Pending (K_input v2 io2))"
    using dr by (auto simp: poll_input_def env)
  obtain t3 where p3: "kernel_poll sample_kernel 1 K_apps (Some (Inr (t2, g))) = (Some (Inr (t3, g)), [EYield], Pending K_apps)"
    by (auto simp: poll_apps_def)
  obtain h3 e3 where turn2: "run_turn (kernel_poll sample_kernel) 3 (e2, Some (Inr (t1, g))) = Some (Inr (h3, e3, Some (Inr (t3, g))))"
    and "task_queue e3 = [0, 1]"
    using one_turn [OF e2 p2 p3] by blast
  then have q3: "length (task_queue e3) < QUEUE_SIZE" by (simp add: QUEUE_SIZE_def)
  from events_reach_apps_in_turn [OF len g boot reach pend a2 ok turn2 q3] turn2 ok e2(2) show ?thesis
    by (fastforce simp: ids)
qed

end
