(* ===== verification/Kernel_Start.thy ===== *)
theory Kernel_Start
  imports Apic Virtio_Init Kernel_Tasks
begin

text \<open>
  The start of the kernel, \<^verbatim>\<open>kernel_main\<close> in \<^verbatim>\<open>src/bootloader/kernel/src/main.rs\<close> up to the executor, with
  \<^verbatim>\<open>init\<close> of \<^verbatim>\<open>memory.rs\<close>: the mapping of the physical memory, the heap, the interrupt controllers, the virtio
  devices on the PCI bus, and the tasks (what comes before is in \<^verbatim>\<open>Kernel_Entry\<close>); and the functions of \<^verbatim>\<open>main.rs\<close> that the kernel hands to the ACPI crate
  and to the apps.

  The page tables, the ACPI tables and \<^verbatim>\<open>cpuid\<close> belong to crates and are parameters. A mapper for pages of
  2 MiB answers the error, if there is one, and the new state in either case, because the code goes on after
  an error.
\<close>

section \<open>Definitions\<close>

subsection \<open>Functions for the apps and for the ACPI crate\<close>

text \<open>\<^verbatim>\<open>Layout::from_size_align\<close> of the standard library.\<close>

definition Layout_from_size_align :: "usize \<Rightarrow> usize \<Rightarrow> (usize \<times> usize) option" where
  "Layout_from_size_align sz align =
     (if align = 0 \<or> align AND (align - 1) \<noteq> 0 then None
      else if 2 ^ 63 - align < sz then None
      else Some (sz, align))"

definition calloc :: "(usize \<times> usize \<Rightarrow> 'h \<Rightarrow> u64 \<times> 'h) \<Rightarrow> usize \<Rightarrow> usize \<Rightarrow> 'h \<Rightarrow> (u64 \<times> 'h) res" where
  "calloc alloc sz align h = res_map (\<lambda>layout. alloc layout h) (res_unwrap (Layout_from_size_align sz align))"

definition cdalloc :: "(u64 \<Rightarrow> usize \<times> usize \<Rightarrow> 'h \<Rightarrow> 'h) \<Rightarrow> u64 \<Rightarrow> usize \<Rightarrow> usize \<Rightarrow> 'h \<Rightarrow> 'h res" where
  "cdalloc dealloc p sz align h = res_map (\<lambda>layout. dealloc p layout h) (res_unwrap (Layout_from_size_align sz align))"

text \<open>The bytes that an app logs, not checked to be a string.\<close>

definition log_fn :: "mem \<Rightarrow> u64 \<Rightarrow> u32 \<Rightarrow> u8 list" where
  "log_fn m s l = read_bytes m s (unat l)"

record PhysicalMapping =
  physical_start :: usize
  virtual_start :: u64
  region_length :: usize
  mapped_length :: usize

definition map_physical_region :: "addr_crate \<Rightarrow> u64 \<Rightarrow> usize \<Rightarrow> usize \<Rightarrow> PhysicalMapping res" where
  "map_physical_region X voff physical_address sz =
     (let s = (sz div 4096 + 1) * 4096
      in res_bind (phys_new X physical_address)
           (\<lambda>p. res_bind (phys_to_virt X voff p)
             (\<lambda>v. if v = 0 then Inl UnwrapNone
                else Inr \<lparr> physical_start = physical_address, virtual_start = v, region_length = s, mapped_length = s \<rparr>)))"

subsection \<open>The mapping of the physical memory\<close>

type_synonym ('p, 'a) huge_mapper = "u64 \<Rightarrow> u64 \<Rightarrow> 'p \<times> 'a \<Rightarrow> (map_error option \<times> 'p \<times> 'a) res"

text \<open>The table of level 4, at the address where the boot loader maps the frame that \<^verbatim>\<open>Cr3\<close> names; \<open>tables\<close> are the
  page tables at an address.\<close>

definition active_level_4_table :: "addr_crate \<Rightarrow> u64 \<Rightarrow> u64 \<Rightarrow> u64 res" where
  "active_level_4_table X cr3 physical_memory_offset = virt_add X physical_memory_offset cr3"

definition memory_init :: "addr_crate \<Rightarrow> u64 \<Rightarrow> (u64 \<Rightarrow> 'p) \<Rightarrow> u64 \<Rightarrow> 'p res" where
  "memory_init X cr3 tables physical_memory_offset =
     res_map tables (active_level_4_table X cr3 physical_memory_offset)"

definition huge_frames :: "u64 \<Rightarrow> u64 \<Rightarrow> u64 list" where
  "huge_frames a b = map (\<lambda>i. a + of_nat (0x200000 * i)) [0..<Suc ((unat b - unat a) div 0x200000)]"

definition map_frame :: "addr_crate \<Rightarrow> (u64 \<Rightarrow> u64) \<Rightarrow> ('p, 'a) huge_mapper \<Rightarrow> u64 \<Rightarrow> u64 \<Rightarrow>
    u32 \<times> u32 \<times> 'p \<times> 'a \<Rightarrow> (u32 \<times> u32 \<times> 'p \<times> 'a) res" where
  "map_frame X containing map_to voff frame s =
     (let (news, olds, s) = s
      in res_bind (virt_add X voff frame)
           (\<lambda>addr. let page = containing addr
             in res_map (\<lambda>(r, s). case r of None \<Rightarrow> (news + 1, olds, s) | Some e \<Rightarrow> (news, olds + 1, s))
                  (map_to page frame s)))"

text \<open>The first \<^verbatim>\<open>max_phys\<close> is computed, and checked by \<^verbatim>\<open>PhysAddr::new\<close>, although the second one shadows it.\<close>

definition map_physical :: "addr_crate \<Rightarrow> (u64 \<Rightarrow> u64) \<Rightarrow> ('p, 'a) huge_mapper \<Rightarrow> u64 \<Rightarrow> 'p \<times> 'a \<Rightarrow>
    (u32 \<times> u32 \<times> 'p \<times> 'a) res" where
  "map_physical X containing map_to voff s =
     res_bind (phys_new X 0)
       (\<lambda>zero. let start_frame = containing zero
         in res_bind (phys_new X (voff - 1))
              (\<lambda>_. res_bind (phys_new X (0x40000000 * 64 - 1))
                (\<lambda>max_phys. let end_frame = containing max_phys
                  in res_fold (map_frame X containing map_to voff) (huge_frames start_frame end_frame) (0, 0, s))))"

subsection \<open>The devices\<close>

text \<open>One function on the bus. Only the vendor decides; the other registers are read to be logged.\<close>

definition probe :: "addr_crate \<Rightarrow> u64 \<Rightarrow> (Pci \<Rightarrow> 'd virtio_dev) \<Rightarrow> ('s \<Rightarrow> (u64 \<times> 's) res) \<Rightarrow> u8 \<Rightarrow> nat \<Rightarrow>
    Pci \<Rightarrow> 'd virtio_io \<Rightarrow> pci_ports \<times> 's \<Rightarrow> ((Virtio \<times> 'd virtio_io) option \<times> pci_ports \<times> 's) res option" where
  "probe X voff dev get_page name_len fuel pci io st =
     (let (p, s) = st;
          (status, p) = Pci_config_read_u16 pci (PCIConfigRegisters_repr PCIStatus) p;
          (vendor, p) = Pci_config_read_u16 pci (PCIConfigRegisters_repr PCIVendorID) p;
          (device_id, p) = Pci_config_read_u16 pci (PCIConfigRegisters_repr PCIDeviceID) p;
          (irq, p) = get_irq pci p;
          (ipin, p) = get_ipin pci p
      in if vendor = 0x1af4
         then map_option (res_map (\<lambda>(virtio, p, io, s). (map_option (\<lambda>v. (v, io)) virtio, p, s)))
                (Virtio_init X voff (dev pci) get_page name_len fuel pci (p, io, s))
         else Some (Inr (None, p, s)))"

fun find_devices :: "addr_crate \<Rightarrow> u64 \<Rightarrow> (Pci \<Rightarrow> 'd virtio_dev) \<Rightarrow> ('s \<Rightarrow> (u64 \<times> 's) res) \<Rightarrow> u8 \<Rightarrow> nat \<Rightarrow>
    (Pci \<Rightarrow> 'd virtio_io) \<Rightarrow> Pci list \<Rightarrow> (Virtio \<times> 'd virtio_io) list \<times> pci_ports \<times> 's \<Rightarrow>
    ((Virtio \<times> 'd virtio_io) list \<times> pci_ports \<times> 's) res option" where
  "find_devices X voff dev get_page name_len fuel ios [] st = Some (Inr st)"
| "find_devices X voff dev get_page name_len fuel ios (pci # pcis) (found, p, s) =
     (case probe X voff dev get_page name_len fuel pci (ios pci) (p, s) of
        None \<Rightarrow> None
      | Some (Inl e) \<Rightarrow> Some (Inl e)
      | Some (Inr (virtio, p, s)) \<Rightarrow>
          find_devices X voff dev get_page name_len fuel ios pcis
            (case virtio of None \<Rightarrow> found | Some v \<Rightarrow> found @ [v], p, s))"

subsection \<open>The entry of the kernel\<close>

record BootInfo =
  boot_framebuffer :: "FrameBufferInfo option"
  physical_memory_offset :: "u64 option"
  memory_regions :: "MemoryRegion list"
  rsdp_addr :: "u64 option"

text \<open>What the ACPI crate reads from the tables: the platform info, if there is one, with the address of the local
  APIC and the I/O APICs (for the interrupt model \<^verbatim>\<open>Apic\<close>), and the ids of the application processors.\<close>

record PlatformInfo =
  interrupt_model :: "(u64 \<times> (u8 \<times> u32 \<times> u32) list) option"
  processor_info :: "u32 list option"

record AcpiTables =
  hpet :: "unit option"
  platform_info :: "PlatformInfo option"

record ('d, 'p) boot_env =
  be_crate :: addr_crate
  be_page :: "u64 \<Rightarrow> u64"
  be_huge_page :: "u64 \<Rightarrow> u64"
  be_cr3 :: u64
  be_tables :: "u64 \<Rightarrow> 'p"
  be_map_to :: "('p, BootInfoFrameAllocator) mapper"
  be_map_huge :: "('p, BootInfoFrameAllocator) huge_mapper"
  be_acpi :: "u64 \<Rightarrow> AcpiTables option"
  be_tsc :: "(u32 \<times> u64 option) option"
  be_ioapic_hw :: ioapic_hw
  be_dev :: "Pci \<Rightarrow> 'd virtio_dev"
  be_io :: "Pci \<Rightarrow> 'd virtio_io"
  be_name_len :: u8
  be_fuel :: nat

text \<open>The machine: the ports of the PCI bus, the I/O APICs, the registers of the local APIC and what is stored to
  them, the ports of the legacy controllers, and whether interrupts are enabled.\<close>

record machine =
  mc_ports :: pci_ports
  mc_ioapic :: "IoApic option \<times> (u64 \<Rightarrow> ioapic_io)"
  mc_apic_base :: u64
  mc_lapic :: "u32 \<Rightarrow> u32"
  mc_lapic_stores :: "lapic_store list"
  mc_pic_writes :: "(u16 \<times> u8) list"
  mc_interrupts :: bool

definition expect :: "string \<Rightarrow> 'b option \<Rightarrow> 'b res" where
  "expect msg x = (case x of None \<Rightarrow> Inl (Panicked msg) | Some b \<Rightarrow> Inr b)"

definition map_result :: "string \<Rightarrow> (map_error + 'b) \<Rightarrow> 'b res" where
  "map_result msg r = (case r of Inl e \<Rightarrow> Inl (Panicked msg) | Inr b \<Rightarrow> Inr b)"

text \<open>The part that brings up memory: the offset, the page tables with the allocator, and the range of the heap.\<close>

definition start_memory :: "('d, 'p) boot_env \<Rightarrow> BootInfo \<Rightarrow>
    (u64 \<times> ('p \<times> BootInfoFrameAllocator) \<times> usize \<times> usize) res" where
  "start_memory E bi =
     (let X = be_crate E in
      res_bind (expect ''no physical_memory_offset'' (physical_memory_offset bi))
        (\<lambda>off. res_bind (virt_new X off)
          (\<lambda>voff. res_bind (memory_init X (be_cr3 E) (be_tables E) voff)
            (\<lambda>pt. let fa = BootInfoFrameAllocator_init (memory_regions bi) in
               res_bind (map_physical X (be_huge_page E) (be_map_huge E) voff (pt, fa))
                 (\<lambda>(news, olds, s).
                   res_bind (init_heap X (be_page E) (allocate_frame X (be_page E)) (be_map_to E) s)
                     (\<lambda>r. res_map (\<lambda>(s, heap). (voff, s, heap)) (map_result ''heap initialization failed'' r)))))))"

text \<open>The part that programs the interrupt controllers and starts the timer.\<close>

definition start_interrupts :: "('d, 'p) boot_env \<Rightarrow> BootInfo \<Rightarrow> u64 \<Rightarrow> machine \<Rightarrow> machine res" where
  "start_interrupts E bi voff m =
     (let X = be_crate E in
      res_bind (expect ''no rsdp'' (rsdp_addr bi))
        (\<lambda>rsdp. res_bind (res_unwrap (be_acpi E rsdp))
          (\<lambda>acpi. res_bind (expect ''hpet'' (hpet acpi))
            (\<lambda>_. res_bind (expect ''platform info'' (platform_info acpi))
              (\<lambda>pi. res_bind
                 (case interrupt_model pi of
                    None \<Rightarrow> Inr m
                  | Some (lapic_addr, io_apics) \<Rightarrow>
                      res_bind (phys_new X lapic_addr) (\<lambda>a. res_bind (phys_to_virt X voff a)
                        (\<lambda>_. let (pic, base, init) = LocalApic_init (mc_apic_base m) (mc_lapic m);
                                 m = m\<lparr> mc_pic_writes := mc_pic_writes m @ pic, mc_apic_base := base,
                                        mc_lapic_stores := mc_lapic_stores m @ init \<rparr>
                          in res_bind (timer_freq (be_tsc E))
                               (\<lambda>freq. let m = m\<lparr> mc_lapic_stores := mc_lapic_stores m @ start_timer freq \<rparr> in
                                  res_map (\<lambda>ioa. m\<lparr> mc_ioapic := ioa, mc_interrupts := True \<rparr>)
                                    (program_io_apics X voff (be_ioapic_hw E) io_apics (mc_ioapic m))))))
                 (\<lambda>m. res_map (\<lambda>_. m) (expect ''processor_info'' (processor_info pi))))))))"

text \<open>What the executor then runs: the tasks that are spawned, in a machine with this memory and this screen.\<close>

record ('d, 'p) kernel_state =
  kn_voff :: u64
  kn_pages :: "'p \<times> BootInfoFrameAllocator"
  kn_heap :: "usize \<times> usize"
  kn_machine :: machine
  kn_devices :: "(Virtio \<times> 'd virtio_io) list"
  kn_fb :: FB
  kn_executor :: "'d ktask Executor"

definition kernel_main :: "('d, 'p) boot_env \<Rightarrow> BootInfo \<Rightarrow> machine \<Rightarrow> ('d, 'p) kernel_state res option" where
  "kernel_main E bi m =
     (let X = be_crate E in
      case res_bind (res_unwrap (boot_framebuffer bi))
             (\<lambda>fbinfo. res_bind (start_memory E bi)
               (\<lambda>(voff, s, heap). res_map (\<lambda>m. (fbinfo, voff, s, heap, m)) (start_interrupts E bi voff m))) of
        Inl e \<Rightarrow> Some (Inl e)
      | Inr (fbinfo, voff, s, heap, m) \<Rightarrow>
          (let (pcis, p) = Pcis_new (mc_ports m)
           in case find_devices X voff (be_dev E) (identity_page X (be_page E) (allocate_frame X (be_page E)) (be_map_to E))
                     (be_name_len E) (be_fuel E) (be_io E) pcis ([], p, s) of
                None \<Rightarrow> None
              | Some (Inl e) \<Rightarrow> Some (Inl e)
              | Some (Inr (devices, p, s)) \<Rightarrow>
                  Some (Inr \<lparr> kn_voff = voff, kn_pages = s, kn_heap = heap, kn_machine = m\<lparr> mc_ports := p \<rparr>,
                    kn_devices = devices, kn_fb = FB_new fbinfo,
                    kn_executor = spawn_tasks devices (Executor_new 0 []) \<rparr>)))"


subsection \<open>Specification vocabulary\<close>

text \<open>The documented behaviour of a mapper for pages of 2 MiB. \<open>lookup\<close> translates pages of 4 KiB, \<open>used\<close> tells whether
  the table entry of a page of 2 MiB is taken: then the mapper answers an error and changes nothing, otherwise
  it maps the page. It takes at most two frames for tables.\<close>

definition huge_mapper_ok :: "(u64 list \<Rightarrow> 'a \<Rightarrow> bool) \<Rightarrow> ('p \<Rightarrow> u64 \<Rightarrow> u64 option) \<Rightarrow> ('p \<Rightarrow> u64 \<Rightarrow> bool) \<Rightarrow>
    ('p, 'a) huge_mapper \<Rightarrow> bool" where
  "huge_mapper_ok left lookup used map_to \<longleftrightarrow>
     (\<forall>fs s pt page frame. left fs s \<longrightarrow> 2 \<le> length fs \<longrightarrow>
        (\<exists>n r pt' s'. n \<le> 2 \<and> map_to page frame (pt, s) = Inr (r, pt', s') \<and> left (drop n fs) s' \<and>
           (if used pt page then r \<noteq> None \<and> lookup pt' = lookup pt \<and> used pt' = used pt
            else r = None \<and> used pt' = (used pt)(page := True) \<and>
              lookup pt' = (\<lambda>a. if \<exists>j < 512. a = page + of_nat (4096 * j) then Some (frame + (a - page)) else lookup pt a))))"

text \<open>The physical memory is mapped from \<open>voff\<close>: its page \<open>k\<close>, and the page of 2 MiB with it.\<close>

definition phys_page :: "u64 \<Rightarrow> nat \<Rightarrow> u64" where
  "phys_page voff k = voff + of_nat (4096 * k)"

definition huge_page :: "u64 \<Rightarrow> nat \<Rightarrow> u64" where
  "huge_page voff k = voff + of_nat (0x200000 * (k div 512))"

definition offset_ok :: "u64 \<Rightarrow> u64 \<Rightarrow> bool" where
  "offset_ok lim voff \<longleftrightarrow> voff \<noteq> 0 \<and> 0x200000 dvd unat voff \<and> unat voff + 2 ^ 36 \<le> unat lim"

text \<open>What the start of memory relies on: the address types and the mappers behave as documented, the mapping of
  the boot loader starts at an aligned offset below the limit of the addresses, the usable regions are page-aligned,
  disjoint and hold at least 768 MiB, and the range of the heap is unused and apart from the physical memory.\<close>

definition heap_apart :: "u64 \<Rightarrow> bool" where
  "heap_apart voff \<longleftrightarrow> unat voff + 2 ^ 36 \<le> unat HEAP_START \<or> unat HEAP_START + unat HEAP_SIZE \<le> unat voff"

definition boot_ok :: "u64 \<Rightarrow> ('p \<Rightarrow> u64 \<Rightarrow> u64 option) \<Rightarrow> ('p \<Rightarrow> u64 \<Rightarrow> bool) \<Rightarrow> ('d, 'p) boot_env \<Rightarrow> BootInfo \<Rightarrow> u64 \<Rightarrow> bool" where
  "boot_ok lim lookup used E bi voff \<longleftrightarrow>
     crate_ok (be_crate E) (be_page E) lim \<and> (\<forall>a. be_huge_page E a = 0x200000 * (a div 0x200000)) \<and>
     huge_mapper_ok (frames_of (be_crate E) (be_page E) lim (memory_regions bi)) lookup used (be_map_huge E) \<and>
     mapper_ok (frames_of (be_crate E) (be_page E) lim (memory_regions bi)) lookup (be_map_to E) \<and>
     physical_memory_offset bi = Some voff \<and> offset_ok lim voff \<and> unat voff + unat (be_cr3 E) \<le> unat lim \<and>
     memory_map_ok lim (memory_regions bi) \<and> 196608 \<le> length (usable_addresses (memory_regions bi)) \<and>
     length (usable_addresses (memory_regions bi)) + 64 < 2 ^ 64 \<and>
     unat HEAP_START + unat HEAP_SIZE \<le> unat lim \<and> heap_apart voff \<and>
     (\<forall>i < 32768. lookup (be_tables E (voff + be_cr3 E)) (HEAP_START + of_nat (4096 * i)) = None)"

text \<open>Which functions are virtio devices that the kernel drives, as far as the configuration space tells.\<close>

definition device_caps :: "addr_crate \<Rightarrow> u64 \<Rightarrow> nat \<Rightarrow> pci_ports \<Rightarrow> Pci \<Rightarrow> virtio_caps option" where
  "device_caps X voff fuel p d =
     (case read_bars X d p of
        Inl e \<Rightarrow> None
      | Inr (bars, p) \<Rightarrow>
          (case Pci_config_read_u8 d (PCIConfigRegisters_repr PCICapabilitiesPointer) p of
             (cap_ptr, p) \<Rightarrow> (case cap_walk X voff d bars fuel cap_ptr (no_caps, p) of Some (Inr (caps, p)) \<Rightarrow> Some caps | _ \<Rightarrow> None)))"

definition complete_caps :: "virtio_caps \<Rightarrow> bool" where
  "complete_caps caps \<longleftrightarrow> found_common caps \<noteq> None \<and> found_pci_conf caps \<noteq> None \<and> found_device caps \<noteq> None \<and> found_notify caps \<noteq> None"

definition virtio_type :: "addr_crate \<Rightarrow> u64 \<Rightarrow> nat \<Rightarrow> pci_ports \<Rightarrow> Pci \<Rightarrow> DeviceType option" where
  "virtio_type X voff fuel p d =
     (if \<exists>caps. device_caps X voff fuel p d = Some caps \<and> complete_caps caps
      then device_id_to_type (uint (fst (Pci_config_read_u16 d (PCIConfigRegisters_repr PCIDeviceID) p)) - 0x1040) else None)"

definition kernel_device :: "addr_crate \<Rightarrow> u64 \<Rightarrow> nat \<Rightarrow> pci_ports \<Rightarrow> Pci \<Rightarrow> DeviceType option" where
  "kernel_device X voff fuel p d =
     (if fst (Pci_config_read_u16 d (PCIConfigRegisters_repr PCIVendorID) p) = 0x1af4 then virtio_type X voff fuel p d else None)"

section \<open>The mapping of the physical memory\<close>

lemma offset_unat: "offset_ok lim voff \<Longrightarrow> n < 2 ^ 36 \<Longrightarrow> unat (voff + of_nat n) = unat voff + n"
proof -
  assume ok: "offset_ok lim voff" and n: "n < 2 ^ 36"
  have "unat lim < 2 ^ 64" using unsigned_less [of lim] by simp
  with ok n have bound: "unat voff + n < 2 ^ 64" by (simp add: offset_ok_def)
  have "unat (of_nat n :: u64) = n" using n by (simp add: unat_of_nat_small)
  with bound show ?thesis using unat_add_lem [of voff "of_nat n"] by simp
qed

lemma phys_page_inj: "offset_ok lim voff \<Longrightarrow> j < 2 ^ 24 \<Longrightarrow> k < 2 ^ 24 \<Longrightarrow> phys_page voff j = phys_page voff k \<longleftrightarrow> j = k"
proof -
  assume "offset_ok lim voff" "j < 2 ^ 24" "k < 2 ^ 24"
  then have "unat (phys_page voff j) = unat voff + 4096 * j" "unat (phys_page voff k) = unat voff + 4096 * k"
    using offset_unat [of lim voff "4096 * j"] offset_unat [of lim voff "4096 * k"] by (simp_all add: phys_page_def)
  then have "j = k" if "phys_page voff j = phys_page voff k" unfolding that by simp
  then show ?thesis by blast
qed

lemma huge_page_eq: "huge_page voff k = phys_page voff (512 * (k div 512))"
  by (simp add: huge_page_def phys_page_def)

lemma huge_aligned:
  assumes "offset_ok lim voff" and "i < 32768"
  shows "0x200000 * (huge_page voff (512 * i) div 0x200000) = huge_page voff (512 * i)"
proof -
  let ?p = "huge_page voff (512 * i)"
  have "unat ?p = unat voff + 0x200000 * i" using offset_unat [OF assms(1), of "0x200000 * i"] assms(2) by (simp add: huge_page_def)
  then have "0x200000 dvd unat ?p" using assms(1) by (simp add: offset_ok_def)
  then obtain c where c: "unat ?p = 0x200000 * c" by (auto simp: dvd_def)
  have "unat ?p < 2 ^ 64" using unsigned_less [of ?p] by simp
  then have "c < 2 ^ 64" using c by simp
  then have "?p div 0x200000 = of_nat c" using c
    by (intro word_unat_eq_iff [THEN iffD2]) (simp add: unat_div unat_of_nat_small)
  moreover have "?p = of_nat (0x200000 * c)" unfolding c [symmetric] by simp
  ultimately show ?thesis by simp
qed

text \<open>What the first \<open>n\<close> rounds of the loop map.\<close>

definition mapped_by :: "('p \<Rightarrow> u64 \<Rightarrow> bool) \<Rightarrow> u64 \<Rightarrow> 'p \<Rightarrow> nat \<Rightarrow> u64 \<Rightarrow> bool" where
  "mapped_by used voff pt n a \<longleftrightarrow> (\<exists>k < 512 * n. a = phys_page voff k \<and> \<not> used pt (huge_page voff k))"

lemma mapped_by_Suc:
  "mapped_by used voff pt (Suc n) a \<longleftrightarrow> mapped_by used voff pt n a \<or>
     (\<not> used pt (huge_page voff (512 * n)) \<and> (\<exists>j < 512. a = huge_page voff (512 * n) + of_nat (4096 * j)))"
proof -
  have "k < 512 * Suc n \<longleftrightarrow> k < 512 * n \<or> (\<exists>j < 512. k = 512 * n + j)" for k
    by (auto intro: exI [of _ "k - 512 * n"])
  moreover have "phys_page voff (512 * n + j) = huge_page voff (512 * n) + of_nat (4096 * j)"
    "j < 512 \<Longrightarrow> huge_page voff (512 * n + j) = huge_page voff (512 * n)" for j
    by (simp_all add: phys_page_def huge_page_def algebra_simps)
  ultimately show ?thesis unfolding mapped_by_def by metis
qed


definition fresh_pages :: "('p \<Rightarrow> u64 \<Rightarrow> bool) \<Rightarrow> u64 \<Rightarrow> 'p \<Rightarrow> nat \<Rightarrow> nat set" where
  "fresh_pages used voff pt n = {i. i < n \<and> \<not> used pt (huge_page voff (512 * i))}"

lemma card_fresh: "card (fresh_pages used voff pt n) \<le> n"
proof -
  have "fresh_pages used voff pt n \<subseteq> {..<n}" by (auto simp: fresh_pages_def)
  then show ?thesis using card_mono [of "{..<n}"] by simp
qed

lemma fresh_Suc: "card (fresh_pages used voff pt (Suc n)) =
    card (fresh_pages used voff pt n) + (if used pt (huge_page voff (512 * n)) then 0 else 1)"
proof -
  have "fresh_pages used voff pt (Suc n) = (if used pt (huge_page voff (512 * n)) then fresh_pages used voff pt n
      else insert n (fresh_pages used voff pt n))"
    by (auto simp: fresh_pages_def less_Suc_eq)
  moreover have "n \<notin> fresh_pages used voff pt n" "finite (fresh_pages used voff pt n)" by (simp_all add: fresh_pages_def)
  ultimately show ?thesis by simp
qed

lemma map_frames_ok:
  fixes s :: 'a
  assumes "left fs s" and "huge_mapper_ok left lookup used map_to" and "\<forall>a. containing a = 0x200000 * (a div 0x200000)"
    and "offset_ok lim voff" and "crate_ok X page lim" and "n \<le> 32768" and "2 * n \<le> length fs"
  shows "\<exists>news olds pt' s' m.
    res_fold (map_frame X containing map_to voff) (map (\<lambda>i. of_nat (0x200000 * i)) [0..<n]) (0, 0, pt, s) =
      Inr (news, olds, pt', s') \<and> m \<le> 2 * n \<and> left (drop m fs) s' \<and>
    unat news = card (fresh_pages used voff pt n) \<and> unat news + unat olds = n \<and>
    (\<forall>p. used pt' p \<longleftrightarrow> used pt p \<or> (\<exists>i < n. p = huge_page voff (512 * i))) \<and>
    (\<forall>a. lookup pt' a = (if mapped_by used voff pt n a then Some (a - voff) else lookup pt a))"
  using assms(6,7)
proof (induction n)
  case 0
  show ?case using assms(1) by (auto simp: fresh_pages_def mapped_by_def intro!: exI [of _ "0 :: nat"])
next
  case (Suc n)
  let ?page = "huge_page voff (512 * n)"
  have "n \<le> 32768" "2 * n \<le> length fs" using Suc.prems by simp_all
  from Suc.IH [OF this] obtain news olds pt1 s1 m where
    fold: "res_fold (map_frame X containing map_to voff) (map (\<lambda>i. of_nat (0x200000 * i)) [0..<n]) (0, 0, pt, s) =
      Inr (news, olds, pt1, s1)" and m: "m \<le> 2 * n" "left (drop m fs) s1"
    and count: "unat news = card (fresh_pages used voff pt n)" "unat news + unat olds = n"
    and used1: "\<forall>p. used pt1 p \<longleftrightarrow> used pt p \<or> (\<exists>i < n. p = huge_page voff (512 * i))"
    and lookup1: "\<forall>a. lookup pt1 a = (if mapped_by used voff pt n a then Some (a - voff) else lookup pt a)"
    by blast
  have i: "n < 32768" using Suc.prems by simp
  have far: "unat voff + 0x200000 * n \<le> unat lim" using assms(4) i by (simp add: offset_ok_def)
  have "unat (of_nat (0x200000 * n) :: u64) = 0x200000 * n" using i by (intro unat_of_nat_small) simp
  then have add: "virt_add X voff (of_nat (0x200000 * n)) = Inr ?page"
    using assms(5) far by (simp add: crate_ok_def huge_page_def)
  have page: "containing ?page = ?page" using assms(3) huge_aligned [OF assms(4) i] by simp
  have other: "?page \<noteq> huge_page voff (512 * j)" if "j < n" for j
    using phys_page_inj [OF assms(4), of "512 * n" "512 * j"] that i by (simp add: huge_page_eq)
  then have same: "used pt1 ?page = used pt ?page" using used1 by blast
  have "2 \<le> length (drop m fs)" using Suc.prems(2) m(1) by simp
  from assms(2) [unfolded huge_mapper_ok_def, rule_format, OF m(2) this, where pt = pt1 and page = ?page and frame = "of_nat (0x200000 * n)"]
  obtain k r pt2 s2 where k: "k \<le> 2" and map: "map_to ?page (of_nat (0x200000 * n)) (pt1, s1) = Inr (r, pt2, s2)"
    and left: "left (drop (k + m) fs) s2" and
    step: "if used pt1 ?page then r \<noteq> None \<and> lookup pt2 = lookup pt1 \<and> used pt2 = used pt1
       else r = None \<and> used pt2 = (used pt1)(?page := True) \<and>
         lookup pt2 = (\<lambda>a. if \<exists>j < 512. a = ?page + of_nat (4096 * j) then Some (of_nat (0x200000 * n) + (a - ?page)) else lookup pt1 a)"
    unfolding drop_drop by (elim exE conjE) (rule that)
  have shift: "of_nat (0x200000 * n) + (a - ?page) = a - voff" for a by (simp add: huge_page_def)
  have small: "unat news < 2 ^ 32 - 1" "unat olds < 2 ^ 32 - 1" using count i card_fresh [of used voff pt n] by simp_all
  have inc: "unat (x + 1) = Suc (unat x)" if "unat x < 2 ^ 32 - 1" for x :: u32
    using that unat_add_lem [of x 1] by simp
  have rest: "(\<forall>p. used pt2 p \<longleftrightarrow> used pt p \<or> (\<exists>i < Suc n. p = huge_page voff (512 * i))) \<and>
      (\<forall>a. lookup pt2 a = (if mapped_by used voff pt (Suc n) a then Some (a - voff) else lookup pt a))"
  proof (cases "used pt ?page")
    case True
    with step same have "lookup pt2 = lookup pt1" "used pt2 = used pt1" by simp_all
    with True used1 lookup1 show ?thesis by (auto simp: mapped_by_Suc less_Suc_eq)
  next
    case False
    with step same have "lookup pt2 = (\<lambda>a. if \<exists>j < 512. a = ?page + of_nat (4096 * j) then Some (a - voff) else lookup pt1 a)"
      "used pt2 = (used pt1)(?page := True)" unfolding shift by simp_all
    with False used1 lookup1 show ?thesis by (auto simp: mapped_by_Suc less_Suc_eq)
  qed
  let ?news = "if used pt ?page then news else news + 1" and ?olds = "if used pt ?page then olds + 1 else olds"
  have "map_frame X containing map_to voff (of_nat (0x200000 * n)) (news, olds, pt1, s1) = Inr (?news, ?olds, pt2, s2)"
    using step same by (auto simp: map_frame_def add page map res_map_def simp del: of_nat_mult split: option.splits)
  with fold have run: "res_fold (map_frame X containing map_to voff) (map (\<lambda>i. of_nat (0x200000 * i)) [0..<Suc n]) (0, 0, pt, s) =
      Inr (?news, ?olds, pt2, s2)"
    by (simp add: res_fold_append del: of_nat_mult)
  have "unat ?news = card (fresh_pages used voff pt (Suc n))" "unat ?news + unat ?olds = Suc n"
    using count inc [OF small(1)] inc [OF small(2)] by (simp_all add: fresh_Suc)
  with run left rest k m(1) show ?case
    by (intro exI [of _ ?news] exI [of _ ?olds] exI [of _ pt2] exI [of _ s2] exI [of _ "k + m"]) simp
qed


lemma huge_frames_64GiB: "huge_frames 0 (0x40000000 * 64 - 0x200000) = map (\<lambda>i. of_nat (0x200000 * i)) [0..<32768]"
  by (simp add: huge_frames_def del: of_nat_mult upt_Suc upt_rec_numeral)

lemma map_physical_eq:
  assumes "crate_ok X page lim" and "\<forall>a. containing a = 0x200000 * (a div 0x200000)" and "offset_ok lim voff"
  shows "map_physical X containing map_to voff s =
    res_fold (map_frame X containing map_to voff) (map (\<lambda>i. of_nat (0x200000 * i)) [0..<32768]) (0, 0, s)"
proof -
  have v: "unat (voff - 1) = unat voff - 1" using assms(3) by (simp add: offset_ok_def unat_minus_one)
  have "unat voff \<le> unat lim" using assms(3) by (simp add: offset_ok_def)
  then have "voff - 1 \<le> lim" unfolding word_le_nat_alt v by simp
  moreover have "0x40000000 * 64 - 1 \<le> lim" using assms(3) by (simp add: offset_ok_def word_le_nat_alt)
  moreover have "containing (0x40000000 * 64 - 1) = 0x40000000 * 64 - 0x200000" "containing 0 = 0" using assms(2) by simp_all
  ultimately show ?thesis
    using assms(1) huge_frames_64GiB by (simp add: map_physical_def crate_ok_def Let_def)
qed

lemma map_physical_ok:
  assumes "crate_ok X page lim" and "\<forall>a. containing a = 0x200000 * (a div 0x200000)" and "offset_ok lim voff"
    and "huge_mapper_ok left lookup used map_to" and "left fs s" and "65536 \<le> length fs"
  shows "\<exists>news olds pt' s' m. map_physical X containing map_to voff (pt, s) = Inr (news, olds, pt', s') \<and>
    m \<le> 65536 \<and> left (drop m fs) s' \<and> unat news + unat olds = 32768 \<and>
    unat news = card {i. i < 32768 \<and> \<not> used pt (huge_page voff (512 * i))} \<and>
    (\<forall>k < 2 ^ 24. lookup pt' (phys_page voff k) =
       (if used pt (huge_page voff k) then lookup pt (phys_page voff k) else Some (of_nat (4096 * k)))) \<and>
    (\<forall>a. (\<forall>k < 2 ^ 24. a \<noteq> phys_page voff k) \<longrightarrow> lookup pt' a = lookup pt a)"
proof -
  have n: "(32768 :: nat) \<le> 32768" "2 * 32768 \<le> length fs" using assms(6) by simp_all
  from map_frames_ok [OF assms(5,4,2,3,1) n, of pt, folded map_physical_eq [OF assms(1-3)]] obtain news olds pt' s' m where
    run: "map_physical X containing map_to voff (pt, s) = Inr (news, olds, pt', s')" and m: "m \<le> 65536" "left (drop m fs) s'"
    and count: "unat news = card (fresh_pages used voff pt 32768)" "unat news + unat olds = 32768"
    and lookup: "\<forall>a. lookup pt' a = (if mapped_by used voff pt 32768 a then Some (a - voff) else lookup pt a)"
    by (elim exE conjE) (rule that, assumption, simp, assumption+)
  have "mapped_by used voff pt 32768 (phys_page voff k) \<longleftrightarrow> \<not> used pt (huge_page voff k)" if k: "k < 2 ^ 24" for k
  proof
    assume "mapped_by used voff pt 32768 (phys_page voff k)"
    then obtain j where "j < 2 ^ 24" "phys_page voff k = phys_page voff j" "\<not> used pt (huge_page voff j)"
      by (auto simp: mapped_by_def)
    with phys_page_inj [OF assms(3) k] show "\<not> used pt (huge_page voff k)" by metis
  qed (use k in \<open>auto simp: mapped_by_def\<close>)
  then have inside: "\<forall>k < 2 ^ 24. lookup pt' (phys_page voff k) =
      (if used pt (huge_page voff k) then lookup pt (phys_page voff k) else Some (of_nat (4096 * k)))"
    using lookup by (simp add: phys_page_def)
  have outside: "\<forall>a. (\<forall>k < 2 ^ 24. a \<noteq> phys_page voff k) \<longrightarrow> lookup pt' a = lookup pt a"
    using lookup by (auto simp: mapped_by_def)
  show ?thesis
    using run m count(2) count(1) [unfolded fresh_pages_def] inside outside by (intro exI conjI) assumption+
qed


lemma heap_page_apart:
  assumes "offset_ok lim voff" and "heap_apart voff" and "i < 32768" and "k < 2 ^ 24"
  shows "HEAP_START + of_nat (4096 * i) \<noteq> phys_page voff k"
proof -
  have "unat (phys_page voff k) = unat voff + 4096 * k"
    using offset_unat [OF assms(1), of "4096 * k"] assms(4) by (simp add: phys_page_def)
  moreover have "unat (HEAP_START + of_nat (4096 * i)) = unat HEAP_START + 4096 * i" by (rule heap_page_unat [OF assms(3)])
  moreover have "unat HEAP_SIZE = 4096 * 32768" by (simp add: HEAP_SIZE_def)
  ultimately have "unat (HEAP_START + of_nat (4096 * i)) \<noteq> unat (phys_page voff k)"
    using assms(2-4) by (auto simp: heap_apart_def)
  then show ?thesis by metis
qed

section \<open>The devices\<close>

text \<open>A read depends on the configuration space only, and leaves it alone.\<close>

lemma latch_cong: "config_space (p :: pci_ports) = config_space q \<Longrightarrow> p\<lparr> port_config_address := w \<rparr> = q\<lparr> port_config_address := w \<rparr>"
  by (cases p; cases q) simp

lemma reads_cong:
  fixes p q :: pci_ports
  assumes "config_space p = config_space q"
  shows "Pci_config_read_u8 d off p = Pci_config_read_u8 d off q" "Pci_config_read_u16 d off p = Pci_config_read_u16 d off q"
    "Pci_config_read_u32 d off p = Pci_config_read_u32 d off q"
  using latch_cong [OF assms] assms
  by (simp_all add: Pci_config_read_u8_def Pci_config_read_u16_def Pci_config_read_u32_def config_read_eqs pci_register_def)

lemma reads_space:
  "Pci_config_read_u8 d off p = (x, q) \<Longrightarrow> config_space q = config_space p"
  "Pci_config_read_u16 d off p = (y, q) \<Longrightarrow> config_space q = config_space p"
  "Pci_config_read_u32 d off p = (z, q) \<Longrightarrow> config_space q = config_space p"
  by (auto simp: Pci_config_read_u8_def Pci_config_read_u16_def Pci_config_read_u32_def config_read_eqs)

lemma config_read_u32_space: "config_read_u32 b s f off p = (z, q) \<Longrightarrow> config_space q = config_space p"
  by (auto simp: config_read_eqs)

lemma get_bar_cong: "get_bar phys d i p = get_bar phys d i q" if "config_space p = config_space q"
  by (simp only: get_bar_def reads_cong(3) [OF that])

lemma get_bar_space: "get_bar phys d i p = Inr (b, q) \<Longrightarrow> config_space q = config_space p"
  by (auto simp: get_bar_def Let_def res_map_def res_bind_eq_Inr_iff split: prod.splits if_splits
      dest!: reads_space config_read_u32_space)

lemma read_bars_cong:
  assumes "config_space p = config_space q"
  shows "read_bars X d p = read_bars X d q"
proof -
  have "[0..<6] = 0 # [1..<6]" by (simp add: upt_conv_Cons)
  then show ?thesis using get_bar_cong [OF assms] by (simp add: read_bars_def)
qed

lemma read_bars_space:
  assumes "read_bars X d p = Inr (bars, q)"
  shows "config_space q = config_space p"
proof -
  have "config_space q = config_space p" if "res_fold (\<lambda>idx (bars, p). res_bind (get_bar (phys_new X) d (of_nat idx) p)
         (\<lambda>(bar, p). res_bind (array_set bars idx bar) (\<lambda>bars. Inr (bars, p)))) xs (bs, p) = Inr (bars, q)" for xs bs p
    using that
  proof (induction xs arbitrary: bs p)
    case (Cons x xs)
    then show ?case by (fastforce simp: res_bind_eq_Inr_iff dest: get_bar_space)
  qed simp
  then show ?thesis using assms unfolding read_bars_def by blast
qed

lemma cap_walk_space: "cap_walk X voff d bars n off (caps, p) = Some (Inr (caps', q)) \<Longrightarrow> config_space q = config_space p"
proof (induction n arbitrary: off caps p)
  case (Suc n)
  obtain c1 p1 where e: "cap_entry X voff d bars off (caps, p) = Inr (c1, p1)" using Suc.prems by (auto split: sum.splits)
  obtain nx p2 where r: "Pci_config_read_u8 d (1 + off) p1 = (nx, p2)" by fastforce
  have "config_space p2 = config_space p" using reads_space(1) [OF r] cap_entry_space [OF e] by simp
  then show ?case using Suc e r by (auto split: if_splits)
qed simp

lemma Virtio_init_found:
  assumes "Virtio_init X voff dev get_page name_len fuel d (p, io, s) = Some (Inr (r, q, io', s'))"
  shows "config_space q = config_space p \<and>
    map_option (\<lambda>v. (virtio_pci v, device_type v)) r = map_option (Pair d) (virtio_type X voff fuel p d)"
proof -
  let ?id = "PCIConfigRegisters_repr PCIDeviceID" and ?cp = "PCIConfigRegisters_repr PCICapabilitiesPointer"
  obtain dev_id p1 where r1: "Pci_config_read_u16 d ?id p = (dev_id, p1)" by fastforce
  show ?thesis
  proof (cases "device_id_to_type (uint dev_id - 0x1040)")
    case None
    with assms r1 reads_space(2) [OF r1] show ?thesis by (simp add: Virtio_init_def virtio_type_def)
  next
    case (Some dt)
    then obtain bars p2 where r2: "read_bars X d p1 = Inr (bars, p2)"
      using assms r1 by (cases "read_bars X d p1") (auto simp: Virtio_init_def)
    obtain cp p3 where r3: "Pci_config_read_u8 d ?cp p2 = (cp, p3)" by fastforce
    obtain caps p4 where r4: "cap_walk X voff d bars fuel cp (no_caps, p3) = Some (Inr (caps, p4))"
      using assms r1 r2 r3 Some by (auto simp: Virtio_init_def split: option.splits sum.splits)
    have space: "config_space p1 = config_space p" "config_space p4 = config_space p"
      using reads_space(2) [OF r1] read_bars_space [OF r2] reads_space(1) [OF r3] cap_walk_space [OF r4] by simp_all
    have dc: "device_caps X voff fuel p d = Some caps"
      using r2 r3 r4 read_bars_cong [OF space(1), of X d] by (simp add: device_caps_def)
    have vt: "virtio_type X voff fuel p d = (if complete_caps caps then Some dt else None)"
      using dc Some r1 by (simp add: virtio_type_def)
    show ?thesis
    proof (cases "complete_caps caps")
      case False
      then have "r = None \<and> q = p4"
        using assms r1 r2 r3 r4 Some by (auto simp: Virtio_init_def complete_caps_def split: option.splits)
      with vt False space show ?thesis by simp
    next
      case True
      then obtain com conf devc notif where c: "found_common caps = Some com" "found_pci_conf caps = Some conf"
        "found_device caps = Some devc" "found_notify caps = Some notif" by (auto simp: complete_caps_def)
      obtain v where "r = Some v" "virtio_pci v = d" "device_type v = dt" "q = p4"
        using assms r1 r2 r3 r4 Some c
        by (auto simp: Virtio_init_def Virtio_queue_select_def res_bind_eq_Inr_iff split: prod.splits)
      with vt True space show ?thesis by simp
    qed
  qed
qed

lemma virtio_type_cong: "virtio_type X voff fuel p d = virtio_type X voff fuel q d" if "config_space p = config_space q"
  by (simp only: virtio_type_def device_caps_def read_bars_cong [OF that] reads_cong(2) [OF that])

lemma probe_found:
  assumes "probe X voff dev get_page name_len fuel d io (p, s) = Some (Inr (r, q, s'))"
  shows "config_space q = config_space p \<and>
    map_option (\<lambda>(v, io). (virtio_pci v, device_type v)) r = map_option (Pair d) (kernel_device X voff fuel p d)"
proof -
  obtain st p1 where r1: "Pci_config_read_u16 d (PCIConfigRegisters_repr PCIStatus) p = (st, p1)" by fastforce
  obtain vendor p2 where r2: "Pci_config_read_u16 d (PCIConfigRegisters_repr PCIVendorID) p1 = (vendor, p2)" by fastforce
  obtain id p3 where r3: "Pci_config_read_u16 d (PCIConfigRegisters_repr PCIDeviceID) p2 = (id, p3)" by fastforce
  obtain irq p4 where r4: "get_irq d p3 = (irq, p4)" by fastforce
  obtain ipin p5 where r5: "get_ipin d p4 = (ipin, p5)" by fastforce
  have sp: "config_space p1 = config_space p" "config_space p5 = config_space p"
    using reads_space(2) [OF r1] reads_space(2) [OF r2] reads_space(2) [OF r3] r4 r5
      reads_space(1) [of d "PCIConfigRegisters_repr PCIInterruptLine" p3] reads_space(1) [of d "PCIConfigRegisters_repr PCIInterruptPIN" p4]
    by (simp_all add: get_irq_def get_ipin_def)
  have v: "fst (Pci_config_read_u16 d (PCIConfigRegisters_repr PCIVendorID) p) = vendor"
    unfolding reads_cong(2) [OF sp(1), symmetric] r2 by simp
  have p: "probe X voff dev get_page name_len fuel d io (p, s) =
    (if vendor = 0x1af4
     then map_option (res_map (\<lambda>(virtio, p, io, s). (map_option (\<lambda>v. (v, io)) virtio, p, s)))
            (Virtio_init X voff (dev d) get_page name_len fuel d (p5, io, s))
     else Some (Inr (None, p5, s)))"
    using r1 r2 r3 r4 r5 by (simp add: probe_def)
  show ?thesis
  proof (cases "vendor = 0x1af4")
    case True
    with assms p obtain r0 io' where i: "Virtio_init X voff (dev d) get_page name_len fuel d (p5, io, s) = Some (Inr (r0, q, io', s'))"
      and r: "r = map_option (\<lambda>v. (v, io')) r0" by (auto simp: res_map_def res_bind_eq_Inr_iff)
    have "map_option (\<lambda>(v, io). (virtio_pci v, device_type v)) r = map_option (\<lambda>v. (virtio_pci v, device_type v)) r0"
      by (cases r0) (simp_all add: r)
    with Virtio_init_found [OF i] v True sp(2) virtio_type_cong [OF sp(2), of X voff fuel d] show ?thesis
      by (simp add: kernel_device_def)
  next
    case False
    with assms p v sp(2) show ?thesis by (simp add: kernel_device_def)
  qed
qed

lemma kernel_device_cong: "kernel_device X voff fuel p d = kernel_device X voff fuel q d" if "config_space p = config_space q"
  by (simp only: kernel_device_def virtio_type_cong [OF that] reads_cong(2) [OF that])

lemma find_devices_found:
  assumes "find_devices X voff dev get_page name_len fuel ios pcis (found, q, s) = Some (Inr (found', q', s'))"
    and "config_space q = config_space p"
  shows "config_space q' = config_space p \<and>
    map (\<lambda>(v, io). (virtio_pci v, device_type v)) found' = map (\<lambda>(v, io). (virtio_pci v, device_type v)) found @
      List.map_filter (\<lambda>d. map_option (Pair d) (kernel_device X voff fuel p d)) pcis"
  using assms
proof (induction pcis arbitrary: found q s)
  case Nil
  then show ?case by (simp add: map_filter_simps)
next
  case (Cons d pcis)
  obtain r q1 s1 where r: "probe X voff dev get_page name_len fuel d (ios d) (q, s) = Some (Inr (r, q1, s1))"
    and rest: "find_devices X voff dev get_page name_len fuel ios pcis
      (case r of None \<Rightarrow> found | Some v \<Rightarrow> found @ [v], q1, s1) = Some (Inr (found', q', s'))"
    using Cons.prems(1) by (auto split: option.splits sum.splits)
  note pf = probe_found [OF r]
  then have "config_space q1 = config_space p" using Cons.prems(2) by simp
  from Cons.IH [OF rest this] pf kernel_device_cong [OF Cons.prems(2), of X voff fuel d]
  show ?case by (cases r; cases "kernel_device X voff fuel p d") (auto simp: map_filter_simps)
qed

lemma Pcis_new_eq:
  "fst (Pcis_new p) = concat (map (\<lambda>bus. concat (map (slot_devices p bus) (map of_nat [0..<32]))) (map of_nat [0..<256]))"
  "config_space (snd (Pcis_new p)) = config_space p"
  using fold_collect [where f = scan_slots and p = p and q = p and devs = "[]" and xs = "map of_nat [0..<256]"
      and g = "\<lambda>bus. concat (map (slot_devices p bus) (map of_nat [0..<32]))", OF scan_slots_eq refl]
  by (simp_all only: Pcis_new_def append_Nil)

lemma start_interrupts_result:
  assumes "start_interrupts E bi voff m = Inr m1"
  shows "mc_ports m1 = mc_ports m \<and>
    (mc_interrupts m1 \<longleftrightarrow> mc_interrupts m \<or>
      (\<exists>a pi. Option.bind (rsdp_addr bi) (be_acpi E) = Some a \<and> platform_info a = Some pi \<and> interrupt_model pi \<noteq> None))"
proof -
  obtain rsdp acpi pi where r: "rsdp_addr bi = Some rsdp" "be_acpi E rsdp = Some acpi" "platform_info acpi = Some pi"
    using assms by (auto simp: start_interrupts_def expect_def res_unwrap_def res_bind_eq_Inr_iff split: option.splits)
  then show ?thesis
    using assms by (cases "interrupt_model pi")
      (auto simp: start_interrupts_def Let_def expect_def res_unwrap_def res_map_def res_bind_eq_Inr_iff split: option.splits prod.splits)
qed

lemma spawn_tasks_queue:
  assumes "length devices < QUEUE_SIZE"
  shows "map task_future (spawn_queue (spawn_tasks devices (Executor_new 0 []))) = map device_task devices @ [K_apps_begin] \<and>
    map task_id (spawn_queue (spawn_tasks devices (Executor_new 0 []))) = map of_nat [0..<Suc (length devices)]"
proof -
  let ?fs = "map device_task devices @ [K_apps_begin]"
  have "spawn_queue (spawn_tasks devices (Executor_new 0 [])) =
      map (\<lambda>k. \<lparr> task_id = of_nat k, task_future = ?fs ! k \<rparr>) [0..<length ?fs]"
    using spawner_many [of "Executor_new 0 []" ?fs] assms unfolding spawn_tasks_eq by (simp add: Executor_new_def del: upt_Suc)
  then show ?thesis using map_nth [of ?fs] by (simp add: comp_def del: upt_Suc)
qed

lemma memory_starts:
  assumes "crate_ok (be_crate E) (be_page E) lim" and "\<forall>a. be_huge_page E a = 0x200000 * (a div 0x200000)"
    and "physical_memory_offset bi = Some voff" and "offset_ok lim voff" and "unat voff + unat (be_cr3 E) \<le> unat lim"
    and "memory_map_ok lim (memory_regions bi)" and "196608 \<le> length (usable_addresses (memory_regions bi))"
    and "length (usable_addresses (memory_regions bi)) + 64 < 2 ^ 64"
    and "huge_mapper_ok (frames_of (be_crate E) (be_page E) lim (memory_regions bi)) lookup used (be_map_huge E)"
    and "mapper_ok (frames_of (be_crate E) (be_page E) lim (memory_regions bi)) lookup (be_map_to E)"
    and "unat HEAP_START + unat HEAP_SIZE \<le> unat lim" and "heap_apart voff"
    and "pt = be_tables E (voff + be_cr3 E)" and "\<forall>i < 32768. lookup pt (HEAP_START + of_nat (4096 * i)) = None"
  shows "\<exists>pt' fa gs. start_memory E bi = Inr (voff, (pt', fa), HEAP_START, HEAP_SIZE) \<and>
    (\<forall>k < 2 ^ 24. lookup pt' (phys_page voff k) =
       (if used pt (huge_page voff k) then lookup pt (phys_page voff k) else Some (of_nat (4096 * k)))) \<and>
    length gs = 32768 \<and> distinct gs \<and> set gs \<subseteq> set (usable_addresses (memory_regions bi)) \<and>
    (\<forall>i < 32768. lookup pt' (HEAP_START + of_nat (4096 * i)) = Some (gs ! i)) \<and>
    (\<forall>a. (\<forall>k < 2 ^ 24. a \<noteq> phys_page voff k) \<longrightarrow> (\<forall>i < 32768. a \<noteq> HEAP_START + of_nat (4096 * i)) \<longrightarrow> lookup pt' a = lookup pt a)"
proof -
  let ?X = "be_crate E" and ?mm = "memory_regions bi"
  let ?fs = "usable_addresses ?mm" and ?fa = "BootInfoFrameAllocator_init ?mm"
  have fl: "frames_left lim ?mm ?fs ?fa" by (rule frames_left_init [OF assms(6,8)])
  then have left: "frames_of ?X (be_page E) lim ?mm ?fs ?fa" using assms(1) by (simp add: frames_of_def)
  have n: "65536 \<le> length ?fs" using assms(7) by simp
  from map_physical_ok [OF assms(1,2,4,9) left n, of pt] obtain news olds pt1 fa1 m where
    map: "map_physical ?X (be_huge_page E) (be_map_huge E) voff (pt, ?fa) = Inr (news, olds, pt1, fa1)"
    and m: "m \<le> 65536" "frames_of ?X (be_page E) lim ?mm (drop m ?fs) fa1"
    and phys: "\<forall>k < 2 ^ 24. lookup pt1 (phys_page voff k) =
       (if used pt (huge_page voff k) then lookup pt (phys_page voff k) else Some (of_nat (4096 * k)))"
    and other: "\<forall>a. (\<forall>k < 2 ^ 24. a \<noteq> phys_page voff k) \<longrightarrow> lookup pt1 a = lookup pt a"
    by (elim exE conjE) (rule that)
  have fl1: "frames_left lim ?mm (drop m ?fs) fa1" using m(2) by (simp add: frames_of_def)
  have len1: "4 * 32768 \<le> length (drop m ?fs)" using m(1) assms(7) by simp
  have apart: "\<forall>k < 2 ^ 24. HEAP_START + of_nat (4096 * i) \<noteq> phys_page voff k" if "i < 32768" for i
    using heap_page_apart [OF assms(4,12) that] by blast
  have none: "lookup pt1 (HEAP_START + of_nat (4096 * i)) = None" if "i < 32768" for i
    using other apart [OF that] assms(14) that by simp
  obtain pt2 fa2 gs where
    heap: "init_heap ?X (be_page E) (allocate_frame ?X (be_page E)) (be_map_to E) (pt1, fa1) = Inr (Inr ((pt2, fa2), HEAP_START, HEAP_SIZE))"
    and gs: "length gs = 32768" "distinct gs" "set gs \<subseteq> set (drop m ?fs)"
    and hl: "\<forall>i < 32768. lookup pt2 (HEAP_START + of_nat (4096 * i)) = Some (gs ! i)"
    and ho: "\<forall>a. (\<forall>i < 32768. a \<noteq> HEAP_START + of_nat (4096 * i)) \<longrightarrow> lookup pt2 a = lookup pt1 a"
    by (rule init_heap_maps_every_page [OF assms(1) fl1 assms(10,11) len1, of pt1, THEN exE], rule none, assumption)
      (elim exE conjE, rule that)
  have "virt_new ?X voff = Inr voff" "virt_add ?X voff (be_cr3 E) = Inr (voff + be_cr3 E)"
    using assms(1,4,5) by (simp_all add: crate_ok_def offset_ok_def word_le_nat_alt)
  with map heap assms(3,13) have run: "start_memory E bi = Inr (voff, (pt2, fa2), HEAP_START, HEAP_SIZE)"
    by (simp add: start_memory_def Let_def expect_def memory_init_def active_level_4_table_def map_result_def res_map_def)
  have "lookup pt2 (phys_page voff k) = lookup pt1 (phys_page voff k)" if "k < 2 ^ 24" for k
    using ho heap_page_apart [OF assms(4,12) _ that] by metis
  with phys have phys2: "\<forall>k < 2 ^ 24. lookup pt2 (phys_page voff k) =
       (if used pt (huge_page voff k) then lookup pt (phys_page voff k) else Some (of_nat (4096 * k)))" by simp
  have sub: "set gs \<subseteq> set ?fs" using gs(3) set_drop_subset by fastforce
  have rest: "\<forall>a. (\<forall>k < 2 ^ 24. a \<noteq> phys_page voff k) \<longrightarrow> (\<forall>i < 32768. a \<noteq> HEAP_START + of_nat (4096 * i)) \<longrightarrow> lookup pt2 a = lookup pt a"
    using ho other by simp
  show ?thesis using run phys2 gs(1,2) sub hl rest by (intro exI conjI) assumption+
qed


section \<open>Properties\<close>

text \<open>C13: Memory after the start. When the boot loader hands over what the kernel relies on, the start-up of memory does not fail: every page of the first 64 GiB
  whose 2 MiB entry was free is mapped from the offset and the others keep their translation, every page of the
  heap is mapped to a usable frame of its own, and nothing else changes.\<close>

theorem memory_start:
  assumes "boot_ok lim lookup used E bi voff" and "pt = be_tables E (voff + be_cr3 E)"
  shows "\<exists>pt' fa gs. start_memory E bi = Inr (voff, (pt', fa), HEAP_START, HEAP_SIZE) \<and>
    (\<forall>k < 2 ^ 24. lookup pt' (phys_page voff k) =
       (if used pt (huge_page voff k) then lookup pt (phys_page voff k) else Some (of_nat (4096 * k)))) \<and>
    length gs = 32768 \<and> distinct gs \<and> set gs \<subseteq> set (usable_addresses (memory_regions bi)) \<and>
    (\<forall>i < 32768. lookup pt' (HEAP_START + of_nat (4096 * i)) = Some (gs ! i)) \<and>
    (\<forall>a. (\<forall>k < 2 ^ 24. a \<noteq> phys_page voff k) \<longrightarrow> (\<forall>i < 32768. a \<noteq> HEAP_START + of_nat (4096 * i)) \<longrightarrow> lookup pt' a = lookup pt a)"
  using assms(1) unfolding boot_ok_def assms(2)
  by (elim conjE) (rule memory_starts; (assumption | rule refl))

text \<open>Page tables for concrete inputs: the translation and the taken entries.\<close>

type_synonym flat_tables = "(u64 \<Rightarrow> u64 option) \<times> (u64 \<Rightarrow> bool)"

definition flat_map_huge :: "(flat_tables, 'a) huge_mapper" where
  "flat_map_huge page frame s =
     (let ((l, u), fa) = s
      in if u page then Inr (Some (MapToError ''PageAlreadyMapped''), s)
         else Inr (None, ((\<lambda>a. if \<exists>j < 512. a = page + of_nat (4096 * j) then Some (frame + (a - page)) else l a), u(page := True)), fa))"

definition flat_map_to :: "(flat_tables, 'a) mapper" where
  "flat_map_to page frame s = (let ((l, u), fa) = s in Inr (Inr ((l(page \<mapsto> frame), u), fa)))"

definition sample_boot :: "(unit, flat_tables) boot_env" where
  "sample_boot = \<lparr> be_crate = x86_crate, be_page = x86_page, be_huge_page = (\<lambda>a. 0x200000 * (a div 0x200000)), be_cr3 = 0x1000,
     be_tables = (\<lambda>_. (Map.empty, \<lambda>_. False)), be_map_to = flat_map_to, be_map_huge = flat_map_huge,
     be_acpi = (\<lambda>_. Some \<lparr> hpet = Some (), platform_info = Some \<lparr> interrupt_model = Some (0xFEE00000, []), processor_info = Some [] \<rparr> \<rparr>),
     be_tsc = None, be_ioapic_hw = (\<lambda>a v f. f(a := v)), be_dev = (\<lambda>_. id), be_io = (\<lambda>_. sample_io\<lparr> io_regs := sample_regs\<lparr> num_queues := 0, device_status := 0 \<rparr> \<rparr>), be_name_len = 8, be_fuel = 256 \<rparr>"

definition sample_info :: BootInfo where
  "sample_info = \<lparr> boot_framebuffer = Some \<lparr> info_width = 2, info_height = 1, pixel_format = PixelFormat_Rgb, bytes_per_pixel = 4, stride = 2 \<rparr>,
     physical_memory_offset = Some 0x18000000000, memory_regions = sample_map, rsdp_addr = Some 0xE0000 \<rparr>"

lemma flat_huge_ok: "huge_mapper_ok left fst snd flat_map_huge"
  unfolding huge_mapper_ok_def flat_map_huge_def by (auto intro!: exI [of _ "0 :: nat"]) (auto simp: fun_eq_iff)

lemma flat_ok: "mapper_ok left fst flat_map_to"
  unfolding mapper_ok_def flat_map_to_def by (auto intro!: exI [of _ "0 :: nat"])

lemma sample_offset: "offset_ok (2 ^ 47 - 1) 0x18000000000" "heap_apart 0x18000000000"
  by (simp_all add: offset_ok_def heap_apart_def HEAP_START_def HEAP_SIZE_def)

lemma sample_boot_ok: "boot_ok (2 ^ 47 - 1) fst snd sample_boot sample_info 0x18000000000"
proof -
  have env: "be_crate sample_boot = x86_crate" "be_page sample_boot = x86_page" "be_map_to sample_boot = flat_map_to"
    "be_map_huge sample_boot = flat_map_huge" "be_tables sample_boot = (\<lambda>_. (Map.empty, \<lambda>_. False))" "be_cr3 sample_boot = 0x1000"
    "be_huge_page sample_boot = (\<lambda>a. 0x200000 * (a div 0x200000))" by (simp_all add: sample_boot_def)
  have info: "memory_regions sample_info = sample_map" "physical_memory_offset sample_info = Some 0x18000000000"
    by (simp_all add: sample_info_def)
  have c: "crate_ok (be_crate sample_boot) (be_page sample_boot) (2 ^ 47 - 1)" using x86_crate_ok by (simp add: env)
  have h: "\<forall>a. be_huge_page sample_boot a = 0x200000 * (a div 0x200000)" by (simp add: env)
  have r: "unat (0x18000000000 :: u64) + unat (be_cr3 sample_boot) \<le> unat (2 ^ 47 - 1 :: u64)" by (simp add: env)
  have mm: "memory_map_ok (2 ^ 47 - 1) (memory_regions sample_info)" "196608 \<le> length (usable_addresses (memory_regions sample_info))"
    "length (usable_addresses (memory_regions sample_info)) + 64 < 2 ^ 64"
    using sample_map_ok by (simp_all add: info length_sample_map)
  have hs: "unat HEAP_START + unat HEAP_SIZE \<le> unat (2 ^ 47 - 1 :: u64)" by (simp add: HEAP_START_def HEAP_SIZE_def)
  have hm: "huge_mapper_ok left fst snd (be_map_huge sample_boot)" "mapper_ok left fst (be_map_to sample_boot)" for left
    using flat_huge_ok flat_ok by (simp_all add: env)
  have none: "\<forall>i < 32768. fst (be_tables sample_boot (0x18000000000 + be_cr3 sample_boot)) (HEAP_START + of_nat (4096 * i)) = None"
    by (simp add: env)
  show ?thesis
    unfolding boot_ok_def using c h info(2) sample_offset r mm hs hm none by blast
qed

lemma memory_starts_sample:
  "\<exists>pt fa. start_memory sample_boot sample_info = Inr (0x18000000000, (pt, fa), HEAP_START, HEAP_SIZE)"
  using sample_boot_ok unfolding boot_ok_def
  by (elim conjE) (drule (11) memory_starts [OF _ _ _ _ _ _ _ _ _ _ _ _ refl], assumption, elim exE conjE, intro exI)

theorem memory_start_witness:
  "\<exists>pt fa (gs :: u64 list). start_memory sample_boot sample_info = Inr (0x18000000000, (pt, fa), HEAP_START, HEAP_SIZE) \<and>
    fst pt (phys_page 0x18000000000 5) = Some 0x5000 \<and> fst pt HEAP_START = Some (gs ! 0)"
proof -
  from memory_start [OF sample_boot_ok refl] obtain pt' fa and gs :: "u64 list" where
    run: "start_memory sample_boot sample_info = Inr (0x18000000000, (pt', fa), HEAP_START, HEAP_SIZE)"
    and p: "\<forall>k < 2 ^ 24. fst pt' (phys_page 0x18000000000 k) =
       (if snd (be_tables sample_boot (0x18000000000 + be_cr3 sample_boot)) (huge_page 0x18000000000 k)
        then fst (be_tables sample_boot (0x18000000000 + be_cr3 sample_boot)) (phys_page 0x18000000000 k) else Some (of_nat (4096 * k)))"
    and h: "\<forall>i < 32768. fst pt' (HEAP_START + of_nat (4096 * i)) = Some (gs ! i)"
    by (elim exE conjE) (rule that)
  show ?thesis using run p [rule_format, of 5] h [rule_format, of 0]
    by (intro exI [of _ pt'] exI [of _ fa] exI [of _ gs]) (simp add: sample_boot_def)
qed



text \<open>C14: The kernel that starts. When \<^verbatim>\<open>kernel_main\<close> reaches the executor, the devices it has initialised are, in the order of
  the bus, exactly the functions present on it that have the vendor of virtio, a device id that the kernel
  knows and all four capabilities; one task for each of them, in this order, and then the task of the apps wait
  to be spawned (if they fit the queue); interrupts are on if the platform has an APIC.\<close>

theorem kernel_start:
  assumes "kernel_main E bi m = Some (Inr k)"
  shows "map (\<lambda>(v, io). (virtio_pci v, device_type v)) (kn_devices k) =
      List.map_filter (\<lambda>d. map_option (Pair d) (kernel_device (be_crate E) (kn_voff k) (be_fuel E) (mc_ports m) d))
        (concat (map (\<lambda>bus. concat (map (slot_devices (mc_ports m) bus) (map of_nat [0..<32]))) (map of_nat [0..<256]))) \<and>
    (length (kn_devices k) < QUEUE_SIZE \<longrightarrow>
      map task_future (spawn_queue (kn_executor k)) = map device_task (kn_devices k) @ [K_apps_begin] \<and>
      map task_id (spawn_queue (kn_executor k)) = map of_nat [0..<Suc (length (kn_devices k))]) \<and>
    (mc_interrupts (kn_machine k) \<longleftrightarrow> mc_interrupts m \<or>
      (\<exists>a pi. Option.bind (rsdp_addr bi) (be_acpi E) = Some a \<and> platform_info a = Some pi \<and> interrupt_model pi \<noteq> None))"
proof -
  obtain fbinfo where fb: "boot_framebuffer bi = Some fbinfo"
    using assms by (cases "boot_framebuffer bi") (auto simp: kernel_main_def res_unwrap_def Let_def)
  obtain voff s heap where mem: "start_memory E bi = Inr (voff, s, heap)"
    using assms fb by (cases "start_memory E bi") (auto simp: kernel_main_def res_unwrap_def Let_def)
  obtain m1 where int: "start_interrupts E bi voff m = Inr m1"
    using assms fb mem by (cases "start_interrupts E bi voff m") (auto simp: kernel_main_def res_unwrap_def res_map_def Let_def)
  obtain pcis p where bus: "Pcis_new (mc_ports m1) = (pcis, p)" by fastforce
  obtain devices q s2 where find: "find_devices (be_crate E) voff (be_dev E)
      (identity_page (be_crate E) (be_page E) (allocate_frame (be_crate E) (be_page E)) (be_map_to E))
      (be_name_len E) (be_fuel E) (be_io E) pcis ([], p, s) = Some (Inr (devices, q, s2))"
    using assms fb mem int bus by (auto simp: kernel_main_def res_unwrap_def res_map_def Let_def split: option.splits sum.splits prod.splits)
  have k: "kn_devices k = devices" "kn_voff k = voff" "mc_interrupts (kn_machine k) = mc_interrupts m1"
    "kn_executor k = spawn_tasks devices (Executor_new 0 [])"
    using assms fb mem int bus find by (auto simp: kernel_main_def res_unwrap_def res_map_def)
  note i = start_interrupts_result [OF int]
  have "config_space p = config_space (mc_ports m)" using Pcis_new_eq(2) [of "mc_ports m1"] bus i by simp
  note f = find_devices_found [OF find this]
  have "pcis = concat (map (\<lambda>bus. concat (map (slot_devices (mc_ports m) bus) (map of_nat [0..<32]))) (map of_nat [0..<256]))"
    using Pcis_new_eq(1) [of "mc_ports m1"] bus i by (simp only: fst_conv)
  with f i spawn_tasks_queue [of devices] show ?thesis unfolding k by simp
qed

text \<open>A bus with one function, an input device that has no queues.\<close>

definition input_registers :: "(u8 \<times> u32) list" where
  "input_registers = [(0, 0x10521AF4), (4, 0), (0xC, 0), (0x10, 0), (0x14, 0), (0x18, 0), (0x1C, 0), (0x20, 0x4000), (0x24, 0),
     (0x34, 0x40), (0x3C, 0x10B), (0x40, 0x01105009), (0x44, 4), (0x48, 0), (0x4C, 56),
     (0x50, 0x02146409), (0x54, 4), (0x58, 0x2000), (0x5C, 4096), (0x60, 4),
     (0x64, 0x04107409), (0x68, 4), (0x6C, 0x1000), (0x70, 136),
     (0x74, 0x05140009), (0x78, 4), (0x7C, 0), (0x80, 0), (0x84, 0)]"

definition input_space :: "u32 \<Rightarrow> u32" where
  "input_space a = (case map_of (map (\<lambda>(off, v). (config_address_word 0 3 0 off, v)) input_registers) a of
     None \<Rightarrow> 0xFFFFFFFF | Some v \<Rightarrow> v)"

lemma input_space_other:
  assumes "slot < 32" and "func < 8" and "\<not> (bus = 0 \<and> slot = 3 \<and> func = 0)"
  shows "input_space (config_address_word bus slot func off) = 0xFFFFFFFF"
proof -
  have ne: "config_address_word bus slot func off \<noteq> config_address_word 0 3 0 o'" for o'
    using config_address_word_eq_iff [where bus = bus and bus' = 0 and slot = slot and slot' = 3 and func = func and func' = 0 and off = off and off' = o'] assms by auto
  have "map_of (map (\<lambda>(off, v). (config_address_word 0 3 0 off, v)) input_registers) (config_address_word bus slot func off) = None"
    by (auto simp: map_of_eq_None_iff ne)
  then show ?thesis by (simp add: input_space_def)
qed

lemma map_of_keys: "inj_on f (insert k (fst ` set xs)) \<Longrightarrow> map_of (map (\<lambda>(k, v). (f k, v)) xs) (f k) = map_of xs k"
  by (induction xs) (auto simp: inj_on_def)

lemma input_regs:
  assumes "config_space p = input_space"
  shows "pci_register p 0 3 0 off = (case map_of input_registers (off AND 0xFC) of None \<Rightarrow> 0xFFFFFFFF | Some v \<Rightarrow> v)"
proof -
  let ?k = "off AND 0xFC"
  have iff: "config_address_word 0 3 0 x = config_address_word 0 3 0 y \<longleftrightarrow> x AND 0xFC = y AND 0xFC" for x y
    using config_address_word_eq_iff [where bus = 0 and bus' = 0 and slot = 3 and slot' = 3 and func = 0 and func' = 0 and off = y and off' = x] by simp
  have al: "x AND 0xFC = x" if "x \<in> insert ?k (fst ` set input_registers)" for x
    using that by (auto simp: input_registers_def and.assoc)
  have inj: "inj_on (config_address_word 0 3 0) (insert ?k (fst ` set input_registers))"
    using iff al by (intro inj_onI) metis
  have "config_address_word 0 3 0 off = config_address_word 0 3 0 ?k" using iff by (simp add: and.assoc)
  then have "pci_register p 0 3 0 off = input_space (config_address_word 0 3 0 ?k)" by (simp add: pci_register_def assms)
  then show ?thesis unfolding input_space_def map_of_keys [OF inj] by simp
qed

lemma input_slot:
  assumes "config_space p = input_space" and "slot < 32"
  shows "slot_devices p bus slot = (if bus = 0 \<and> slot = 3 then [pci_at 0 3 0] else [])"
proof -
  have v: "vendor_at p bus slot f = (if bus = 0 \<and> slot = 3 \<and> f = 0 then 0x1AF4 else 0xFFFF)" if "f < 8" for f
    using input_regs [OF assms(1), of 0] input_space_other [where bus = bus and off = 0, OF assms(2) that]
    by (auto simp: vendor_at_def config_read_eqs input_registers_def) (auto simp: pci_register_def assms(1))
  have m: "\<not> multifunction p 0 3" using input_regs [OF assms(1), of "0xE"]
    by (simp add: multifunction_def config_read_eqs input_registers_def)
  have [simp]: "map of_nat [0..<8] = [0, 1, 2, 3, 4, 5, 6, 7 :: u8]" by (simp add: upt_rec)
  have pr: "present p bus slot f \<longleftrightarrow> bus = 0 \<and> slot = 3 \<and> f = 0" if "f < 8" for f
    using m v [OF that] v [of 0] by (auto simp: present_def split: if_splits)
  have "filter (present p bus slot) [0, 1, 2, 3, 4, 5, 6, 7] = filter (\<lambda>f. bus = 0 \<and> slot = 3 \<and> f = 0) [0, 1, 2, 3, 4, 5, 6, 7]"
    using pr by (intro filter_cong) auto
  then show ?thesis unfolding slot_devices_def by simp
qed

lemma input_bus:
  assumes "config_space p = input_space"
  shows "fst (Pcis_new p) = [pci_at 0 3 0]"
proof -
  have slot: "slot_devices p bus (of_nat k) = (if bus = 0 \<and> k = 3 then [pci_at 0 3 0] else [])" if "k < 32" for bus and k :: nat
  proof -
    have "unat (of_nat k :: u8) = k" using that by (intro unat_of_nat_small) simp
    then have "(of_nat k :: u8) < 32" "(of_nat k :: u8) = 3 \<longleftrightarrow> k = 3" using that by (simp_all add: word_less_nat_alt word_unat_eq_iff)
    with input_slot [OF assms, of "of_nat k" bus] show ?thesis by simp
  qed
  have bus: "concat (map (slot_devices p bus) (map of_nat [0..<32])) = (if bus = 0 then [pci_at 0 3 0] else [])" for bus
  proof -
    have "concat (map (slot_devices p bus) (map of_nat [0..<32])) = concat (map (\<lambda>k. if bus = 0 \<and> k = 3 then [pci_at 0 3 0] else []) [0..<32])"
      by (intro arg_cong [where f = concat]) (simp add: slot del: upt_rec_numeral)
    also have "\<dots> = concat (map (\<lambda>k. if bus = 0 \<and> k = 3 then [pci_at 0 3 0] else []) ([0, 1, 2, 3] @ [4..<32]))"
      by (rule arg_cong [where f = "\<lambda>ks. concat (map (\<lambda>k. if bus = 0 \<and> k = 3 then [pci_at 0 3 0] else []) ks)"]) (simp add: upt_rec)
    also have "\<dots> = (if bus = 0 then [pci_at 0 3 0] else [])"
      by (auto simp: concat_eq_Nil_conv simp del: upt_rec_numeral)
    finally show ?thesis .
  qed
  have "[0..<256] = 0 # [1..<256 :: nat]" by (simp add: upt_conv_Cons)
  moreover have "of_nat k \<noteq> (0 :: u8)" if "k \<in> set [1..<256]" for k :: nat
    using that unat_of_nat_small [of k, where 'a = 8] by auto
  ultimately show ?thesis unfolding Pcis_new_eq(1) bus by (auto simp: comp_def concat_eq_Nil_conv)
qed

lemma input_reads:
  assumes "config_space p = input_space"
  shows "Pci_config_read_u8 (pci_at 0 3 0) off p =
      (ucast (drop_bit (8 * unat (off AND 3)) (case map_of input_registers (off AND 0xFC) of None \<Rightarrow> 0xFFFFFFFF | Some v \<Rightarrow> v)),
       p\<lparr> port_config_address := config_address_word 0 3 0 off \<rparr>)"
    and "Pci_config_read_u32 (pci_at 0 3 0) off p =
      (case map_of input_registers (off AND 0xFC) of None \<Rightarrow> 0xFFFFFFFF | Some v \<Rightarrow> v, p\<lparr> port_config_address := config_address_word 0 3 0 off \<rparr>)"
    and "Pci_config_read_u16 (pci_at 0 3 0) off p =
      (ucast (drop_bit (if bit off 1 then 16 else 0) (case map_of input_registers (off AND 0xFC) of None \<Rightarrow> 0xFFFFFFFF | Some v \<Rightarrow> v)),
       p\<lparr> port_config_address := config_address_word 0 3 0 off \<rparr>)"
  using input_regs [OF assms]
  by (simp_all add: Pci_config_read_u8_def Pci_config_read_u16_def Pci_config_read_u32_def config_read_eqs pci_at_def)

lemma input_bar:
  assumes "config_space p = input_space" and "i < 6"
  shows "\<exists>q. get_bar (phys_new x86_crate) (pci_at 0 3 0) (of_nat i) p = Inr (if i = 4 then Bar_Mm 0x4000 else Bar_None, q) \<and>
    config_space q = input_space"
proof -
  have "i \<in> {0, 1, 2, 3, 4, 5}" using assms(2) by auto
  then show ?thesis
    by (auto simp: get_bar_def idx_to_enum_def input_reads [OF assms(1)] input_registers_def x86_crate_def res_map_def assms(1))
qed

lemma input_bars:
  assumes "config_space p = input_space"
  shows "\<exists>q. read_bars x86_crate (pci_at 0 3 0) p = Inr ((replicate 6 Bar_None)[4 := Bar_Mm 0x4000], q) \<and> config_space q = input_space"
proof -
  have "\<exists>q. res_fold (\<lambda>idx (bars, p). res_bind (get_bar (phys_new x86_crate) (pci_at 0 3 0) (of_nat idx) p)
         (\<lambda>(bar, p). res_bind (array_set bars idx bar) (\<lambda>bars. Inr (bars, p)))) [0..<n] (replicate 6 Bar_None, p) =
       Inr (if 4 < n then (replicate 6 Bar_None)[4 := Bar_Mm 0x4000] else replicate 6 Bar_None, q) \<and> config_space q = input_space"
    if "n \<le> 6" for n
    using that
  proof (induction n)
    case (Suc n)
    then obtain q where q: "res_fold (\<lambda>idx (bars, p). res_bind (get_bar (phys_new x86_crate) (pci_at 0 3 0) (of_nat idx) p)
         (\<lambda>(bar, p). res_bind (array_set bars idx bar) (\<lambda>bars. Inr (bars, p)))) [0..<n] (replicate 6 Bar_None, p) =
       Inr (if 4 < n then (replicate 6 Bar_None)[4 := Bar_Mm 0x4000] else replicate 6 Bar_None, q)" "config_space q = input_space"
      by auto
    from input_bar [OF q(2), of n] Suc.prems obtain r where
      "get_bar (phys_new x86_crate) (pci_at 0 3 0) (of_nat n) q = Inr (if n = 4 then Bar_Mm 0x4000 else Bar_None, r)" "config_space r = input_space" by auto
    then have "res_fold (\<lambda>idx (bars, p). res_bind (get_bar (phys_new x86_crate) (pci_at 0 3 0) (of_nat idx) p)
         (\<lambda>(bar, p). res_bind (array_set bars idx bar) (\<lambda>bars. Inr (bars, p)))) [0..<Suc n] (replicate 6 Bar_None, p) =
       Inr ((if 4 < n then (replicate 6 Bar_None)[4 := Bar_Mm 0x4000] else replicate 6 Bar_None)[n := if n = 4 then Bar_Mm 0x4000 else Bar_None], r)"
      using q Suc.prems by (simp add: res_fold_append array_set_def)
    moreover have "(if 4 < n then (replicate 6 Bar_None)[4 := Bar_Mm 0x4000] else replicate 6 Bar_None)[n := if n = 4 then Bar_Mm 0x4000 else Bar_None] =
        (if 4 < Suc n then (replicate 6 Bar_None)[4 := Bar_Mm 0x4000] else replicate 6 Bar_None)"
    proof -
      have "n \<in> {0, 1, 2, 3, 4, 5}" using Suc.prems by auto
      then show ?thesis by (auto simp: numeral_eq_Suc)
    qed
    ultimately show ?case using \<open>config_space r = input_space\<close> by (simp only: simp_thms) blast
  qed (use assms in simp)
  from this [of 6] show ?thesis by (simp add: read_bars_def del: upt_rec_numeral)
qed

lemma input_walk:
  assumes "config_space p = input_space"
  shows "\<exists>caps q. cap_walk x86_crate 0x18000000000 (pci_at 0 3 0) ((replicate 6 Bar_None)[4 := Bar_Mm 0x4000]) 256 0x40 (no_caps, p) =
      Some (Inr (caps, q)) \<and> complete_caps caps \<and> config_space q = input_space"
proof -
  let ?bars = "(replicate 6 Bar_None)[4 := Bar_Mm 0x4000]"
  note rd = input_reads input_registers_def array_get_def cap_pointer_def phys_to_virt_def x86_crate_def
    VirtioPciCapCommonCfg_def VirtioPciCapNotifyCfg_def VirtioPciCapDeviceCfg_def VirtioPciCapIsrCfg_def VirtioPciCapPciCfg_def
  have walk: "cap_walk x86_crate 0x18000000000 (pci_at 0 3 0) ?bars (numeral k) off (caps, p) =
      (if n = 0 then Some (Inr (caps', q)) else cap_walk x86_crate 0x18000000000 (pci_at 0 3 0) ?bars (pred_numeral k) n (caps', q))"
    if "cap_entry x86_crate 0x18000000000 (pci_at 0 3 0) ?bars off (caps, p) = Inr (caps', q')"
      "Pci_config_read_u8 (pci_at 0 3 0) (1 + off) q' = (n, q)" for caps p off caps' q' n q k
    using that by (simp add: numeral_eq_Suc)
  obtain q1 c1 where 1: "cap_entry x86_crate 0x18000000000 (pci_at 0 3 0) ?bars 0x40 (no_caps, p) = Inr (no_caps\<lparr> found_common := Some c1 \<rparr>, q1)"
    "config_space q1 = input_space"
    by (simp add: cap_entry_def assms rd)
  obtain q2 where 2: "Pci_config_read_u8 (pci_at 0 3 0) (1 + 0x40) q1 = (0x50, q2)" "config_space q2 = input_space"
    by (simp add: rd 1(2))
  obtain q3 c2 where 3: "cap_entry x86_crate 0x18000000000 (pci_at 0 3 0) ?bars 0x50 (no_caps\<lparr> found_common := Some c1 \<rparr>, q2) =
      Inr (no_caps\<lparr> found_common := Some c1, found_notify := Some c2 \<rparr>, q3)" "config_space q3 = input_space"
    by (simp add: cap_entry_def 2(2) rd)
  obtain q4 where 4: "Pci_config_read_u8 (pci_at 0 3 0) (1 + 0x50) q3 = (0x64, q4)" "config_space q4 = input_space"
    by (simp add: rd 3(2))
  obtain q5 c3 where 5: "cap_entry x86_crate 0x18000000000 (pci_at 0 3 0) ?bars 0x64
      (no_caps\<lparr> found_common := Some c1, found_notify := Some c2 \<rparr>, q4) =
      Inr (no_caps\<lparr> found_common := Some c1, found_notify := Some c2, found_device := Some c3 \<rparr>, q5)" "config_space q5 = input_space"
    by (simp add: cap_entry_def 4(2) rd)
  obtain q6 where 6: "Pci_config_read_u8 (pci_at 0 3 0) (1 + 0x64) q5 = (0x74, q6)" "config_space q6 = input_space"
    by (simp add: rd 5(2))
  obtain q7 c4 where 7: "cap_entry x86_crate 0x18000000000 (pci_at 0 3 0) ?bars 0x74
      (no_caps\<lparr> found_common := Some c1, found_notify := Some c2, found_device := Some c3 \<rparr>, q6) =
      Inr (no_caps\<lparr> found_common := Some c1, found_notify := Some c2, found_device := Some c3, found_pci_conf := Some c4 \<rparr>, q7)"
    "config_space q7 = input_space"
    by (simp add: cap_entry_def 6(2) rd)
  obtain q8 where 8: "Pci_config_read_u8 (pci_at 0 3 0) (1 + 0x74) q7 = (0, q8)" "config_space q8 = input_space"
    by (simp add: rd 7(2))
  show ?thesis
    using walk [OF 1(1) 2(1)] walk [OF 3(1) 4(1)] walk [OF 5(1) 6(1)] walk [OF 7(1) 8(1)] 8(2) by (simp add: complete_caps_def)
qed

lemma input_init:
  assumes "config_space p = input_space" and "num_queues (io_regs io) = 0" and "device_status (io_regs io) = 0"
  shows "\<exists>v q io'. Virtio_init x86_crate 0x18000000000 id get_page 8 256 (pci_at 0 3 0) (p, io, s) = Some (Inr (Some v, q, io', s)) \<and>
    config_space q = input_space \<and> virtio_pci v = pci_at 0 3 0 \<and> device_type v = DeviceType_Input"
proof -
  obtain p1 where r1: "Pci_config_read_u16 (pci_at 0 3 0) 2 p = (0x1052, p1)" "config_space p1 = input_space"
    by (simp add: input_reads input_registers_def assms(1))
  obtain p2 where r2: "read_bars x86_crate (pci_at 0 3 0) p1 = Inr ((replicate 6 Bar_None)[4 := Bar_Mm 0x4000], p2)" "config_space p2 = input_space"
    using input_bars [OF r1(2)] by blast
  obtain p3 where r3: "Pci_config_read_u8 (pci_at 0 3 0) 0x34 p2 = (0x40, p3)" "config_space p3 = input_space"
    by (simp add: input_reads input_registers_def r2(2))
  obtain caps p4 where r4: "cap_walk x86_crate 0x18000000000 (pci_at 0 3 0) ((replicate 6 Bar_None)[4 := Bar_Mm 0x4000]) 256 0x40 (no_caps, p3) =
      Some (Inr (caps, p4))" "complete_caps caps" "config_space p4 = input_space"
    using input_walk [OF r3(2)] by blast
  obtain io' where b: "bring_up id get_page 8 DeviceType_Input (io, s) = Inr ([], io', s)"
    by (simp add: bring_up_def add_status_def store_reg_def assms(2,3) device_config_def Let_def
        VirtioStatusFeatureOk_def VirtioStatusAcknowledge_def VirtioStatusDriver_def VirtioStatusDriverOk_def)
  from r4(2) obtain com conf devc notif where c: "found_common caps = Some com" "found_pci_conf caps = Some conf"
    "found_device caps = Some devc" "found_notify caps = Some notif" by (auto simp: complete_caps_def)
  show ?thesis
    using r1 r2 r3 r4 b c by (simp add: Virtio_init_def device_id_to_type_def DEVICE_ID_INPUT_def Virtio_queue_select_def split: prod.splits)
qed

definition sample_machine :: machine where
  "sample_machine = \<lparr> mc_ports = \<lparr> port_config_address = 0, config_space = input_space \<rparr>, mc_ioapic = (None, \<lambda>_. \<lparr> io_sel = 0, io_file = (\<lambda>_. 0) \<rparr>),
     mc_apic_base = 0xFEE00000, mc_lapic = (\<lambda>_. 0), mc_lapic_stores = [], mc_pic_writes = [], mc_interrupts = False \<rparr>"

lemma sample_interrupts:
  "\<exists>m. start_interrupts sample_boot sample_info 0x18000000000 sample_machine = Inr m \<and> mc_ports m = mc_ports sample_machine"
  by (simp add: start_interrupts_def sample_boot_def sample_info_def sample_machine_def expect_def res_unwrap_def x86_crate_def
      phys_to_virt_def LocalApic_init_def timer_freq_def program_io_apics_def res_map_def Let_def)

theorem kernel_start_witness:
  "\<exists>k. kernel_main sample_boot sample_info sample_machine = Some (Inr k) \<and>
    map (\<lambda>(v, io). (virtio_pci v, device_type v)) (kn_devices k) = [(pci_at 0 3 0, DeviceType_Input)] \<and>
    List.map_filter (\<lambda>d. map_option (Pair d) (kernel_device x86_crate (kn_voff k) 256 (mc_ports sample_machine) d))
      (fst (Pcis_new (mc_ports sample_machine))) = [(pci_at 0 3 0, DeviceType_Input)]"
proof -
  obtain pt and fa where mem: "start_memory sample_boot sample_info = Inr (0x18000000000, (pt, fa), HEAP_START, HEAP_SIZE)"
    using memory_starts_sample by blast
  obtain m where int: "start_interrupts sample_boot sample_info 0x18000000000 sample_machine = Inr m" "mc_ports m = mc_ports sample_machine"
    using sample_interrupts by blast
  have space: "config_space (mc_ports sample_machine) = input_space" by (simp add: sample_machine_def)
  obtain p where bus: "Pcis_new (mc_ports sample_machine) = ([pci_at 0 3 0], p)" "config_space p = input_space"
    using input_bus [OF space] Pcis_new_eq(2) [of "mc_ports sample_machine"] space by (metis prod.collapse)
  have probe: "\<exists>v q io'. probe x86_crate 0x18000000000 (\<lambda>_. id) get_page 8 256 (pci_at 0 3 0) io (p, s) = Some (Inr (Some (v, io'), q, s)) \<and>
      virtio_pci v = pci_at 0 3 0 \<and> device_type v = DeviceType_Input"
    if "num_queues (io_regs io) = 0" "device_status (io_regs io) = 0" for io :: "unit virtio_io" and get_page and s :: "flat_tables \<times> BootInfoFrameAllocator"
  proof -
    obtain p1 where r1: "Pci_config_read_u16 (pci_at 0 3 0) 6 p = (0, p1)" "config_space p1 = input_space"
      by (simp add: input_reads input_registers_def bus(2))
    obtain p2 where r2: "Pci_config_read_u16 (pci_at 0 3 0) 0 p1 = (0x1af4, p2)" "config_space p2 = input_space"
      by (simp add: input_reads input_registers_def r1(2))
    obtain p3 where r3: "Pci_config_read_u16 (pci_at 0 3 0) 2 p2 = (0x1052, p3)" "config_space p3 = input_space"
      by (simp add: input_reads input_registers_def r2(2))
    obtain p4 where r4: "get_irq (pci_at 0 3 0) p3 = (0xB, p4)" "config_space p4 = input_space"
      by (simp add: get_irq_def input_reads input_registers_def r3(2))
    obtain p5 where r5: "get_ipin (pci_at 0 3 0) p4 = (1, p5)" "config_space p5 = input_space"
      by (simp add: get_ipin_def input_reads input_registers_def r4(2))
    from input_init [OF r5(2) that, of get_page s] obtain v q io' where
      "Virtio_init x86_crate 0x18000000000 id get_page 8 256 (pci_at 0 3 0) (p5, io, s) = Some (Inr (Some v, q, io', s))"
      "virtio_pci v = pci_at 0 3 0" "device_type v = DeviceType_Input" by blast
    with r1 r2 r3 r4 r5 show ?thesis by (simp add: probe_def res_map_def)
  qed
  obtain k where k: "kernel_main sample_boot sample_info sample_machine = Some (Inr k)"
    and d: "map (\<lambda>(v, io). (virtio_pci v, device_type v)) (kn_devices k) = [(pci_at 0 3 0, DeviceType_Input)]"
  proof -
    obtain v q io' where "probe x86_crate 0x18000000000 (\<lambda>_. id) (identity_page x86_crate x86_page (allocate_frame x86_crate x86_page) flat_map_to) 8 256
        (pci_at 0 3 0) (sample_io\<lparr> io_regs := sample_regs\<lparr> num_queues := 0, device_status := 0 \<rparr> \<rparr>) (p, pt, fa) =
        Some (Inr (Some (v, io'), q, pt, fa))" and "virtio_pci v = pci_at 0 3 0" "device_type v = DeviceType_Input"
      using probe [of "sample_io\<lparr> io_regs := sample_regs\<lparr> num_queues := 0, device_status := 0 \<rparr> \<rparr>"
        "identity_page x86_crate x86_page (allocate_frame x86_crate x86_page) flat_map_to" "(pt, fa)"] by auto
    then show thesis
      using mem int bus that by (simp add: kernel_main_def res_unwrap_def res_map_def) (simp add: sample_boot_def sample_info_def)
  qed
  have env: "be_crate sample_boot = x86_crate" "be_fuel sample_boot = 256" by (simp_all add: sample_boot_def)
  note found = kernel_start [OF k, unfolded Pcis_new_eq(1) [symmetric] env, THEN conjunct1, unfolded d]
  show ?thesis by (intro exI conjI) (rule k, rule d, rule found [symmetric])
qed

end
