(* ===== verification/Interrupts.thy ===== *)
theory Interrupts
  imports Executor
begin

text \<open>
  Interrupts and time, \<^verbatim>\<open>src/bootloader/kernel/src/interrupts.rs\<close>: the interrupt descriptor table with what
  each handler does, the millisecond clock, the table of 128 wakers that the timer interrupt wakes, and
  the \<^verbatim>\<open>Timer\<close> future built on them.

  A handler is the list of its actions. The lock of the waker table is a spin lock taken by a
  future's poll and by the timer interrupt on the same processor; \<open>lock_step\<close> is the state machine of
  the two.
\<close>

section \<open>Definitions\<close>

subsection \<open>The descriptor table\<close>

datatype handler =
    breakpoint_handler | alignment_check | invalid_opcode | bound_range_exceeded
  | general_protection_fault | double_fault_handler | overflow_handler | invalid_tss_handler
  | segment_not_present_handler | stack_segment_fault_handler | alignment_check_handler
  | page_fault_handler | generic_handler | lapic_timer_handler | lapic_timer2_handler | ioapic_handler nat

record idt_entry =
  handler_fn :: handler
  stack_index :: "u16 option"

definition DOUBLE_FAULT_IST_INDEX :: u16 where
  "DOUBLE_FAULT_IST_INDEX = 0"

type_synonym idt = "nat \<Rightarrow> idt_entry option"

definition set_handler_fn :: "nat \<Rightarrow> handler \<Rightarrow> idt \<Rightarrow> idt" where
  "set_handler_fn v h t = t(v \<mapsto> \<lparr> handler_fn = h, stack_index = None \<rparr>)"

definition set_stack_index :: "nat \<Rightarrow> u16 \<Rightarrow> idt \<Rightarrow> idt" where
  "set_stack_index v i t = t(v := map_option (\<lambda>e. e\<lparr> stack_index := Some i \<rparr>) (t v))"

text \<open>The vectors of the exceptions are those of the processor: 3 breakpoint, 4 overflow, 5 bound range,
  6 invalid opcode, 8 double fault, 10 invalid TSS, 11 segment not present, 12 stack segment,
  13 general protection, 14 page fault, 17 alignment check.\<close>

definition IDT :: idt where
  "IDT =
     (let t = Map.empty;
          t = set_handler_fn 3 breakpoint_handler t;
          t = set_handler_fn 17 alignment_check t;
          t = set_handler_fn 6 invalid_opcode t;
          t = set_handler_fn 5 bound_range_exceeded t;
          t = set_handler_fn 13 general_protection_fault t;
          t = set_stack_index 8 DOUBLE_FAULT_IST_INDEX (set_handler_fn 8 double_fault_handler t);
          t = set_stack_index 4 DOUBLE_FAULT_IST_INDEX (set_handler_fn 4 overflow_handler t);
          t = set_handler_fn 10 invalid_tss_handler t;
          t = set_handler_fn 11 segment_not_present_handler t;
          t = set_handler_fn 12 stack_segment_fault_handler t;
          t = set_handler_fn 17 alignment_check_handler t;
          t = set_handler_fn 14 page_fault_handler t;
          t = fold (\<lambda>i. set_handler_fn i generic_handler) [32..<256] t;
          t = set_handler_fn 48 lapic_timer_handler t;
          t = set_handler_fn 49 lapic_timer2_handler t
      in fold (\<lambda>i. set_handler_fn (50 + i) (ioapic_handler i)) [0..<24] t)"

subsection \<open>What the handlers do\<close>

datatype irq_action =
    LogMessage string
  | SignalEoi
  | Abort string
  | TickAndWake
  | ReadRedirection nat
  | RewriteRedirection nat

text \<open>The messages of \<^verbatim>\<open>ioapic_handler_<i>\<close> for the 24 lines, in order.\<close>

fun handler_body :: "handler \<Rightarrow> irq_action list" where
  "handler_body breakpoint_handler = [LogMessage ''EXCEPTION: BREAKPOINT'']"
| "handler_body overflow_handler = [LogMessage ''EXCEPTION: overflow_handler'', Abort '''']"
| "handler_body invalid_tss_handler = [LogMessage ''EXCEPTION: invalid_tss'', Abort '''']"
| "handler_body segment_not_present_handler = [LogMessage ''EXCEPTION: segment_not_present'', Abort '''']"
| "handler_body stack_segment_fault_handler = [LogMessage ''EXCEPTION: stack_segment_fault'', Abort '''']"
| "handler_body alignment_check_handler = [LogMessage ''EXCEPTION: alignment_check'', Abort '''']"
| "handler_body double_fault_handler = [Abort ''EXCEPTION: DOUBLE FAULT'']"
| "handler_body alignment_check = [Abort ''EXCEPTION: alignment_check'']"
| "handler_body invalid_opcode = [Abort ''EXCEPTION: invalid_opcode'']"
| "handler_body bound_range_exceeded = [Abort ''EXCEPTION: bound_range_exceeded'']"
| "handler_body general_protection_fault = [Abort ''EXCEPTION: general_protection_fault'']"
| "handler_body page_fault_handler =
     [LogMessage ''EXCEPTION: PAGE FAULT'', LogMessage ''Accessed Address'', LogMessage ''Error Code'',
      Abort ''EXCEPTION: PAGE FAULT'']"
| "handler_body generic_handler = [LogMessage ''______generic_handler_____'']"
| "handler_body lapic_timer_handler = [SignalEoi, TickAndWake]"
| "handler_body lapic_timer2_handler = [LogMessage ''timer2'']"
| "handler_body (ioapic_handler i) =
     (if i = 1 then [LogMessage ''ioapic_handler'', ReadRedirection 1, LogMessage ''red'', SignalEoi]
      else if i = 2 then [ReadRedirection 2, RewriteRedirection 2, SignalEoi]
      else if i = 10 \<or> i = 11 then [LogMessage ''ioapic_handler'', SignalEoi]
      else [LogMessage ''ioapic_handler''])"

subsection \<open>Time and wakers\<close>

text \<open>\<^verbatim>\<open>TIME_MS\<close> and the table \<^verbatim>\<open>WAKERS\<close>; a waker is the id of the task it wakes. The static \<^verbatim>\<open>WAKER\<close> is never
  registered, so waking it does nothing.\<close>

record timer_state =
  TIME_MS :: u64
  WAKERS :: "u64 option list"

definition WAKERS_SIZE :: nat where
  "WAKERS_SIZE = 128"

definition timer_init :: timer_state where
  "timer_init = \<lparr> TIME_MS = 0, WAKERS = replicate WAKERS_SIZE None \<rparr>"

definition lapic_timer :: "timer_state \<times> 'f Executor \<Rightarrow> (timer_state \<times> 'f Executor) res" where
  "lapic_timer s =
     (let (ts, e) = s; ts = ts\<lparr> TIME_MS := TIME_MS ts + 1 \<rparr>
      in res_bind (res_fold (\<lambda>w e. case w of None \<Rightarrow> Inr e | Some i \<Rightarrow> wake_task i e) (WAKERS ts) e)
           (\<lambda>e. Inr (ts\<lparr> WAKERS := map (\<lambda>_. None) (WAKERS ts) \<rparr>, e)))"

definition global_time_ms :: "timer_state \<Rightarrow> u64" where
  "global_time_ms ts = TIME_MS ts"

text \<open>\<^verbatim>\<open>wait_block\<close> ends at the first reading of the clock beyond the deadline; \<open>clock\<close> is the sequence of
  readings.\<close>

fun wait_block :: "u64 \<Rightarrow> u64 \<Rightarrow> u64 list \<Rightarrow> bool" where
  "wait_block current ms [] = False"
| "wait_block current ms (t # clock) = (if current + ms < t then True else wait_block current ms clock)"

fun find_free_slot :: "u64 option list \<Rightarrow> nat option" where
  "find_free_slot [] = None"
| "find_free_slot (None # ws) = Some 0"
| "find_free_slot (Some w # ws) = map_option Suc (find_free_slot ws)"

definition add_waker :: "u64 \<Rightarrow> timer_state \<Rightarrow> u64 \<times> timer_state" where
  "add_waker waker ts =
     (case find_free_slot (WAKERS ts) of
        Some i \<Rightarrow> (of_nat i, ts\<lparr> WAKERS := (WAKERS ts)[i := Some waker] \<rparr>)
      | None \<Rightarrow> (0, ts))"

definition Timer_new :: "u64 \<Rightarrow> timer_state \<Rightarrow> u64" where
  "Timer_new ms ts = global_time_ms ts + ms"

text \<open>\<open>between\<close> is what happens between the registration and the second look at the clock (an interrupt
  may come in).\<close>

definition Timer_poll :: "(timer_state \<Rightarrow> timer_state) \<Rightarrow> u64 \<Rightarrow> u64 \<Rightarrow> timer_state \<Rightarrow> u64 poll \<times> timer_state" where
  "Timer_poll between stop waker ts =
     (if stop \<le> global_time_ms ts then (Ready, ts)
      else let (id, ts) = add_waker waker ts; ts = between ts
           in if stop \<le> global_time_ms ts then (Ready, ts) else (Pending stop, ts))"

subsection \<open>Specification vocabulary\<close>

text \<open>The rule by which a local APIC delivers an interrupt: its priority class must be above that of every
  interrupt still in service.\<close>

definition apic_delivers :: "nat list \<Rightarrow> nat \<Rightarrow> bool" where
  "apic_delivers in_service v \<longleftrightarrow> (\<forall>u \<in> set in_service. u div 16 < v div 16)"

definition in_service_after :: "nat list \<Rightarrow> nat \<Rightarrow> nat list" where
  "in_service_after in_service v =
     (case IDT v of None \<Rightarrow> v # in_service
      | Some e \<Rightarrow> if SignalEoi \<in> set (handler_body (handler_fn e)) then in_service else v # in_service)"

text \<open>The spin lock of the waker table on one processor: the polling task runs only while no interrupt
  handler does.\<close>

datatype lock_owner = Nobody | PollingTask | TimerInterrupt

datatype irq_phase = NoInterrupt | Spinning | InHandler

inductive lock_step :: "lock_owner \<times> irq_phase \<Rightarrow> lock_owner \<times> irq_phase \<Rightarrow> bool" where
  task_locks: "lock_step (Nobody, NoInterrupt) (PollingTask, NoInterrupt)"
| task_unlocks: "lock_step (PollingTask, NoInterrupt) (Nobody, NoInterrupt)"
| interrupt: "lock_step (l, NoInterrupt) (l, Spinning)"
| handler_locks: "lock_step (Nobody, Spinning) (TimerInterrupt, InHandler)"
| handler_ends: "lock_step (TimerInterrupt, InHandler) (Nobody, NoInterrupt)"

code_pred lock_step .

section \<open>The table\<close>

lemma set_handler_fn_apply [simp]:
  "set_handler_fn v h t u = (if u = v then Some \<lparr> handler_fn = h, stack_index = None \<rparr> else t u)"
  by (simp add: set_handler_fn_def)

lemma set_stack_index_apply [simp]:
  "set_stack_index v i t u = (if u = v then map_option (\<lambda>e. e\<lparr> stack_index := Some i \<rparr>) (t v) else t u)"
  by (simp add: set_stack_index_def)

lemma fold_set_handler_inj:
  "inj_on g (set is) \<Longrightarrow> i \<in> set is \<Longrightarrow>
     fold (\<lambda>i. set_handler_fn (g i) (h i)) is t (g i) = Some \<lparr> handler_fn = h i, stack_index = None \<rparr>"
proof (induction "is" rule: rev_induct)
  case Nil
  then show ?case by simp
next
  case (snoc x xs)
  show ?case
  proof (cases "g i = g x")
    case True
    from inj_onD [OF snoc.prems(1) True snoc.prems(2)] have "i = x" by simp
    then show ?thesis by simp
  next
    case False
    moreover have "inj_on g (set xs)" using snoc.prems(1) by (auto intro: inj_on_subset)
    moreover have "i \<in> set xs" using snoc.prems(2) False by auto
    ultimately show ?thesis using snoc.IH by simp
  qed
qed

lemma fold_set_handler_other:
  "(\<And>i. i \<in> set is \<Longrightarrow> g i \<noteq> u) \<Longrightarrow> fold (\<lambda>i. set_handler_fn (g i) (h i)) is t u = t u"
  by (induction "is" arbitrary: t) auto

lemma IDT_ioapic: "i < 24 \<Longrightarrow> IDT (50 + i) = Some \<lparr> handler_fn = ioapic_handler i, stack_index = None \<rparr>"
  unfolding IDT_def Let_def by (rule fold_set_handler_inj) (auto simp: inj_on_def)

lemma IDT_device:
  assumes "32 \<le> v" and "v < 256" and "v < 50 \<or> 74 \<le> v"
  shows "IDT v = Some \<lparr> handler_fn = (if v = 48 then lapic_timer_handler else if v = 49 then lapic_timer2_handler
     else generic_handler), stack_index = None \<rparr>"
proof -
  have "50 + i \<noteq> v" if "i \<in> set [0..<24]" for i
    using that assms(3) by (auto simp only: set_upt atLeastLessThan_iff)
  then have io: "fold (\<lambda>i. set_handler_fn (50 + i) (ioapic_handler i)) [0..<24] t v = t v" for t
    by (rule fold_set_handler_other)
  have "fold (\<lambda>i. set_handler_fn i generic_handler) [32..<256] t v =
      Some \<lparr> handler_fn = generic_handler, stack_index = None \<rparr>" for t
    using assms(1,2) by (intro fold_set_handler_inj [where g = "\<lambda>i. i"]) (simp_all del: upt_rec_numeral)
  then show ?thesis
    unfolding IDT_def Let_def io by (simp del: upt_rec_numeral)
qed

section \<open>Wakers\<close>

lemma find_free_slot_Some:
  "find_free_slot ws = Some i \<Longrightarrow> i < length ws \<and> ws ! i = None \<and> (\<forall>j < i. ws ! j \<noteq> None)"
proof (induction ws arbitrary: i rule: find_free_slot.induct)
  case (3 w ws)
  then show ?case by (auto simp: less_Suc_eq_0_disj)
qed simp_all

lemma find_free_slot_None: "find_free_slot ws = None \<longleftrightarrow> None \<notin> set ws"
  by (induction ws rule: find_free_slot.induct) auto

lemma length_filter_update: "length (filter P (xs[i := x])) \<le> Suc (length (filter P xs))"
proof (induction xs arbitrary: i)
  case (Cons a xs)
  show ?case
  proof (cases i)
    case (Suc j)
    with Cons.IH [of j] show ?thesis by simp
  qed simp
qed simp

lemma wake_registered:
  assumes "length (task_queue e) + length (filter (\<lambda>w. w \<noteq> None) ws) \<le> QUEUE_SIZE"
  shows "res_fold (\<lambda>w e. case w of None \<Rightarrow> Inr e | Some i \<Rightarrow> wake_task i e) ws e =
    Inr (e\<lparr> task_queue := task_queue e @ map the (filter (\<lambda>w. w \<noteq> None) ws) \<rparr>)"
  using assms
proof (induction ws arbitrary: e)
  case Nil
  then show ?case by simp
next
  case (Cons w ws)
  show ?case
  proof (cases w)
    case None
    with Cons show ?thesis by simp
  next
    case (Some i)
    with Cons.prems have "wake_task i e = Inr (e\<lparr> task_queue := task_queue e @ [i] \<rparr>)"
      by (simp add: wake_task_def aq_push_def)
    with Some Cons.prems Cons.IH [of "e\<lparr> task_queue := task_queue e @ [i] \<rparr>"] show ?thesis by simp
  qed
qed

section \<open>Properties\<close>

text \<open>every vector from 32 to 255 has a handler: the timer on 48, the I/O APIC lines
  0 to 23 on 50 to 73 (the vectors the redirection table is programmed with), a generic one on the
  rest; and of these only the timer and the lines 1, 2, 10 and 11 signal the end of the interrupt. After
  an interrupt on any other line the local APIC delivers no timer interrupt any more.\<close>

theorem interrupt_vectors:
  "(\<forall>v. 32 \<le> v \<longrightarrow> v < 256 \<longrightarrow> (\<exists>e. IDT v = Some e \<and> handler_fn e =
      (if v = 48 then lapic_timer_handler else if v = 49 then lapic_timer2_handler
       else if 50 \<le> v \<and> v < 74 then ioapic_handler (v - 50) else generic_handler))) \<and>
   (\<forall>i < 24. in_service_after [] (50 + i) = [] \<longleftrightarrow> i \<in> {1, 2, 10, 11}) \<and>
   (\<forall>i < 24. i \<notin> {1, 2, 10, 11} \<longrightarrow> \<not> apic_delivers (in_service_after [] (50 + i)) 48) \<and>
   in_service_after [] 48 = []"
proof (intro conjI allI impI)
  fix v :: nat assume v: "32 \<le> v" "v < 256"
  show "\<exists>e. IDT v = Some e \<and> handler_fn e =
      (if v = 48 then lapic_timer_handler else if v = 49 then lapic_timer2_handler
       else if 50 \<le> v \<and> v < 74 then ioapic_handler (v - 50) else generic_handler)"
  proof (cases "50 \<le> v \<and> v < 74")
    case True
    then have "v - 50 < 24" by auto
    from IDT_ioapic [OF this] True show ?thesis by simp
  next
    case False
    then show ?thesis using IDT_device [OF v] by auto
  qed
next
  fix i :: nat assume i: "i < 24"
  then show "in_service_after [] (50 + i) = [] \<longleftrightarrow> i \<in> {1, 2, 10, 11}"
    by (simp add: in_service_after_def IDT_ioapic)
  assume "i \<notin> {1, 2, 10, 11}"
  with i show "\<not> apic_delivers (in_service_after [] (50 + i)) 48"
    by (simp add: in_service_after_def IDT_ioapic apic_delivers_def)
next
  show "in_service_after [] 48 = []" using IDT_device [of 48] by (simp add: in_service_after_def)
qed

theorem interrupt_vectors_witness:
  "(\<exists>e. IDT 50 = Some e \<and> handler_fn e = ioapic_handler 0) \<and>
   \<not> apic_delivers (in_service_after [] 50) 48"
proof -
  have "\<exists>e. IDT 50 = Some e \<and> handler_fn e = ioapic_handler (50 - 50)"
    using interrupt_vectors [THEN conjunct1, rule_format, of 50] by simp
  moreover have "\<not> apic_delivers (in_service_after [] (50 + 0)) 48"
    using interrupt_vectors [THEN conjunct2, THEN conjunct2, THEN conjunct1, rule_format, of 0] by simp
  ultimately show ?thesis by simp
qed





end
