(* ===== verification/Segment_Tables.thy ===== *)
theory Segment_Tables
  imports Interrupts Frame_Alloc
begin

text \<open>
  The segment tables (\<^verbatim>\<open>gdt.rs\<close>): the global descriptor table with its selectors, the task state segment with the
  stack for double faults, and \<^verbatim>\<open>init\<close>, which loads the processor's registers. Shown: whatever exception is raised
  after the start, the processor runs its handler on the stack that the descriptor table of \<^verbatim>\<open>Interrupts\<close> asks for.

  The table of descriptors is the \<^verbatim>\<open>x86_64\<close> crate's: a parameter, with what the crate documents about it.
\<close>

section \<open>The tables\<close>

record TaskStateSegment =
  interrupt_stack_table :: "u64 list"

text \<open>\<^verbatim>\<open>TaskStateSegment::new\<close>: seven stacks, none of them set.\<close>

definition TaskStateSegment_new :: TaskStateSegment where
  "TaskStateSegment_new = \<lparr> interrupt_stack_table = replicate 7 0 \<rparr>"

text \<open>The descriptors the kernel asks the crate for.\<close>

datatype segment_descriptor = Kernel_code_segment | Kernel_data_segment | Tss_segment TaskStateSegment

record ('g, 's) gdt_crate =
  gdt_new :: 'g
  gdt_add_entry :: "segment_descriptor \<Rightarrow> 'g \<Rightarrow> ('s \<times> 'g) res"

record 's Selectors =
  code_selector :: 's
  tss_selector :: 's
  data_selector :: 's

definition TSS :: "addr_crate \<Rightarrow> u64 \<Rightarrow> TaskStateSegment res" where
  "TSS X stack =
     (let tss = TaskStateSegment_new;
          STACK_SIZE = 4 * 1024
      in res_bind (virt_new X stack)
           (\<lambda>stack_start. res_bind (virt_add X stack_start STACK_SIZE)
             (\<lambda>stack_end. res_map (\<lambda>stacks. tss\<lparr> interrupt_stack_table := stacks \<rparr>)
               (array_set (interrupt_stack_table tss) (unat DOUBLE_FAULT_IST_INDEX) stack_end))))"

definition GDT :: "addr_crate \<Rightarrow> ('g, 's) gdt_crate \<Rightarrow> u64 \<Rightarrow> ('g \<times> 's Selectors) res" where
  "GDT X C stack =
     res_bind (gdt_add_entry C Kernel_code_segment (gdt_new C))
       (\<lambda>(code, gdt). res_bind (gdt_add_entry C Kernel_data_segment gdt)
         (\<lambda>(data, gdt). res_bind (TSS X stack)
           (\<lambda>tss. res_map (\<lambda>(tss_sel, gdt). (gdt, \<lparr> code_selector = code, tss_selector = tss_sel, data_selector = data \<rparr>))
             (gdt_add_entry C (Tss_segment tss) gdt))))"

section \<open>Loading them\<close>

text \<open>The registers of the processor that \<^verbatim>\<open>init\<close> loads. The boot loader's values are gone with its table.\<close>

record ('g, 's) segment_registers =
  gdtr :: "'g option"
  reg_cs :: "'s option"
  reg_ds :: "'s option"
  reg_es :: "'s option"
  reg_ss :: "'s option"
  reg_tr :: "'s option"

definition gdt_init :: "addr_crate \<Rightarrow> ('g, 's) gdt_crate \<Rightarrow> u64 \<Rightarrow> ('g, 's) segment_registers \<Rightarrow>
    ('g, 's) segment_registers res" where
  "gdt_init X C stack cpu =
     res_map
       (\<lambda>(gdt, sel).
          let cpu = cpu\<lparr> gdtr := Some gdt \<rparr>;
              cpu = cpu\<lparr> reg_ds := Some (data_selector sel) \<rparr>;
              cpu = cpu\<lparr> reg_es := Some (data_selector sel) \<rparr>;
              cpu = cpu\<lparr> reg_ss := Some (data_selector sel) \<rparr>;
              cpu = cpu\<lparr> reg_cs := Some (code_selector sel) \<rparr>
          in cpu\<lparr> reg_tr := Some (tss_selector sel) \<rparr>)
       (GDT X C stack)"

section \<open>What the crate and the processor document\<close>

text \<open>A descriptor takes one slot of the table, that of a task state two. The table has eight slots, the first of
  them for the null descriptor. A selector finds the descriptor it was returned for.\<close>

fun slots_of :: "segment_descriptor \<Rightarrow> nat" where
  "slots_of (Tss_segment tss) = 2"
| "slots_of Kernel_code_segment = 1"
| "slots_of Kernel_data_segment = 1"

definition gdt_crate_ok :: "('g \<Rightarrow> nat) \<Rightarrow> ('g \<Rightarrow> 's \<Rightarrow> segment_descriptor option) \<Rightarrow> ('g, 's) gdt_crate \<Rightarrow> bool" where
  "gdt_crate_ok slots look C \<longleftrightarrow> slots (gdt_new C) = 1 \<and>
     (\<forall>d g. slots g + slots_of d \<le> 8 \<longrightarrow>
        (\<exists>s g'. gdt_add_entry C d g = Inr (s, g') \<and> slots g' = slots g + slots_of d \<and> look g' s = Some d \<and>
           (\<forall>s'. look g s' \<noteq> None \<longrightarrow> look g' s' = look g s')))"

text \<open>The stack on which the processor enters the handler of vector \<open>v\<close>, when the kernel runs with the stack
  pointer \<open>rsp\<close>: the entry's stack in the task state segment if it names one, else the same stack. (There
  is no change of the privilege level.)\<close>

definition selects :: "('g \<Rightarrow> 's \<Rightarrow> segment_descriptor option) \<Rightarrow> ('g, 's) segment_registers \<Rightarrow> 's option \<Rightarrow>
    segment_descriptor option" where
  "selects look cpu s = Option.bind (gdtr cpu) (\<lambda>g. Option.bind s (look g))"

definition exception_stack :: "('g \<Rightarrow> 's \<Rightarrow> segment_descriptor option) \<Rightarrow> ('g, 's) segment_registers \<Rightarrow> idt \<Rightarrow> u64 \<Rightarrow>
    nat \<Rightarrow> u64 option" where
  "exception_stack look cpu table rsp v =
     (case table v of
        None \<Rightarrow> None
      | Some e \<Rightarrow>
          (case stack_index e of
             None \<Rightarrow> Some rsp
           | Some i \<Rightarrow>
               (case selects look cpu (reg_tr cpu) of
                  Some (Tss_segment tss) \<Rightarrow>
                    if unat i < length (interrupt_stack_table tss) then Some (interrupt_stack_table tss ! unat i) else None
                | _ \<Rightarrow> None)))"

section \<open>Lemmas\<close>

lemma gdt_add_entryE:
  assumes "gdt_crate_ok slots look C" and "slots g + slots_of d \<le> 8"
  obtains s g' where "gdt_add_entry C d g = Inr (s, g')" and "slots g' = slots g + slots_of d" and "look g' s = Some d"
    and "\<And>s' d'. look g s' = Some d' \<Longrightarrow> look g' s' = Some d'"
  using assms unfolding gdt_crate_ok_def by (metis option.distinct(1))

lemma fold_set_handler_stack:
  "fold (\<lambda>i. set_handler_fn (g i) (h i)) is t v = Some e \<Longrightarrow> stack_index e = None \<or> t v = Some e"
proof (induction "is" arbitrary: t)
  case (Cons i "is")
  from Cons.IH [of "set_handler_fn (g i) (h i) t"] Cons.prems show ?case by (auto split: if_splits)
qed simp

text \<open>Only overflow and double fault have a stack of their own, the same one.\<close>

lemma IDT_stack_index:
  "IDT v = Some e \<Longrightarrow> stack_index e = (if v = 4 \<or> v = 8 then Some 0 else None)"
proof -
  assume e: "IDT v = Some e"
  show ?thesis
  proof (cases "v < 32")
    case True
    then have "fold (\<lambda>i. set_handler_fn (50 + i) (ioapic_handler i)) [0..<24] t v = t v"
      "fold (\<lambda>i. set_handler_fn i generic_handler) [32..<256] t v = t v" for t
      by (auto intro!: fold_set_handler_other simp del: upt_rec_numeral)
    with e True show ?thesis
      unfolding IDT_def Let_def by (auto simp: DOUBLE_FAULT_IST_INDEX_def simp del: upt_rec_numeral split: if_splits)
  next
    case False
    with e show ?thesis
      unfolding IDT_def Let_def
      by (auto simp del: upt_rec_numeral split: if_splits dest!: fold_set_handler_stack)
  qed
qed

lemma IDT_own_stack: "IDT 4 \<noteq> None" "IDT 8 \<noteq> None"
proof -
  have "fold (\<lambda>i. set_handler_fn (50 + i) (ioapic_handler i)) [0..<24] t v = t v"
    "fold (\<lambda>i. set_handler_fn i generic_handler) [32..<256] t v = t v" if "v < 32" for t v
    using that by (auto intro!: fold_set_handler_other simp del: upt_rec_numeral)
  then show "IDT 4 \<noteq> None" "IDT 8 \<noteq> None"
    unfolding IDT_def Let_def by (simp_all del: upt_rec_numeral)
qed

lemma TSS_value:
  assumes "virt_new X stack = Inr stack" and "virt_add X stack 4096 = Inr (stack + 4096)"
  shows "TSS X stack = Inr \<lparr> interrupt_stack_table = (replicate 7 0)[0 := stack + 4096] \<rparr>"
  using assms by (simp add: TSS_def TaskStateSegment_new_def DOUBLE_FAULT_IST_INDEX_def array_set_def Let_def)

text \<open>The table is built without a panic: it needs five of its eight slots.\<close>

lemma GDT_value:
  assumes "gdt_crate_ok slots look C" and "virt_new X stack = Inr stack" and "virt_add X stack 4096 = Inr (stack + 4096)"
  obtains g sel where "GDT X C stack = Inr (g, sel)" and "look g (code_selector sel) = Some Kernel_code_segment"
    and "look g (data_selector sel) = Some Kernel_data_segment"
    and "look g (tss_selector sel) = Some (Tss_segment \<lparr> interrupt_stack_table = (replicate 7 0)[0 := stack + 4096] \<rparr>)"
proof -
  have new: "slots (gdt_new C) = 1" using assms(1) by (simp add: gdt_crate_ok_def)
  obtain c g1 where 1: "gdt_add_entry C Kernel_code_segment (gdt_new C) = Inr (c, g1)" "slots g1 = 2"
    "look g1 c = Some Kernel_code_segment"
    by (rule gdt_add_entryE [OF assms(1), of "gdt_new C" Kernel_code_segment]) (auto simp: new)
  obtain d g2 where 2: "gdt_add_entry C Kernel_data_segment g1 = Inr (d, g2)" "slots g2 = 3"
    "look g2 d = Some Kernel_data_segment" "look g2 c = Some Kernel_code_segment"
    by (rule gdt_add_entryE [OF assms(1), of g1 Kernel_data_segment]) (auto simp: 1)
  let ?tss = "Tss_segment \<lparr> interrupt_stack_table = (replicate 7 0)[0 := stack + 4096] \<rparr>"
  obtain s g3 where 3: "gdt_add_entry C ?tss g2 = Inr (s, g3)" "look g3 s = Some ?tss"
    "look g3 d = Some Kernel_data_segment" "look g3 c = Some Kernel_code_segment"
    by (rule gdt_add_entryE [OF assms(1), of g2 ?tss]) (auto simp: 2)
  show thesis
    by (rule that [of g3 "\<lparr> code_selector = c, tss_selector = s, data_selector = d \<rparr>"])
      (use 1 2 3 in \<open>simp_all add: GDT_def TSS_value [OF assms(2,3)]\<close>)
qed

text \<open>After \<^verbatim>\<open>gdt::init\<close> the code and the data registers select the kernel's segments, and a double fault
  (vector 8) or an overflow (vector 4) is handled on the stack of 4096 bytes that the kernel keeps
  for it, from its top; every other entry of the descriptor table is entered on the current stack.
  Building the tables does not panic.\<close>

theorem double_fault_stack:
  assumes "gdt_crate_ok slots look C" and "virt_new X stack = Inr stack" and "virt_add X stack 4096 = Inr (stack + 4096)"
  shows "\<exists>cpu'. gdt_init X C stack cpu = Inr cpu' \<and>
    selects look cpu' (reg_cs cpu') = Some Kernel_code_segment \<and>
    (\<forall>s \<in> {reg_ds cpu', reg_es cpu', reg_ss cpu'}. selects look cpu' s = Some Kernel_data_segment) \<and>
    (\<forall>v. exception_stack look cpu' IDT rsp v =
       map_option (\<lambda>e. if v = 4 \<or> v = 8 then stack + 4096 else rsp) (IDT v)) \<and>
    IDT 4 \<noteq> None \<and> IDT 8 \<noteq> None"
proof -
  obtain g sel where "GDT X C stack = Inr (g, sel)" and "look g (code_selector sel) = Some Kernel_code_segment"
    and "look g (data_selector sel) = Some Kernel_data_segment"
    and "look g (tss_selector sel) = Some (Tss_segment \<lparr> interrupt_stack_table = (replicate 7 0)[0 := stack + 4096] \<rparr>)"
    by (rule GDT_value [OF assms])
  then show ?thesis
    using IDT_own_stack by (auto simp: gdt_init_def selects_def exception_stack_def IDT_stack_index Let_def split: option.split)
qed

text \<open>A table as the crate has it, with a stack at 4 MiB.\<close>

definition gdt_list :: "(segment_descriptor option list, nat) gdt_crate" where
  "gdt_list = \<lparr> gdt_new = [None],
     gdt_add_entry = (\<lambda>d g. if length g + slots_of d \<le> 8
       then Inr (length g, g @ Some d # replicate (slots_of d - 1) None) else Inl (Panicked ''GDT full'')) \<rparr>"

lemma gdt_list_ok: "gdt_crate_ok length (\<lambda>g s. if s < length g then g ! s else None) gdt_list"
proof -
  have pos: "slots_of d \<noteq> 0" for d by (cases d) simp_all
  then have slots: "Suc (slots_of d - Suc 0) = slots_of d" for d by (metis Suc_pred' neq0_conv One_nat_def)
  show ?thesis by (auto simp: gdt_crate_ok_def gdt_list_def nth_append slots pos)
qed

theorem double_fault_stack_witness:
  "\<exists>cpu'. gdt_init x86_crate gdt_list 0x400000
      \<lparr> gdtr = None, reg_cs = None, reg_ds = None, reg_es = None, reg_ss = None, reg_tr = None \<rparr> = Inr cpu' \<and>
    exception_stack (\<lambda>g s. if s < length g then g ! s else None) cpu' IDT 0x7000 8 = Some 0x401000"
proof -
  let ?look = "\<lambda>g (s::nat). if s < length g then g ! s else None"
  have "virt_new x86_crate 0x400000 = Inr 0x400000" "virt_add x86_crate 0x400000 4096 = Inr (0x400000 + 4096)"
    by (simp_all add: x86_crate_def)
  from double_fault_stack [OF gdt_list_ok this, of _ "0x7000"] show ?thesis by fastforce
qed

end
