(* ===== verification/Kernel_Log.thy ===== *)
theory Kernel_Log
  imports Framebuffer
begin

text \<open>
  Output of the kernel: the logger (\<^verbatim>\<open>src/bootloader/kernel/src/logger.rs\<close>) with the serial port (\<^verbatim>\<open>serial.rs\<close>), and the
  copy of the shared buffer to the boot frame buffer (\<^verbatim>\<open>FB::flush\<close> in \<^verbatim>\<open>framebuffer.rs\<close>).

  The \<^verbatim>\<open>log\<close> crate is what its documentation says: a logger that can be set once, and a filter. The UART crate is
  a parameter that takes the characters of a line. A spin lock is its data and whether it is held; taking one that
  is held does not return (\<open>None\<close>), because there is one processor and interrupts are disabled meanwhile.

  The lemmas show that a message goes to the serial port only: since \<^verbatim>\<open>write_str\<close> of the frame buffer writer does
  nothing, logging never changes the frame buffer. Logging returns and leaves the locks free if they were free; an
  exception handler that logs while a message is being written does not return, unless it calls
  \<^verbatim>\<open>force_unlock\<close> before.
\<close>

section \<open>Definitions\<close>

datatype Level = Level_Error | Level_Warn | Level_Info | Level_Debug | Level_Trace

datatype LevelFilter = Filter_Off | Filter_Error | Filter_Warn | Filter_Info | Filter_Debug | Filter_Trace

text \<open>The filter of the \<^verbatim>\<open>log\<close> crate has the same constructors as that of the boot loader's configuration.\<close>

datatype log_LevelFilter = log_Off | log_Error | log_Warn | log_Info | log_Debug | log_Trace

primrec convert_level :: "LevelFilter \<Rightarrow> log_LevelFilter" where
  "convert_level Filter_Off = log_Off"
| "convert_level Filter_Error = log_Error"
| "convert_level Filter_Warn = log_Warn"
| "convert_level Filter_Info = log_Info"
| "convert_level Filter_Debug = log_Debug"
| "convert_level Filter_Trace = log_Trace"

record 'a Spinlock =
  lock_data :: 'a
  lock_held :: bool

definition Spinlock_new :: "'a \<Rightarrow> 'a Spinlock" where
  "Spinlock_new x = \<lparr> lock_data = x, lock_held = False \<rparr>"

text \<open>Take the lock, change the data, release the lock at the end of the block.\<close>

definition with_lock :: "('a \<Rightarrow> 'a) \<Rightarrow> 'a Spinlock \<Rightarrow> 'a Spinlock option" where
  "with_lock f l = (if lock_held l then None else Some (l\<lparr> lock_data := f (lock_data l) \<rparr>))"

record 'u LockedLogger =
  lg_framebuffer :: "FrameBufferWriter Spinlock option"
  lg_serial :: "'u Spinlock option"

definition LockedLogger_new :: "'u \<Rightarrow> u8 list \<Rightarrow> FrameBufferInfo \<Rightarrow> bool \<Rightarrow> bool \<Rightarrow> 'u LockedLogger" where
  "LockedLogger_new uart fb i frame_buffer_logger_status serial_logger_status =
     \<lparr> lg_framebuffer = (if frame_buffer_logger_status then Some (Spinlock_new (FrameBufferWriter_new fb i)) else None),
       lg_serial = (if serial_logger_status then Some (Spinlock_new uart) else None) \<rparr>"

definition LockedLogger_force_unlock :: "'u LockedLogger \<Rightarrow> 'u LockedLogger" where
  "LockedLogger_force_unlock lg =
     (let lg = lg\<lparr> lg_framebuffer := map_option (\<lambda>l. l\<lparr> lock_held := False \<rparr>) (lg_framebuffer lg) \<rparr>
      in lg\<lparr> lg_serial := map_option (\<lambda>l. l\<lparr> lock_held := False \<rparr>) (lg_serial lg) \<rparr>)"

text \<open>A line: the level in a field of five characters, the message, the end of the line.\<close>

primrec level_name :: "Level \<Rightarrow> string" where
  "level_name Level_Error = ''ERROR''"
| "level_name Level_Warn = ''WARN ''"
| "level_name Level_Info = ''INFO ''"
| "level_name Level_Debug = ''DEBUG''"
| "level_name Level_Trace = ''TRACE''"

definition log_line :: "Level \<Rightarrow> string \<Rightarrow> string" where
  "log_line l args = level_name l @ '': '' @ args @ [CHR 0x0A]"

definition SerialPort_write_str :: "(char \<Rightarrow> 'u \<Rightarrow> 'u) \<Rightarrow> string \<Rightarrow> 'u \<Rightarrow> 'u" where
  "SerialPort_write_str send s port = fold send s port"

definition LockedLogger_log :: "(char \<Rightarrow> 'u \<Rightarrow> 'u) \<Rightarrow> Level \<Rightarrow> string \<Rightarrow> 'u LockedLogger \<Rightarrow>
    'u LockedLogger option" where
  "LockedLogger_log send l args lg =
     Option.bind
       (case lg_framebuffer lg of
          None \<Rightarrow> Some lg
        | Some spinlock \<Rightarrow>
            map_option (\<lambda>fb. lg\<lparr> lg_framebuffer := Some fb \<rparr>)
              (with_lock (\<lambda>fb.
                 let fb = (if l = Level_Error then fb\<lparr> level := 1 \<rparr> else fb);
                     fb = FrameBufferWriter_write_str (log_line l args) fb
                 in fb\<lparr> level := 0 \<rparr>) spinlock))
       (\<lambda>lg. case lg_serial lg of
          None \<Rightarrow> Some lg
        | Some serial \<Rightarrow>
            map_option (\<lambda>port. lg\<lparr> lg_serial := Some port \<rparr>)
              (with_lock (SerialPort_write_str send (log_line l args)) serial))"

text \<open>What the \<^verbatim>\<open>log\<close> crate keeps: whether a logger is set, and the filter; and the cell of the kernel's logger.\<close>

record 'u log_state =
  log_cell :: "'u LockedLogger option"
  log_set :: bool
  log_max :: log_LevelFilter

definition init_logger :: "'u \<Rightarrow> (char \<Rightarrow> 'u \<Rightarrow> 'u) \<Rightarrow> (FrameBufferInfo \<Rightarrow> string) \<Rightarrow> u8 list \<Rightarrow> FrameBufferInfo \<Rightarrow> LevelFilter \<Rightarrow>
    bool \<Rightarrow> bool \<Rightarrow> 'u log_state \<Rightarrow> 'u log_state res option" where
  "init_logger uart send debug fb i log_level fb_status serial_status s =
     (let logger = (case log_cell s of Some lg \<Rightarrow> lg | None \<Rightarrow> LockedLogger_new uart fb i fb_status serial_status)
      in if log_set s then Some (Inl (Panicked ''logger already set''))
         else let s = s\<lparr> log_cell := Some logger, log_set := True, log_max := convert_level log_level \<rparr>
              in if log_max s \<in> {log_Info, log_Debug, log_Trace}
                 then map_option (\<lambda>lg. Inr (s\<lparr> log_cell := Some lg \<rparr>))
                        (LockedLogger_log send Level_Info (''Framebuffer info: '' @ debug i) logger)
                 else Some (Inr s))"

text \<open>\<^verbatim>\<open>FB::flush\<close> copies as many bytes as the frame buffer has from the memory of the pixels. Beyond the last pixel
  that is undefined.\<close>

definition undefined_read :: panic where
  "undefined_read = Panicked ''undefined behaviour: a read beyond the pixels''"

definition pixel_bytes :: "RGBA list \<Rightarrow> u8 list" where
  "pixel_bytes px = concat (map (\<lambda>p. [px_r p, px_g p, px_b p, px_a p]) px)"

definition FB_flush :: "u8 list \<Rightarrow> FB \<Rightarrow> u8 list res" where
  "FB_flush fbuf fb =
     (if length (pixel_bytes (pixels fb)) < length fbuf then Inl undefined_read
      else Inr (take (length fbuf) (pixel_bytes (pixels fb))))"

section \<open>Lemmas\<close>

definition lock_free :: "'a Spinlock option \<Rightarrow> bool" where
  "lock_free x \<longleftrightarrow> (case x of None \<Rightarrow> True | Some l \<Rightarrow> \<not> lock_held l)"

lemma log_keeps_framebuffer:
  assumes "lock_free (lg_framebuffer lg)" and "lock_free (lg_serial lg)"
  shows "\<exists>lg'. LockedLogger_log send l args lg = Some lg' \<and> lock_free (lg_framebuffer lg') \<and> lock_free (lg_serial lg') \<and>
    map_option (framebuffer \<circ> lock_data) (lg_framebuffer lg') = map_option (framebuffer \<circ> lock_data) (lg_framebuffer lg) \<and>
    map_option lock_data (lg_serial lg') = map_option (fold send (log_line l args) \<circ> lock_data) (lg_serial lg)"
  using assms
  by (cases "lg_framebuffer lg"; cases "lg_serial lg")
    (simp_all add: LockedLogger_log_def with_lock_def lock_free_def SerialPort_write_str_def FrameBufferWriter_write_str_def)

text \<open>A message inside of a message does not return, and \<^verbatim>\<open>force_unlock\<close> is what lets it.\<close>

lemma log_returns_iff:
  "LockedLogger_log send l args lg \<noteq> None \<longleftrightarrow> lock_free (lg_framebuffer lg) \<and> lock_free (lg_serial lg)"
  by (cases "lg_framebuffer lg"; cases "lg_serial lg") (simp_all add: LockedLogger_log_def with_lock_def lock_free_def)

lemma force_unlock_frees:
  "lock_free (lg_framebuffer (LockedLogger_force_unlock lg))" "lock_free (lg_serial (LockedLogger_force_unlock lg))"
  by (simp_all add: LockedLogger_force_unlock_def lock_free_def split: option.split)

text \<open>A second initialisation panics; the first one clears the frame buffer, which stays clear.\<close>

lemma init_logger_once:
  "log_set s \<Longrightarrow> init_logger uart send dbg fb i lvl a b s = Some (Inl (Panicked ''logger already set''))"
  "\<not> log_set s \<Longrightarrow> log_cell s = None \<Longrightarrow> \<exists>s' lg. init_logger uart send dbg fb i lvl True b s = Some (Inr s') \<and> log_set s' \<and>
     log_max s' = convert_level lvl \<and> log_cell s' = Some lg \<and>
     map_option (framebuffer \<circ> lock_data) (lg_framebuffer lg) = Some (map (\<lambda>_. 0) fb) \<and>
     lock_free (lg_framebuffer lg) \<and> lock_free (lg_serial lg) \<and> (lg_serial lg \<noteq> None \<longleftrightarrow> b)"
proof -
  let ?lg = "LockedLogger_new uart fb i True b"
  have "lock_free (lg_framebuffer ?lg)" "lock_free (lg_serial ?lg)"
    "map_option (framebuffer \<circ> lock_data) (lg_framebuffer ?lg) = Some (map (\<lambda>_. 0) fb)"
    "lg_serial ?lg \<noteq> None \<longleftrightarrow> b"
    by (simp_all add: LockedLogger_new_def Spinlock_new_def lock_free_def FrameBufferWriter_new_def FrameBufferWriter_clear_def)
  with log_keeps_framebuffer [of ?lg send Level_Info "''Framebuffer info: '' @ dbg i"]
  show "\<not> log_set s \<Longrightarrow> log_cell s = None \<Longrightarrow> \<exists>s' lg. init_logger uart send dbg fb i lvl True b s = Some (Inr s') \<and> log_set s' \<and>
     log_max s' = convert_level lvl \<and> log_cell s' = Some lg \<and>
     map_option (framebuffer \<circ> lock_data) (lg_framebuffer lg) = Some (map (\<lambda>_. 0) fb) \<and>
     lock_free (lg_framebuffer lg) \<and> lock_free (lg_serial lg) \<and> (lg_serial lg \<noteq> None \<longleftrightarrow> b)"
    by (auto simp: init_logger_def Let_def)
qed (simp add: init_logger_def)

lemma length_pixel_bytes: "length (pixel_bytes px) = 4 * length px"
  by (induction px) (simp_all add: pixel_bytes_def)

lemma pixel_bytes_nth:
  "i < length px \<Longrightarrow> j < 4 \<Longrightarrow> pixel_bytes px ! (4 * i + j) = [px_r (px ! i), px_g (px ! i), px_b (px ! i), px_a (px ! i)] ! j"
proof (induction px arbitrary: i)
  case (Cons p px)
  have split: "pixel_bytes (p # px) = [px_r p, px_g p, px_b p, px_a p] @ pixel_bytes px" by (simp add: pixel_bytes_def)
  show ?case
  proof (cases i)
    case 0
    with Cons.prems show ?thesis unfolding split nth_append by simp
  next
    case (Suc k)
    with Cons.IH [of k] Cons.prems show ?thesis unfolding split nth_append by simp
  qed
qed simp

lemma FB_flush_ok:
  assumes "length fbuf \<le> 4 * length (pixels fb)"
  shows "\<exists>out. FB_flush fbuf fb = Inr out \<and> length out = length fbuf \<and>
     (\<forall>i j. 4 * i + j < length fbuf \<longrightarrow> j < 4 \<longrightarrow>
        out ! (4 * i + j) = [px_r (pixels fb ! i), px_g (pixels fb ! i), px_b (pixels fb ! i), px_a (pixels fb ! i)] ! j)"
  using assms by (simp add: FB_flush_def length_pixel_bytes pixel_bytes_nth)

end
