(* ===== verification/Kernel_Entry.thy ===== *)
theory Kernel_Entry
  imports Kernel_Start Segment_Tables Kernel_Log
begin

text \<open>
  The entry of the kernel: what \<^verbatim>\<open>kernel_main\<close> in \<^verbatim>\<open>src/bootloader/kernel/src/main.rs\<close> does before it looks at the memory (segment
  tables, interrupt table, logger), followed by the part that \<^verbatim>\<open>Kernel_Start\<close> models. Shown: from then on every exception
  has its handler and its stack, and the logger is ready, whatever the rest of the start does.
\<close>

text \<open>\<^verbatim>\<open>init_idt\<close> loads the table \<open>IDT\<close>, which is the same whenever it is built.\<close>

definition kernel_begin :: "addr_crate \<Rightarrow> ('g, 's) gdt_crate \<Rightarrow> u64 \<Rightarrow> 'u \<Rightarrow> (char \<Rightarrow> 'u \<Rightarrow> 'u) \<Rightarrow> (FrameBufferInfo \<Rightarrow> string) \<Rightarrow>
    u8 list \<Rightarrow> BootInfo \<Rightarrow> ('g, 's) segment_registers \<Rightarrow> 'u log_state \<Rightarrow>
    (('g, 's) segment_registers \<times> idt \<times> 'u log_state) res option" where
  "kernel_begin X C stack uart send debug fbm bi cpu logs =
     (case res_bind (gdt_init X C stack cpu) (\<lambda>cpu. res_map (\<lambda>fbinfo. (cpu, IDT, fbinfo)) (res_unwrap (boot_framebuffer bi))) of
        Inl e \<Rightarrow> Some (Inl e)
      | Inr (cpu, table, fbinfo) \<Rightarrow>
          map_option (res_map (\<lambda>logs. (cpu, table, logs))) (init_logger uart send debug fbm fbinfo Filter_Trace True True logs))"

definition kernel_entry :: "('d, 'p) boot_env \<Rightarrow> ('g, 's) gdt_crate \<Rightarrow> u64 \<Rightarrow> 'u \<Rightarrow> (char \<Rightarrow> 'u \<Rightarrow> 'u) \<Rightarrow>
    (FrameBufferInfo \<Rightarrow> string) \<Rightarrow> u8 list \<Rightarrow> BootInfo \<Rightarrow> ('g, 's) segment_registers \<Rightarrow> 'u log_state \<Rightarrow> machine \<Rightarrow>
    (('g, 's) segment_registers \<times> idt \<times> 'u log_state \<times> ('d, 'p) kernel_state) res option" where
  "kernel_entry E C stack uart send debug fbm bi cpu logs m =
     (case kernel_begin (be_crate E) C stack uart send debug fbm bi cpu logs of
        None \<Rightarrow> None
      | Some (Inl e) \<Rightarrow> Some (Inl e)
      | Some (Inr (cpu, table, logs)) \<Rightarrow> map_option (res_map (\<lambda>k. (cpu, table, logs, k))) (kernel_main E bi m))"

text \<open>C31: The entry of the kernel ends as its later part does (\<open>kernel_main\<close>: memory, controllers, devices, tasks), and before that
  part begins it has loaded the kernel's segments; exceptions are ready: a double fault (vector 8) or an
  overflow (vector 4) is handled from the top of the stack of 4096 bytes that the kernel keeps for it, every
  other entry of the table on the current stack; and the logger is set, with its locks free and
  the frame buffer cleared, so that a message reaches the serial port.\<close>

theorem kernel_entry_ready:
  assumes "gdt_crate_ok slots look C" and "virt_new (be_crate E) stack = Inr stack"
    and "virt_add (be_crate E) stack 4096 = Inr (stack + 4096)"
    and "boot_framebuffer bi = Some fbinfo" and "\<not> log_set logs" and "log_cell logs = None"
  shows "\<exists>cpu' logs' lg. kernel_entry E C stack uart send debug fbm bi cpu logs m =
      map_option (res_map (\<lambda>k. (cpu', IDT, logs', k))) (kernel_main E bi m) \<and>
    selects look cpu' (reg_cs cpu') = Some Kernel_code_segment \<and> selects look cpu' (reg_ss cpu') = Some Kernel_data_segment \<and>
    (\<forall>v. exception_stack look cpu' IDT rsp v = map_option (\<lambda>e. if v = 4 \<or> v = 8 then stack + 4096 else rsp) (IDT v)) \<and>
    IDT 4 \<noteq> None \<and> IDT 8 \<noteq> None \<and>
    log_set logs' \<and> log_max logs' = log_Trace \<and> log_cell logs' = Some lg \<and>
    map_option (framebuffer \<circ> lock_data) (lg_framebuffer lg) = Some (map (\<lambda>_. 0) fbm) \<and>
    (\<exists>lg' port. LockedLogger_log send l args lg = Some lg' \<and>
       map_option lock_data (lg_serial lg) = Some port \<and> map_option lock_data (lg_serial lg') = Some (fold send (log_line l args) port))"
proof -
  from double_fault_stack [OF assms(1-3), of cpu rsp] obtain cpu' where
    cpu: "gdt_init (be_crate E) C stack cpu = Inr cpu'"
      "selects look cpu' (reg_cs cpu') = Some Kernel_code_segment" "selects look cpu' (reg_ss cpu') = Some Kernel_data_segment"
    and stacks: "\<forall>v. exception_stack look cpu' IDT rsp v = map_option (\<lambda>e. if v = 4 \<or> v = 8 then stack + 4096 else rsp) (IDT v)"
      "IDT 4 \<noteq> None" "IDT 8 \<noteq> None" by auto
  from init_logger_once(2) [OF assms(5,6), of uart send debug fbm fbinfo Filter_Trace True] obtain logs' lg where
    log: "init_logger uart send debug fbm fbinfo Filter_Trace True True logs = Some (Inr logs')"
    and set: "log_set logs'" "log_max logs' = log_Trace" "log_cell logs' = Some lg"
      "map_option (framebuffer \<circ> lock_data) (lg_framebuffer lg) = Some (map (\<lambda>_. 0) fbm)"
    and free: "lock_free (lg_framebuffer lg)" "lock_free (lg_serial lg)" and serial: "lg_serial lg \<noteq> None" by auto
  from cpu(1) log assms(4) have entry: "kernel_entry E C stack uart send debug fbm bi cpu logs m =
      map_option (res_map (\<lambda>k. (cpu', IDT, logs', k))) (kernel_main E bi m)"
    by (simp add: kernel_entry_def kernel_begin_def res_unwrap_def)
  from log_keeps_framebuffer [OF free, of send l args] serial obtain lg' port where line:
    "LockedLogger_log send l args lg = Some lg'" "map_option lock_data (lg_serial lg) = Some port"
    "map_option lock_data (lg_serial lg') = Some (fold send (log_line l args) port)"
    by auto
  show ?thesis
    by (intro exI conjI) (fact entry cpu stacks set line)+
qed

theorem kernel_entry_ready_witness:
  "\<exists>cpu' logs' lg. kernel_entry sample_boot gdt_list 0x400000 [] (#) (\<lambda>_. ''info'') [1, 2, 3] sample_info
      \<lparr> gdtr = None, reg_cs = None, reg_ds = None, reg_es = None, reg_ss = None, reg_tr = None \<rparr>
      \<lparr> log_cell = None, log_set = False, log_max = log_Off \<rparr> sample_machine =
      map_option (res_map (\<lambda>k. (cpu', IDT, logs', k))) (kernel_main sample_boot sample_info sample_machine) \<and>
    exception_stack (\<lambda>g s. if s < length g then g ! s else None) cpu' IDT 0x7000 8 = Some 0x401000 \<and>
    exception_stack (\<lambda>g s. if s < length g then g ! s else None) cpu' IDT 0x7000 14 = map_option (\<lambda>_. 0x7000) (IDT 14) \<and>
    log_cell logs' = Some lg"
proof -
  let ?look = "\<lambda>g (s::nat). if s < length g then g ! s else None"
  have crate: "virt_new (be_crate sample_boot) 0x400000 = Inr 0x400000"
    "virt_add (be_crate sample_boot) 0x400000 4096 = Inr (0x400000 + 4096)"
    by (simp_all add: sample_boot_def x86_crate_def)
  obtain fbinfo where fb: "boot_framebuffer sample_info = Some fbinfo" by (simp add: sample_info_def)
  let ?logs = "\<lparr> log_cell = None, log_set = False, log_max = log_Off \<rparr> :: string log_state"
  have "\<not> log_set ?logs" "log_cell ?logs = None" by simp_all
  from kernel_entry_ready [OF gdt_list_ok crate fb this, of "[]" "(#)" "\<lambda>_. ''info''" "[1, 2, 3]"
      "\<lparr> gdtr = None, reg_cs = None, reg_ds = None, reg_es = None, reg_ss = None, reg_tr = None \<rparr>"
      sample_machine "0x7000" Level_Info "''ok''"]
  obtain cpu' logs' lg where run: "kernel_entry sample_boot gdt_list 0x400000 [] (#) (\<lambda>_. ''info'') [1, 2, 3] sample_info
      \<lparr> gdtr = None, reg_cs = None, reg_ds = None, reg_es = None, reg_ss = None, reg_tr = None \<rparr> ?logs sample_machine =
      map_option (res_map (\<lambda>k. (cpu', IDT, logs', k))) (kernel_main sample_boot sample_info sample_machine)"
    and stacks: "\<forall>v. exception_stack ?look cpu' IDT 0x7000 v =
      map_option (\<lambda>e. if v = 4 \<or> v = 8 then 0x400000 + 4096 else 0x7000) (IDT v)" "IDT 8 \<noteq> None"
    and cell: "log_cell logs' = Some lg"
    by (elim exE conjE) (rule that)
  from stacks have "exception_stack ?look cpu' IDT 0x7000 8 = Some 0x401000" by auto
  moreover from stacks(1) have "exception_stack ?look cpu' IDT 0x7000 14 = map_option (\<lambda>_. 0x7000) (IDT 14)" by simp
  ultimately show ?thesis using run cell by (intro exI conjI)
qed

end
