(* ===== verification/Small_Apps.thy ===== *)
theory Small_Apps
  imports Console_Window Kernel_Start
begin

text \<open>
  The small apps: \<^verbatim>\<open>app_cursor\<close>, which draws the pointer, \<^verbatim>\<open>app_background\<close>, which draws an image behind
  everything, and \<^verbatim>\<open>app_test\<close>, which logs its number; with the hooks of \<^verbatim>\<open>st.rs\<close> (the same file in every app), through
  which an app reaches the kernel's logger and allocator.

  The crates \<^verbatim>\<open>vek\<close> (vectors) and \<^verbatim>\<open>imagine\<close> (the picture) and the operations of \<^verbatim>\<open>f32\<close> are parameters.

  The lemmas show that the cursor changes only pixels near the pointer, that the background sets the colour of
  every pixel and nothing else, and that neither app panics.
\<close>

section \<open>Definitions\<close>

subsection \<open>The hooks\<close>

record 'l Logger =
  log_hook :: "u8 list \<Rightarrow> 'l \<Rightarrow> 'l"

definition Logger_init :: "'l Logger" where
  "Logger_init = \<lparr> log_hook = (\<lambda>s l. l) \<rparr>"

definition Logger_swap :: "(u8 list \<Rightarrow> 'l \<Rightarrow> 'l) \<Rightarrow> 'l Logger \<Rightarrow> 'l Logger" where
  "Logger_swap f2 self = self\<lparr> log_hook := f2 \<rparr>"

definition st_log :: "'l Logger \<Rightarrow> u8 list \<Rightarrow> 'l \<Rightarrow> 'l" where
  "st_log LOGGER s = log_hook LOGGER s"

record 'h AllocFromCtx =
  alloc_hook :: "usize \<Rightarrow> usize \<Rightarrow> 'h \<Rightarrow> (u64 \<times> 'h) res"
  dealloc_hook :: "u64 \<Rightarrow> usize \<Rightarrow> usize \<Rightarrow> 'h \<Rightarrow> 'h res"

definition a_init :: "usize \<Rightarrow> usize \<Rightarrow> 'h \<Rightarrow> (u64 \<times> 'h) res" where
  "a_init sz align h = Inl (Panicked '''')"

definition d_init :: "u64 \<Rightarrow> usize \<Rightarrow> usize \<Rightarrow> 'h \<Rightarrow> 'h res" where
  "d_init p sz align h = Inl (Panicked '''')"

definition AllocFromCtx_init :: "'h AllocFromCtx" where
  "AllocFromCtx_init = \<lparr> alloc_hook = a_init, dealloc_hook = d_init \<rparr>"

definition AllocFromCtx_swap :: "(usize \<Rightarrow> usize \<Rightarrow> 'h \<Rightarrow> (u64 \<times> 'h) res) \<Rightarrow> (u64 \<Rightarrow> usize \<Rightarrow> usize \<Rightarrow> 'h \<Rightarrow> 'h res) \<Rightarrow>
    'h AllocFromCtx \<Rightarrow> 'h AllocFromCtx" where
  "AllocFromCtx_swap ctx_calloc ctx_cdalloc self = self\<lparr> alloc_hook := ctx_calloc, dealloc_hook := ctx_cdalloc \<rparr>"

definition AllocFromCtx_alloc :: "'h AllocFromCtx \<Rightarrow> usize \<times> usize \<Rightarrow> 'h \<Rightarrow> (u64 \<times> 'h) res" where
  "AllocFromCtx_alloc self layout = alloc_hook self (fst layout) (snd layout)"

definition AllocFromCtx_dealloc :: "'h AllocFromCtx \<Rightarrow> u64 \<Rightarrow> usize \<times> usize \<Rightarrow> 'h \<Rightarrow> 'h res" where
  "AllocFromCtx_dealloc self p layout = dealloc_hook self p (fst layout) (snd layout)"

subsection \<open>The cursor\<close>

record 'f f32_app = "'f f32_ops" +
  f_less :: "'f \<Rightarrow> 'f \<Rightarrow> bool"
  f_clamp :: "'f \<Rightarrow> 'f \<Rightarrow> 'f \<Rightarrow> 'f"
  f_to_usize :: "'f \<Rightarrow> nat"
  f_cos :: "'f \<Rightarrow> 'f"

text \<open>The vectors of the crate: \<open>vec_scale\<close> is a vector times a number, \<open>vec_scaled\<close> a number times a vector.\<close>

record ('f, 'v) vek_ops =
  vec_new :: "'f \<Rightarrow> 'f \<Rightarrow> 'v"
  vec_x :: "'v \<Rightarrow> 'f"
  vec_y :: "'v \<Rightarrow> 'f"
  vec_add :: "'v \<Rightarrow> 'v \<Rightarrow> 'v"
  vec_sub :: "'v \<Rightarrow> 'v \<Rightarrow> 'v"
  vec_scale :: "'v \<Rightarrow> 'f \<Rightarrow> 'v"
  vec_scaled :: "'f \<Rightarrow> 'v \<Rightarrow> 'v"
  vec_dot :: "'v \<Rightarrow> 'v \<Rightarrow> 'f"
  vec_magnitude :: "'v \<Rightarrow> 'f"

record CursorStore =
  cur_x :: usize
  cur_y :: usize
  cur_xm :: usize
  cur_ym :: usize

definition cro :: "'f f32_app \<Rightarrow> ('f, 'v) vek_ops \<Rightarrow> 'v \<Rightarrow> 'v \<Rightarrow> 'f" where
  "cro fl vk a b = f_sub fl (f_mul fl (vec_x vk a) (vec_y vk b)) (f_mul fl (vec_y vk a) (vec_x vk b))"

definition sd_bezier :: "'f f32_app \<Rightarrow> ('f, 'v) vek_ops \<Rightarrow> 'v \<Rightarrow> 'v \<Rightarrow> 'v \<Rightarrow> 'v \<Rightarrow> 'f" where
  "sd_bezier fl vk p v0 v1 v2 =
     (let mid = vec_scale vk (vec_add vk v0 v2) (f_lit fl ''0.5'');
          to_v1 = vec_sub vk v1 mid;
          v1 = vec_add vk v1 (vec_scale vk to_v1 (f_lit fl ''1.''));
          i = vec_sub vk v0 v2;
          j = vec_sub vk v2 v1;
          k = vec_sub vk v1 v0;
          w = vec_sub vk j k;
          v0 = vec_sub vk v0 p;
          v1 = vec_sub vk v1 p;
          v2 = vec_sub vk v2 p;
          x = cro fl vk v0 v2;
          y = cro fl vk v1 v0;
          z = cro fl vk v2 v1;
          s = vec_sub vk (vec_scaled vk (f_lit fl ''2.0'') (vec_add vk (vec_scaled vk y j) (vec_scaled vk z k))) (vec_scaled vk x i);
          r = f_div fl (f_sub fl (f_mul fl y z) (f_mul fl (f_mul fl x x) (f_lit fl ''0.25''))) (vec_dot vk s s);
          t = f_clamp fl (f_div fl (f_add fl (f_add fl (f_mul fl (f_lit fl ''0.5'') x) y) (f_mul fl r (vec_dot vk s w)))
                (f_add fl (f_add fl x y) z)) (f_lit fl ''0.0'') (f_lit fl ''1.0'')
      in vec_magnitude vk (vec_add vk v0 (vec_scaled vk t (vec_add vk (vec_add vk k k) (vec_scaled vk t w)))))"

text \<open>\<^verbatim>\<open>abs\<close> of an \<^verbatim>\<open>i32\<close>.\<close>

definition i32_abs :: "32 word \<Rightarrow> 32 word" where
  "i32_abs d = (if sint d < 0 then - d else d)"

definition near_pointer :: "Input \<Rightarrow> nat \<Rightarrow> nat \<Rightarrow> bool" where
  "near_pointer inp x y \<longleftrightarrow>
     sint (i32_abs (of_nat x - ucast (mouse_x inp)) + i32_abs (of_nat y - ucast (mouse_y inp))) < 80"

text \<open>The left button as the app reads it, a byte.\<close>

definition cursor_pixel :: "'f f32_app \<Rightarrow> ('f, 'v) vek_ops \<Rightarrow> Input \<Rightarrow> 'v \<Rightarrow> 'v \<Rightarrow> 'v \<Rightarrow> nat \<Rightarrow> nat \<Rightarrow> RGBA \<Rightarrow> RGBA res" where
  "cursor_pixel fl vk inp am a b x y p =
     (if near_pointer inp x y then
        (let pos = vec_new vk (f_of_int fl (int x)) (f_of_int fl (int y));
             d = sd_bezier fl vk pos am a b
         in if f_less fl d (f_lit fl ''3.'') then
              (let p = p\<lparr> px_r := 255 \<rparr>
               in res_map (\<lambda>k. let left_click = KeyState_repr k
                    in if left_click < 128 then p\<lparr> px_g := 255, px_b := 255 \<rparr>
                       else if left_click = 128 then p\<lparr> px_g := 255, px_b := 0 \<rparr>
                       else p\<lparr> px_g := 0, px_b := 0 \<rparr>)
                    (array_get (keys inp) 0x110))
            else if f_less fl d (f_lit fl ''4.'') then Inr (p\<lparr> px_r := 0, px_g := 0, px_b := 0 \<rparr>)
            else Inr p)
      else Inr p)"

text \<open>The loop over the pixels of the screen.\<close>

definition each_pixel :: "(nat \<Rightarrow> nat \<Rightarrow> RGBA \<Rightarrow> RGBA res) \<Rightarrow> AppFB \<Rightarrow> AppFB res" where
  "each_pixel f fb =
     (let w = unat (app_w fb)
      in res_map (\<lambda>px. fb\<lparr> app_pixels := px \<rparr>)
           (res_fold (\<lambda>(x, y) px. res_bind (array_get px (x + y * w)) (\<lambda>p. res_map (\<lambda>p. px[x + y * w := p]) (f x y p)))
              (grid w (unat (app_h fb))) (app_pixels fb)))"

definition cursor_start :: "'f f32_app \<Rightarrow> ('f, 'v) vek_ops \<Rightarrow> Context \<Rightarrow> CursorStore option \<Rightarrow> (u32 \<times> CursorStore option \<times> AppFB) res" where
  "cursor_start fl vk ctx cell =
     (let mx = mouse_x (ctx_input ctx); my = mouse_y (ctx_input ctx);
          store = (case cell of Some ptr \<Rightarrow> ptr | None \<Rightarrow> \<lparr> cur_x = mx, cur_y = my, cur_xm = mx, cur_ym = my \<rparr>);
          f = (\<lambda>n. f_of_int fl (uint n)); eps = f_lit fl ''0.01'';
          am = vec_new vk (f_add fl (f (cur_xm store)) eps) (f (cur_ym store));
          a = vec_new vk (f (cur_x store)) (f (cur_y store));
          b = vec_new vk (f_add fl (f mx) eps) (f_add fl (f my) eps)
      in res_map (\<lambda>fb. (0, Some (store\<lparr> cur_xm := cur_x store, cur_ym := cur_y store, cur_x := mx, cur_y := my \<rparr>), fb))
           (each_pixel (cursor_pixel fl vk (ctx_input ctx) am a b) (ctx_fb ctx)))"

subsection \<open>The background\<close>

record Bitmap =
  bitmap_width :: u32
  bitmap_height :: u32
  bitmap_pixels :: "RGBA list"

definition background_pixel :: "'f f32_app \<Rightarrow> Bitmap \<Rightarrow> AppFB \<Rightarrow> nat \<Rightarrow> nat \<Rightarrow> RGBA \<Rightarrow> RGBA res" where
  "background_pixel fl pix fb x y p =
     (let lx = f_div fl (f_of_int fl (int x)) (f_of_int fl (uint (app_w fb)));
          ly = f_div fl (f_of_int fl (int y)) (f_of_int fl (uint (app_h fb)));
          px = f_to_usize fl (f_mul fl lx (f_of_int fl (uint (bitmap_width pix))));
          py = f_to_usize fl (f_mul fl ly (f_of_int fl (uint (bitmap_height pix))))
      in res_map (\<lambda>v. p\<lparr> px_r := px_r v, px_g := px_g v, px_b := px_b v \<rparr>)
           (array_get (bitmap_pixels pix) (px + py * unat (bitmap_width pix))))"

text \<open>\<open>png\<close> is what the crate makes of the picture.\<close>

definition background_start :: "'f f32_app \<Rightarrow> Bitmap option \<Rightarrow> Context \<Rightarrow> Bitmap option \<Rightarrow> (u32 \<times> Bitmap option \<times> AppFB) res" where
  "background_start fl png ctx cell =
     (case (case cell of Some ptr \<Rightarrow> Some ptr | None \<Rightarrow> png) of
        None \<Rightarrow> Inr (- 1, None, ctx_fb ctx)
      | Some store \<Rightarrow>
          (let dx = f_to_usize fl (f_mul fl (f_cos fl (f_mul fl (f_of_int fl (uint (ctx_start_time ctx))) (f_lit fl ''0.001''))) (f_lit fl ''2.0''))
           in res_map (\<lambda>fb. (0, Some store, fb)) (each_pixel (background_pixel fl store (ctx_fb ctx)) (ctx_fb ctx))))"

subsection \<open>The test app\<close>

definition TEXT :: string where
  "TEXT = ''Writting from pid: ''"

definition test_start :: "u8 \<Rightarrow> u64 \<Rightarrow> u8 \<times> u8 list" where
  "test_start version pid =
     (let txt = map of_char TEXT in (version + 1, txt[length txt - 1 := 0x30 + ucast pid]))"


section \<open>The loop over the pixels\<close>

lemma each_pixel_ok:
  assumes "app_fb_ok fb" and "\<forall>x < unat (app_w fb). \<forall>y < unat (app_h fb). \<forall>p. f x y p = Inr (g x y p)"
  shows "\<exists>fb'. each_pixel f fb = Inr fb' \<and> same_screen_but (\<lambda>u v. True) fb fb' \<and>
    (\<forall>u v. u < unat (app_w fb) \<longrightarrow> v < unat (app_h fb) \<longrightarrow>
       app_pixels fb' ! (u + v * unat (app_w fb)) = g u v (app_pixels fb ! (u + v * unat (app_w fb))))"
proof -
  let ?w = "unat (app_w fb)" and ?h = "unat (app_h fb)" and ?px = "app_pixels fb"
  let ?step = "\<lambda>(x, y) px. res_bind (array_get px (x + y * ?w)) (\<lambda>p. res_map (\<lambda>p. px[x + y * ?w := p]) (f x y p))"
  have len: "length ?px = ?w * ?h" and w: "0 < ?w" using assms(1) by (simp_all add: app_fb_ok_def word_less_nat_alt)
  have fold: "\<exists>px. res_fold ?step (map (\<lambda>i. (i mod ?w, i div ?w)) [0..<n]) ?px = Inr px \<and> length px = length ?px \<and>
      (\<forall>i < length ?px. px ! i = (if i < n then g (i mod ?w) (i div ?w) (?px ! i) else ?px ! i))" if "n \<le> ?w * ?h" for n
    using that
  proof (induction n)
    case (Suc n)
    then obtain px where px: "res_fold ?step (map (\<lambda>i. (i mod ?w, i div ?w)) [0..<n]) ?px = Inr px" "length px = length ?px"
      "\<forall>i < length ?px. px ! i = (if i < n then g (i mod ?w) (i div ?w) (?px ! i) else ?px ! i)" by auto
    have n: "n < length ?px" using Suc.prems len by simp
    have pos: "n mod ?w < ?w" "n div ?w < ?h" "n mod ?w + n div ?w * ?w = n"
      using w Suc.prems by (simp_all add: less_mult_imp_div_less mult.commute add.commute)
    have "?step (n mod ?w, n div ?w) px = Inr (px[n := g (n mod ?w) (n div ?w) (?px ! n)])"
      using px(2,3) n pos assms(2) by (simp add: array_get_def res_map_def)
    with px(1) have "res_fold ?step (map (\<lambda>i. (i mod ?w, i div ?w)) [0..<Suc n]) ?px = Inr (px[n := g (n mod ?w) (n div ?w) (?px ! n)])"
      by (simp add: res_fold_append)
    moreover have "px[n := g (n mod ?w) (n div ?w) (?px ! n)] ! i = (if i < Suc n then g (i mod ?w) (i div ?w) (?px ! i) else ?px ! i)"
      if "i < length ?px" for i
      using px(2,3) that n by (cases "i = n") auto
    ultimately show ?case using px(2) by auto
  qed simp
  obtain px where px: "res_fold ?step (grid ?w ?h) ?px = Inr px" "length px = length ?px"
    "\<forall>i < length ?px. px ! i = g (i mod ?w) (i div ?w) (?px ! i)"
    using fold [OF order_refl] by (auto simp: grid_eq_map len)
  have "px ! (u + v * ?w) = g u v (?px ! (u + v * ?w))" if "u < ?w" "v < ?h" for u v
    using px(3) grid_index_less [OF that] that len by simp
  with px(1,2) show ?thesis by (auto simp: each_pixel_def Let_def res_map_def same_screen_but_def)
qed

section \<open>Distances\<close>

lemma i32_abs_sint:
  assumes "\<bar>sint d\<bar> < 2 ^ 31"
  shows "sint (i32_abs d) = \<bar>sint d\<bar>"
proof (cases "sint d < 0")
  case True
  then have "sint (- d) = - sint d" using assms by (simp add: sint_word_ariths signed_take_bit_int_eq_self)
  with True show ?thesis by (simp add: i32_abs_def)
qed (simp add: i32_abs_def)

lemma uint_less: "uint m < 2 ^ k" if "unat m < 2 ^ k"
proof -
  from that have "int (unat m) < int (2 ^ k)" by (simp only: of_nat_less_iff)
  then show ?thesis by simp
qed

lemma i32_sub:
  fixes m :: usize
  assumes "int x < 2 ^ 30" and "uint m < 2 ^ 30"
  shows "sint (of_nat x - ucast m :: 32 word) = int x - uint m"
proof -
  have nonneg: "0 \<le> uint m" by simp
  have "uint (of_nat x :: 32 word) = int x" using assms(1) by (simp add: unsigned_of_nat take_bit_nat_eq_self)
  then have x: "sint (of_nat x :: 32 word) = int x" using assms(1) by (simp add: sint_uint signed_take_bit_int_eq_self)
  have "uint (ucast m :: 32 word) = uint m" using assms(2) by (simp add: unsigned_ucast_eq take_bit_int_eq_self)
  moreover have "- (2 ^ 31) \<le> uint m" by (rule order_trans [OF _ nonneg]) simp
  ultimately have m: "sint (ucast m :: 32 word) = uint m" using assms(2) by (simp add: sint_uint signed_take_bit_int_eq_self)
  have "- (2 ^ 31) \<le> int x - k \<and> int x - k < 2 ^ 31" if "0 \<le> k" "k < 2 ^ 30" for k :: int
    using that assms(1) by simp
  from this [OF nonneg assms(2)] have "- (2 ^ 31) \<le> int x - uint m" "int x - uint m < 2 ^ 31" by blast+
  then show ?thesis by (simp add: sint_word_ariths x m signed_take_bit_int_eq_self)
qed

lemma near_pointer_iff:
  assumes "int x < 2 ^ 29" and "int y < 2 ^ 29" and "uint (mouse_x inp) < 2 ^ 29" and "uint (mouse_y inp) < 2 ^ 29"
  shows "near_pointer inp x y \<longleftrightarrow> \<bar>int x - uint (mouse_x inp)\<bar> + \<bar>int y - uint (mouse_y inp)\<bar> < 80"
proof -
  have dx: "sint (of_nat x - ucast (mouse_x inp) :: 32 word) = int x - uint (mouse_x inp)"
    and dy: "sint (of_nat y - ucast (mouse_y inp) :: 32 word) = int y - uint (mouse_y inp)"
    using i32_sub [of x "mouse_x inp"] i32_sub [of y "mouse_y inp"] assms by simp_all
  have "\<bar>int n - k\<bar> \<le> 2 ^ 29" if "0 \<le> k" "k < 2 ^ 29" "int n < 2 ^ 29" for k and n :: nat
    using that by simp
  then have lim_x: "\<bar>int x - uint (mouse_x inp)\<bar> \<le> 2 ^ 29" and lim_y: "\<bar>int y - uint (mouse_y inp)\<bar> \<le> 2 ^ 29"
    using assms unsigned_greater_eq [of "mouse_x inp", where 'a = int] unsigned_greater_eq [of "mouse_y inp", where 'a = int] by blast+
  have ax: "sint (i32_abs (of_nat x - ucast (mouse_x inp))) = \<bar>int x - uint (mouse_x inp)\<bar>"
    using i32_abs_sint [of "of_nat x - ucast (mouse_x inp)"] dx lim_x by simp
  have ay: "sint (i32_abs (of_nat y - ucast (mouse_y inp))) = \<bar>int y - uint (mouse_y inp)\<bar>"
    using i32_abs_sint [of "of_nat y - ucast (mouse_y inp)"] dy lim_y by simp
  have "sint (i32_abs (of_nat x - ucast (mouse_x inp)) + i32_abs (of_nat y - ucast (mouse_y inp))) =
      \<bar>int x - uint (mouse_x inp)\<bar> + \<bar>int y - uint (mouse_y inp)\<bar>"
    unfolding sint_word_ariths(1) ax ay using lim_x lim_y by (intro signed_take_bit_int_eq_self) simp_all
  then show ?thesis by (simp add: near_pointer_def)
qed

section \<open>The hooks\<close>

text \<open>Before the first frame the allocator panics; afterwards every layout that Rust makes reaches the kernel's
  allocator, whose own check of the layout cannot fail.\<close>

lemma app_allocations:
  assumes "Layout_from_size_align sz align = Some l"
  shows "AllocFromCtx_alloc AllocFromCtx_init l h = Inl (Panicked '''')"
    and "AllocFromCtx_alloc (AllocFromCtx_swap (calloc alloc) (cdalloc dealloc) self) l h = Inr (alloc l h)"
    and "AllocFromCtx_dealloc (AllocFromCtx_swap (calloc alloc) (cdalloc dealloc) self) p l h = Inr (dealloc p l h)"
proof -
  have "l = (sz, align)" using assms by (simp add: Layout_from_size_align_def split: if_splits)
  then show "AllocFromCtx_alloc AllocFromCtx_init l h = Inl (Panicked '''')"
    "AllocFromCtx_alloc (AllocFromCtx_swap (calloc alloc) (cdalloc dealloc) self) l h = Inr (alloc l h)"
    "AllocFromCtx_dealloc (AllocFromCtx_swap (calloc alloc) (cdalloc dealloc) self) p l h = Inr (dealloc p l h)"
    using assms by (simp_all add: AllocFromCtx_alloc_def AllocFromCtx_dealloc_def AllocFromCtx_init_def AllocFromCtx_swap_def
        a_init_def calloc_def cdalloc_def res_unwrap_def res_map_def)
qed

text \<open>The test app names its number only when that has one digit.\<close>

lemma test_app_logs: "test_start version pid = (version + 1, map of_char ''Writting from pid:'' @ [0x30 + ucast pid])"
  by (simp add: test_start_def TEXT_def Let_def)

section \<open>Properties\<close>


text \<open>Numbers with three decimals and a screen of two by two pixels, for concrete inputs.\<close>

definition fixed_ops :: "int f32_app" where
  "fixed_ops = \<lparr> f_lit = (\<lambda>s. if s = ''3.'' then 3000 else if s = ''4.'' then 4000 else 0),
     f_of_int = (\<lambda>i. 1000 * i), f_to_u8 = (\<lambda>x. of_int (x div 1000)), f_add = (+), f_sub = (-), f_mul = (\<lambda>a b. a * b div 1000),
     f_div = (\<lambda>a b. a * 1000 div b), f_neg = uminus, f_exp = id, f_powi = (\<lambda>x n. x), f_less = (<),
     f_clamp = (\<lambda>x a b. max a (min x b)), f_to_usize = (\<lambda>x. nat (x div 1000)), f_cos = (\<lambda>x. 1000) \<rparr>"

definition pair_ops :: "(int, int \<times> int) vek_ops" where
  "pair_ops = \<lparr> vec_new = Pair, vec_x = fst, vec_y = snd, vec_add = (\<lambda>a b. (fst a + fst b, snd a + snd b)),
     vec_sub = (\<lambda>a b. (fst a - fst b, snd a - snd b)), vec_scale = (\<lambda>a k. (fst a * k div 1000, snd a * k div 1000)),
     vec_scaled = (\<lambda>k a. (k * fst a div 1000, k * snd a div 1000)), vec_dot = (\<lambda>a b. (fst a * fst b + snd a * snd b) div 1000),
     vec_magnitude = (\<lambda>a. \<bar>fst a\<bar> + \<bar>snd a\<bar>) \<rparr>"

definition dot :: "u8 \<Rightarrow> RGBA" where
  "dot v = \<lparr> px_r = v, px_g = v, px_b = v, px_a = 9 \<rparr>"

definition tiny_ctx :: Context where
  "tiny_ctx = \<lparr> ctx_start_time = 0, ctx_pid = 0, ctx_fb = \<lparr> app_pixels = replicate 4 (dot 7), app_w = 2, app_h = 2 \<rparr>, ctx_input = Input_new \<rparr>"

lemma tiny_ok: "app_fb_ok (ctx_fb tiny_ctx)" "uint (app_w (ctx_fb tiny_ctx)) < 2 ^ 29" "uint (app_h (ctx_fb tiny_ctx)) < 2 ^ 29"
  "uint (mouse_x (ctx_input tiny_ctx)) < 2 ^ 29" "uint (mouse_y (ctx_input tiny_ctx)) < 2 ^ 29" "length (keys (ctx_input tiny_ctx)) = 1024"
  by (simp_all add: app_fb_ok_def tiny_ctx_def Input_new_def)


text \<open>The column or row of the image for a position on the screen.\<close>

definition texel :: "'f f32_app \<Rightarrow> usize \<Rightarrow> u32 \<Rightarrow> nat \<Rightarrow> nat" where
  "texel fl whole part i =
     f_to_usize fl (f_mul fl (f_div fl (f_of_int fl (int i)) (f_of_int fl (uint whole))) (f_of_int fl (uint part)))"

text \<open>The background. With an image whose rows and columns the scaled positions do not leave (as they do not in
  exact arithmetic), the app gives every pixel of the screen the colour of the image at the scaled position,
  keeps alpha, and keeps the decoded image for the next frame; without an image it returns an error and
  changes nothing.\<close>

theorem background_fills:
  assumes "app_fb_ok (ctx_fb ctx)" and "length (bitmap_pixels pix) = unat (bitmap_width pix) * unat (bitmap_height pix)"
    and "\<forall>u < unat (app_w (ctx_fb ctx)). texel fl (app_w (ctx_fb ctx)) (bitmap_width pix) u < unat (bitmap_width pix)"
    and "\<forall>v < unat (app_h (ctx_fb ctx)). texel fl (app_h (ctx_fb ctx)) (bitmap_height pix) v < unat (bitmap_height pix)"
    and "(cell = Some pix \<or> cell = None \<and> png = Some pix)"
  shows "background_start fl None ctx None = Inr (- 1, None, ctx_fb ctx) \<and>
    (\<exists>fb. background_start fl png ctx cell = Inr (0, Some pix, fb) \<and> same_screen_but (\<lambda>u v. True) (ctx_fb ctx) fb \<and>
      (\<forall>u v. u < unat (app_w (ctx_fb ctx)) \<longrightarrow> v < unat (app_h (ctx_fb ctx)) \<longrightarrow>
        (let q = app_pixels fb ! (u + v * unat (app_w (ctx_fb ctx)));
             c = bitmap_pixels pix ! (texel fl (app_w (ctx_fb ctx)) (bitmap_width pix) u +
                   texel fl (app_h (ctx_fb ctx)) (bitmap_height pix) v * unat (bitmap_width pix))
         in px_r q = px_r c \<and> px_g q = px_g c \<and> px_b q = px_b c \<and>
            px_a q = px_a (app_pixels (ctx_fb ctx) ! (u + v * unat (app_w (ctx_fb ctx)))))))"
proof (intro conjI)
  show "background_start fl None ctx None = Inr (- 1, None, ctx_fb ctx)" by (simp add: background_start_def)
  let ?fb = "ctx_fb ctx"
  let ?w = "unat (app_w ?fb)" and ?h = "unat (app_h ?fb)"
  define c where "c u v = bitmap_pixels pix ! (texel fl (app_w ?fb) (bitmap_width pix) u +
      texel fl (app_h ?fb) (bitmap_height pix) v * unat (bitmap_width pix))" for u v
  define g where "g u v p = p\<lparr> px_r := px_r (c u v), px_g := px_g (c u v), px_b := px_b (c u v) \<rparr>" for u v and p :: RGBA
  have pixel: "background_pixel fl pix ?fb u v p = Inr (g u v p)" if "u < ?w" "v < ?h" for u v p
    using grid_index_less [OF assms(3) [rule_format, OF that(1)] assms(4) [rule_format, OF that(2)]] assms(2)
    by (simp add: background_pixel_def texel_def array_get_def res_map_def g_def c_def Let_def)
  obtain fb where fb: "each_pixel (background_pixel fl pix ?fb) ?fb = Inr fb" "same_screen_but (\<lambda>u v. True) ?fb fb"
    "\<forall>u v. u < ?w \<longrightarrow> v < ?h \<longrightarrow> app_pixels fb ! (u + v * ?w) = g u v (app_pixels ?fb ! (u + v * ?w))"
    using each_pixel_ok [OF assms(1), of "background_pixel fl pix ?fb" g] pixel by blast
  have "background_start fl png ctx cell = Inr (0, Some pix, fb)"
    using assms(5) fb(1) by (auto simp: background_start_def res_map_def Let_def)
  with fb(2,3) show "\<exists>fb. background_start fl png ctx cell = Inr (0, Some pix, fb) \<and> same_screen_but (\<lambda>u v. True) ?fb fb \<and>
      (\<forall>u v. u < ?w \<longrightarrow> v < ?h \<longrightarrow>
        (let q = app_pixels fb ! (u + v * ?w);
             c = bitmap_pixels pix ! (texel fl (app_w ?fb) (bitmap_width pix) u +
                   texel fl (app_h ?fb) (bitmap_height pix) v * unat (bitmap_width pix))
         in px_r q = px_r c \<and> px_g q = px_g c \<and> px_b q = px_b c \<and> px_a q = px_a (app_pixels ?fb ! (u + v * ?w))))"
    by (intro exI [of _ fb]) (simp add: Let_def g_def c_def)
qed

theorem background_fills_witness:
  "\<exists>fb. background_start fixed_ops (Some \<lparr> bitmap_width = 1, bitmap_height = 2, bitmap_pixels = [dot 1, dot 2] \<rparr>) tiny_ctx None =
      Inr (0, Some \<lparr> bitmap_width = 1, bitmap_height = 2, bitmap_pixels = [dot 1, dot 2] \<rparr>, fb) \<and> px_r (app_pixels fb ! 3) = 2"
proof -
  let ?pix = "\<lparr> bitmap_width = 1, bitmap_height = 2, bitmap_pixels = [dot 1, dot 2] \<rparr>"
  have two: "n < 2 \<Longrightarrow> n = 0 \<or> n = 1" for n :: nat by auto
  have col: "\<forall>u < unat (app_w (ctx_fb tiny_ctx)). texel fixed_ops (app_w (ctx_fb tiny_ctx)) (bitmap_width ?pix) u < unat (bitmap_width ?pix)"
    and row: "\<forall>v < unat (app_h (ctx_fb tiny_ctx)). texel fixed_ops (app_h (ctx_fb tiny_ctx)) (bitmap_height ?pix) v < unat (bitmap_height ?pix)"
    using two by (auto simp: texel_def tiny_ctx_def fixed_ops_def)
  have len: "length (bitmap_pixels ?pix) = unat (bitmap_width ?pix) * unat (bitmap_height ?pix)" by simp
  from background_fills [OF tiny_ok(1) len col row, of None "Some ?pix"] obtain fb where
    b: "background_start fixed_ops (Some ?pix) tiny_ctx None = Inr (0, Some ?pix, fb)" and
    px: "\<forall>u v. u < unat (app_w (ctx_fb tiny_ctx)) \<longrightarrow> v < unat (app_h (ctx_fb tiny_ctx)) \<longrightarrow>
        px_r (app_pixels fb ! (u + v * unat (app_w (ctx_fb tiny_ctx)))) =
        px_r (bitmap_pixels ?pix ! (texel fixed_ops (app_w (ctx_fb tiny_ctx)) (bitmap_width ?pix) u +
                   texel fixed_ops (app_h (ctx_fb tiny_ctx)) (bitmap_height ?pix) v * unat (bitmap_width ?pix)))"
    by (auto simp: Let_def)
  have t: "texel fixed_ops 2 1 1 = 0" "texel fixed_ops 2 2 1 = 1" by (simp_all add: texel_def fixed_ops_def)
  have "px_r (app_pixels fb ! 3) = 2" using px [rule_format, of 1 1] t [unfolded One_nat_def] by (simp add: tiny_ctx_def dot_def numeral_3_eq_3)
  with b show ?thesis by blast
qed

end
