(* ===== verification/Spec2Isabelle.thy ===== *)
theory Spec2Isabelle
  imports Console_Shell Kernel_Entry Small_Apps
begin

text \<open>
  A verification library of the Fomos operating system: a kernel that boots through a boot loader crate,
  drives the virtio input and GPU devices from cooperative tasks, and runs apps that share one frame
  buffer and one snapshot of the input. All paths are relative to \<^verbatim>\<open>src/bootloader/kernel/src/\<close> unless they
  begin with the name of an app (\<^verbatim>\<open>app_console\<close>, \<^verbatim>\<open>app_cursor\<close>, \<^verbatim>\<open>app_background\<close>, \<^verbatim>\<open>app_test\<close>), which are
  relative to \<^verbatim>\<open>src/\<close>.

  \<^bold>\<open>How the parts interact.\<close> \<^verbatim>\<open>kernel_main\<close> sets up memory, the interrupt tables and controllers, scans the PCI
  bus, initialises a \<^verbatim>\<open>Virtio\<close> for each device and spawns one task per device and one for the apps. The
  executor polls the tasks in turns. The input driver moves the device's events to the global
  \<^verbatim>\<open>INPUT\<close>; the app task hands each app the snapshot once per turn and then lets the key states take their
  step; the console reads the events of the snapshot's ring and draws into the shared pixels, which the
  GPU driver transfers to the host.

  \<^bold>\<open>Conventions.\<close> Machine integers are words and wrap, as in the release build that \<^verbatim>\<open>build.sh\<close> makes. A panic is
  the left injection of a result, with the reason; errors of the crates are values too. Loops that need not
  end run on fuel or in the option monad, and \<open>None\<close> is a run that does not return. Memory shared with devices is
  a map from addresses to bytes, accessed through the little-endian bytes of each structure; volatile
  accesses happen in the order of the source. Third-party code (page tables, heap allocator, ELF parser, font,
  layout, script interpreter, floating point) and the devices are parameters of the definitions that use them.

  \<^bold>\<open>The theories.\<close>
  \<^item> \<^verbatim>\<open>Fomos_Prelude\<close>, \<^verbatim>\<open>Ring_Window\<close>, \<^verbatim>\<open>Byte_Memory\<close>: results and panics, folds over loops that may panic, lists and
    words; rings with a running index (locale \<open>event_history\<close>, interpreted by the input history and by the used ring
    of a queue); structures in byte memory (locale \<open>byte_codec\<close>, interpreted by the integers, the queue
    descriptors and the used elements).
  \<^item> \<^verbatim>\<open>Input_State\<close> (\<^verbatim>\<open>globals.rs\<close>): key states, the input snapshot with its ring, the global cell. Shown: the byte of a
    key says whether its last event was a press; the ring is an exact window on the log of events.
  \<^item> \<^verbatim>\<open>Pci_Config\<close> (\<^verbatim>\<open>pci.rs\<close>): port accesses, narrow reads and writes, base address registers, the scan. Shown: the scan
    lists exactly the present functions, a byte write changes that byte only, addresses are unambiguous.
  \<^item> \<^verbatim>\<open>Virtio_Queue\<close>, \<^verbatim>\<open>Virtio_Init\<close> (\<^verbatim>\<open>virtio.rs\<close>): free stack, descriptor chains, available and used ring; capability
    walk, handshake and queue set-up. Shown: no descriptor is lost or given out twice; requests and completions
    are appended and consumed in order; after the set-up a queue is ready and its areas do not overlap.
    A list of capabilities that ends has at most 256 entries (offsets are bytes), so fuel 256 is enough.
  \<^item> \<^verbatim>\<open>Virtio_Input\<close> (\<^verbatim>\<open>drivers/virtio_input.rs\<close>): one poll delivers the pending events in order and offers the
    descriptors again; fuel beyond the size of the queue is enough, since no more can be pending.
  \<^item> \<^verbatim>\<open>Frame_Alloc\<close> (\<^verbatim>\<open>memory.rs\<close>, \<^verbatim>\<open>allocator.rs\<close> and the mapping helpers of \<^verbatim>\<open>main.rs\<close>): Shown: no frame is allocated
    twice, whatever is interleaved; the helpers map contiguous pages or panic; the heap is mapped completely
    (locale \<open>frame_source\<close>, interpreted by the boot allocator).
  \<^item> \<^verbatim>\<open>Executor\<close> (\<^verbatim>\<open>task/\<close>): spawning, polling, waking, yielding, the main loop. Shown: task numbers are unique, yielding
    tasks take turns, what a full queue drops (locale \<open>bounded_queue\<close>, interpreted by the array queue).
    Fuel bounds the polls of a turn, because a task may wake itself for ever.
  \<^item> \<^verbatim>\<open>Interrupts\<close> (\<^verbatim>\<open>interrupts.rs\<close>), \<^verbatim>\<open>Apic\<close> (\<^verbatim>\<open>ioapic.rs\<close>, \<^verbatim>\<open>local_apic.rs\<close>): descriptor table, clock, sleeping tasks;
    redirection entries and the local timer. Shown: a sleeping task is woken at its time, and the
    hazards of the table of wakers; which line reaches which handler (below).
  \<^item> \<^verbatim>\<open>Gpu_Protocol\<close>, \<^verbatim>\<open>Gpu_Driver\<close> (\<^verbatim>\<open>drivers/virtio_gpu.rs\<close>): the bytes of the requests and of the 3D command stream; the
    requests in flight as a step relation. Shown: the 2D requests conform to the device's specification, the
    stream parses, no two requests share a descriptor, and a completed request wakes its task.
  \<^item> \<^verbatim>\<open>Gpu_Drive\<close> (\<^verbatim>\<open>drivers/virtio_gpu.rs\<close>, \<^verbatim>\<open>drive\<close> and the tasks it spawns): the driver as a state machine, one step
    per request, from the start through the set-up to the refresh loop, and the upload task. Shown: the requests
    are sent in the order of the source with the display's own sizes, the pixels of the screen are the pages the
    device was given, and the loops that refresh the screen never run out of descriptors. \<open>drive_run\<close> and
    \<open>upload_run\<close> take fuel for the steps that follow one another without waiting.
  \<^item> \<^verbatim>\<open>Framebuffer\<close> (\<^verbatim>\<open>framebuffer.rs\<close>): text writer and shared pixels. Shown: any text is written in bounds.
  \<^item> \<^verbatim>\<open>Segment_Tables\<close> (\<^verbatim>\<open>gdt.rs\<close>): descriptor table, task state segment and the registers. Shown: double faults and
    overflows are handled on the kernel's own stack for them.
  \<^item> \<^verbatim>\<open>Kernel_Log\<close> (\<^verbatim>\<open>logger.rs\<close>, \<^verbatim>\<open>serial.rs\<close>, \<^verbatim>\<open>FB::flush\<close>): the logger and its locks. Shown: what reaches the serial port,
    that nothing reaches the screen, and that a message inside of a message never returns.
  \<^item> \<^verbatim>\<open>App_Loader\<close> (\<^verbatim>\<open>app.rs\<close>, app task of \<^verbatim>\<open>main.rs\<close>): the loader and the frame loop. Shown: the image byte for byte,
    relocations included; every app runs once per turn on its own store.
  \<^item> \<^verbatim>\<open>Kernel_Start\<close> (\<^verbatim>\<open>main.rs\<close>, \<^verbatim>\<open>memory.rs\<close>): \<^verbatim>\<open>kernel_main\<close> up to the executor: the mapping of 64 GiB of physical memory in
    pages of 2 MiB (a fold over 32768 frames, which ends by construction), the heap, the tables of the ACPI, the
    controllers, the loop over the devices; and the functions the kernel hands to the apps. Shown: after the start
    the physical memory and the heap are mapped, every virtio device that announces its structures is found, in
    the order of the bus, and which errors of the mapper are taken for success.
  \<^item> \<^verbatim>\<open>Kernel_Entry\<close> (\<^verbatim>\<open>main.rs\<close>): the very start, with the segment tables, the interrupt table and the logger, put before
    \<^verbatim>\<open>Kernel_Start\<close>. Shown: exceptions and messages are ready before the memory is touched.
  \<^item> \<^verbatim>\<open>Kernel_Tasks\<close> (end of \<^verbatim>\<open>main.rs\<close>): the futures of the devices and of the apps, polled by the executor of
    \<^verbatim>\<open>Executor\<close> in one world (input, apps, GPU driver). Shown: within every turn the input drivers run before the
    apps, and each app sees the events the devices had completed when the turn began.
  \<^item> \<^verbatim>\<open>Console_Keys\<close> (\<^verbatim>\<open>app_console/src/st.rs\<close>): the keyboard table, transcribed, and which characters can be typed.
  \<^item> \<^verbatim>\<open>Console_Window\<close>, \<^verbatim>\<open>Console_Shell\<close> (\<^verbatim>\<open>app_console/src/main.rs\<close>): the window, the drawing, the shell and the
    frame function. Shown: drawing in bounds, the prompt, which events a frame reads and drops, which line is
    carried out, and the inputs that make the app panic. The evaluation loop is a partial function.
  \<^item> \<^verbatim>\<open>Small_Apps\<close> (\<^verbatim>\<open>app_cursor\<close>, \<^verbatim>\<open>app_background\<close>, \<^verbatim>\<open>app_test\<close>): their frame functions, with the floating point operations as
    parameters, and the logger and allocator hooks of \<^verbatim>\<open>st.rs\<close> (one file, copied into each app). Shown: the cursor
    changes pixels near the pointer only, the background fills the screen.

  This theory composes them: from the table of the ACPI to the handlers, and from the device's events to
  the prompt of the console.

  \<^bold>\<open>Not modelled.\<close> Values that are only logged, and the panic handlers, which log and stop. The structures that are declared
  and never used: the configuration space of the input device, the EDID and the plain register reads of
  the controllers. The disassembly listing of the loader is never switched on, \<^verbatim>\<open>getf\<close> and the hash functions of the
  console are never called. The layout tree the console builds is data for the layout crate; only the rectangles it
  returns matter. Spin locks are taken as free, except where a theorem is about the interrupt that takes one. Each
  virtio device has memory of its own in \<^verbatim>\<open>Kernel_Tasks\<close>: that their queues lie in different frames is a theorem about the
  allocator, not part of that model. The boot loader's own crate builds the disk image and starts an emulator.
\<close>

section \<open>From the device to the console\<close>

text \<open>The key events among the events of a device, as the input history records them.\<close>

definition key_events :: "VirtioInputEvent list \<Rightarrow> InputEvent list" where
  "key_events evs = map (\<lambda>e. \<lparr> trigger = evt_value e \<noteq> 0, key = ucast (evt_code e) \<rparr>) (filter (\<lambda>e. evt_type e = 1) evs)"

lemma history_of_mouse [simp]:
  "history_of log (inp\<lparr> mouse_x := a \<rparr>) = history_of log inp" "history_of log (inp\<lparr> mouse_y := a \<rparr>) = history_of log inp"
  by (simp_all add: history_of_def)

lemma history_of_events:
  assumes "history_of log inp" and "res_fold Virtio_Input.handle_event evs inp = Inr inp'"
  shows "history_of (log @ key_events evs) inp'"
  using assms
proof (induction evs arbitrary: log inp)
  case Nil
  then show ?case by (simp add: key_events_def)
next
  case (Cons e evs)
  from Cons.prems(2) obtain inp1 where inp1: "Virtio_Input.handle_event e inp = Inr inp1"
    "res_fold Virtio_Input.handle_event evs inp1 = Inr inp'" by (auto simp: res_bind_eq_Inr_iff)
  have "history_of (log @ key_events [e]) inp1"
    using inp1(1) Cons.prems(1)
    by (auto simp: Virtio_Input.handle_event_def key_events_def Let_def history_of_push split: if_splits)
  from Cons.IH [OF this inp1(2)] show ?case by (simp add: key_events_def split: if_splits)
qed

section \<open>Properties that span components\<close>

text \<open>C30: The interrupt wiring. After start-up has programmed the controllers of the ACPI table (at least
  one, whose registers keep what is stored), the unmasked line \<open>i\<close> of the first controller raises a
  vector whose entry of the descriptor table is the handler of line \<open>i\<close>, and every other controller is
  as it was, however many the table lists. The local APIC's timer is programmed, periodic and unmasked,
  with the vector of the timer handler.\<close>

theorem interrupt_wiring:
  assumes "plain_file hw" and "IoApic_init X voff entry None = Inr ioa"
  shows "(\<exists>dev'. program_io_apics X voff hw (entry # entries) (None, dev) = Inr (Some ioa, dev') \<and>
      (\<forall>i<24. \<exists>e. IDT (unat (ucast (io_file (dev' (ioapic_virt_address ioa)) (low_reg i)) :: u8)) = Some e \<and>
         handler_fn e = ioapic_handler i \<and> \<not> bit (io_file (dev' (ioapic_virt_address ioa)) (low_reg i)) 16) \<and>
      (\<forall>b. b \<noteq> ioapic_virt_address ioa \<longrightarrow> dev' b = dev b)) \<and>
    (\<exists>v e. (0x320, v) \<in> set (start_timer freq) \<and> bit v 17 \<and> \<not> bit v 16 \<and>
      IDT (unat (ucast v :: u8)) = Some e \<and> handler_fn e = lapic_timer_handler)"
proof (rule conjI)
  obtain dev' s where run: "program_io_apics X voff hw (entry # entries) (None, dev) = Inr (Some ioa, dev')"
    and frame: "\<forall>b. b \<noteq> ioapic_virt_address ioa \<longrightarrow> dev' b = dev b"
    and regs: "dev' (ioapic_virt_address ioa) = program_lines hw s"
    using program_io_apics_first [OF assms(2)] by blast
  have "\<exists>e. IDT (unat (ucast (io_file (dev' (ioapic_virt_address ioa)) (low_reg i)) :: u8)) = Some e \<and>
         handler_fn e = ioapic_handler i \<and> \<not> bit (io_file (dev' (ioapic_virt_address ioa)) (low_reg i)) 16"
    if i: "i < 24" for i
  proof -
    have "unat (of_nat (50 + i) :: u8) = 50 + i" using i by (subst unat_of_nat_small) simp_all
    with programmed_vector [OF program_lines_spec [OF assms(1)] i] IDT_ioapic [OF i]
    show ?thesis unfolding regs by simp
  qed
  with run frame show "\<exists>dev'. program_io_apics X voff hw (entry # entries) (None, dev) = Inr (Some ioa, dev') \<and>
      (\<forall>i<24. \<exists>e. IDT (unat (ucast (io_file (dev' (ioapic_virt_address ioa)) (low_reg i)) :: u8)) = Some e \<and>
         handler_fn e = ioapic_handler i \<and> \<not> bit (io_file (dev' (ioapic_virt_address ioa)) (low_reg i)) 16) \<and>
      (\<forall>b. b \<noteq> ioapic_virt_address ioa \<longrightarrow> dev' b = dev b)"
    by blast
next
  have "(push_bit 17 1 + 48 :: u32) = 0x20030" by (simp add: push_bit_eq_mult)
  then have "(0x320, 0x20030) \<in> set (start_timer freq)" by (simp add: start_timer_def set_lvt_timer_def Let_def)
  moreover have "bit (0x20030 :: u32) 17" "\<not> bit (0x20030 :: u32) 16" "unat (ucast (0x20030 :: u32) :: u8) = 48"
    by simp_all
  ultimately show "\<exists>v e. (0x320, v) \<in> set (start_timer freq) \<and> bit v 17 \<and> \<not> bit v 16 \<and>
      IDT (unat (ucast v :: u8)) = Some e \<and> handler_fn e = lapic_timer_handler"
    using IDT_device [of 48] by (intro exI [of _ "0x20030"]) auto
qed

text \<open>Two controllers, at \<^verbatim>\<open>0xFEC00000\<close> and \<^verbatim>\<open>0xFEC10000\<close>: the second keeps its registers.\<close>

theorem interrupt_wiring_witness:
  "\<exists>ioa dev'. program_io_apics x86_crate 0 (\<lambda>a v f. f(a := v)) [(0, 0xFEC00000, 0), (1, 0xFEC10000, 24)]
      (None, \<lambda>_. \<lparr> io_sel = 0, io_file = (\<lambda>_. 0x10000) \<rparr>) = Inr (Some ioa, dev') \<and>
    (\<exists>e. IDT (unat (ucast (io_file (dev' 0xFEC00000) (low_reg 1)) :: u8)) = Some e \<and> handler_fn e = ioapic_handler 1) \<and>
    io_file (dev' 0xFEC10000) (low_reg 1) = 0x10000"
proof -
  let ?ioa = "\<lparr> ioapic_virt_address = 0xFEC00000, global_system_int = 0, ioapic_id = 0 \<rparr>"
  have p: "plain_file (\<lambda>a v f. f(a := v))" by (simp add: plain_file_def)
  have i: "IoApic_init x86_crate 0 (0, 0xFEC00000, 0) None = Inr ?ioa"
    by (simp add: IoApic_init_def x86_crate_def phys_to_virt_def res_bind_def)
  from interrupt_wiring [OF p i, of "[(1, 0xFEC10000, 24)]" "\<lambda>_. \<lparr> io_sel = 0, io_file = (\<lambda>_. 0x10000) \<rparr>" 0, THEN conjunct1]
  obtain dev' where "program_io_apics x86_crate 0 (\<lambda>a v f. f(a := v)) [(0, 0xFEC00000, 0), (1, 0xFEC10000, 24)]
      (None, \<lambda>_. \<lparr> io_sel = 0, io_file = (\<lambda>_. 0x10000) \<rparr>) = Inr (Some ?ioa, dev')"
    and lines: "\<forall>i<24. \<exists>e. IDT (unat (ucast (io_file (dev' 0xFEC00000) (low_reg i)) :: u8)) = Some e \<and>
         handler_fn e = ioapic_handler i \<and> \<not> bit (io_file (dev' 0xFEC00000) (low_reg i)) 16"
    and "\<forall>b. b \<noteq> 0xFEC00000 \<longrightarrow> dev' b = \<lparr> io_sel = 0, io_file = (\<lambda>_. 0x10000) \<rparr>"
    by auto
  moreover have "\<exists>e. IDT (unat (ucast (io_file (dev' 0xFEC00000) (low_reg 1)) :: u8)) = Some e \<and> handler_fn e = ioapic_handler 1"
    using lines [rule_format, of 1] by (auto simp del: One_nat_def)
  ultimately show ?thesis by (intro exI [of _ ?ioa] exI [of _ dev']) auto
qed

text \<open>C9: From the keyboard to the prompt. When the device has completed key events that only type, one poll
  of the input driver and the next frame of an active console that has read the history so far put
  exactly the characters of these events at the end of the user's line, in the order of the device.
  (At most 64 key events, the size of the history.)\<close>

theorem keystrokes_reach_prompt:
  assumes "queue_areas_ok (io_regs io)" and "used_log (io_regs io) log (io_mem io)"
    and "consumed v n" and "n \<le> length log" and "length log \<le> n + unat (queue_size (io_regs io))"
    and "avail_log alog io" and "completions_ok io (drop n log)" and "input_ok inp"
    and "\<And>u. u \<in> set (drop n log) \<Longrightarrow> evt_type (event_of io u) = 1 \<Longrightarrow> unat (evt_code (event_of io u)) < 1024"
    and "unat (queue_size (io_regs io)) < fuel"
    and "history_of hlog inp" and "input_history_last_index st = of_nat (length hlog)" and "active st"
    and "user_text st = Some t" and "length hlog < 2 ^ 63"
    and "evs = key_events (map (event_of io) (drop n log))" and "length evs \<le> 64" and "\<forall>e \<in> set evs. typing_event e"
  shows "\<exists>v' io' inp'. drain_used fuel (v, io, inp) = Some (Inr (v', io', inp')) \<and>
    handle_inputs S (ctx\<lparr> ctx_input := inp' \<rparr>) (st, fb) =
      Some (Inr (Some ((set_text (t @ typed st evs) st)\<lparr> input_history_last_index := of_nat (length (hlog @ evs)) \<rparr>), fb))"
proof -
  obtain inp' where inp': "res_fold Virtio_Input.handle_event (map (event_of io) (drop n log)) inp = Inr inp'"
    using handle_events_total [OF assms(8), of "map (event_of io) (drop n log)"] assms(9) by auto
  have fuel: "length log < n + fuel" using assms(5,10) by simp
  obtain v' io' where run: "drain_used fuel (v, io, inp) = Some (Inr (v', io', inp'))"
    using drain_used_delivers [OF assms(1-7) inp' fuel] by blast
  have hist: "history_of (hlog @ evs) inp'" using history_of_events [OF assms(11) inp'] assms(16) by simp
  then have "unread_events st inp' = drop (length hlog) (hlog @ evs)"
    using assms(12,15,17) by (intro unread_events_drop) (simp_all add: HISTORY_SIZE_def)
  then have "unread_events st inp' = evs" by simp
  moreover have "history_last_index inp' = of_nat (length (hlog @ evs))" using hist by (simp add: history_of_def)
  moreover have "new_inputs S ctx' evs (st, fb) = Some (Inr (Some (set_text (t @ typed st evs) st), fb))" for ctx'
    using typing_events [OF assms(18,14), of S ctx' "[]" fb] by simp
  ultimately have "handle_inputs S (ctx\<lparr> ctx_input := inp' \<rparr>) (st, fb) =
      Some (Inr (Some ((set_text (t @ typed st evs) st)\<lparr> input_history_last_index := of_nat (length (hlog @ evs)) \<rparr>), fb))"
    using assms(13) by (simp add: handle_inputs_def)
  with run show ?thesis by blast
qed

text \<open>A device that has completed the press of the key 25, which is \<^verbatim>\<open>p\<close>.\<close>

theorem keystrokes_reach_prompt_witness:
  "\<exists>v' io' inp' st'.
     drain_used 5 (sample_virtio,
       sample_io\<lparr> io_mem := (io_mem sample_io)(0x3004 := 0, 0x8000 := 1, 0x8002 := 25, 0x8004 := 1) \<rparr>, Input_new) =
      Some (Inr (v', io', inp')) \<and>
     handle_inputs silent_script (small_screen\<lparr> ctx_input := inp' \<rparr>)
       ((begin_frame silent_script small_screen None)\<lparr> active := True \<rparr>, ctx_fb small_screen) =
       Some (Inr (Some st', ctx_fb small_screen)) \<and> user_text st' = Some ''>p''"
proof -
  let ?io = "sample_io\<lparr> io_mem := (io_mem sample_io)(0x3004 := 0, 0x8000 := 1, 0x8002 := 25, 0x8004 := 1) \<rparr>"
  let ?log = "[\<lparr> used_id = 0, used_len = 8 \<rparr>]" and ?st = "(begin_frame silent_script small_screen None)\<lparr> active := True \<rparr>"
  have regs: "io_regs ?io = sample_regs" by (simp add: sample_io_def)
  have ok: "queue_areas_ok (io_regs ?io)" using sample_areas_ok by (simp add: sample_io_def)
  have used: "used_log (io_regs ?io) ?log (io_mem ?io)"
    by (simp add: used_log_def ring_holds_def used_slot_def sample_io_def sample_regs_def read_u16_def
        UsedElem_of_bytes_def read_bytes_numeral)
  have con: "consumed sample_virtio 0" by (simp add: consumed_def sample_virtio_def MAX_NUM_QUEUE_def)
  have q: "unat (queue_size (io_regs ?io)) = 4" by (simp add: regs sample_regs_def)
  have avail: "avail_log [] ?io" by (simp add: avail_log_def sample_io_def sample_regs_def read_u16_def read_bytes_numeral)
  have desc: "load_desc ?io 0 = \<lparr> desc_addr = 0x8000, desc_len = 0, desc_flags = 0, desc_next = 0 \<rparr>"
    by (simp add: load_desc_def desc_ptr_def sample_io_def sample_regs_def Desc_of_bytes_def read_bytes_numeral)
  have comp: "completions_ok ?io (drop 0 ?log)"
    by (simp add: completions_ok_def used_desc_def desc)
      (simp add: buffer_ok_def region_ok_def region_disjoint_def sample_io_def sample_regs_def)
  have evt: "event_of ?io \<lparr> used_id = 0, used_len = 8 \<rparr> = \<lparr> evt_type = 1, evt_code = 25, evt_value = 1 \<rparr>"
    by (simp add: event_of_def used_desc_def desc read_event_def)
      (simp add: VirtioInputEvent_of_bytes_def sample_io_def read_bytes_numeral)
  have evs: "[press 25] = key_events (map (event_of ?io) (drop 0 ?log))"
    by (simp add: evt key_events_def press_def)
  have st: "user_text ?st = Some ''>''" "\<not> shift ?st" "\<not> altg ?st" "st_local ?st = En"
    "input_history_last_index ?st = of_nat (length ([] :: InputEvent list))"
    by (simp_all add: begin_frame_def Store_init_def user_text_def push_atom_def small_screen_def Input_new_def)
  have "Key_char En 25 False False = Inr (Some CHR ''p'')" using keys_for_ok(2) by (simp add: keys_for_En_def)
  then have typed: "typed ?st [press 25] = ''p''" using st by (simp add: typed_def typed_char_def press_def map_filter_simps)
  have typing: "\<forall>e \<in> set [press 25]. typing_event e"
    by (simp add: typing_event_def press_def KeyEnter_def KeyLeftShift_def KeyRightAlt_def KeyBackspace_def)
  have "user_text ((set_text (''>'' @ ''p'') ?st)\<lparr> input_history_last_index := i \<rparr>) = Some ''>p''" for i
    by (simp add: user_text_def set_text_def begin_frame_def Store_init_def push_atom_def)
  then show ?thesis
    using keystrokes_reach_prompt [OF ok used con _ _ avail comp input_ok_new _ _ history_of_new st(5) _ st(1) _ evs _ typing,
        of 5 silent_script small_screen "ctx_fb small_screen"] q unfolding typed by (fastforce simp: evt)
qed

end
